(* ===== verification/Prelude.thy ===== *)
theory Prelude
  imports Complex_Main "HOL-Library.AList" "HOL-Library.Char_ord"
begin

text \<open>
  Shared vocabulary of the development.

  \<^item> The Python values every component uses: identifiers, instants, exceptions,
    ordered dictionaries and extended floats.
  \<^item> The \<^emph>\<open>world\<close>: what a method reads from its environment (clocks, the random
    generator, \<open>uuid4\<close>) and what it leaves there (sleeps, log lines). Every reading
    takes the next entry of a tape, so a run is a function of its tapes, and the tapes
    are arbitrary in every theorem.
  \<^item> Generic lemmas on ordered dictionaries and on Python's \<open>min\<close> and \<open>max\<close> with
    a key.

  Python floats are modelled by \<open>real\<close>: rounding is not modelled.
\<close>

named_theorems world_simps \<open>equations for reading and extending the world\<close>
named_theorems dict_simps \<open>equations for ordered dictionaries\<close>

subsection \<open>Identifiers, instants, exceptions\<close>

text \<open>
  A \<open>UUID\<close> is its integer value; an instant is a UTC \<open>datetime\<close> in microseconds.
\<close>

type_synonym uuid = nat
type_synonym datetime = int

text \<open>
  The exceptions the program raises or lets pass. \<open>OtherException\<close> is any other
  subclass of \<open>Exception\<close> (the string is its class name); \<open>CancelledError\<close> is the
  \<open>BaseException\<close> that asyncio throws into a cancelled task, which
  \<open>except Exception\<close> does not catch.
\<close>

datatype exn =
    ProviderError (exn_code: string) (exn_message: string)
  | IdempotencyConflict string
  | IdempotencyUnavailable string
  | RefundError (exn_code: string) (exn_message: string)
  | BrokerUnavailable string
  | RateLimitUnavailable string
  | LookupError string
  | ValueError string
  | RuntimeError string
  | KeyError string
  | IndexError
  | OtherException string
  | CancelledError

type_synonym 'a res = "exn + 'a"

definition is_Exception :: "exn \<Rightarrow> bool" where
  "is_Exception e \<longleftrightarrow> e \<noteq> CancelledError"

text \<open>Expressions that may raise, one after the other.\<close>

definition res_bind :: "'a res \<Rightarrow> ('a \<Rightarrow> 'b res) \<Rightarrow> 'b res" where
  "res_bind r f = (case r of Inl e \<Rightarrow> Inl e | Inr v \<Rightarrow> f v)"

lemma res_bind_Inr [simp]: "res_bind r f = Inr v \<longleftrightarrow> (\<exists>x. r = Inr x \<and> f x = Inr v)"
  by (cases r) (simp_all add: res_bind_def)

lemma res_bind_simps [simp]: "res_bind (Inr v) f = f v" "res_bind (Inl e) f = Inl e"
  by (simp_all add: res_bind_def)

text \<open>
  Sequencing of statements that may raise: the second runs on the state the first left,
  unless the first raised.
\<close>

definition then_do :: "'a res \<times> 's \<Rightarrow> ('a \<Rightarrow> 's \<Rightarrow> 'b res \<times> 's) \<Rightarrow> 'b res \<times> 's" where
  "then_do x f = (case x of (Inl e, s) \<Rightarrow> (Inl e, s) | (Inr v, s) \<Rightarrow> f v s)"

lemma then_do_simps [simp]: "then_do (Inl e, s) f = (Inl e, s)" "then_do (Inr v, s) f = f v s"
  by (simp_all add: then_do_def)

lemma then_do_inv:
  assumes "P (snd x)" "\<And>v s. x = (Inr v, s) \<Longrightarrow> P s \<Longrightarrow> P (snd (f v s))"
  shows "P (snd (then_do x f))"
  using assms by (cases x; cases "fst x") auto

lemma then_do_cases:
  assumes "then_do x f = (r, s)"
  obtains (raised) e where "x = (Inl e, s)" "r = Inl e"
    | (returned) v s1 where "x = (Inr v, s1)" "f v s1 = (r, s)"
  using assms by (cases x; cases "fst x") auto

lemma then_do_cong: "x = y \<Longrightarrow> (\<And>v s. y = (Inr v, s) \<Longrightarrow> f v s = g v s) \<Longrightarrow> then_do x f = then_do y g"
  by (cases y; cases "fst y") auto

text \<open>Python's \<open>round\<close> on a float: to the nearest integer, ties to the even one.\<close>

definition py_round :: "real \<Rightarrow> int" where
  "py_round x =
     (let f = \<lfloor>x\<rfloor>; d = x - of_int f
      in if d < 1 / 2 then f else if d > 1 / 2 then f + 1 else if even f then f else f + 1)"

subsection \<open>The world\<close>

datatype log_line =
    HttpRequest string string string int real "string option" "string option"
  | CircuitTransition string string string

record world =
  mono_at :: "nat \<Rightarrow> real"
  perf_at :: "nat \<Rightarrow> real"
  utc_at :: "nat \<Rightarrow> datetime"
  rand_at :: "nat \<Rightarrow> real"
  uuid_at :: "nat \<Rightarrow> uuid"
  tick :: nat
  slept :: "real list"
  logged :: "log_line list"

definition monotonic :: "world \<Rightarrow> real \<times> world" where
  "monotonic w = (mono_at w (tick w), w\<lparr>tick := Suc (tick w)\<rparr>)"

definition perf_counter :: "world \<Rightarrow> real \<times> world" where
  "perf_counter w = (perf_at w (tick w), w\<lparr>tick := Suc (tick w)\<rparr>)"

definition utcnow :: "world \<Rightarrow> datetime \<times> world" where
  "utcnow w = (utc_at w (tick w), w\<lparr>tick := Suc (tick w)\<rparr>)"

definition random_draw :: "world \<Rightarrow> real \<times> world" where
  "random_draw w = (rand_at w (tick w), w\<lparr>tick := Suc (tick w)\<rparr>)"

definition uuid4 :: "world \<Rightarrow> uuid \<times> world" where
  "uuid4 w = (uuid_at w (tick w), w\<lparr>tick := Suc (tick w)\<rparr>)"

definition sleep :: "real \<Rightarrow> world \<Rightarrow> world" where
  "sleep d w = w\<lparr>slept := slept w @ [d]\<rparr>"

definition log_append :: "log_line \<Rightarrow> world \<Rightarrow> world" where
  "log_append l w = w\<lparr>logged := logged w @ [l]\<rparr>"

text \<open>
  \<open>world_le w w'\<close>: \<open>w'\<close> is a later world of the same run. The tapes are the same
  and nothing that was read or written is taken back.
\<close>

definition world_le :: "world \<Rightarrow> world \<Rightarrow> bool" where
  "world_le w w' \<longleftrightarrow>
     mono_at w' = mono_at w \<and> perf_at w' = perf_at w \<and> utc_at w' = utc_at w \<and>
     rand_at w' = rand_at w \<and> uuid_at w' = uuid_at w \<and> tick w \<le> tick w' \<and>
     (\<exists>ds. slept w' = slept w @ ds) \<and> (\<exists>ls. logged w' = logged w @ ls)"

lemma world_le_refl [simp, intro]: "world_le w w"
  by (simp add: world_le_def)

lemma world_le_trans [trans]: "world_le a b \<Longrightarrow> world_le b c \<Longrightarrow> world_le a c"
  by (auto simp: world_le_def)

lemma world_le_tick: "world_le w w' \<Longrightarrow> tick w \<le> tick w'"
  by (simp add: world_le_def)

lemma world_le_uuid_at: "world_le w w' \<Longrightarrow> uuid_at w' = uuid_at w"
  by (simp add: world_le_def)

lemma world_le_readings [simp, intro]:
  "world_le w (snd (monotonic w))" "world_le w (snd (perf_counter w))"
  "world_le w (snd (utcnow w))" "world_le w (snd (random_draw w))"
  "world_le w (snd (uuid4 w))" "world_le w (sleep d w)" "world_le w (log_append l w)"
  by (simp_all add: world_le_def monotonic_def perf_counter_def utcnow_def random_draw_def
        uuid4_def sleep_def log_append_def)

lemmas world_read_defs =
  monotonic_def perf_counter_def utcnow_def random_draw_def uuid4_def sleep_def log_append_def

text \<open>A concrete world for evaluations: every tape counts up, each roll is one half.\<close>

definition sample_world :: world where
  "sample_world = \<lparr>mono_at = real, perf_at = real, utc_at = int, rand_at = (\<lambda>_. 1 / 2),
                   uuid_at = (\<lambda>n. n), tick = 0, slept = [], logged = []\<rparr>"

subsection \<open>Ordered dictionaries\<close>

text \<open>
  A Python \<open>dict\<close> keeps its keys in the order of their first insertion, and assigning
  to an existing key keeps its place: \<open>AList.update\<close> on an association list with
  distinct keys.
\<close>

type_synonym ('k, 'v) dict = "('k \<times> 'v) list"

abbreviation dict_ok :: "('k, 'v) dict \<Rightarrow> bool" where
  "dict_ok d \<equiv> distinct (map fst d)"

lemma dict_get_update [dict_simps]: "map_of (AList.update k v d) k' = (if k' = k then Some v else map_of d k')"
  by (simp add: AList.update_conv')

lemma dict_ok_update [dict_simps]: "dict_ok d \<Longrightarrow> dict_ok (AList.update k v d)"
  by (rule AList.distinct_update)

lemma dict_keys_update [dict_simps]: "fst ` set (AList.update k v d) = insert k (fst ` set d)"
  by (induction d) auto

lemma dict_get_delete [dict_simps]: "map_of (AList.delete k d) k' = (if k' = k then None else map_of d k')"
  by (simp add: AList.delete_conv')

lemma dict_update_new: "k \<notin> fst ` set d \<Longrightarrow> AList.update k v d = d @ [(k, v)]"
  by (induction d) auto

subsection \<open>\<open>min\<close> and \<open>max\<close> with a key\<close>

text \<open>
  Python's \<open>min(xs, key=f)\<close> and \<open>max(xs, key=f)\<close> keep the first element that attains
  the extreme value. Both raise on an empty sequence, which the callers exclude.
\<close>

fun first_min :: "('a \<Rightarrow> 'b::linorder) \<Rightarrow> 'a \<Rightarrow> 'a list \<Rightarrow> 'a" where
  "first_min f best [] = best"
| "first_min f best (x # xs) = first_min f (if f x < f best then x else best) xs"

fun first_max :: "('a \<Rightarrow> 'b::linorder) \<Rightarrow> 'a \<Rightarrow> 'a list \<Rightarrow> 'a" where
  "first_max f best [] = best"
| "first_max f best (x # xs) = first_max f (if f x > f best then x else best) xs"

lemma first_min_in: "first_min f b xs \<in> insert b (set xs)"
proof (induction xs arbitrary: b)
  case (Cons x xs)
  show ?case using Cons.IH [of "if f x < f b then x else b"] by (auto split: if_splits)
qed simp

lemma first_max_in: "first_max f b xs \<in> insert b (set xs)"
proof (induction xs arbitrary: b)
  case (Cons x xs)
  show ?case using Cons.IH [of "if f x > f b then x else b"] by (auto split: if_splits)
qed simp

lemma first_min_le: "y \<in> insert b (set xs) \<Longrightarrow> f (first_min f b xs) \<le> f y"
proof (induction xs arbitrary: b y)
  case (Cons x xs)
  let ?b = "if f x < f b then x else b"
  have *: "f (first_min f ?b xs) \<le> f ?b" by (rule Cons.IH) simp
  show ?case
  proof (cases "y \<in> set xs")
    case True
    then show ?thesis using Cons.IH [of y ?b] by simp
  next
    case False
    with Cons.prems have "y = b \<or> y = x" by auto
    with * show ?thesis by (auto split: if_splits)
  qed
qed simp

lemma first_max_ge: "y \<in> insert b (set xs) \<Longrightarrow> f y \<le> f (first_max f b xs)"
proof (induction xs arbitrary: b y)
  case (Cons x xs)
  let ?b = "if f x > f b then x else b"
  have *: "f ?b \<le> f (first_max f ?b xs)" by (rule Cons.IH) simp
  show ?case
  proof (cases "y \<in> set xs")
    case True
    then show ?thesis using Cons.IH [of y ?b] by simp
  next
    case False
    with Cons.prems have "y = b \<or> y = x" by auto
    with * show ?thesis by (auto split: if_splits)
  qed
qed simp

end
