(* ===== verification/Domain.thy ===== *)
theory Domain
  imports Prelude
begin

text \<open>
  The payment domain (\<open>src/src/pyswitch/domain.py\<close>): statuses, attempts, refunds and
  payments, the constructors with their default factories, the textual forms of a
  \<open>UUID\<close>, and the refund ledger invariant a payment keeps.
\<close>

subsection \<open>Data\<close>

datatype PaymentStatus = PENDING | PROCESSING | SUCCEEDED | FAILED | REFUNDED

fun status_value :: "PaymentStatus \<Rightarrow> string" where
  "status_value PENDING = ''PENDING''"
| "status_value PROCESSING = ''PROCESSING''"
| "status_value SUCCEEDED = ''SUCCEEDED''"
| "status_value FAILED = ''FAILED''"
| "status_value REFUNDED = ''REFUNDED''"

record PaymentAttempt =
  att_provider :: string
  att_number :: int
  att_result :: string
  att_latency_ms :: real
  att_created_at :: datetime
  att_error_code :: "string option"

record Refund =
  rfd_payment_id :: uuid
  rfd_amount :: int
  rfd_reference :: "string option"
  rfd_id :: uuid
  rfd_created_at :: datetime

record Payment =
  pay_merchant_id :: string
  pay_amount :: int
  pay_currency :: string
  pay_method_type :: string
  pay_idempotency_key :: string
  pay_id :: uuid
  pay_status :: PaymentStatus
  pay_created_at :: datetime
  pay_updated_at :: datetime
  pay_attempts :: "PaymentAttempt list"
  pay_reference :: "string option"
  pay_provider :: "string option"
  pay_fingerprint :: string
  pay_refunded_amount :: int
  pay_refunds :: "Refund list"

text \<open>
  The dataclass constructors. Default factories run in field order: a payment draws its
  \<open>id\<close>, then \<open>created_at\<close>, then \<open>updated_at\<close>.
\<close>

definition new_PaymentAttempt ::
  "string \<Rightarrow> int \<Rightarrow> string \<Rightarrow> real \<Rightarrow> string option \<Rightarrow> world \<Rightarrow> PaymentAttempt \<times> world" where
  "new_PaymentAttempt provider attempt_number result latency_ms error_code w =
     (let (created, w1) = utcnow w
      in (\<lparr>att_provider = provider, att_number = attempt_number, att_result = result,
           att_latency_ms = latency_ms, att_created_at = created,
           att_error_code = error_code\<rparr>, w1))"

definition new_Refund :: "uuid \<Rightarrow> int \<Rightarrow> string option \<Rightarrow> world \<Rightarrow> Refund \<times> world" where
  "new_Refund payment_id amount reference w =
     (let (i, w1) = uuid4 w; (created, w2) = utcnow w1
      in (\<lparr>rfd_payment_id = payment_id, rfd_amount = amount, rfd_reference = reference,
           rfd_id = i, rfd_created_at = created\<rparr>, w2))"

definition new_Payment ::
  "string \<Rightarrow> int \<Rightarrow> string \<Rightarrow> string \<Rightarrow> string \<Rightarrow> string \<Rightarrow> world \<Rightarrow> Payment \<times> world" where
  "new_Payment merchant amount currency method_type key fingerprint w =
     (let (i, w1) = uuid4 w; (created, w2) = utcnow w1; (updated, w3) = utcnow w2
      in (\<lparr>pay_merchant_id = merchant, pay_amount = amount, pay_currency = currency,
           pay_method_type = method_type, pay_idempotency_key = key, pay_id = i,
           pay_status = PROCESSING, pay_created_at = created, pay_updated_at = updated,
           pay_attempts = [], pay_reference = None, pay_provider = None,
           pay_fingerprint = fingerprint, pay_refunded_amount = 0, pay_refunds = []\<rparr>, w3))"

subsection \<open>Text forms of identifiers\<close>

definition hex_digit :: "nat \<Rightarrow> char" where
  "hex_digit d = ''0123456789abcdef'' ! d"

fun nibbles :: "nat \<Rightarrow> nat \<Rightarrow> nat list" where
  "nibbles 0 n = []"
| "nibbles (Suc k) n = nibbles k (n div 16) @ [n mod 16]"

definition uuid_hex :: "uuid \<Rightarrow> string" where
  "uuid_hex u = map hex_digit (nibbles 32 u)"

definition str_uuid :: "uuid \<Rightarrow> string" where
  "str_uuid u =
     (let h = uuid_hex u
      in take 8 h @ ''-'' @ take 4 (drop 8 h) @ ''-'' @ take 4 (drop 12 h) @ ''-'' @
         take 4 (drop 16 h) @ ''-'' @ drop 20 h)"

definition hex_value :: "char \<Rightarrow> nat" where
  "hex_value c = (let n = of_char c :: nat in if n < 58 then n - 48 else n - 87)"

text \<open>
  \<open>UUID(value)\<close> on the canonical text form, the only one the program writes; every other
  text is an error here.
\<close>

definition parse_uuid :: "string \<Rightarrow> uuid option" where
  "parse_uuid s =
     (let u = foldl (\<lambda>n c. 16 * n + hex_value c) 0 (filter (\<lambda>c. c \<noteq> CHR ''-'') s)
      in if str_uuid u = s then Some u else None)"

subsection \<open>Lemmas on constructors and identifiers\<close>

lemma new_PaymentAttempt_world [simp, intro]:
  "world_le w (snd (new_PaymentAttempt p n r l e w))"
  by (simp add: new_PaymentAttempt_def world_le_def utcnow_def)

lemma new_Refund_world [simp, intro]: "world_le w (snd (new_Refund pid a r w))"
  by (simp add: new_Refund_def world_le_def utcnow_def uuid4_def)

lemma new_Payment_world [simp, intro]: "world_le w (snd (new_Payment m a c t k f w))"
  by (simp add: new_Payment_def world_le_def utcnow_def uuid4_def)

lemma length_nibbles [simp]: "length (nibbles k n) = k"
  by (induction k arbitrary: n) auto

lemma nibbles_bound: "d \<in> set (nibbles k n) \<Longrightarrow> d < 16"
  by (induction k arbitrary: n) auto

lemma nibbles_inj: "nibbles k m = nibbles k n \<Longrightarrow> m < 16 ^ k \<Longrightarrow> n < 16 ^ k \<Longrightarrow> m = n"
proof (induction k arbitrary: m n)
  case (Suc k)
  from Suc.prems have "m div 16 < 16 ^ k" "n div 16 < 16 ^ k" by auto
  with Suc have "m div 16 = n div 16" "m mod 16 = n mod 16" by auto
  then show ?case by (metis div_mult_mod_eq)
qed simp

lemma hex_digit_inj: "inj_on hex_digit {..<16}"
proof (rule inj_onI)
  fix x y assume "x \<in> {..<16::nat}" "y \<in> {..<16::nat}" "hex_digit x = hex_digit y"
  moreover have "distinct ''0123456789abcdef''" by simp
  ultimately show "x = y" by (simp add: hex_digit_def nth_eq_iff_index_eq)
qed

lemma length_uuid_hex [simp]: "length (uuid_hex u) = 32"
  by (simp add: uuid_hex_def)

lemma uuid_hex_inj: "uuid_hex u = uuid_hex v \<Longrightarrow> u < 2 ^ 128 \<Longrightarrow> v < 2 ^ 128 \<Longrightarrow> u = v"
proof -
  assume eq: "uuid_hex u = uuid_hex v" and b: "u < 2 ^ 128" "v < 2 ^ 128"
  have "nibbles 32 u = nibbles 32 v"
  proof (rule map_inj_on)
    show "map hex_digit (nibbles 32 u) = map hex_digit (nibbles 32 v)"
      using eq by (simp add: uuid_hex_def)
    show "inj_on hex_digit (set (nibbles 32 u) \<union> set (nibbles 32 v))"
      by (rule inj_on_subset [OF hex_digit_inj]) (auto dest: nibbles_bound)
  qed
  moreover have "(2::nat) ^ 128 = 16 ^ 32" by simp
  ultimately show "u = v" using b nibbles_inj [of 32 u v] by metis
qed

lemma uuid_chunks:
  assumes "length h = 32"
  shows "take 8 h @ take 4 (drop 8 h) @ take 4 (drop 12 h) @ take 4 (drop 16 h) @ drop 20 h = h"
  using assms by (intro nth_equalityI) (simp_all add: nth_append)

lemma uuid_hex_no_dash: "c \<in> set (uuid_hex u) \<Longrightarrow> c \<noteq> CHR ''-''"
proof -
  assume "c \<in> set (uuid_hex u)"
  then obtain d where d: "d < 16" "c = ''0123456789abcdef'' ! d"
    using nibbles_bound by (auto simp: uuid_hex_def hex_digit_def)
  then have "c \<in> set ''0123456789abcdef''" using nth_mem [of d "''0123456789abcdef''"] by simp
  then show ?thesis by auto
qed

lemma str_uuid_hex: "filter (\<lambda>c. c \<noteq> CHR ''-'') (str_uuid u) = uuid_hex u"
proof -
  have keep: "filter (\<lambda>c. c \<noteq> CHR ''-'') (take m (drop n (uuid_hex u))) = take m (drop n (uuid_hex u))"
    "filter (\<lambda>c. c \<noteq> CHR ''-'') (drop n (uuid_hex u)) = drop n (uuid_hex u)"
    "filter (\<lambda>c. c \<noteq> CHR ''-'') (take m (uuid_hex u)) = take m (uuid_hex u)" for m n
    by (auto simp: filter_id_conv dest!: in_set_takeD in_set_dropD uuid_hex_no_dash)
  show ?thesis
    using uuid_chunks [OF length_uuid_hex] by (simp add: str_uuid_def Let_def keep)
qed

lemma less_16_cases: "d < (16::nat) \<Longrightarrow> d = 0 \<or> d = 1 \<or> d = 2 \<or> d = 3 \<or> d = 4 \<or> d = 5 \<or> d = 6 \<or> d = 7 \<or>
  d = 8 \<or> d = 9 \<or> d = 10 \<or> d = 11 \<or> d = 12 \<or> d = 13 \<or> d = 14 \<or> d = 15"
  by presburger

lemma hex_value_digit [simp]: "d < 16 \<Longrightarrow> hex_value (hex_digit d) = d"
  by (drule less_16_cases) (auto simp: hex_value_def hex_digit_def)

lemma foldl_nibbles:
  "foldl (\<lambda>n c. 16 * n + hex_value c) a (map hex_digit (nibbles k n)) = a * 16 ^ k + n mod 16 ^ k"
proof (induction k arbitrary: n)
  case (Suc k)
  have "16 * ((n div 16) mod 16 ^ k) + n mod 16 = n mod (16 * 16 ^ k)" by (metis mod_mult2_eq add.commute)
  then show ?case by (simp add: Suc.IH distrib_left)
qed simp

lemma parse_str_uuid: "u < 2 ^ 128 \<Longrightarrow> parse_uuid (str_uuid u) = Some u"
proof -
  assume u: "u < 2 ^ 128"
  have "(2 :: nat) ^ 128 = 16 ^ 32" by simp
  then have "u mod 16 ^ 32 = u" using u by simp
  then show ?thesis using foldl_nibbles [of 0 32 u] by (simp add: parse_uuid_def str_uuid_hex uuid_hex_def)
qed

text \<open>
  The refund ledger of a payment: what was refunded is the sum of the refunds, never more
  than the amount, each refund is positive and belongs to the payment, and the status is
  \<open>REFUNDED\<close> exactly when refunds have consumed the whole amount.
\<close>

definition ledger_ok :: "Payment \<Rightarrow> bool" where
  "ledger_ok p \<longleftrightarrow>
     pay_refunded_amount p = sum_list (map rfd_amount (pay_refunds p)) \<and>
     (\<forall>r \<in> set (pay_refunds p). 0 < rfd_amount r \<and> rfd_payment_id r = pay_id p) \<and>
     (pay_refunds p \<noteq> [] \<longrightarrow> pay_refunded_amount p \<le> pay_amount p) \<and>
     (pay_status p = REFUNDED \<longleftrightarrow>
        pay_refunds p \<noteq> [] \<and> pay_refunded_amount p = pay_amount p) \<and>
     (pay_refunds p \<noteq> [] \<longrightarrow> pay_status p = SUCCEEDED \<or> pay_status p = REFUNDED)"

lemma ledger_ok_fresh:
  "pay_refunds p = [] \<Longrightarrow> pay_refunded_amount p = 0 \<Longrightarrow> pay_status p \<noteq> REFUNDED \<Longrightarrow> ledger_ok p"
  by (simp add: ledger_ok_def)

text \<open>
  Distinct 128-bit identifiers have distinct canonical text forms, so the maps the
  program keys by \<open>str(uuid)\<close> never confuse two payments.
\<close>

lemma str_uuid_inj:
  assumes "u < 2 ^ 128" "v < 2 ^ 128" "str_uuid u = str_uuid v"
  shows "u = v"
  using assms uuid_hex_inj str_uuid_hex by metis

end
