(* ===== verification/Json.thy ===== *)
theory Json
  imports Domain
begin

text \<open>
  The part of Python's \<open>json\<close> module the program uses: how \<open>json.dumps\<close> writes strings and
  integers, that the text determines the value, and whole documents written and read back.
\<close>

subsection \<open>\<open>json.dumps\<close>\<close>

text \<open>
  Characters outside the printable ASCII range become a \<open>u\<close> escape with four hexadecimal
  digits (the characters of the model are code points below 256).
\<close>

definition json_char :: "char \<Rightarrow> string" where
  "json_char c =
     (let n = of_char c :: nat
      in if n = 34 \<or> n = 92 then [CHR 0x5C, c]
         else if n = 8 then [CHR 0x5C, CHR ''b'']
         else if n = 9 then [CHR 0x5C, CHR ''t'']
         else if n = 10 then [CHR 0x5C, CHR ''n'']
         else if n = 12 then [CHR 0x5C, CHR ''f'']
         else if n = 13 then [CHR 0x5C, CHR ''r'']
         else if 32 \<le> n \<and> n \<le> 126 then [c]
         else [CHR 0x5C, CHR ''u'', CHR ''0'', CHR ''0'', hex_digit (n div 16), hex_digit (n mod 16)])"

definition json_string :: "string \<Rightarrow> string" where
  "json_string s = CHR 0x22 # concat (map json_char s) @ [CHR 0x22]"

fun decimal :: "nat \<Rightarrow> string" where
  "decimal n = (if n < 10 then [hex_digit n] else decimal (n div 10) @ [hex_digit (n mod 10)])"

definition json_int :: "int \<Rightarrow> string" where
  "json_int i = (if i < 0 then CHR ''-'' # decimal (nat (- i)) else decimal (nat i))"

subsection \<open>The text determines the value\<close>

text \<open>Reading one character back from its escaped form.\<close>

fun read_char :: "string \<Rightarrow> (char \<times> string) option" where
  "read_char (c # rest) =
     (if c = CHR 0x22 then None
      else if c \<noteq> CHR 0x5C then Some (c, rest)
      else case rest of
             e # rest1 \<Rightarrow>
               if e = CHR ''b'' then Some (CHR 0x08, rest1)
               else if e = CHR ''t'' then Some (CHR 0x09, rest1)
               else if e = CHR ''n'' then Some (CHR 0x0A, rest1)
               else if e = CHR ''f'' then Some (CHR 0x0C, rest1)
               else if e = CHR ''r'' then Some (CHR 0x0D, rest1)
               else if e = CHR ''u'' then
                 (case rest1 of
                    _ # _ # h # l # rest2 \<Rightarrow> Some (char_of (16 * hex_value h + hex_value l), rest2)
                  | _ \<Rightarrow> None)
               else Some (e, rest1)
           | [] \<Rightarrow> None)"
| "read_char [] = None"

lemma char_eq_code: "c = d \<longleftrightarrow> (of_char c :: nat) = of_char d"
  by simp

lemma read_json_char: "read_char (json_char c @ rest) = Some (c, rest)"
proof -
  define n where "n = (of_char c :: nat)"
  have c: "c = char_of n" by (simp add: n_def)
  have n: "n < 256" by (simp add: n_def)
  have h: "16 * (n div 16) + n mod 16 = n" "n div 16 < 16" "n mod 16 < 16" using n by auto
  consider "n \<in> {8, 9, 10, 12, 13, 34, 92}" | "n \<notin> {8, 9, 10, 12, 13, 34, 92}" "32 \<le> n" "n \<le> 126"
    | "n \<notin> {8, 9, 10, 12, 13, 34, 92}" "\<not> (32 \<le> n \<and> n \<le> 126)" by blast
  then show ?thesis
  proof cases
    case 1
    then have "c \<in> {CHR 0x08, CHR 0x09, CHR 0x0A, CHR 0x0C, CHR 0x0D, CHR 0x22, CHR 0x5C}"
      by (auto simp: char_eq_code [of c] n_def simp del: of_char_eq_iff)
    then show ?thesis by (auto simp: json_char_def)
  next
    case 2
    have "c \<noteq> CHR 0x22" "c \<noteq> CHR 0x5C" using 2 by (auto simp: n_def)
    then show ?thesis using 2 by (simp add: json_char_def Let_def flip: n_def)
  next
    case 3
    have "hex_value (hex_digit (n div 16)) = n div 16" "hex_value (hex_digit (n mod 16)) = n mod 16"
      using h by simp_all
    moreover have "json_char c = [CHR 0x5C, CHR ''u'', CHR ''0'', CHR ''0'', hex_digit (n div 16), hex_digit (n mod 16)]"
      using 3 by (auto simp: json_char_def Let_def n_def)
    moreover have "char_of (16 * (n div 16) + n mod 16) = c" using h(1) c by simp
    ultimately show ?thesis by simp
  qed
qed

lemma read_char_quote: "read_char (CHR 0x22 # rest) = None"
  by simp

declare read_char.simps [simp del]

lemma json_chars_prefix:
  "concat (map json_char s) @ CHR 0x22 # x = concat (map json_char t) @ CHR 0x22 # y \<Longrightarrow> s = t \<and> x = y"
proof (induction s arbitrary: t)
  case Nil
  from arg_cong [OF Nil, of read_char] have "t = []"
    by (cases t) (simp_all add: read_json_char read_char_quote)
  then show ?case using Nil by simp
next
  case (Cons c cs)
  note eq = arg_cong [OF Cons.prems, of read_char]
  show ?case
  proof (cases t)
    case Nil
    then show ?thesis using eq by (simp add: read_json_char read_char_quote)
  next
    case (Cons d ds)
    then have "c = d" "concat (map json_char cs) @ CHR 0x22 # x = concat (map json_char ds) @ CHR 0x22 # y"
      using eq by (simp_all add: read_json_char)
    then show ?thesis using Cons.IH [of ds] Cons by simp
  qed
qed

lemma json_string_prefix: "json_string s @ x = json_string t @ y \<Longrightarrow> s = t \<and> x = y"
  by (rule json_chars_prefix) (simp add: json_string_def)

fun decimal_value :: "string \<Rightarrow> nat" where
  "decimal_value [] = 0"
| "decimal_value (c # cs) = hex_value c * 10 ^ length cs + decimal_value cs"

lemma decimal_value_snoc: "decimal_value (s @ [c]) = 10 * decimal_value s + hex_value c"
  by (induction s) (auto simp: algebra_simps)

declare decimal.simps [simp del]

lemma decimal_value_decimal: "decimal_value (decimal n) = n"
proof (induction n rule: decimal.induct)
  case (1 n)
  then show ?case
    by (subst decimal.simps) (auto simp: decimal_value_snoc)
qed

lemma decimal_digits: "c \<in> set (decimal n) \<Longrightarrow> c \<in> set ''0123456789''"
proof (induction n rule: decimal.induct)
  case (1 n)
  have d: "hex_digit d \<in> set ''0123456789''" if "d < 10" for d
  proof -
    have "d = 0 \<or> d = 1 \<or> d = 2 \<or> d = 3 \<or> d = 4 \<or> d = 5 \<or> d = 6 \<or> d = 7 \<or> d = 8 \<or> d = 9" using that by presburger
    then show ?thesis by (auto simp: hex_digit_def)
  qed
  have "n < 10 \<Longrightarrow> c = hex_digit n" "\<not> n < 10 \<Longrightarrow> c \<in> set (decimal (n div 10)) \<or> c = hex_digit (n mod 10)"
    using "1.prems" by (subst (asm) decimal.simps; auto)+
  then show ?case using "1.IH" d [of n] d [of "n mod 10"] by (cases "n < 10") auto
qed

lemma json_int_comma: "CHR '','' \<notin> set (json_int i)"
  by (auto simp: json_int_def dest: decimal_digits)

lemma json_int_inj: "json_int i = json_int j \<Longrightarrow> i = j"
proof -
  assume eq: "json_int i = json_int j"
  have minus: "CHR ''-'' \<notin> set (decimal n)" for n by (auto dest: decimal_digits)
  then have sgn: "decimal m \<noteq> CHR ''-'' # s" for m s by (metis list.set_intros(1))
  have inj: "decimal m = decimal n \<Longrightarrow> m = n" for m n by (metis decimal_value_decimal)
  show "i = j"
    using eq sgn [symmetric] sgn by (auto simp: json_int_def dest!: inj split: if_splits)
qed

lemma json_int_prefix:
  assumes "json_int i @ CHR '','' # x = json_int j @ CHR '','' # y"
  shows "i = j \<and> x = y"
proof -
  have "takeWhile ((\<noteq>) CHR '','') (json_int k @ CHR '','' # z) = json_int k" for k z
    using json_int_comma by (subst takeWhile_append2) auto
  then have "json_int i = json_int j" using assms by metis
  then show ?thesis using assms json_int_inj by auto
qed

subsection \<open>Documents\<close>

text \<open>
  The values an event envelope is made of. \<open>json.dumps\<close> writes members in dictionary order
  with its default separators; \<open>json.loads\<close> reads a document back into a dictionary, where
  the last of several members with one key wins. Arrays and numbers with a fraction or an
  exponent are not values of this model and are not read.
\<close>

datatype json = JNull | JBool bool | JString string | JInt int | JObject "(string \<times> json) list"

fun dumps :: "json \<Rightarrow> string" and dumps_members :: "(string \<times> json) list \<Rightarrow> string" where
  "dumps JNull = ''null''"
| "dumps (JBool b) = (if b then ''true'' else ''false'')"
| "dumps (JString s) = json_string s"
| "dumps (JInt i) = json_int i"
| "dumps (JObject ms) = CHR 0x7B # dumps_members ms"
| "dumps_members [] = [CHR 0x7D]"
| "dumps_members [(k, v)] = json_string k @ '': '' @ dumps v @ [CHR 0x7D]"
| "dumps_members ((k, v) # m # ms) = json_string k @ '': '' @ dumps v @ '', '' @ dumps_members (m # ms)"

definition skip_ws :: "string \<Rightarrow> string" where
  "skip_ws = dropWhile (\<lambda>c. c \<in> {CHR 0x20, CHR 0x09, CHR 0x0A, CHR 0x0D})"

text \<open>The rest of a string literal; every step reads a character, so its length is fuel enough.\<close>

fun read_chars :: "nat \<Rightarrow> string \<Rightarrow> (string \<times> string) option" where
  "read_chars 0 s = None"
| "read_chars (Suc n) s =
     (if s \<noteq> [] \<and> hd s = CHR 0x22 then Some ([], tl s)
      else case read_char s of
             None \<Rightarrow> None
           | Some (c, r) \<Rightarrow> (case read_chars n r of None \<Rightarrow> None | Some (cs, r') \<Rightarrow> Some (c # cs, r')))"

definition digits_of :: "string \<Rightarrow> string" where
  "digits_of s = (let ds = takeWhile (\<lambda>c. c \<in> set ''0123456789'') s in if ds \<noteq> [] \<and> hd ds = CHR ''0'' then [CHR ''0''] else ds)"

definition read_nat :: "string \<Rightarrow> (nat \<times> string) option" where
  "read_nat s =
     (let ds = digits_of s; r = drop (length ds) s
      in if ds = [] \<or> (r \<noteq> [] \<and> hd r \<in> {CHR ''.'', CHR ''e'', CHR ''E''}) then None
         else Some (decimal_value ds, r))"

definition read_int :: "string \<Rightarrow> (int \<times> string) option" where
  "read_int s =
     (if s \<noteq> [] \<and> hd s = CHR ''-'' then map_option (apfst (\<lambda>n. - int n)) (read_nat (tl s))
      else map_option (apfst int) (read_nat s))"

definition dict_of :: "('k \<times> 'v) list \<Rightarrow> ('k, 'v) dict" where
  "dict_of ms = foldl (\<lambda>d (k, v). AList.update k v d) [] ms"

fun read_value :: "nat \<Rightarrow> string \<Rightarrow> (json \<times> string) option"
and read_members :: "nat \<Rightarrow> string \<Rightarrow> ((string \<times> json) list \<times> string) option" where
  "read_value 0 s = None"
| "read_value (Suc n) s =
     (if s \<noteq> [] \<and> hd s = CHR 0x22 then map_option (apfst JString) (read_chars (length s) (tl s))
      else if s \<noteq> [] \<and> hd s = CHR 0x7B
      then (let r = skip_ws (tl s)
            in if r \<noteq> [] \<and> hd r = CHR 0x7D then Some (JObject [], tl r)
               else map_option (apfst (\<lambda>ms. JObject (dict_of ms))) (read_members n r))
      else if take 4 s = ''null'' then Some (JNull, drop 4 s)
      else if take 4 s = ''true'' then Some (JBool True, drop 4 s)
      else if take 5 s = ''false'' then Some (JBool False, drop 5 s)
      else map_option (apfst JInt) (read_int s))"
| "read_members 0 s = None"
| "read_members (Suc n) s =
     (if s = [] \<or> hd s \<noteq> CHR 0x22 then None
      else case read_chars (length s) (tl s) of
             None \<Rightarrow> None
           | Some (k, r1) \<Rightarrow>
               (let r2 = skip_ws r1
                in if r2 = [] \<or> hd r2 \<noteq> CHR '':'' then None
                   else case read_value n (skip_ws (tl r2)) of
                          None \<Rightarrow> None
                        | Some (v, r3) \<Rightarrow>
                            (let r4 = skip_ws r3
                             in if r4 \<noteq> [] \<and> hd r4 = CHR 0x7D then Some ([(k, v)], tl r4)
                                else if r4 \<noteq> [] \<and> hd r4 = CHR '',''
                                then map_option (apfst ((#) (k, v))) (read_members n (skip_ws (tl r4)))
                                else None)))"

definition loads :: "string \<Rightarrow> json res" where
  "loads s =
     (case read_value (Suc (length s)) (skip_ws s) of
        Some (v, r) \<Rightarrow> if skip_ws r = [] then Inr v else Inl (ValueError ''Extra data'')
      | None \<Rightarrow> Inl (ValueError ''Expecting value''))"

subsection \<open>Reading back what was written\<close>

text \<open>Dictionaries: no key occurs twice in an object.\<close>

fun json_dict :: "json \<Rightarrow> bool" and members_dict :: "(string \<times> json) list \<Rightarrow> bool" where
  "json_dict (JObject ms) \<longleftrightarrow> distinct (map fst ms) \<and> members_dict ms"
| "json_dict JNull \<longleftrightarrow> True"
| "json_dict (JBool b) \<longleftrightarrow> True"
| "json_dict (JString s) \<longleftrightarrow> True"
| "json_dict (JInt i) \<longleftrightarrow> True"
| "members_dict [] \<longleftrightarrow> True"
| "members_dict ((k, v) # ms) \<longleftrightarrow> json_dict v \<and> members_dict ms"

lemma dict_of_snoc: "dict_of (ms @ [(k, v)]) = AList.update k v (dict_of ms)"
  by (simp add: dict_of_def)

lemma dict_of_distinct: "distinct (map fst ms) \<Longrightarrow> dict_of ms = ms"
proof (induction ms rule: rev_induct)
  case (snoc m ms)
  obtain k v where m: "m = (k, v)" by (cases m)
  have "dict_of ms = ms" using snoc by simp
  then show ?case using snoc.prems by (auto simp: m dict_of_snoc dict_update_new)
qed (simp add: dict_of_def)

lemma read_chars_written:
  "length s < n \<Longrightarrow> read_chars n (concat (map json_char s) @ CHR 0x22 # rest) = Some (s, rest)"
proof (induction s arbitrary: n)
  case Nil
  then show ?case by (cases n) auto
next
  case (Cons c s)
  then obtain m where n: "n = Suc m" "length s < m" by (cases n) auto
  define r where "r = concat (map json_char s) @ CHR 0x22 # rest"
  have e: "concat (map json_char (c # s)) @ CHR 0x22 # rest = json_char c @ r" by (simp add: r_def)
  have rc: "read_char (json_char c @ r) = Some (c, r)" by (rule read_json_char)
  have "\<not> (json_char c @ r \<noteq> [] \<and> hd (json_char c @ r) = CHR 0x22)"
  proof
    assume h: "json_char c @ r \<noteq> [] \<and> hd (json_char c @ r) = CHR 0x22"
    then obtain t where "json_char c @ r = CHR 0x22 # t" by (metis list.collapse)
    then show False using rc read_char_quote by simp
  qed
  then show ?case using Cons.IH [OF n(2)] rc by (simp add: n e flip: r_def)
qed

lemma length_json_chars: "length s \<le> length (concat (map json_char s))"
proof (induction s)
  case (Cons c s)
  have "json_char c \<noteq> []" by (auto simp: json_char_def Let_def)
  then have "1 \<le> length (json_char c)" by (cases "json_char c") auto
  then show ?case using Cons by simp
qed simp

declare read_chars.simps [simp del]

lemma read_string_written: "read_chars (length (json_string s @ rest)) (tl (json_string s @ rest)) = Some (s, rest)"
  using read_chars_written [of s "length (json_string s @ rest)" rest] length_json_chars [of s]
  by (simp add: json_string_def)

lemma json_string_start: "json_string s @ rest \<noteq> []" "hd (json_string s @ rest) = CHR 0x22"
  by (simp_all add: json_string_def)

lemma decimal_nonempty [simp]: "decimal n \<noteq> []"
  by (subst decimal.simps) simp

lemma hex_digit_zero: "d < 10 \<Longrightarrow> hex_digit d = CHR ''0'' \<Longrightarrow> d = 0"
  using hex_value_digit [of d] by (simp add: hex_value_def)

lemma decimal_head: "hd (decimal n) = CHR ''0'' \<Longrightarrow> n = 0"
proof (induction n rule: decimal.induct)
  case (1 n)
  show ?case
  proof (cases "n < 10")
    case True
    then show ?thesis using "1.prems" hex_digit_zero by (subst (asm) decimal.simps) simp
  next
    case False
    then have "hd (decimal (n div 10)) = CHR ''0''" using "1.prems" by (subst (asm) decimal.simps) simp
    then have "n div 10 = 0" using "1.IH" False by simp
    then show ?thesis using False by (simp add: div_eq_0_iff)
  qed
qed

lemma decimal_zero: "decimal 0 = ''0''"
  by (simp add: decimal.simps hex_digit_def)

definition ends_number :: "string \<Rightarrow> bool" where
  "ends_number r \<longleftrightarrow> r = [] \<or> hd r \<notin> set ''0123456789.eE''"

lemma digits_of_decimal: "ends_number r \<Longrightarrow> digits_of (decimal n @ r) = decimal n"
proof -
  assume "ends_number r"
  then have "takeWhile (\<lambda>c. c \<in> set ''0123456789'') r = []"
    by (cases r) (auto simp: ends_number_def)
  then have t: "takeWhile (\<lambda>c. c \<in> set ''0123456789'') (decimal n @ r) = decimal n"
    using decimal_digits by (subst takeWhile_append2) auto
  show ?thesis
  proof (cases "hd (decimal n) = CHR ''0''")
    case True
    then have "n = 0" by (rule decimal_head)
    then show ?thesis using t by (simp add: digits_of_def decimal_zero)
  next
    case False
    then show ?thesis using t by (simp add: digits_of_def)
  qed
qed

lemma read_nat_decimal: "ends_number r \<Longrightarrow> read_nat (decimal n @ r) = Some (n, r)"
  by (auto simp: read_nat_def digits_of_decimal decimal_value_decimal ends_number_def)

lemma read_int_written: "ends_number r \<Longrightarrow> read_int (json_int i @ r) = Some (i, r)"
proof -
  assume r: "ends_number r"
  have h: "hd (decimal n @ r) \<noteq> CHR ''-''" for n
    using decimal_digits [of "hd (decimal n)" n] by auto
  show ?thesis
    using read_nat_decimal [OF r] h by (cases "i < 0") (auto simp: json_int_def read_int_def)
qed

lemma json_int_start: "json_int i @ r \<noteq> []"
  "hd (json_int i @ r) \<in> set ''-0123456789''"
proof -
  have "hd (decimal n) \<in> set ''0123456789''" for n
    by (rule decimal_digits [of _ n]) simp
  then show "hd (json_int i @ r) \<in> set ''-0123456789''" by (auto simp: json_int_def)
qed (simp add: json_int_def)

lemma skip_ws_simps [simp]:
  "c \<notin> {CHR 0x20, CHR 0x09, CHR 0x0A, CHR 0x0D} \<Longrightarrow> skip_ws (c # s) = c # s" "skip_ws [] = []"
  "skip_ws (CHR 0x20 # s) = skip_ws s"
  by (simp_all add: skip_ws_def)

text \<open>No written value starts with white space.\<close>

lemma skip_ws_start: "s \<noteq> [] \<Longrightarrow> hd s \<notin> {CHR 0x20, CHR 0x09, CHR 0x0A, CHR 0x0D} \<Longrightarrow> skip_ws s = s"
  by (cases s) simp_all

lemma skip_ws_string: "skip_ws (json_string s @ r) = json_string s @ r"
  by (simp add: json_string_def)

lemma skip_ws_dumps: "skip_ws (dumps v @ r) = dumps v @ r"
proof (cases v)
  case (JInt i)
  then show ?thesis using skip_ws_start [OF json_int_start(1) [of i r]] json_int_start(2) [of i r] by auto
qed (simp_all add: skip_ws_string)

lemma skip_ws_members: "skip_ws (dumps_members ms @ r) = dumps_members ms @ r"
  by (cases ms rule: dumps_members.cases) (simp_all add: skip_ws_string)

lemma read_value_written:
  shows "json_dict v \<Longrightarrow> ends_number r \<Longrightarrow> length (dumps v) \<le> n \<Longrightarrow> read_value n (dumps v @ r) = Some (v, r)"
    and "members_dict ms \<Longrightarrow> ms \<noteq> [] \<Longrightarrow> length (dumps_members ms) \<le> n \<Longrightarrow>
      read_members n (dumps_members ms @ r) = Some (ms, r)"
proof (induction v and ms arbitrary: n r and n r rule: dumps_dumps_members.induct)
  case 1
  then show ?case by (cases n) simp_all
next
  case (2 b)
  then show ?case by (cases n) (simp_all split: if_splits)
next
  case (3 s)
  then obtain m where "n = Suc m" by (cases n) (simp_all add: json_string_def)
  then show ?case using json_string_start [of s r] read_string_written [of s r] by simp
next
  case (4 i)
  obtain m where n: "n = Suc m" using 4 json_int_start(1) [of i "[]"] by (cases n) auto
  have h: "hd (json_int i @ r) \<in> set ''-0123456789''" by (rule json_int_start)
  then have a: "hd (json_int i @ r) \<noteq> CHR 0x22" "hd (json_int i @ r) \<noteq> CHR 0x7B" "hd (json_int i @ r) \<noteq> CHR ''n''"
    by auto
  then have "take 4 (json_int i @ r) \<noteq> ''null''" "take 4 (json_int i @ r) \<noteq> ''true''" "take 5 (json_int i @ r) \<noteq> ''false''"
    using h by (cases "json_int i @ r"; auto)+
  then show ?case using a read_int_written [OF 4(2), of i] by (simp add: n)
next
  case (5 ms)
  then obtain m where n: "n = Suc m" "length (dumps_members ms) \<le> m" by (cases n) auto
  show ?case
  proof (cases "ms = []")
    case True
    then show ?thesis by (simp add: n)
  next
    case False
    then have "hd (dumps_members ms @ r) = CHR 0x22"
      by (cases ms rule: dumps_members.cases) (simp_all add: json_string_def)
    then show ?thesis
      using 5(1) [of m r] 5(2) n False dict_of_distinct [of ms] by (simp add: skip_ws_members)
  qed
next
  case 6
  then show ?case by simp
next
  case (7 k v)
  then obtain m where n: "n = Suc m" "length (dumps v) \<le> m" by (cases n) auto
  define t where "t = dumps v @ CHR 0x7D # r"
  have rv: "read_value m t = Some (v, CHR 0x7D # r)"
    using 7(1) [of "CHR 0x7D # r" m] 7(2) n by (simp add: t_def ends_number_def)
  have "skip_ws t = t" by (simp add: t_def skip_ws_dumps)
  then show ?case
    using json_string_start [of k "'': '' @ t"] read_string_written [of k "'': '' @ t"] rv
    by (simp add: n flip: t_def)
next
  case (8 k v m' ms)
  then obtain m where n: "n = Suc m" "length (dumps v) \<le> m" "length (dumps_members (m' # ms)) \<le> m"
    by (cases n) auto
  define u where "u = dumps_members (m' # ms) @ r"
  define t where "t = dumps v @ '', '' @ u"
  have rv: "read_value m t = Some (v, '', '' @ u)"
    using 8(1) [of "'', '' @ u" m] 8(3) n by (simp add: t_def ends_number_def)
  have rm: "read_members m u = Some (m' # ms, r)" using 8(2) [of m r] 8(3) n by (simp add: u_def)
  have w: "skip_ws t = t" "skip_ws u = u" by (simp_all add: t_def u_def skip_ws_dumps skip_ws_members del: dumps_members.simps)
  have "dumps_members ((k, v) # m' # ms) @ r = json_string k @ '': '' @ t" by (simp add: t_def u_def)
  then show ?case
    using json_string_start [of k "'': '' @ t"] read_string_written [of k "'': '' @ t"] rv rm w
    by (simp add: n del: dumps_members.simps)
qed

lemma loads_dumps: "json_dict v \<Longrightarrow> loads (dumps v) = Inr v"
  using read_value_written(1) [of v "[]" "Suc (length (dumps v))"] skip_ws_dumps [of v "[]"]
  by (simp add: loads_def ends_number_def)

end
