(* ===== verification/Events.thy ===== *)
theory Events
  imports Json
begin

text \<open>
  Versioned events (\<open>events.py\<close>): the event types with their wire names and the
  envelope with its default factories.
\<close>

datatype EventType =
    PAYMENT_CREATED | PAYMENT_PROCESSING | PAYMENT_SUCCEEDED | PAYMENT_FAILED | PAYMENT_REFUNDED
  | PROVIDER_CIRCUIT_OPENED | PROVIDER_CIRCUIT_CLOSED

fun event_type_value :: "EventType \<Rightarrow> string" where
  "event_type_value PAYMENT_CREATED = ''payment.created''"
| "event_type_value PAYMENT_PROCESSING = ''payment.processing''"
| "event_type_value PAYMENT_SUCCEEDED = ''payment.succeeded''"
| "event_type_value PAYMENT_FAILED = ''payment.failed''"
| "event_type_value PAYMENT_REFUNDED = ''payment.refunded''"
| "event_type_value PROVIDER_CIRCUIT_OPENED = ''provider.circuit_opened''"
| "event_type_value PROVIDER_CIRCUIT_CLOSED = ''provider.circuit_closed''"

text \<open>\<open>EventType(value)\<close> looks a member up by its value.\<close>

definition event_type_of :: "string \<Rightarrow> EventType res" where
  "event_type_of v =
     (case find (\<lambda>t. event_type_value t = v)
             [PAYMENT_CREATED, PAYMENT_PROCESSING, PAYMENT_SUCCEEDED, PAYMENT_FAILED, PAYMENT_REFUNDED,
              PROVIDER_CIRCUIT_OPENED, PROVIDER_CIRCUIT_CLOSED] of
        Some t \<Rightarrow> Inr t | None \<Rightarrow> Inl (ValueError (v @ '' is not a valid EventType'')))"

lemma event_type_of_value [simp]: "event_type_of (event_type_value t) = Inr t"
  by (cases t) (simp_all add: event_type_of_def)

text \<open>The payload is a JSON object.\<close>

record EventEnvelope =
  evt_type :: EventType
  evt_merchant_id :: string
  evt_aggregate_id :: "uuid option"
  evt_payload :: "(string, json) dict"
  evt_provider :: "string option"
  evt_version :: int
  evt_id :: uuid
  evt_occurred_at :: datetime

definition new_EventEnvelope ::
  "EventType \<Rightarrow> string \<Rightarrow> uuid option \<Rightarrow> (string, json) dict \<Rightarrow> string option \<Rightarrow> world \<Rightarrow>
   EventEnvelope \<times> world" where
  "new_EventEnvelope event_type merchant_id aggregate_id payload provider w =
     (let (i, w1) = uuid4 w; (now, w2) = utcnow w1
      in (\<lparr>evt_type = event_type, evt_merchant_id = merchant_id, evt_aggregate_id = aggregate_id,
           evt_payload = payload, evt_provider = provider, evt_version = 1, evt_id = i,
           evt_occurred_at = now\<rparr>, w2))"

lemma new_EventEnvelope_world [simp, intro]: "world_le w (snd (new_EventEnvelope t m a p pr w))"
  by (simp add: new_EventEnvelope_def world_le_def uuid4_def utcnow_def)

lemma new_EventEnvelope_fields:
  "new_EventEnvelope t m a p pr w = (e, w') \<Longrightarrow>
   evt_type e = t \<and> evt_merchant_id e = m \<and> evt_aggregate_id e = a \<and> evt_payload e = p \<and>
   evt_provider e = pr \<and> evt_version e = 1 \<and> evt_id e = uuid_at w (tick w) \<and> tick w' = tick w + 2"
  by (auto simp: new_EventEnvelope_def uuid4_def utcnow_def Let_def)

end
