(* ===== verification/Store.thy ===== *)
theory Store
  imports Events
begin

text \<open>
  The in-memory payment store (\<open>store.py\<close>) and the two protocols it implements: the
  payment repository (\<open>repositories.py\<close>) and the outbox repository (\<open>outbox.py\<close>),
  each a locale with the laws its clients use, interpreted on the store.

  Every method body runs under the store's one lock without suspending, so each is one
  atomic function of the store.
\<close>

subsection \<open>The store\<close>

record InMemoryPaymentStore =
  sto_payments :: "(uuid, Payment) dict"
  sto_keys :: "(string \<times> string, uuid) dict"
  sto_events :: "(uuid, EventEnvelope) dict"
  sto_published :: "uuid set"

definition new_InMemoryPaymentStore :: InMemoryPaymentStore where
  "new_InMemoryPaymentStore = \<lparr>sto_payments = [], sto_keys = [], sto_events = [], sto_published = {}\<rparr>"

definition get_by_idempotency :: "string \<Rightarrow> string \<Rightarrow> InMemoryPaymentStore \<Rightarrow> Payment option" where
  "get_by_idempotency merchant_id key s =
     (case map_of (sto_keys s) (merchant_id, key) of
        None \<Rightarrow> None
      | Some payment_id \<Rightarrow> map_of (sto_payments s) payment_id)"

definition save :: "Payment \<Rightarrow> InMemoryPaymentStore \<Rightarrow> InMemoryPaymentStore" where
  "save payment s = s\<lparr>
     sto_payments := AList.update (pay_id payment) payment (sto_payments s),
     sto_keys := AList.update (pay_merchant_id payment, pay_idempotency_key payment)
                   (pay_id payment) (sto_keys s)\<rparr>"

definition append_events :: "EventEnvelope list \<Rightarrow> InMemoryPaymentStore \<Rightarrow> InMemoryPaymentStore" where
  "append_events events s =
     s\<lparr>sto_events := fold (\<lambda>e d. AList.update (evt_id e) e d) events (sto_events s)\<rparr>"

definition save_with_events ::
  "Payment \<Rightarrow> EventEnvelope list \<Rightarrow> InMemoryPaymentStore \<Rightarrow> InMemoryPaymentStore" where
  "save_with_events payment events s =
     (let s1 = s\<lparr>
        sto_payments := AList.update (pay_id payment) payment (sto_payments s),
        sto_keys := AList.update (pay_merchant_id payment, pay_idempotency_key payment)
                      (pay_id payment) (sto_keys s)\<rparr>
      in s1\<lparr>sto_events := fold (\<lambda>e d. AList.update (evt_id e) e d) events (sto_events s1)\<rparr>)"

text \<open>Python's \<open>xs[:limit]\<close>; a negative limit counts from the end.\<close>

definition py_prefix :: "int \<Rightarrow> 'a list \<Rightarrow> 'a list" where
  "py_prefix limit xs =
     (if 0 \<le> limit then take (nat limit) xs else take (nat (int (length xs) + limit)) xs)"

definition unsent :: "int \<Rightarrow> InMemoryPaymentStore \<Rightarrow> EventEnvelope list" where
  "unsent limit s =
     py_prefix limit (map snd (filter (\<lambda>(event_id, event). event_id \<notin> sto_published s) (sto_events s)))"

definition mark_published :: "uuid \<Rightarrow> InMemoryPaymentStore \<Rightarrow> InMemoryPaymentStore" where
  "mark_published event_id s =
     (if event_id \<in> fst ` set (sto_events s)
      then s\<lparr>sto_published := insert event_id (sto_published s)\<rparr> else s)"

definition get :: "uuid \<Rightarrow> InMemoryPaymentStore \<Rightarrow> Payment option" where
  "get payment_id s = map_of (sto_payments s) payment_id"

definition list_filter ::
  "string option \<Rightarrow> string option \<Rightarrow> datetime option \<Rightarrow> datetime option \<Rightarrow> Payment \<Rightarrow> bool" where
  "list_filter merchant_id status created_after created_before p \<longleftrightarrow>
     (case merchant_id of None \<Rightarrow> True | Some m \<Rightarrow> pay_merchant_id p = m) \<and>
     (case status of None \<Rightarrow> True | Some st \<Rightarrow> status_value (pay_status p) = st) \<and>
     (case created_after of None \<Rightarrow> True | Some t \<Rightarrow> t \<le> pay_created_at p) \<and>
     (case created_before of None \<Rightarrow> True | Some t \<Rightarrow> pay_created_at p \<le> t)"

definition list_payments ::
  "string option \<Rightarrow> string option \<Rightarrow> datetime option \<Rightarrow> datetime option \<Rightarrow>
   InMemoryPaymentStore \<Rightarrow> Payment list" where
  "list_payments merchant_id status created_after created_before s =
     filter (list_filter merchant_id status created_after created_before) (map snd (sto_payments s))"

subsection \<open>Invariant\<close>

definition key_of :: "Payment \<Rightarrow> string \<times> string" where
  "key_of p = (pay_merchant_id p, pay_idempotency_key p)"

text \<open>
  Payments are filed under their own identifier, the key index and the payments are each
  other's inverse, events are filed under their own identifier, only known events are
  published.
\<close>

definition index_ok :: "(uuid \<rightharpoonup> Payment) \<Rightarrow> (string \<times> string \<rightharpoonup> uuid) \<Rightarrow> bool" where
  "index_ok pays keys \<longleftrightarrow>
     (\<forall>i p. pays i = Some p \<longrightarrow> pay_id p = i \<and> keys (key_of p) = Some i) \<and>
     (\<forall>mk i. keys mk = Some i \<longrightarrow> (\<exists>p. pays i = Some p \<and> key_of p = mk))"

definition store_inv :: "InMemoryPaymentStore \<Rightarrow> bool" where
  "store_inv s \<longleftrightarrow> dict_ok (sto_payments s) \<and> dict_ok (sto_keys s) \<and> dict_ok (sto_events s) \<and>
     index_ok (map_of (sto_payments s)) (map_of (sto_keys s)) \<and>
     (\<forall>(i, e) \<in> set (sto_events s). evt_id e = i) \<and>
     sto_published s \<subseteq> fst ` set (sto_events s)"

text \<open>
  A payment may be saved if it is new and its key is free, or if it replaces the payment
  with its identifier and keeps the key.
\<close>

definition can_save :: "InMemoryPaymentStore \<Rightarrow> Payment \<Rightarrow> bool" where
  "can_save s p \<longleftrightarrow>
     (case get (pay_id p) s of
        None \<Rightarrow> get_by_idempotency (pay_merchant_id p) (pay_idempotency_key p) s = None
      | Some q \<Rightarrow> key_of q = key_of p)"

text \<open>The events that wait for publication, in the order of their insertion.\<close>

definition pending :: "InMemoryPaymentStore \<Rightarrow> EventEnvelope list" where
  "pending s = map snd (filter (\<lambda>(i, e). i \<notin> sto_published s) (sto_events s))"

definition known_events :: "InMemoryPaymentStore \<Rightarrow> uuid set" where
  "known_events s = fst ` set (sto_events s)"

subsection \<open>The repository protocols\<close>

locale payment_repository =
  fixes sv :: "Payment \<Rightarrow> 's \<Rightarrow> 's"
    and gt :: "uuid \<Rightarrow> 's \<Rightarrow> Payment option"
    and gk :: "string \<Rightarrow> string \<Rightarrow> 's \<Rightarrow> Payment option"
    and ls :: "string option \<Rightarrow> string option \<Rightarrow> datetime option \<Rightarrow> datetime option \<Rightarrow> 's \<Rightarrow> Payment list"
    and ok :: "'s \<Rightarrow> Payment \<Rightarrow> bool"
    and invar :: "'s \<Rightarrow> bool"
  assumes ok_def: "ok s p \<longleftrightarrow> (case gt (pay_id p) s of
        None \<Rightarrow> gk (pay_merchant_id p) (pay_idempotency_key p) s = None
      | Some q \<Rightarrow> key_of q = key_of p)"
    and sv_invar: "invar s \<Longrightarrow> ok s p \<Longrightarrow> invar (sv p s)"
    and gt_sv: "gt i (sv p s) = (if i = pay_id p then Some p else gt i s)"
    and gk_sv: "invar s \<Longrightarrow> ok s p \<Longrightarrow>
      gk m k (sv p s) = (if (m, k) = key_of p then Some p else gk m k s)"
    and gt_id: "invar s \<Longrightarrow> gt i s = Some p \<Longrightarrow>
      pay_id p = i \<and> gk (pay_merchant_id p) (pay_idempotency_key p) s = Some p"
    and gk_key: "invar s \<Longrightarrow> gk m k s = Some p \<Longrightarrow> key_of p = (m, k) \<and> gt (pay_id p) s = Some p"
    and ls_set: "invar s \<Longrightarrow>
      set (ls fm fs fa fb s) = {p. (\<exists>i. gt i s = Some p) \<and> list_filter fm fs fa fb p}"
begin

text \<open>A merchant's idempotency key names at most one payment.\<close>

lemma key_unique:
  assumes "invar s" "gt i s = Some p" "gt j s = Some q" "key_of p = key_of q"
  shows "i = j \<and> p = q"
proof -
  note p = gt_id [OF assms(1,2)] and q = gt_id [OF assms(1,3)]
  have "Some p = Some q" using p q assms(4) unfolding key_of_def by (metis prod.inject)
  with p q show ?thesis by blast
qed

text \<open>A payment that was read may be written back with its identity unchanged.\<close>

lemma write_back:
  assumes "invar s" "gt i s = Some p" "pay_id q = pay_id p" "key_of q = key_of p"
  shows "ok s q \<and> invar (sv q s) \<and> gt i (sv q s) = Some q \<and>
    (\<forall>j. j \<noteq> i \<longrightarrow> gt j (sv q s) = gt j s)"
proof -
  have i: "pay_id q = i" using gt_id [OF assms(1,2)] assms(3) by simp
  then have "ok s q" using assms by (simp add: ok_def)
  then show ?thesis using i sv_invar [OF assms(1)] gt_sv by auto
qed

text \<open>A new payment under a free key is found by its identifier and by its key.\<close>

lemma read_your_write:
  assumes "invar s" "gt (pay_id p) s = None" "gk (pay_merchant_id p) (pay_idempotency_key p) s = None"
  shows "invar (sv p s) \<and> gt (pay_id p) (sv p s) = Some p \<and>
    gk (pay_merchant_id p) (pay_idempotency_key p) (sv p s) = Some p"
proof -
  have "ok s p" using assms by (simp add: ok_def)
  then show ?thesis using sv_invar [OF assms(1)] gt_sv gk_sv [OF assms(1)] by (simp add: key_of_def)
qed

end

locale outbox_repository =
  fixes app :: "EventEnvelope list \<Rightarrow> 'o \<Rightarrow> 'o"
    and uns :: "int \<Rightarrow> 'o \<Rightarrow> EventEnvelope list"
    and mrk :: "uuid \<Rightarrow> 'o \<Rightarrow> unit res \<times> 'o"
    and pend :: "'o \<Rightarrow> EventEnvelope list"
    and known :: "'o \<Rightarrow> uuid set"
    and invar :: "'o \<Rightarrow> bool"
  assumes app_invar: "invar s \<Longrightarrow> invar (app es s)"
    and mrk_invar: "invar s \<Longrightarrow> invar (snd (mrk i s))"
    and app_known: "known (app es s) = known s \<union> evt_id ` set es"
    and app_pend: "invar s \<Longrightarrow> distinct (map evt_id es) \<Longrightarrow> known s \<inter> evt_id ` set es = {} \<Longrightarrow>
      pend (app es s) = pend s @ es"
    and uns_pend: "0 \<le> limit \<Longrightarrow> uns limit s = take (nat limit) (pend s)"
    and mrk_pend: "invar s \<Longrightarrow> mrk i s = (Inr (), s') \<Longrightarrow> pend s' = filter (\<lambda>e. evt_id e \<noteq> i) (pend s)"
    and mrk_fails: "invar s \<Longrightarrow> mrk i s = (Inl x, s') \<Longrightarrow> pend s' = pend s"
    and mrk_known: "known (snd (mrk i s)) = known s"
    and pend_known: "invar s \<Longrightarrow> evt_id ` set (pend s) \<subseteq> known s"
    and pend_distinct: "invar s \<Longrightarrow> distinct (map evt_id (pend s))"
begin

text \<open>Marking the oldest pending event leaves the others in their order.\<close>

lemma mark_head:
  assumes "invar s" "pend s = e # es" "mrk (evt_id e) s = (Inr (), s')"
  shows "pend s' = es"
proof -
  have "evt_id e \<notin> evt_id ` set es" using pend_distinct [OF assms(1)] assms(2) by auto
  then have "filter (\<lambda>x. evt_id x \<noteq> evt_id e) es = es" by (auto simp: filter_id_conv image_iff)
  then show ?thesis using mrk_pend [OF assms(1,3)] assms(2) by simp
qed

end

subsection \<open>The store keeps the contracts\<close>

lemma new_store_inv: "store_inv new_InMemoryPaymentStore"
  by (simp add: store_inv_def new_InMemoryPaymentStore_def index_ok_def)

lemma save_with_events_eq: "save_with_events p es s = append_events es (save p s)"
  by (simp add: save_with_events_def save_def append_events_def)

lemma get_save [simp]: "get i (save p s) = (if i = pay_id p then Some p else get i s)"
  by (simp add: get_def save_def dict_simps)

lemma get_append [simp]: "get i (append_events es s) = get i s"
  by (simp add: get_def append_events_def)

lemma get_by_idempotency_append [simp]:
  "get_by_idempotency m k (append_events es s) = get_by_idempotency m k s"
  by (simp add: get_by_idempotency_def append_events_def split: option.split)

lemma pending_save [simp]: "pending (save p s) = pending s"
  by (simp add: pending_def save_def)

lemma known_events_save [simp]: "known_events (save p s) = known_events s"
  by (simp add: known_events_def save_def)

lemma index_okD:
  assumes "index_ok pays keys"
  shows "pays i = Some p \<Longrightarrow> pay_id p = i" "pays i = Some p \<Longrightarrow> keys (key_of p) = Some i"
    "keys mk = Some i \<Longrightarrow> \<exists>p. pays i = Some p \<and> key_of p = mk"
  using assms unfolding index_ok_def by blast+

lemma index_ok_insert:
  assumes "index_ok pays keys"
    and "case pays (pay_id p) of None \<Rightarrow> keys (key_of p) = None | Some q \<Rightarrow> key_of q = key_of p"
  shows "index_ok (pays(pay_id p \<mapsto> p)) (keys(key_of p \<mapsto> pay_id p))"
  unfolding index_ok_def
proof (intro conjI allI impI)
  note I = index_okD [OF assms(1)]
  have key: "keys (key_of p) = Some i \<Longrightarrow> i = pay_id p" for i
    using assms(2) I(2) [of "pay_id p"] by (auto split: option.splits)
  fix i q assume q: "(pays(pay_id p \<mapsto> p)) i = Some q"
  show "pay_id q = i" using q I(1) by (auto split: if_splits)
  show "(keys(key_of p \<mapsto> pay_id p)) (key_of q) = Some i"
    using q I(2) [of i q] key by (auto split: if_splits)
next
  note I = index_okD [OF assms(1)]
  fix mk i assume k: "(keys(key_of p \<mapsto> pay_id p)) mk = Some i"
  show "\<exists>q. (pays(pay_id p \<mapsto> p)) i = Some q \<and> key_of q = mk"
  proof (cases "mk = key_of p")
    case True
    then show ?thesis using k by simp
  next
    case False
    then have "keys mk = Some i" using k by simp
    then obtain q where q: "pays i = Some q" "key_of q = mk" using I(3) by blast
    then have "i \<noteq> pay_id p" using False assms(2) by auto
    then show ?thesis using q by auto
  qed
qed

lemma map_of_update: "map_of (AList.update k v d) = (map_of d)(k \<mapsto> v)"
  by (rule AList.update_conv')

lemma store_inv_index: "store_inv s \<Longrightarrow> index_ok (map_of (sto_payments s)) (map_of (sto_keys s))"
  by (simp add: store_inv_def)

lemma get_by_idempotency_key:
  assumes "store_inv s"
  shows "get_by_idempotency m k s = None \<longleftrightarrow> map_of (sto_keys s) (m, k) = None"
proof (cases "map_of (sto_keys s) (m, k)")
  case None
  then show ?thesis by (simp add: get_by_idempotency_def)
next
  case (Some i)
  obtain p where "map_of (sto_payments s) i = Some p"
    using index_okD(3) [OF store_inv_index [OF assms] Some] by blast
  then show ?thesis using Some by (simp add: get_by_idempotency_def)
qed

lemma save_inv:
  assumes "store_inv s" "can_save s p"
  shows "store_inv (save p s)"
proof -
  have "case map_of (sto_payments s) (pay_id p) of
      None \<Rightarrow> map_of (sto_keys s) (key_of p) = None | Some q \<Rightarrow> key_of q = key_of p"
    using assms(2) get_by_idempotency_key [OF assms(1)]
    by (simp add: can_save_def get_def key_of_def split: option.splits)
  from index_ok_insert [OF store_inv_index [OF assms(1)] this]
  have "index_ok (map_of (sto_payments (save p s))) (map_of (sto_keys (save p s)))"
    by (simp add: save_def map_of_update key_of_def)
  then show ?thesis using assms(1) by (simp add: store_inv_def save_def AList.distinct_update)
qed

lemma get_by_idempotency_save:
  assumes "store_inv s" "can_save s p"
  shows "get_by_idempotency m k (save p s) = (if (m, k) = key_of p then Some p else get_by_idempotency m k s)"
proof (cases "(m, k) = key_of p")
  case True
  then show ?thesis by (simp add: get_by_idempotency_def save_def map_of_update key_of_def)
next
  case False
  have "pay_id p \<noteq> i" if k: "map_of (sto_keys s) (m, k) = Some i" for i
  proof
    assume i: "pay_id p = i"
    obtain q where "map_of (sto_payments s) i = Some q" "key_of q = (m, k)"
      using index_okD(3) [OF store_inv_index [OF assms(1)] k] by blast
    then show False using assms(2) False i by (simp add: can_save_def get_def)
  qed
  then show ?thesis
    using False by (auto simp: get_by_idempotency_def save_def map_of_update key_of_def split: option.split)
qed

interpretation in_memory: payment_repository save get get_by_idempotency list_payments can_save store_inv
proof unfold_locales
  fix s p i m k q fm fs fa fb
  show "can_save s p \<longleftrightarrow> (case get (pay_id p) s of
        None \<Rightarrow> get_by_idempotency (pay_merchant_id p) (pay_idempotency_key p) s = None
      | Some q \<Rightarrow> key_of q = key_of p)" by (rule can_save_def)
  show "get i (save p s) = (if i = pay_id p then Some p else get i s)" by simp
  assume inv: "store_inv s"
  note idx = store_inv_index [OF inv]
  show "store_inv (save p s)" if "can_save s p" using inv that by (rule save_inv)
  show "get_by_idempotency m k (save p s) = (if (m, k) = key_of p then Some p else get_by_idempotency m k s)"
    if "can_save s p" using inv that by (rule get_by_idempotency_save)
  show "pay_id p = i \<and> get_by_idempotency (pay_merchant_id p) (pay_idempotency_key p) s = Some p"
    if "get i s = Some p"
    using that index_okD(1,2) [OF idx, of i p] by (simp add: get_def get_by_idempotency_def key_of_def)
  show "key_of p = (m, k) \<and> get (pay_id p) s = Some p" if g: "get_by_idempotency m k s = Some p"
  proof -
    obtain i where i: "map_of (sto_keys s) (m, k) = Some i" "map_of (sto_payments s) i = Some p"
      using g by (auto simp: get_by_idempotency_def split: option.splits)
    then show ?thesis using index_okD(1) [OF idx i(2)] index_okD(3) [OF idx i(1)] by (auto simp: get_def)
  qed
  have d: "dict_ok (sto_payments s)" using inv by (simp add: store_inv_def)
  then have "set (map snd (sto_payments s)) = {p. \<exists>i. get i s = Some p}"
    by (force simp: get_def)
  then show "set (list_payments fm fs fa fb s) = {p. (\<exists>i. get i s = Some p) \<and> list_filter fm fs fa fb p}"
    by (auto simp: list_payments_def)
qed

lemma fold_update_keys:
  "fst ` set (fold (\<lambda>e d. AList.update (evt_id e) e d) es d) = fst ` set d \<union> evt_id ` set es"
  by (induction es arbitrary: d) (auto simp: dict_keys_update)

lemma fold_update_dict_ok: "dict_ok d \<Longrightarrow> dict_ok (fold (\<lambda>e d. AList.update (evt_id e) e d) es d)"
  by (induction es arbitrary: d) (auto intro: dict_ok_update)

lemma set_dict_update: "set (AList.update k v d) \<subseteq> insert (k, v) (set d)"
  by (induction d) auto

lemma fold_update_ids:
  "\<forall>(i, e) \<in> set d. evt_id e = i \<Longrightarrow>
   \<forall>(i, e) \<in> set (fold (\<lambda>e d. AList.update (evt_id e) e d) es d). evt_id e = i"
proof (induction es arbitrary: d)
  case (Cons e es)
  have "\<forall>(i, e) \<in> set (AList.update (evt_id e) e d). evt_id e = i"
    using Cons.prems set_dict_update [of "evt_id e" e d] by fastforce
  then show ?case using Cons.IH by simp
qed simp

lemma fold_update_new:
  "distinct (map evt_id es) \<Longrightarrow> fst ` set d \<inter> evt_id ` set es = {} \<Longrightarrow>
   fold (\<lambda>e d. AList.update (evt_id e) e d) es d = d @ map (\<lambda>e. (evt_id e, e)) es"
proof (induction es arbitrary: d)
  case (Cons e es)
  have "AList.update (evt_id e) e d = d @ [(evt_id e, e)]"
    using Cons.prems by (intro dict_update_new) auto
  moreover have "fst ` set (d @ [(evt_id e, e)]) \<inter> evt_id ` set es = {}" using Cons.prems by auto
  ultimately show ?case using Cons.IH [of "d @ [(evt_id e, e)]"] Cons.prems by simp
qed simp

lemma append_inv: "store_inv s \<Longrightarrow> store_inv (append_events es s)"
  using fold_update_ids [of "sto_events s" es] fold_update_dict_ok [of "sto_events s" es]
  by (auto simp: store_inv_def append_events_def fold_update_keys)

lemma mark_published_inv: "store_inv s \<Longrightarrow> store_inv (mark_published i s)"
  by (auto simp: store_inv_def mark_published_def)

lemma pending_ids: "store_inv s \<Longrightarrow> map evt_id (pending s) = filter (\<lambda>i. i \<notin> sto_published s) (map fst (sto_events s))"
  unfolding pending_def store_inv_def
  by (induction "sto_events s") (auto simp: filter_map comp_def case_prod_beta intro!: map_cong filter_cong)

lemma pending_append:
  assumes "store_inv s" "distinct (map evt_id es)" "known_events s \<inter> evt_id ` set es = {}"
  shows "pending (append_events es s) = pending s @ es"
proof -
  have "evt_id e \<notin> sto_published s" if "e \<in> set es" for e
    using assms that by (auto simp: store_inv_def known_events_def)
  then have "filter (\<lambda>(i, e). i \<notin> sto_published s) (map (\<lambda>e. (evt_id e, e)) es) = map (\<lambda>e. (evt_id e, e)) es"
    by (auto simp: filter_id_conv)
  then show ?thesis
    using fold_update_new [OF assms(2), of "sto_events s"] assms(3)
    by (simp add: pending_def append_events_def known_events_def comp_def)
qed

lemma pending_mark:
  assumes "store_inv s"
  shows "pending (mark_published i s) = filter (\<lambda>e. evt_id e \<noteq> i) (pending s)"
proof -
  have ids: "\<forall>(j, e) \<in> set (sto_events s). evt_id e = j" using assms by (simp add: store_inv_def)
  show ?thesis
  proof (cases "i \<in> known_events s")
    case True
    then show ?thesis
      using ids by (auto simp: pending_def mark_published_def known_events_def filter_map comp_def
          case_prod_beta intro!: arg_cong [where f = "map snd"] filter_cong)
  next
    case False
    have "evt_id e \<noteq> i" if "e \<in> set (pending s)" for e
      using that False ids by (force simp: pending_def known_events_def)
    then show ?thesis using False by (simp add: mark_published_def known_events_def filter_id_conv)
  qed
qed

text \<open>Marking never raises in memory.\<close>

definition mark_published_op :: "uuid \<Rightarrow> InMemoryPaymentStore \<Rightarrow> unit res \<times> InMemoryPaymentStore" where
  "mark_published_op event_id s = (Inr (), mark_published event_id s)"

interpretation in_memory_outbox:
  outbox_repository append_events unsent mark_published_op pending known_events store_inv
proof unfold_locales
  fix s s' es i limit x
  show "known_events (append_events es s) = known_events s \<union> evt_id ` set es"
    by (simp add: known_events_def append_events_def fold_update_keys)
  show "unsent limit s = take (nat limit) (pending s)" if "0 \<le> limit"
    using that by (simp add: unsent_def py_prefix_def pending_def)
  show "known_events (snd (mark_published_op i s)) = known_events s"
    by (simp add: known_events_def mark_published_op_def mark_published_def)
  assume inv: "store_inv s"
  show "store_inv (append_events es s)" using inv by (rule append_inv)
  show "store_inv (snd (mark_published_op i s))" using mark_published_inv [OF inv] by (simp add: mark_published_op_def)
  show "pending (append_events es s) = pending s @ es"
    if "distinct (map evt_id es)" "known_events s \<inter> evt_id ` set es = {}"
    using inv that by (rule pending_append)
  show "pending s' = filter (\<lambda>e. evt_id e \<noteq> i) (pending s)" if "mark_published_op i s = (Inr (), s')"
    using that pending_mark [OF inv] by (auto simp: mark_published_op_def)
  show "pending s' = pending s" if "mark_published_op i s = (Inl x, s')"
    using that by (simp add: mark_published_op_def)
  show "evt_id ` set (pending s) \<subseteq> known_events s"
    using inv by (force simp: pending_def known_events_def store_inv_def)
  show "distinct (map evt_id (pending s))"
    using pending_ids [OF inv] inv by (simp add: store_inv_def)
qed

subsection \<open>Properties\<close>

text \<open>
  The store keeps its two indexes in step: saving a new payment under a free key, or an
  updated payment that keeps its identifier and key, preserves the invariant, is read back
  by identifier and by key, leaves every other payment as it was, and with its events it
  extends the pending outbox by exactly those events in their order.
\<close>

lemma save_with_events_spec:
  assumes "store_inv s" "can_save s p"
    and "distinct (map evt_id es)" "known_events s \<inter> evt_id ` set es = {}"
  shows "let t = save_with_events p es s in
    store_inv t \<and> get (pay_id p) t = Some p \<and>
    get_by_idempotency (pay_merchant_id p) (pay_idempotency_key p) t = Some p \<and>
    (\<forall>i. i \<noteq> pay_id p \<longrightarrow> get i t = get i s) \<and> pending t = pending s @ es"
proof -
  have inv: "store_inv (save p s)" using in_memory.sv_invar assms(1,2) .
  have "pending (append_events es (save p s)) = pending (save p s) @ es"
    using inv assms(3,4) by (intro in_memory_outbox.app_pend) simp_all
  then show ?thesis
    using append_inv [OF inv] in_memory.gk_sv [OF assms(1,2)]
    by (simp add: Let_def save_with_events_eq key_of_def)
qed

definition sample_payment :: Payment where
  "sample_payment =
     (fst (new_Payment ''m'' 100 ''INR'' ''card'' ''k'' ''fp'' sample_world))\<lparr>pay_status := SUCCEEDED\<rparr>"

text \<open>
  Listing returns exactly the stored payments that pass every given filter, each once,
  and two stored payments never share a merchant and idempotency key.
\<close>

lemma list_payments_spec:
  assumes "store_inv s"
  shows "set (list_payments fm fs fa fb s) = {p. (\<exists>i. get i s = Some p) \<and> list_filter fm fs fa fb p} \<and>
    distinct (list_payments fm fs fa fb s) \<and>
    (\<forall>i j p q. get i s = Some p \<and> get j s = Some q \<and> key_of p = key_of q \<longrightarrow> i = j)"
proof -
  have d: "dict_ok (sto_payments s)" using assms by (simp add: store_inv_def)
  have "inj_on snd (set (sto_payments s))"
  proof (rule inj_onI)
    fix x y assume xy: "x \<in> set (sto_payments s)" "y \<in> set (sto_payments s)" "snd x = snd y"
    have "get (fst x) s = Some (snd x)" "get (fst y) s = Some (snd y)"
      using xy(1,2) d by (simp_all add: get_def)
    then show "x = y" using in_memory.gt_id [OF assms] xy(3) by (metis prod.expand)
  qed
  then have "distinct (map snd (sto_payments s))" using d by (simp add: distinct_map)
  then have "distinct (list_payments fm fs fa fb s)" by (simp add: list_payments_def)
  then show ?thesis using in_memory.ls_set [OF assms] in_memory.key_unique [OF assms] by blast
qed

end
