(* ===== verification/Outbox.thy ===== *)
theory Outbox
  imports Store "HOL-Library.Sublist"
begin

text \<open>
  Event delivery (\<open>outbox.py\<close>, \<open>consumers.py\<close>): the in-memory broker, the outbox
  dispatcher with its bounded retries, its worker loop and life cycle, and the
  deduplicating consumer. The dispatcher is generic in the outbox and the broker, as in
  the source; what it promises is proved once for every pair that keeps the two contracts.
\<close>

subsection \<open>Broker\<close>

record InMemoryBroker =
  brk_events :: "EventEnvelope list"
  brk_unavailable :: bool

definition new_InMemoryBroker :: InMemoryBroker where
  "new_InMemoryBroker = \<lparr>brk_events = [], brk_unavailable = False\<rparr>"

definition publish :: "EventEnvelope \<Rightarrow> InMemoryBroker \<Rightarrow> unit res \<times> InMemoryBroker" where
  "publish event b =
     (if brk_unavailable b then (Inl (BrokerUnavailable ''Simulated broker outage''), b)
      else (Inr (), b\<lparr>brk_events := brk_events b @ [event]\<rparr>))"

subsection \<open>Dispatcher\<close>

datatype worker_task = Running | Finished

record OutboxDispatcher =
  dsp_poll_interval_seconds :: real
  dsp_max_attempts :: int
  dsp_initial_backoff_seconds :: real
  dsp_max_backoff_seconds :: real
  dsp_stop :: bool
  dsp_task :: "worker_task option"

definition new_OutboxDispatcher :: "real \<Rightarrow> int \<Rightarrow> real \<Rightarrow> real \<Rightarrow> OutboxDispatcher res" where
  "new_OutboxDispatcher poll attempts initial maximum =
     (if poll \<le> 0 \<or> attempts < 1 \<or> initial < 0 \<or> maximum < 0
      then Inl (ValueError ''Outbox worker timing and attempts must be non-negative and bounded'')
      else Inr \<lparr>dsp_poll_interval_seconds = poll, dsp_max_attempts = attempts,
                dsp_initial_backoff_seconds = initial, dsp_max_backoff_seconds = maximum,
                dsp_stop = False, dsp_task = None\<rparr>)"

type_synonym ('o, 'b) publish_state = "'o \<times> 'b \<times> world"

text \<open>The body of the inner \<open>try\<close>: publish, then mark.\<close>

definition publish_and_mark ::
  "(uuid \<Rightarrow> 'o \<Rightarrow> unit res \<times> 'o) \<Rightarrow> (EventEnvelope \<Rightarrow> 'b \<Rightarrow> unit res \<times> 'b) \<Rightarrow> EventEnvelope \<Rightarrow>
   'o \<Rightarrow> 'b \<Rightarrow> unit res \<times> 'o \<times> 'b" where
  "publish_and_mark mrk pub event ob br =
     (case pub event br of
        (Inl e, br1) \<Rightarrow> (Inl e, ob, br1)
      | (Inr _, br1) \<Rightarrow> (let (r, ob1) = mrk (evt_id event) ob in (r, ob1, br1)))"

text \<open>
  The inner loop: \<open>left\<close> iterations of \<open>range(max_attempts)\<close> remain. The result is
  whether the event was published and the last error, or the \<open>BaseException\<close> that
  \<open>except Exception\<close> lets pass.
\<close>

fun publish_event ::
  "(uuid \<Rightarrow> 'o \<Rightarrow> unit res \<times> 'o) \<Rightarrow> (EventEnvelope \<Rightarrow> 'b \<Rightarrow> unit res \<times> 'b) \<Rightarrow> OutboxDispatcher \<Rightarrow>
   EventEnvelope \<Rightarrow> nat \<Rightarrow> nat \<Rightarrow> exn option \<Rightarrow> ('o, 'b) publish_state \<Rightarrow>
   (bool \<times> exn option) res \<times> ('o, 'b) publish_state" where
  "publish_event mrk pub d event 0 attempt last_error st = (Inr (False, last_error), st)"
| "publish_event mrk pub d event (Suc left) attempt last_error (ob, br, w) =
     (case publish_and_mark mrk pub event ob br of
        (Inr _, ob1, br1) \<Rightarrow> (Inr (True, None), (ob1, br1, w))
      | (Inl e, ob1, br1) \<Rightarrow>
          if \<not> is_Exception e then (Inl e, (ob1, br1, w))
          else if int attempt = dsp_max_attempts d - 1 then (Inr (False, Some e), (ob1, br1, w))
          else publish_event mrk pub d event left (attempt + 1) (Some e)
                 (ob1, br1, sleep (min (dsp_max_backoff_seconds d)
                                     (dsp_initial_backoff_seconds d * 2 ^ attempt)) w))"

fun dispatch_events ::
  "(uuid \<Rightarrow> 'o \<Rightarrow> unit res \<times> 'o) \<Rightarrow> (EventEnvelope \<Rightarrow> 'b \<Rightarrow> unit res \<times> 'b) \<Rightarrow> OutboxDispatcher \<Rightarrow>
   EventEnvelope list \<Rightarrow> int \<Rightarrow> ('o, 'b) publish_state \<Rightarrow> int res \<times> ('o, 'b) publish_state" where
  "dispatch_events mrk pub d [] published st = (Inr published, st)"
| "dispatch_events mrk pub d (event # events) published st =
     (case publish_event mrk pub d event (nat (dsp_max_attempts d)) 0 None st of
        (Inl e, st1) \<Rightarrow> (Inl e, st1)
      | (Inr (ok, Some e), st1) \<Rightarrow> (Inl e, st1)
      | (Inr (ok, None), st1) \<Rightarrow>
          dispatch_events mrk pub d events (if ok then published + 1 else published) st1)"

definition dispatch_once ::
  "(int \<Rightarrow> 'o \<Rightarrow> EventEnvelope list) \<Rightarrow> (uuid \<Rightarrow> 'o \<Rightarrow> unit res \<times> 'o) \<Rightarrow>
   (EventEnvelope \<Rightarrow> 'b \<Rightarrow> unit res \<times> 'b) \<Rightarrow> OutboxDispatcher \<Rightarrow> int \<Rightarrow>
   ('o, 'b) publish_state \<Rightarrow> int res \<times> ('o, 'b) publish_state" where
  "dispatch_once uns mrk pub d limit st = dispatch_events mrk pub d (uns limit (fst st)) 0 st"

text \<open>
  \<open>run\<close>: rounds until the stop event is seen set. \<open>stops\<close> says, for each time the loop
  head is reached, whether it is set by then; between rounds the worker waits for the event
  with a timeout, which has no effect of its own. The result tells whether the loop ended
  by the stop event (\<open>Inr\<close>), was cancelled (\<open>Inl\<close>), or still runs (\<open>None\<close>).
\<close>

fun run_worker ::
  "(int \<Rightarrow> 'o \<Rightarrow> EventEnvelope list) \<Rightarrow> (uuid \<Rightarrow> 'o \<Rightarrow> unit res \<times> 'o) \<Rightarrow>
   (EventEnvelope \<Rightarrow> 'b \<Rightarrow> unit res \<times> 'b) \<Rightarrow> OutboxDispatcher \<Rightarrow> bool list \<Rightarrow>
   ('o, 'b) publish_state \<Rightarrow> unit res option \<times> ('o, 'b) publish_state" where
  "run_worker uns mrk pub d [] st = (None, st)"
| "run_worker uns mrk pub d (stop # stops) st =
     (if stop then (Some (Inr ()), st)
      else case dispatch_once uns mrk pub d 100 st of
             (Inl e, st1) \<Rightarrow>
               if is_Exception e then run_worker uns mrk pub d stops st1 else (Some (Inl e), st1)
           | (Inr _, st1) \<Rightarrow> run_worker uns mrk pub d stops st1)"

definition start :: "OutboxDispatcher \<Rightarrow> OutboxDispatcher" where
  "start d = (if dsp_task d = None \<or> dsp_task d = Some Finished
              then d\<lparr>dsp_stop := False, dsp_task := Some Running\<rparr> else d)"

definition stop :: "OutboxDispatcher \<Rightarrow> OutboxDispatcher" where
  "stop d = (case dsp_task d of None \<Rightarrow> d | Some t \<Rightarrow> d\<lparr>dsp_stop := True, dsp_task := None\<rparr>)"

subsection \<open>Consumers\<close>

text \<open>
  \<open>IdempotentRecordingConsumer\<close> and its three subclasses. The effect runs after the
  event is recorded, and an exception it raises propagates with the event recorded.
\<close>

record 'x Consumer =
  con_seen :: "uuid set"
  con_events :: "EventEnvelope list"
  con_effects :: 'x

definition consume ::
  "(EventEnvelope \<Rightarrow> 'x \<Rightarrow> unit res \<times> 'x) option \<Rightarrow> EventEnvelope \<Rightarrow> 'x Consumer \<Rightarrow>
   bool res \<times> 'x Consumer" where
  "consume effect event c =
     (if evt_id event \<in> con_seen c then (Inr False, c)
      else let c1 = c\<lparr>con_seen := insert (evt_id event) (con_seen c),
                      con_events := con_events c @ [event]\<rparr>
           in case effect of
                None \<Rightarrow> (Inr True, c1)
              | Some f \<Rightarrow> (case f event (con_effects c1) of
                             (Inl e, x) \<Rightarrow> (Inl e, c1\<lparr>con_effects := x\<rparr>)
                           | (Inr _, x) \<Rightarrow> (Inr True, c1\<lparr>con_effects := x\<rparr>)))"

fun consume_all ::
  "(EventEnvelope \<Rightarrow> 'x \<Rightarrow> unit res \<times> 'x) option \<Rightarrow> EventEnvelope list \<Rightarrow> 'x Consumer \<Rightarrow> 'x Consumer" where
  "consume_all effect [] c = c"
| "consume_all effect (e # es) c = consume_all effect es (snd (consume effect e c))"

subsection \<open>What dispatching promises, for every outbox and broker\<close>

text \<open>
  The broker contract: an acknowledged event was delivered, in the form the broker encodes
  it; a failed publication delivered the event or did not.
\<close>

locale event_broker =
  fixes pub :: "EventEnvelope \<Rightarrow> 'b \<Rightarrow> unit res \<times> 'b"
    and enc :: "EventEnvelope \<Rightarrow> 'd" and delivered :: "'b \<Rightarrow> 'd list"
  assumes pub_acknowledged: "pub e b = (Inr (), b') \<Longrightarrow> delivered b' = delivered b @ [enc e]"
    and pub_failed: "pub e b = (Inl x, b') \<Longrightarrow> delivered b' = delivered b \<or> delivered b' = delivered b @ [enc e]"

locale outbox_dispatch =
  outbox_repository app uns mrk pend known invar + event_broker pub enc delivered
  for app :: "EventEnvelope list \<Rightarrow> 'o \<Rightarrow> 'o" and uns mrk pend known invar
    and pub :: "EventEnvelope \<Rightarrow> 'b \<Rightarrow> unit res \<times> 'b" and enc :: "EventEnvelope \<Rightarrow> 'd" and delivered
begin

lemma publish_and_mark_cases:
  assumes "invar ob" "pend ob = e # es" "publish_and_mark mrk pub e ob br = (r, ob1, br1)"
  shows "invar ob1 \<and> (\<exists>n. delivered br1 = delivered br @ replicate n (enc e) \<and> n \<le> 1 \<and>
    (case r of Inr _ \<Rightarrow> n = 1 \<and> pend ob1 = es | Inl x \<Rightarrow> pend ob1 = e # es))"
proof (cases "pub e br")
  case (Pair q br')
  show ?thesis
  proof (cases q)
    case (Inl x)
    then have out: "r = Inl x" "ob1 = ob" "br1 = br'"
      using assms(3) Pair by (auto simp: publish_and_mark_def)
    have "delivered br' = delivered br \<or> delivered br' = delivered br @ [enc e]"
      using pub_failed Pair Inl by blast
    then have "\<exists>n. delivered br' = delivered br @ replicate n (enc e) \<and> n \<le> 1"
      by (metis One_nat_def append_Nil2 le_numeral_extra(4) replicate_0 replicate_Suc zero_le_one)
    then show ?thesis using assms(1,2) out by auto
  next
    case (Inr u)
    obtain m ob' where m: "mrk (evt_id e) ob = (m, ob')" by (cases "mrk (evt_id e) ob")
    have out: "r = m" "ob1 = ob'" "br1 = br'"
      using assms(3) Pair Inr m by (auto simp: publish_and_mark_def)
    have dl: "delivered br' = delivered br @ [enc e]" using pub_acknowledged Pair Inr by simp
    have inv: "invar ob'" using mrk_invar [OF assms(1), of "evt_id e"] m by simp
    have "case m of Inr _ \<Rightarrow> pend ob' = es | Inl x \<Rightarrow> pend ob' = e # es"
      using mark_head [OF assms(1,2)] mrk_fails [OF assms(1)] m assms(2) by (cases m) auto
    then show ?thesis using out dl inv by (intro conjI exI [of _ 1]) (auto split: sum.splits)
  qed
qed

text \<open>
  One event: it is delivered some number of times, at least once if it leaves the outbox.
\<close>

lemma publish_event_delivers:
  assumes "invar ob" "pend ob = e # es"
    and "publish_event mrk pub d e n k le (ob, br, w) = (r, ob1, br1, w1)"
  shows "invar ob1 \<and> (\<exists>c. delivered br1 = delivered br @ replicate c (enc e) \<and> c \<le> n \<and>
    (if \<exists>le. r = Inr (True, le) then r = Inr (True, None) \<and> 1 \<le> c \<and> pend ob1 = es
     else pend ob1 = e # es))"
  using assms
proof (induction n arbitrary: k le ob br w)
  case (Suc n)
  obtain q ob2 br2 where pm: "publish_and_mark mrk pub e ob br = (q, ob2, br2)"
    by (cases "publish_and_mark mrk pub e ob br") auto
  obtain c where step: "invar ob2" "delivered br2 = delivered br @ replicate c (enc e)" "c \<le> 1"
    "case q of Inr _ \<Rightarrow> c = 1 \<and> pend ob2 = es | Inl x \<Rightarrow> pend ob2 = e # es"
    using publish_and_mark_cases [OF Suc.prems(1,2) pm] by auto
  show ?case
  proof (cases "\<exists>x. q = Inl x \<and> is_Exception x \<and> int k \<noteq> dsp_max_attempts d - 1")
    case False
    then show ?thesis
      using Suc.prems(3) pm step by (intro conjI exI [of _ c]) (auto split: sum.splits if_splits)
  next
    case True
    then obtain x where x: "q = Inl x" by blast
    define w2 where "w2 = sleep (min (dsp_max_backoff_seconds d) (dsp_initial_backoff_seconds d * 2 ^ k)) w"
    have rest: "publish_event mrk pub d e n (k + 1) (Some x) (ob2, br2, w2) = (r, ob1, br1, w1)"
      using Suc.prems(3) pm True x by (auto simp: w2_def)
    have "pend ob2 = e # es" using step x by simp
    from Suc.IH [OF step(1) this rest] obtain c' where
      "invar ob1" "delivered br1 = delivered br2 @ replicate c' (enc e)" "c' \<le> n"
      "if \<exists>le. r = Inr (True, le) then r = Inr (True, None) \<and> 1 \<le> c' \<and> pend ob1 = es else pend ob1 = e # es"
      by blast
    then show ?thesis
      using step by (intro conjI exI [of _ "c + c'"]) (auto simp: replicate_add split: if_splits)
  qed
qed auto

end

lemma publish_event_decides:
  "publish_event mrk pub d e n k le st = (Inr (ok, None), st') \<Longrightarrow> 0 < n \<or> le \<noteq> None \<Longrightarrow> ok"
proof (induction n arbitrary: k le st)
  case (Suc n)
  obtain ob br w where st: "st = (ob, br, w)" by (cases st)
  show ?case
    using Suc.prems Suc.IH by (auto simp: st split: sum.splits prod.splits if_splits) blast+
qed auto

context outbox_dispatch
begin

text \<open>
  A whole batch: the events that leave the outbox are the first \<open>k\<close> of the batch, each
  was delivered at least once and in this order, and nothing beyond the event on which the
  dispatcher stopped was delivered. Without an error the batch is done.
\<close>

lemma dispatch_events_delivers:
  assumes "invar ob" "pend ob = es @ rest" "0 < dsp_max_attempts d"
    and "dispatch_events mrk pub d es p (ob, br, w) = (r, ob1, br1, w1)"
  shows "invar ob1 \<and> (\<exists>k ds. k \<le> length es \<and> pend ob1 = drop k es @ rest \<and>
    delivered br1 = delivered br @ ds \<and> subseq (map enc (take k es)) ds \<and> set ds \<subseteq> enc ` set (take (Suc k) es) \<and>
    (case r of Inr m \<Rightarrow> k = length es \<and> m = p + int (length es) | Inl x \<Rightarrow> k < length es))"
  using assms(1,2,4)
proof (induction es arbitrary: ob br w p)
  case Nil
  then show ?case by (intro conjI exI [of _ 0] exI [of _ "[]"]) auto
next
  case (Cons e es)
  let ?n = "nat (dsp_max_attempts d)"
  obtain q ob2 br2 w2 where pe: "publish_event mrk pub d e ?n 0 None (ob, br, w) = (q, ob2, br2, w2)"
    by (cases "publish_event mrk pub d e ?n 0 None (ob, br, w)") auto
  have pend: "pend ob = e # (es @ rest)" using Cons.prems(2) by simp
  obtain c where one: "invar ob2" "delivered br2 = delivered br @ replicate c (enc e)"
    "if \<exists>le. q = Inr (True, le) then q = Inr (True, None) \<and> 1 \<le> c \<and> pend ob2 = es @ rest
     else pend ob2 = e # (es @ rest)"
    using publish_event_delivers [OF Cons.prems(1) pend pe] by blast
  show ?case
  proof (cases "q = Inr (True, None)")
    case False
    have "\<exists>x. r = Inl x \<and> ob1 = ob2 \<and> br1 = br2"
      using Cons.prems(3) pe False publish_event_decides [of mrk pub d e ?n 0 None "(ob, br, w)"] assms(3)
      by (auto split: sum.splits option.splits prod.splits)
    moreover have "pend ob2 = e # (es @ rest)" using one(3) False by (auto split: if_splits)
    ultimately show ?thesis
      using one by (intro conjI exI [of _ 0] exI [of _ "replicate c (enc e)"]) auto
  next
    case True
    then have ok: "1 \<le> c" "pend ob2 = es @ rest" using one(3) by (auto split: if_splits)
    have rest: "dispatch_events mrk pub d es (p + 1) (ob2, br2, w2) = (r, ob1, br1, w1)"
      using Cons.prems(3) pe True by simp
    obtain k ds where IH: "invar ob1" "k \<le> length es" "pend ob1 = drop k es @ rest"
      "delivered br1 = delivered br2 @ ds" "subseq (map enc (take k es)) ds" "set ds \<subseteq> enc ` set (take (Suc k) es)"
      "case r of Inr m \<Rightarrow> k = length es \<and> m = (p + 1) + int (length es) | Inl x \<Rightarrow> k < length es"
      using Cons.IH [OF one(1) ok(2) rest] by blast
    have "subseq (map enc (take (Suc k) (e # es))) (replicate c (enc e) @ ds)"
      using ok(1) IH(5) list_emb_append_mono [of "(=)" "[enc e]" "replicate c (enc e)" "map enc (take k es)" ds]
      by (cases c) (auto simp: subseq_Cons2)
    then show ?thesis
      using IH one(2) by (intro conjI exI [of _ "Suc k"] exI [of _ "replicate c (enc e) @ ds"])
        (auto split: sum.splits)
  qed
qed

end

text \<open>
  Where marking never fails and a failed publication delivers nothing, delivery is exact.
\<close>

locale exact_dispatch = outbox_dispatch +
  assumes marks: "fst (mrk i s) = Inr ()"
    and silent: "pub e b = (Inl x, b') \<Longrightarrow> delivered b' = delivered b"
begin

lemma publish_event_once:
  assumes "publish_event mrk pub d e n k le (ob, br, w) = (r, ob1, br1, w1)"
  shows "delivered br1 = delivered br @ (if \<exists>le. r = Inr (True, le) then [enc e] else [])"
  using assms
proof (induction n arbitrary: k le ob br w)
  case (Suc n)
  obtain q br2 where pb: "pub e br = (q, br2)" by (cases "pub e br")
  obtain m ob2 where mk: "mrk (evt_id e) ob = (m, ob2)" by (cases "mrk (evt_id e) ob")
  have m: "m = Inr ()" using marks [of "evt_id e" ob] mk by simp
  show ?case
  proof (cases q)
    case (Inr u)
    then show ?thesis
      using Suc.prems pb mk m pub_acknowledged [of e br br2] by (auto simp: publish_and_mark_def)
  next
    case (Inl x)
    then have "delivered br2 = delivered br" using silent pb by blast
    then show ?thesis
      using Suc.prems Suc.IH pb Inl
      by (auto simp: publish_and_mark_def split: if_splits)
  qed
qed auto

lemma dispatch_events_exact:
  assumes "invar ob" "pend ob = es @ rest" "0 < dsp_max_attempts d"
    and "dispatch_events mrk pub d es p (ob, br, w) = (r, ob1, br1, w1)"
  shows "invar ob1 \<and> (\<exists>k. k \<le> length es \<and> pend ob1 = drop k es @ rest \<and>
    delivered br1 = delivered br @ map enc (take k es) \<and>
    (case r of Inr m \<Rightarrow> k = length es \<and> m = p + int (length es) | Inl x \<Rightarrow> k < length es))"
  using assms(1,2,4)
proof (induction es arbitrary: ob br w p)
  case (Cons e es)
  let ?n = "nat (dsp_max_attempts d)"
  obtain q ob2 br2 w2 where pe: "publish_event mrk pub d e ?n 0 None (ob, br, w) = (q, ob2, br2, w2)"
    by (cases "publish_event mrk pub d e ?n 0 None (ob, br, w)") auto
  have pend: "pend ob = e # (es @ rest)" using Cons.prems(2) by simp
  have one: "invar ob2" "if \<exists>le. q = Inr (True, le) then q = Inr (True, None) \<and> pend ob2 = es @ rest
     else pend ob2 = e # (es @ rest)"
    using publish_event_delivers [OF Cons.prems(1) pend pe] by (auto split: if_splits)
  note del = publish_event_once [OF pe]
  show ?case
  proof (cases "q = Inr (True, None)")
    case False
    have "\<exists>x. r = Inl x \<and> ob1 = ob2 \<and> br1 = br2"
      using Cons.prems(3) pe False publish_event_decides [of mrk pub d e ?n 0 None "(ob, br, w)"] assms(3)
      by (auto split: sum.splits option.splits prod.splits)
    moreover have "\<not> (\<exists>le. q = Inr (True, le))" using one(2) False by (auto split: if_splits)
    ultimately show ?thesis using one del by (intro conjI exI [of _ 0]) auto
  next
    case True
    then have ok: "pend ob2 = es @ rest" using one(2) by (auto split: if_splits)
    have rest: "dispatch_events mrk pub d es (p + 1) (ob2, br2, w2) = (r, ob1, br1, w1)"
      using Cons.prems(3) pe True by simp
    from Cons.IH [OF one(1) ok rest] obtain k where IH: "invar ob1" "k \<le> length es"
      "pend ob1 = drop k es @ rest" "delivered br1 = delivered br2 @ map enc (take k es)"
      "case r of Inr m \<Rightarrow> k = length es \<and> m = (p + 1) + int (length es) | Inl x \<Rightarrow> k < length es"
      by blast
    have "delivered br2 = delivered br @ [enc e]" using del True by auto
    with IH show ?thesis by (intro conjI exI [of _ "Suc k"]) (auto split: sum.splits)
  qed
qed auto

end

interpretation memory_dispatch:
  exact_dispatch append_events unsent mark_published_op pending known_events store_inv publish "\<lambda>e. e" brk_events
  by unfold_locales (auto simp: publish_def mark_published_op_def split: if_splits)

subsection \<open>One round on the in-memory outbox and broker\<close>

definition backoff_pauses :: "OutboxDispatcher \<Rightarrow> nat \<Rightarrow> nat \<Rightarrow> real list" where
  "backoff_pauses d k n =
     map (\<lambda>i. min (dsp_max_backoff_seconds d) (dsp_initial_backoff_seconds d * 2 ^ i)) [k..<k + n]"

lemma publish_event_outage:
  assumes "brk_unavailable br" "int k + int (Suc n) = dsp_max_attempts d"
  shows "publish_event mrk publish d e (Suc n) k le (ob, br, w) =
    (Inr (False, Some (BrokerUnavailable ''Simulated broker outage'')),
     (ob, br, w\<lparr>slept := slept w @ backoff_pauses d k n\<rparr>))"
  using assms
proof (induction n arbitrary: k le w)
  case (Suc n)
  let ?w = "sleep (min (dsp_max_backoff_seconds d) (dsp_initial_backoff_seconds d * 2 ^ k)) w"
  have "publish_event mrk publish d e (Suc (Suc n)) k le (ob, br, w) =
    publish_event mrk publish d e (Suc n) (k + 1) (Some (BrokerUnavailable ''Simulated broker outage'')) (ob, br, ?w)"
    using Suc.prems by (simp del: publish_event.simps add: publish_event.simps(2) [of _ _ _ _ "Suc n"]
      publish_and_mark_def publish_def is_Exception_def)
  also have "\<dots> = (Inr (False, Some (BrokerUnavailable ''Simulated broker outage'')),
     (ob, br, ?w\<lparr>slept := slept ?w @ backoff_pauses d (k + 1) n\<rparr>))"
    using Suc.prems by (intro Suc.IH) auto
  also have "backoff_pauses d k (Suc n) =
      min (dsp_max_backoff_seconds d) (dsp_initial_backoff_seconds d * 2 ^ k) # backoff_pauses d (k + 1) n"
    by (simp add: backoff_pauses_def upt_conv_Cons del: upt_Suc)
  then have "?w\<lparr>slept := slept ?w @ backoff_pauses d (k + 1) n\<rparr> =
      w\<lparr>slept := slept w @ backoff_pauses d k (Suc n)\<rparr>"
    by (simp add: sleep_def)
  finally show ?case .
qed (auto simp: publish_and_mark_def publish_def is_Exception_def backoff_pauses_def)

lemma dispatch_events_available:
  assumes "store_inv ob" "pending ob = es @ rest" "0 < dsp_max_attempts d" "\<not> brk_unavailable br"
  shows "\<exists>ob1. dispatch_events mark_published_op publish d es p (ob, br, w) =
      (Inr (p + int (length es)), ob1, br\<lparr>brk_events := brk_events br @ es\<rparr>, w) \<and>
    store_inv ob1 \<and> pending ob1 = rest"
  using assms(1,2,4)
proof (induction es arbitrary: ob br p)
  case (Cons e es)
  let ?ob = "mark_published (evt_id e) ob" and ?br = "br\<lparr>brk_events := brk_events br @ [e]\<rparr>"
  obtain n where n: "nat (dsp_max_attempts d) = Suc n" using assms(3) by (cases "nat (dsp_max_attempts d)") auto
  have "pending ?ob = es @ rest"
    using in_memory_outbox.mark_head [OF Cons.prems(1), of e "es @ rest" ?ob] Cons.prems(2)
    by (simp add: mark_published_op_def)
  from Cons.IH [OF mark_published_inv [OF Cons.prems(1)] this, of ?br "p + 1"] Cons.prems(3)
  show ?case
    by (auto simp: n publish_and_mark_def publish_def mark_published_op_def algebra_simps)
qed auto

lemma dispatch_events_outage:
  assumes "0 < dsp_max_attempts d" "brk_unavailable br" "es \<noteq> []"
  shows "dispatch_events mrk publish d es p (ob, br, w) =
    (Inl (BrokerUnavailable ''Simulated broker outage''),
     ob, br, w\<lparr>slept := slept w @ backoff_pauses d 0 (nat (dsp_max_attempts d) - 1)\<rparr>)"
proof -
  obtain n where n: "nat (dsp_max_attempts d) = Suc n" using assms(1) by (cases "nat (dsp_max_attempts d)") auto
  show ?thesis using publish_event_outage [OF assms(2), of 0 n d mrk "hd es" None ob w] n assms(3)
    by (cases es) auto
qed

text \<open>
  One round of the dispatcher on the in-memory outbox and broker. With the broker
  available, the oldest \<open>limit\<close> pending events reach the broker in their order, leave
  the outbox, and are counted. During an outage (with something to send) nothing changes
  in either, the dispatcher pauses between its attempts with the capped exponential
  backoff, and the broker's error is raised.
\<close>

lemma dispatch_once_spec:
  assumes "store_inv ob" "0 < dsp_max_attempts d" "0 \<le> limit"
    and "dispatch_once unsent mark_published_op publish d limit (ob, br, w) = (r, ob1, br1, w1)"
  shows "if brk_unavailable br \<and> take (nat limit) (pending ob) \<noteq> []
    then r = Inl (BrokerUnavailable ''Simulated broker outage'') \<and> ob1 = ob \<and> br1 = br \<and>
      w1 = w\<lparr>slept := slept w @ backoff_pauses d 0 (nat (dsp_max_attempts d) - 1)\<rparr>
    else r = Inr (int (min (nat limit) (length (pending ob)))) \<and> store_inv ob1 \<and> w1 = w \<and>
      pending ob1 = drop (nat limit) (pending ob) \<and> brk_unavailable br1 = brk_unavailable br \<and>
      brk_events br1 = brk_events br @ take (nat limit) (pending ob)"
proof -
  define es where "es = take (nat limit) (pending ob)"
  have run: "dispatch_events mark_published_op publish d es 0 (ob, br, w) = (r, ob1, br1, w1)"
    using assms(3,4) by (simp add: dispatch_once_def in_memory_outbox.uns_pend es_def)
  have split: "pending ob = es @ drop (nat limit) (pending ob)" by (simp add: es_def)
  consider "brk_unavailable br" "es \<noteq> []" | "brk_unavailable br" "es = []" | "\<not> brk_unavailable br" by blast
  then show ?thesis
  proof cases
    case 1
    then show ?thesis
      using run dispatch_events_outage [OF assms(2) 1, of mark_published_op 0 ob w] by (simp add: es_def)
  next
    case 2
    then show ?thesis using run split assms(1) by (auto simp: es_def)
  next
    case 3
    have "min (length (pending ob)) (nat limit) = min (nat limit) (length (pending ob))" by simp
    with 3 show ?thesis
      using run dispatch_events_available [OF assms(1) split assms(2) 3, of 0 w] by (auto simp: es_def)
  qed
qed

definition sample_event :: "uuid \<Rightarrow> EventEnvelope" where
  "sample_event i = fst (new_EventEnvelope PAYMENT_SUCCEEDED ''m'' (Some 7) [] None (sample_world\<lparr>tick := i\<rparr>))"

definition sample_outbox :: InMemoryPaymentStore where
  "sample_outbox = append_events (map sample_event [1, 2, 3]) new_InMemoryPaymentStore"

definition sample_dispatcher :: OutboxDispatcher where
  "sample_dispatcher = \<lparr>dsp_poll_interval_seconds = 1 / 4, dsp_max_attempts = 3,
     dsp_initial_backoff_seconds = 1 / 10, dsp_max_backoff_seconds = 1, dsp_stop = False, dsp_task = None\<rparr>"

lemma sample_event_id [simp]: "evt_id (sample_event i) = i"
  by (simp add: sample_event_def new_EventEnvelope_def uuid4_def utcnow_def sample_world_def)

lemma sample_outbox_inv: "store_inv sample_outbox"
  by (simp add: sample_outbox_def append_inv new_store_inv)

lemma sample_outbox_pending: "pending sample_outbox = map sample_event [1, 2, 3]"
  by (simp add: sample_outbox_def append_events_def pending_def new_InMemoryPaymentStore_def)

subsection \<open>Delivery through an unreliable broker\<close>

lemma dispatch_once_delivers:
  assumes "\<And>e b b'. pub e b = (Inr (), b') \<Longrightarrow> delivered b' = delivered b @ [enc e]"
    and "\<And>e b x b'. pub e b = (Inl x, b') \<Longrightarrow> delivered b' = delivered b \<or> delivered b' = delivered b @ [enc e]"
    and "store_inv ob" "0 < dsp_max_attempts d" "0 \<le> limit"
    and "dispatch_once unsent mark_published_op pub d limit (ob, br, w) = (r, ob1, br1, w1)"
  shows "store_inv ob1 \<and> (\<exists>k ds. k \<le> min (nat limit) (length (pending ob)) \<and>
    pending ob1 = drop k (pending ob) \<and> delivered br1 = delivered br @ ds \<and>
    subseq (map enc (take k (pending ob))) ds \<and> set ds \<subseteq> enc ` set (take (Suc k) (pending ob)) \<and>
    (case r of Inr m \<Rightarrow> k = min (nat limit) (length (pending ob)) \<and> m = int k
             | Inl x \<Rightarrow> k < min (nat limit) (length (pending ob))))"
proof -
  have contract: "outbox_dispatch append_events unsent mark_published_op pending known_events store_inv pub enc delivered"
    by (intro outbox_dispatch.intro in_memory_outbox.outbox_repository_axioms event_broker.intro assms(1,2))
  define es where "es = take (nat limit) (pending ob)"
  have run: "dispatch_events mark_published_op pub d es 0 (ob, br, w) = (r, ob1, br1, w1)"
    using assms(5,6) by (simp add: dispatch_once_def in_memory_outbox.uns_pend es_def)
  have split: "pending ob = es @ drop (nat limit) (pending ob)" by (simp add: es_def)
  obtain k ds where k: "store_inv ob1" "k \<le> length es" "pending ob1 = drop k es @ drop (nat limit) (pending ob)"
    "delivered br1 = delivered br @ ds" "subseq (map enc (take k es)) ds" "set ds \<subseteq> enc ` set (take (Suc k) es)"
    "case r of Inr m \<Rightarrow> k = length es \<and> m = 0 + int (length es) | Inl x \<Rightarrow> k < length es"
    using outbox_dispatch.dispatch_events_delivers [OF contract assms(3) split assms(4) run] by blast
  have le: "length es = min (nat limit) (length (pending ob))" by (simp add: es_def)
  have "pending ob1 = drop k (pending ob)" using k(2,3) split by (metis drop_append diff_is_0_eq drop0)
  moreover have "take k es = take k (pending ob)" using k(2) le by (simp add: es_def take_take min_absorb2 min.absorb1)
  moreover have "set (take (Suc k) es) \<subseteq> set (take (Suc k) (pending ob))"
    by (metis es_def set_take_subset take_take min.commute)
  then have "set ds \<subseteq> enc ` set (take (Suc k) (pending ob))" using k(6) by blast
  ultimately show ?thesis
    using k le by (intro conjI exI [of _ k] exI [of _ ds]) (auto split: sum.splits)
qed

text \<open>
  C19. At-least-once delivery in order, for every broker whose acknowledged publications
  are delivered, in the form it encodes events, and whose failed publications deliver the
  event or nothing. One round
  takes the first \<open>k\<close> pending events out of the outbox; each was delivered at least once
  and in this order; nothing later than the next event was delivered; every other pending
  event stays in the outbox. The round fails exactly when it stops inside its batch.
\<close>

theorem dispatch_at_least_once:
  assumes "\<And>e b b'. pub e b = (Inr (), b') \<Longrightarrow> delivered b' = delivered b @ [enc e]"
    and "\<And>e b x b'. pub e b = (Inl x, b') \<Longrightarrow> delivered b' = delivered b \<or> delivered b' = delivered b @ [enc e]"
    and "store_inv ob" "0 < dsp_max_attempts d" "0 \<le> limit"
    and "dispatch_once unsent mark_published_op pub d limit (ob, br, w) = (r, ob1, br1, w1)"
  shows "store_inv ob1 \<and> (\<exists>k ds. k \<le> min (nat limit) (length (pending ob)) \<and>
    pending ob1 = drop k (pending ob) \<and> delivered br1 = delivered br @ ds \<and>
    subseq (map enc (take k (pending ob))) ds \<and> set ds \<subseteq> enc ` set (take (Suc k) (pending ob)) \<and>
    (case r of Inr m \<Rightarrow> k = min (nat limit) (length (pending ob)) \<and> m = int k
             | Inl x \<Rightarrow> k < min (nat limit) (length (pending ob))))"
  by (rule dispatch_once_delivers [OF assms])

text \<open>A broker that delivers every event but loses the acknowledgement of every second publication.\<close>

definition lossy_publish :: "EventEnvelope \<Rightarrow> EventEnvelope list \<Rightarrow> unit res \<times> EventEnvelope list" where
  "lossy_publish e b = (if even (length b) then Inl (OtherException ''TimeoutError'') else Inr (), b @ [e])"

theorem dispatch_at_least_once_witness:
  "case dispatch_once unsent mark_published_op lossy_publish sample_dispatcher 2 (sample_outbox, [], sample_world) of
     (r, ob, br, w) \<Rightarrow> \<exists>k. k \<le> 2 \<and> pending ob = drop k (map sample_event [1, 2, 3]) \<and>
       subseq (take k (map sample_event [1, 2, 3])) br"
proof -
  obtain r ob br w where a: "dispatch_once unsent mark_published_op lossy_publish sample_dispatcher 2
      (sample_outbox, [], sample_world) = (r, ob, br, w)" by (metis prod_cases4)
  have m: "0 < dsp_max_attempts sample_dispatcher" by (simp add: sample_dispatcher_def)
  have "store_inv ob \<and> (\<exists>k ds. k \<le> min (nat 2) (length (pending sample_outbox)) \<and>
    pending ob = drop k (pending sample_outbox) \<and> br = [] @ ds \<and>
    subseq (take k (pending sample_outbox)) ds \<and> set ds \<subseteq> set (take (Suc k) (pending sample_outbox)) \<and>
    (case r of Inr m \<Rightarrow> k = min (nat 2) (length (pending sample_outbox)) \<and> m = int k
             | Inl x \<Rightarrow> k < min (nat 2) (length (pending sample_outbox))))"
    by (rule dispatch_at_least_once [where enc = "\<lambda>e. e" and delivered = "\<lambda>b. b", simplified list.map_ident image_ident, OF _ _ sample_outbox_inv m _ a])
      (auto simp: lossy_publish_def)
  then have "\<exists>k. k \<le> min (nat 2) (length (pending sample_outbox)) \<and>
      pending ob = drop k (pending sample_outbox) \<and> subseq (take k (pending sample_outbox)) br" by auto
  then show ?thesis unfolding a by (simp add: sample_outbox_pending numeral_2_eq_2)
qed

subsection \<open>Consumers record every event once\<close>

text \<open>The events of a stream whose identifier is new when they arrive.\<close>

fun fresh_events :: "uuid set \<Rightarrow> EventEnvelope list \<Rightarrow> EventEnvelope list" where
  "fresh_events seen [] = []"
| "fresh_events seen (e # es) =
     (if evt_id e \<in> seen then fresh_events seen es else e # fresh_events (insert (evt_id e) seen) es)"

definition run_effect :: "(EventEnvelope \<Rightarrow> 'x \<Rightarrow> unit res \<times> 'x) option \<Rightarrow> EventEnvelope \<Rightarrow> 'x \<Rightarrow> 'x" where
  "run_effect effect e x = (case effect of None \<Rightarrow> x | Some f \<Rightarrow> snd (f e x))"

lemma fresh_events_covers: "evt_id ` set (fresh_events seen es) = evt_id ` set es - seen"
  by (induction es arbitrary: seen) auto

lemma fresh_events_distinct: "distinct (map evt_id (fresh_events seen es))"
proof (induction es arbitrary: seen)
  case (Cons e es)
  have "evt_id e \<notin> evt_id ` set (fresh_events (insert (evt_id e) seen) es)"
    by (simp add: fresh_events_covers)
  then show ?case using Cons.IH by simp
qed simp

lemma consume_all_eq:
  "consume_all effect es c =
     c\<lparr>con_seen := con_seen c \<union> evt_id ` set es,
       con_events := con_events c @ fresh_events (con_seen c) es,
       con_effects := fold (run_effect effect) (fresh_events (con_seen c) es) (con_effects c)\<rparr>"
proof (induction es arbitrary: c)
  case (Cons e es)
  show ?case
  proof (cases "evt_id e \<in> con_seen c")
    case True
    then show ?thesis by (simp add: Cons.IH consume_def insert_absorb)
  next
    case False
    then have "snd (consume effect e c) = c\<lparr>con_seen := insert (evt_id e) (con_seen c),
        con_events := con_events c @ [e], con_effects := run_effect effect e (con_effects c)\<rparr>"
      by (auto simp: consume_def run_effect_def Let_def case_prod_beta split: option.splits sum.splits)
    then show ?thesis using False by (simp add: Cons.IH)
  qed
qed simp

text \<open>
  A consumer that reads a stream records the first event of every new identifier, in
  order, runs its effect exactly once for each of these and for nothing else, and reading
  again a stream with no new identifier changes nothing, whatever the effects do.
\<close>

theorem consumer_records_once:
  assumes "evt_id ` set es' \<subseteq> con_seen c \<union> evt_id ` set es"
  shows "let c1 = consume_all effect es c; new = fresh_events (con_seen c) es
   in con_events c1 = con_events c @ new \<and> con_effects c1 = fold (run_effect effect) new (con_effects c) \<and>
      distinct (map evt_id new) \<and> evt_id ` set new = evt_id ` set es - con_seen c \<and>
      consume_all effect es' c1 = c1"
proof -
  let ?S = "con_seen c \<union> evt_id ` set es"
  have "evt_id ` set (fresh_events ?S es') = {}" using assms by (simp only: fresh_events_covers) blast
  then have none: "fresh_events ?S es' = []" by simp
  have "?S \<union> evt_id ` set es' = ?S" using assms by blast
  then show ?thesis
    using fresh_events_distinct fresh_events_covers none by (simp add: Let_def consume_all_eq)
qed

theorem consumer_records_once_witness:
  "let c = \<lparr>con_seen = {}, con_events = [], con_effects = (0::nat)\<rparr>;
       effect = Some (\<lambda>e n. (Inr (), n + 1)); es = map sample_event [1, 2, 1]
   in con_effects (consume_all effect es c) = 2 \<and>
      consume_all effect (map sample_event [2, 2]) (consume_all effect es c) = consume_all effect es c"
proof -
  let ?c = "\<lparr>con_seen = {}, con_events = [], con_effects = (0::nat)\<rparr>"
  have "evt_id ` set (map sample_event [2, 2]) \<subseteq> con_seen ?c \<union> evt_id ` set (map sample_event [1, 2, 1])"
    by simp
  note once = consumer_records_once [OF this, of "Some (\<lambda>e n. (Inr (), n + 1))", unfolded Let_def]
  have "fold (run_effect (Some (\<lambda>e n. (Inr (), n + 1)))) (fresh_events {} (map sample_event [1, 2, 1])) 0 = (2::nat)"
    by (simp add: run_effect_def)
  with once show ?thesis by (simp add: Let_def del: consume_all.simps list.map)
qed

subsection \<open>The worker drains the outbox\<close>

text \<open>
  C20. With the broker available, a worker that is stopped after \<open>n\<close> rounds has delivered
  the first \<open>100 * n\<close> pending events in order, exactly once each, kept the others in the
  outbox, and returned; so an outbox of that size is empty.
\<close>

theorem worker_drains:
  assumes "store_inv ob" "0 < dsp_max_attempts d" "\<not> brk_unavailable br"
  shows "\<exists>ob1. run_worker unsent mark_published_op publish d (replicate n False @ [True]) (ob, br, w) =
      (Some (Inr ()), ob1, br\<lparr>brk_events := brk_events br @ take (100 * n) (pending ob)\<rparr>, w) \<and>
    store_inv ob1 \<and> pending ob1 = drop (100 * n) (pending ob)"
  using assms(1,3)
proof (induction n arbitrary: ob br)
  case (Suc n)
  define es where "es = take 100 (pending ob)"
  have split: "pending ob = es @ drop 100 (pending ob)" by (simp add: es_def)
  have round: "dispatch_once unsent mark_published_op publish d 100 (ob, br, w) =
      dispatch_events mark_published_op publish d es 0 (ob, br, w)"
    by (simp add: dispatch_once_def in_memory_outbox.uns_pend es_def)
  obtain ob1 where r: "dispatch_once unsent mark_published_op publish d 100 (ob, br, w) =
      (Inr (0 + int (length es)), ob1, br\<lparr>brk_events := brk_events br @ es\<rparr>, w)"
    "store_inv ob1" "pending ob1 = drop 100 (pending ob)"
    using dispatch_events_available [OF Suc.prems(1) split assms(2) Suc.prems(2), of 0 w] round by metis
  have "take (100 * Suc n) (pending ob) = es @ take (100 * n) (drop 100 (pending ob))"
    by (simp add: es_def take_add [symmetric])
  with Suc.IH [OF r(2), of "br\<lparr>brk_events := brk_events br @ es\<rparr>"] Suc.prems(2) r
  show ?case by (auto simp: drop_drop add.commute)
qed auto

theorem worker_drains_witness:
  "pending (fst (snd (run_worker unsent mark_published_op publish sample_dispatcher
     (replicate 1 False @ [True]) (sample_outbox, new_InMemoryBroker, sample_world)))) = []"
proof -
  have "0 < dsp_max_attempts sample_dispatcher" "\<not> brk_unavailable new_InMemoryBroker"
    by (simp_all add: sample_dispatcher_def new_InMemoryBroker_def)
  from worker_drains [OF sample_outbox_inv this, of 1 sample_world]
  show ?thesis by (auto simp: sample_outbox_pending)
qed

end
