(* ===== verification/Providers.thy ===== *)
theory Providers
  imports Domain "HOL-Library.List_Lexorder"
begin

text \<open>
  Payment providers (\<open>providers/base.py\<close>, \<open>providers/mock.py\<close>): the configuration,
  the protocol a provider implements as a record of operations, the mock provider, and
  the contract the service relies on as a locale, interpreted on the mock.

  A provider object is its identity, its name and its current configuration. Methods are
  looked up in a \<open>provider_ops\<close>, so the service is modelled for every implementation
  of the protocol.
\<close>

subsection \<open>Configuration, results, protocol\<close>

record ProviderConfig =
  cfg_success_rate :: real
  cfg_min_latency_ms :: int
  cfg_max_latency_ms :: int
  cfg_timeout_probability :: real
  cfg_server_error_probability :: real
  cfg_decline_probability :: real
  cfg_forced_failure :: bool
  cfg_max_concurrency :: int

definition default_ProviderConfig :: ProviderConfig where
  "default_ProviderConfig =
     \<lparr>cfg_success_rate = 1, cfg_min_latency_ms = 0, cfg_max_latency_ms = 0,
      cfg_timeout_probability = 0, cfg_server_error_probability = 0,
      cfg_decline_probability = 0, cfg_forced_failure = False, cfg_max_concurrency = 0\<rparr>"

record ProviderPaymentResult =
  res_reference :: string
  res_status :: string

record provider =
  prv_object :: nat
  prv_name :: string
  prv_config :: ProviderConfig

record provider_ops =
  op_create_payment ::
    "provider \<Rightarrow> string \<Rightarrow> int \<Rightarrow> string \<Rightarrow> string \<Rightarrow> world \<Rightarrow> ProviderPaymentResult res \<times> world"
  op_refund_payment :: "provider \<Rightarrow> string \<Rightarrow> int \<Rightarrow> world \<Rightarrow> ProviderPaymentResult res \<times> world"
  op_get_payment_status :: "provider \<Rightarrow> string \<Rightarrow> world \<Rightarrow> string res \<times> world"
  op_health_check :: "provider \<Rightarrow> world \<Rightarrow> bool res \<times> world"

subsection \<open>The mock provider\<close>

text \<open>
  \<open>configure(**changes)\<close>: one constructor per dataclass field, and one for a keyword
  that is not a field.
\<close>

datatype setting =
    SuccessRate real
  | MinLatencyMs int
  | MaxLatencyMs int
  | TimeoutProbability real
  | ServerErrorProbability real
  | DeclineProbability real
  | ForcedFailure bool
  | MaxConcurrency int
  | UnknownSetting string

fun apply_setting :: "setting \<Rightarrow> ProviderConfig \<Rightarrow> ProviderConfig" where
  "apply_setting (SuccessRate x) c = c\<lparr>cfg_success_rate := x\<rparr>"
| "apply_setting (MinLatencyMs n) c = c\<lparr>cfg_min_latency_ms := n\<rparr>"
| "apply_setting (MaxLatencyMs n) c = c\<lparr>cfg_max_latency_ms := n\<rparr>"
| "apply_setting (TimeoutProbability x) c = c\<lparr>cfg_timeout_probability := x\<rparr>"
| "apply_setting (ServerErrorProbability x) c = c\<lparr>cfg_server_error_probability := x\<rparr>"
| "apply_setting (DeclineProbability x) c = c\<lparr>cfg_decline_probability := x\<rparr>"
| "apply_setting (ForcedFailure b) c = c\<lparr>cfg_forced_failure := b\<rparr>"
| "apply_setting (MaxConcurrency n) c = c\<lparr>cfg_max_concurrency := n\<rparr>"
| "apply_setting (UnknownSetting s) c = c"

fun unknown_settings :: "setting list \<Rightarrow> string list" where
  "unknown_settings [] = []"
| "unknown_settings (UnknownSetting s # cs) = s # unknown_settings cs"
| "unknown_settings (c # cs) = unknown_settings cs"

fun join :: "string \<Rightarrow> string list \<Rightarrow> string" where
  "join sep [] = []"
| "join sep [s] = s"
| "join sep (s # ss) = s @ sep @ join sep ss"

definition configure :: "provider \<Rightarrow> setting list \<Rightarrow> provider res" where
  "configure p changes =
     (if unknown_settings changes \<noteq> []
      then Inl (ValueError (''Unknown provider setting(s): '' @
                  join '', '' (sort (remdups (unknown_settings changes)))))
      else Inr (p\<lparr>prv_config := fold apply_setting changes (prv_config p)\<rparr>))"

text \<open>\<open>Random.uniform(a, b)\<close> is \<open>a + (b - a) * random()\<close>.\<close>

definition uniform :: "real \<Rightarrow> real \<Rightarrow> world \<Rightarrow> real \<times> world" where
  "uniform a b w = (let (r, w1) = random_draw w in (a + (b - a) * r, w1))"

definition mock_latency :: "ProviderConfig \<Rightarrow> world \<Rightarrow> world" where
  "mock_latency c w =
     (if cfg_min_latency_ms c \<noteq> 0 \<or> cfg_max_latency_ms c \<noteq> 0
      then let (d, w1) = uniform (of_int (cfg_min_latency_ms c))
                           (of_int (max (cfg_min_latency_ms c) (cfg_max_latency_ms c))) w
           in sleep (d / 1000) w1
      else w)"

definition mock_create_payment ::
  "provider \<Rightarrow> string \<Rightarrow> int \<Rightarrow> string \<Rightarrow> string \<Rightarrow> world \<Rightarrow> ProviderPaymentResult res \<times> world" where
  "mock_create_payment p payment_id amount currency token w =
     (let c = prv_config p; w1 = mock_latency c w
      in if cfg_forced_failure c
         then (Inl (ProviderError ''PROVIDER_UNAVAILABLE'' ''Provider is forced to fail''), w1)
         else let (roll, w2) = random_draw w1
              in if roll < cfg_timeout_probability c
                 then (Inl (ProviderError ''PROVIDER_TIMEOUT'' ''Provider request timed out''), w2)
                 else if roll < cfg_timeout_probability c + cfg_server_error_probability c
                 then (Inl (ProviderError ''PROVIDER_UNAVAILABLE'' ''Provider returned a server error''), w2)
                 else if roll < cfg_timeout_probability c + cfg_server_error_probability c
                               + cfg_decline_probability c
                 then (Inl (ProviderError ''PAYMENT_DECLINED'' ''Payment was declined''), w2)
                 else if roll \<ge> cfg_timeout_probability c + cfg_server_error_probability c
                               + cfg_decline_probability c + cfg_success_rate c
                 then (Inl (ProviderError ''PAYMENT_DECLINED'' ''Payment was declined''), w2)
                 else let (u, w3) = uuid4 w2
                      in (Inr \<lparr>res_reference = prv_name p @ ''_'' @ uuid_hex u,
                               res_status = ''SUCCEEDED''\<rparr>, w3))"

definition mock_refund_payment ::
  "provider \<Rightarrow> string \<Rightarrow> int \<Rightarrow> world \<Rightarrow> ProviderPaymentResult res \<times> world" where
  "mock_refund_payment p payment_id amount w =
     (let (u, w1) = uuid4 w
      in (Inr \<lparr>res_reference = ''refund_'' @ prv_name p @ ''_'' @ uuid_hex u,
               res_status = ''SUCCEEDED''\<rparr>, w1))"

definition mock_get_payment_status :: "provider \<Rightarrow> string \<Rightarrow> world \<Rightarrow> string res \<times> world" where
  "mock_get_payment_status p provider_reference w = (Inr ''SUCCEEDED'', w)"

definition mock_health_check :: "provider \<Rightarrow> world \<Rightarrow> bool res \<times> world" where
  "mock_health_check p w = (Inr (\<not> cfg_forced_failure (prv_config p)), w)"

definition mock_ops :: provider_ops where
  "mock_ops = \<lparr>op_create_payment = mock_create_payment, op_refund_payment = mock_refund_payment,
               op_get_payment_status = mock_get_payment_status,
               op_health_check = mock_health_check\<rparr>"

definition new_MockProvider :: "nat \<Rightarrow> string \<Rightarrow> ProviderConfig option \<Rightarrow> provider" where
  "new_MockProvider obj name config =
     \<lparr>prv_object = obj, prv_name = name,
      prv_config = (case config of None \<Rightarrow> default_ProviderConfig | Some c \<Rightarrow> c)\<rparr>"

definition MockStripeProvider :: "nat \<Rightarrow> ProviderConfig option \<Rightarrow> provider" where
  "MockStripeProvider obj config = new_MockProvider obj ''mockstripe'' config"

definition MockAdyenProvider :: "nat \<Rightarrow> ProviderConfig option \<Rightarrow> provider" where
  "MockAdyenProvider obj config = new_MockProvider obj ''mockadyen'' config"

definition MockRazorpayProvider :: "nat \<Rightarrow> ProviderConfig option \<Rightarrow> provider" where
  "MockRazorpayProvider obj config = new_MockProvider obj ''mockrazorpay'' config"

subsection \<open>The contract of the protocol\<close>

text \<open>
  What the service relies on: a provider call consumes the world forwards. Nothing is
  assumed about what a call returns or raises.
\<close>

locale payment_provider =
  fixes ops :: provider_ops
  assumes create_payment_world: "world_le w (snd (op_create_payment ops p i a c t w))"
    and refund_payment_world: "world_le w (snd (op_refund_payment ops p i a w))"
    and get_payment_status_world: "world_le w (snd (op_get_payment_status ops p r w))"
    and health_check_world: "world_le w (snd (op_health_check ops p w))"
begin

lemma create_payment_le: "op_create_payment ops p i a c t w = (r, w') \<Longrightarrow> world_le w w'"
  using create_payment_world [of w p i a c t] by simp

lemma refund_payment_le: "op_refund_payment ops p i a w = (r, w') \<Longrightarrow> world_le w w'"
  using refund_payment_world [of w p i a] by simp

lemma health_check_le: "op_health_check ops p w = (r, w') \<Longrightarrow> world_le w w'"
  using health_check_world [of w p] by simp

end

lemma mock_latency_world: "world_le w (mock_latency c w)"
  by (auto simp: mock_latency_def uniform_def world_le_def random_draw_def sleep_def)

lemma random_draw_le: "world_le w w1 \<Longrightarrow> world_le w (snd (random_draw w1))"
  using world_le_trans world_le_readings(4) by blast

lemma mock_create_payment_world: "world_le w (snd (mock_create_payment p i a c t w))"
proof -
  let ?w1 = "mock_latency (prv_config p) w"
  have l: "world_le w ?w1" by (rule mock_latency_world)
  have d: "world_le w (snd (random_draw ?w1))" by (rule random_draw_le [OF l])
  have u: "world_le w (snd (uuid4 (snd (random_draw ?w1))))"
    using d world_le_trans world_le_readings(5) by blast
  show ?thesis
    using l d u by (simp add: mock_create_payment_def Let_def case_prod_beta)
qed

interpretation mock: payment_provider mock_ops
proof unfold_locales
  fix w p i a c t r
  show "world_le w (snd (op_create_payment mock_ops p i a c t w))"
    by (simp add: mock_ops_def mock_create_payment_world)
  show "world_le w (snd (op_refund_payment mock_ops p i a w))"
    by (simp add: mock_ops_def mock_refund_payment_def world_le_def uuid4_def)
  show "world_le w (snd (op_get_payment_status mock_ops p r w))"
    by (simp add: mock_ops_def mock_get_payment_status_def)
  show "world_le w (snd (op_health_check mock_ops p w))"
    by (simp add: mock_ops_def mock_health_check_def)
qed

subsection \<open>What the mock promises\<close>

lemma mock_error_codes:
  "mock_create_payment p i a c t w = (Inl e, w') \<Longrightarrow>
   is_ProviderError e \<and> exn_code e \<in> {''PROVIDER_UNAVAILABLE'', ''PROVIDER_TIMEOUT'', ''PAYMENT_DECLINED''}"
  by (auto simp: mock_create_payment_def Let_def case_prod_beta split: if_splits)

lemma mock_latency_noop [simp]:
  "cfg_min_latency_ms c = 0 \<Longrightarrow> cfg_max_latency_ms c = 0 \<Longrightarrow> mock_latency c w = w"
  by (simp add: mock_latency_def)

lemma uniform_between:
  assumes "a \<le> b" "0 \<le> rand_at w (tick w)" "rand_at w (tick w) \<le> 1"
  shows "a \<le> fst (uniform a b w) \<and> fst (uniform a b w) \<le> b"
proof -
  let ?r = "rand_at w (tick w)"
  have "0 \<le> (b - a) * ?r" using assms by simp
  moreover have "(b - a) * ?r \<le> (b - a) * 1" by (rule mult_left_mono) (use assms in simp_all)
  ultimately show ?thesis by (simp add: uniform_def random_draw_def)
qed

text \<open>
  A mock provider call is decided by its configuration and one roll: a provider that
  reports itself unhealthy always fails with the error that permits failover; a healthy one
  times out, fails, declines or succeeds exactly when the roll falls into the interval of
  the configured probabilities, and a success carries a reference that starts with the
  provider's name. Only the three documented error codes occur.
\<close>

lemma mock_create_payment_spec:
  assumes cfg: "prv_config p = c"
    and nonneg: "0 \<le> cfg_timeout_probability c" "0 \<le> cfg_server_error_probability c"
      "0 \<le> cfg_decline_probability c"
    and roll: "roll = rand_at w (tick (mock_latency c w))"
    and call: "mock_create_payment p i a cur t w = (r, w')"
  shows "(fst (mock_health_check p w) = Inr False \<longleftrightarrow> cfg_forced_failure c) \<and>
    (if cfg_forced_failure c then \<exists>m. r = Inl (ProviderError ''PROVIDER_UNAVAILABLE'' m)
     else ((\<exists>m. r = Inl (ProviderError ''PROVIDER_TIMEOUT'' m)) \<longleftrightarrow> roll < cfg_timeout_probability c) \<and>
          ((\<exists>v. r = Inr v) \<longleftrightarrow>
             cfg_timeout_probability c + cfg_server_error_probability c
               + cfg_decline_probability c \<le> roll \<and>
             roll < cfg_timeout_probability c + cfg_server_error_probability c
               + cfg_decline_probability c + cfg_success_rate c)) \<and>
    (case r of
       Inl e \<Rightarrow> is_ProviderError e \<and>
         exn_code e \<in> {''PROVIDER_UNAVAILABLE'', ''PROVIDER_TIMEOUT'', ''PAYMENT_DECLINED''}
     | Inr v \<Rightarrow> \<exists>ref. res_reference v = prv_name p @ ''_'' @ ref)"
proof -
  have tape: "rand_at (mock_latency c w) = rand_at w"
    using mock_latency_world [of w c] by (simp add: world_le_def)
  note unf = call [unfolded mock_create_payment_def Let_def case_prod_beta cfg]
  have health: "fst (mock_health_check p w) = Inr False \<longleftrightarrow> cfg_forced_failure c"
    by (simp add: mock_health_check_def cfg)
  have forced: "\<exists>m. r = Inl (ProviderError ''PROVIDER_UNAVAILABLE'' m)" if "cfg_forced_failure c"
    using unf that by auto
  have timeout: "(\<exists>m. r = Inl (ProviderError ''PROVIDER_TIMEOUT'' m)) \<longleftrightarrow> roll < cfg_timeout_probability c"
    if "\<not> cfg_forced_failure c"
    using unf that roll tape by (auto simp: random_draw_def split: if_splits)
  have success: "(\<exists>v. r = Inr v) \<longleftrightarrow>
        cfg_timeout_probability c + cfg_server_error_probability c + cfg_decline_probability c \<le> roll \<and>
        roll < cfg_timeout_probability c + cfg_server_error_probability c
                + cfg_decline_probability c + cfg_success_rate c"
    if "\<not> cfg_forced_failure c"
    using unf that roll tape nonneg by (auto simp: random_draw_def split: if_splits)
  have reference: "\<exists>ref. res_reference v = prv_name p @ ''_'' @ ref" if "r = Inr v" for v
    using unf that by (auto split: if_splits)
  have codes: "is_ProviderError e \<and>
      exn_code e \<in> {''PROVIDER_UNAVAILABLE'', ''PROVIDER_TIMEOUT'', ''PAYMENT_DECLINED''}"
    if "r = Inl e" for e
    using call that mock_error_codes by blast
  show ?thesis
    using health forced timeout success reference codes
    by (simp split: sum.split if_split)
qed

text \<open>The default configuration always succeeds, since \<open>random()\<close> lies in \<open>[0, 1)\<close>.\<close>

end
