(* ===== verification/Reliability.thy ===== *)
theory Reliability
  imports Providers
begin

text \<open>
  Retries and circuit breakers (\<open>reliability.py\<close>): which provider errors are transient,
  the backoff schedule, the retry loop over an arbitrary stateful operation, and the
  three-state circuit breaker as a step relation over its permits and outcomes.
\<close>

subsection \<open>Retry policy and loop\<close>

definition RETRYABLE_ERRORS :: "string set" where
  "RETRYABLE_ERRORS = {''PROVIDER_TIMEOUT'', ''PROVIDER_UNAVAILABLE'', ''HTTP_502'', ''HTTP_503''}"

definition is_retryable :: "exn \<Rightarrow> bool" where
  "is_retryable e \<longleftrightarrow> is_ProviderError e \<and> exn_code e \<in> RETRYABLE_ERRORS"

record RetryPolicy =
  max_attempts :: int
  initial_delay_seconds :: real
  max_delay_seconds :: real
  jitter_ratio :: real

definition default_RetryPolicy :: RetryPolicy where
  "default_RetryPolicy = \<lparr>max_attempts = 3, initial_delay_seconds = 1 / 10,
                          max_delay_seconds = 8 / 10, jitter_ratio = 2 / 10\<rparr>"

definition base_delay :: "RetryPolicy \<Rightarrow> nat \<Rightarrow> real" where
  "base_delay pol retry_number =
     min (max_delay_seconds pol) (initial_delay_seconds pol * 2 ^ retry_number)"

text \<open>
  \<open>delay_for\<close>: without jitter the base is returned and no random number is drawn.
  \<open>draw\<close> is \<open>random.random\<close> on the caller's state.
\<close>

definition delay_for ::
  "RetryPolicy \<Rightarrow> ('s \<Rightarrow> real \<times> 's) \<Rightarrow> nat \<Rightarrow> real option \<Rightarrow> 's \<Rightarrow> real \<times> 's" where
  "delay_for pol draw retry_number random_value s =
     (let base = base_delay pol retry_number
      in if jitter_ratio pol = 0 then (base, s)
         else let (v, s1) = (case random_value of None \<Rightarrow> draw s | Some v \<Rightarrow> (v, s))
              in (base * (1 + (v * 2 - 1) * jitter_ratio pol), s1))"

definition backoff ::
  "RetryPolicy \<Rightarrow> ('s \<Rightarrow> real \<times> 's) \<Rightarrow> (real \<Rightarrow> 's \<Rightarrow> 's) \<Rightarrow> nat \<Rightarrow> 's \<Rightarrow> 's" where
  "backoff pol draw slp attempt s =
     (let (d, s1) = delay_for pol draw attempt None s in slp d s1)"

text \<open>
  The loop of \<open>run_with_retry\<close>: the first argument after the policy counts the
  iterations of \<open>range(max_attempts)\<close> that are left, \<open>attempt\<close> is the loop variable.
\<close>

fun retry_loop ::
  "('s \<Rightarrow> 'a res \<times> 's) \<Rightarrow> RetryPolicy \<Rightarrow> ('s \<Rightarrow> real \<times> 's) \<Rightarrow> (real \<Rightarrow> 's \<Rightarrow> 's) \<Rightarrow>
   nat \<Rightarrow> nat \<Rightarrow> exn option \<Rightarrow> 's \<Rightarrow> ('a \<times> nat) res \<times> 's" where
  "retry_loop oper pol draw slp 0 attempt last_error s =
     (Inl (case last_error of Some e \<Rightarrow> e
           | None \<Rightarrow> RuntimeError ''retry policy made no attempt''), s)"
| "retry_loop oper pol draw slp (Suc left) attempt last_error s =
     (case oper s of
        (Inr v, s1) \<Rightarrow> (Inr (v, attempt + 1), s1)
      | (Inl e, s1) \<Rightarrow>
          if \<not> is_ProviderError e then (Inl e, s1)
          else if \<not> is_retryable e \<or> int attempt = max_attempts pol - 1 then (Inl e, s1)
          else retry_loop oper pol draw slp left (attempt + 1) (Some e)
                 (backoff pol draw slp attempt s1))"

definition run_with_retry ::
  "('s \<Rightarrow> 'a res \<times> 's) \<Rightarrow> RetryPolicy \<Rightarrow> ('s \<Rightarrow> real \<times> 's) \<Rightarrow> (real \<Rightarrow> 's \<Rightarrow> 's) \<Rightarrow>
   's \<Rightarrow> ('a \<times> nat) res \<times> 's" where
  "run_with_retry oper pol draw slp s =
     retry_loop oper pol draw slp (nat (max_attempts pol)) 0 None s"

subsection \<open>Circuit breaker\<close>

datatype CircuitState = CLOSED | OPEN | HALF_OPEN

fun circuit_state_value :: "CircuitState \<Rightarrow> string" where
  "circuit_state_value CLOSED = ''CLOSED''"
| "circuit_state_value OPEN = ''OPEN''"
| "circuit_state_value HALF_OPEN = ''HALF_OPEN''"

record CircuitBreaker =
  failure_threshold :: int
  cooldown_seconds :: real
  half_open_probe_limit :: int
  cb_state :: CircuitState
  consecutive_failures :: int
  opened_at :: real
  probes :: int

definition new_CircuitBreaker :: "int \<Rightarrow> real \<Rightarrow> int \<Rightarrow> CircuitBreaker res" where
  "new_CircuitBreaker threshold cooldown probe_limit =
     (if threshold < 1 \<or> cooldown < 0 \<or> probe_limit < 1
      then Inl (ValueError ''Circuit breaker thresholds must be positive'')
      else Inr \<lparr>failure_threshold = threshold, cooldown_seconds = cooldown,
                half_open_probe_limit = probe_limit, cb_state = CLOSED,
                consecutive_failures = 0, opened_at = 0, probes = 0\<rparr>)"

definition take_probe :: "CircuitBreaker \<Rightarrow> bool \<times> CircuitBreaker" where
  "take_probe cb =
     (if probes cb \<ge> half_open_probe_limit cb then (False, cb)
      else (True, cb\<lparr>probes := probes cb + 1\<rparr>))"

definition allow_request :: "CircuitBreaker \<Rightarrow> world \<Rightarrow> bool \<times> CircuitBreaker \<times> world" where
  "allow_request cb w =
     (case cb_state cb of
        CLOSED \<Rightarrow> (True, cb, w)
      | OPEN \<Rightarrow>
          (let (now, w1) = monotonic w
           in if now - opened_at cb < cooldown_seconds cb then (False, cb, w1)
              else let (ok, cb1) = take_probe (cb\<lparr>cb_state := HALF_OPEN, probes := 0\<rparr>)
                   in (ok, cb1, w1))
      | HALF_OPEN \<Rightarrow> (let (ok, cb1) = take_probe cb in (ok, cb1, w)))"

definition record_success :: "CircuitBreaker \<Rightarrow> CircuitBreaker" where
  "record_success cb = cb\<lparr>cb_state := CLOSED, consecutive_failures := 0, probes := 0\<rparr>"

definition record_failure :: "CircuitBreaker \<Rightarrow> world \<Rightarrow> CircuitBreaker \<times> world" where
  "record_failure cb w =
     (let cb1 = cb\<lparr>consecutive_failures := consecutive_failures cb + 1\<rparr>
      in if cb_state cb1 = HALF_OPEN \<or> consecutive_failures cb1 \<ge> failure_threshold cb1
         then let (now, w1) = monotonic w
              in (cb1\<lparr>cb_state := OPEN, opened_at := now, probes := 0\<rparr>, w1)
         else (cb1, w))"

text \<open>
  The steps of a circuit over all interleavings of its callers: a permit is asked for, a
  call succeeds, a call fails, each in any world.
\<close>

datatype cb_event = Permit bool | Success | Failure

inductive cb_step :: "CircuitBreaker \<Rightarrow> cb_event \<Rightarrow> CircuitBreaker \<Rightarrow> bool" where
  permit: "allow_request cb w = (ok, cb', w') \<Longrightarrow> cb_step cb (Permit ok) cb'"
| success: "cb_step cb Success (record_success cb)"
| failure: "record_failure cb w = (cb', w') \<Longrightarrow> cb_step cb Failure cb'"

inductive_cases cb_permitE [elim!]: "cb_step cb (Permit ok) cb'"
inductive_cases cb_successE [elim!]: "cb_step cb Success cb'"
inductive_cases cb_failureE [elim!]: "cb_step cb Failure cb'"

inductive cb_run :: "CircuitBreaker \<Rightarrow> cb_event list \<Rightarrow> CircuitBreaker \<Rightarrow> bool" where
  cb_nil: "cb_run cb [] cb"
| cb_cons: "cb_step cb e cb1 \<Longrightarrow> cb_run cb1 es cb2 \<Longrightarrow> cb_run cb (e # es) cb2"

inductive_cases cb_run_nilE [elim!]: "cb_run cb [] cb'"
inductive_cases cb_run_consE [elim!]: "cb_run cb (e # es) cb'"

text \<open>The invariant of a circuit.\<close>

definition cb_inv :: "CircuitBreaker \<Rightarrow> bool" where
  "cb_inv cb \<longleftrightarrow>
     1 \<le> failure_threshold cb \<and> 0 \<le> cooldown_seconds cb \<and> 1 \<le> half_open_probe_limit cb \<and>
     0 \<le> consecutive_failures cb \<and>
     (case cb_state cb of
        CLOSED \<Rightarrow> consecutive_failures cb < failure_threshold cb \<and> probes cb = 0
      | OPEN \<Rightarrow> failure_threshold cb \<le> consecutive_failures cb \<and> probes cb = 0
      | HALF_OPEN \<Rightarrow> failure_threshold cb \<le> consecutive_failures cb \<and>
                     1 \<le> probes cb \<and> probes cb \<le> half_open_probe_limit cb)"

subsection \<open>Lemmas on the retry loop\<close>

lemma is_retryable_provider: "is_retryable e \<Longrightarrow> is_ProviderError e"
  by (simp add: is_retryable_def)

text \<open>
  Reasoning about the loop: an invariant that the operation and the pauses keep holds at
  the end.
\<close>

lemma retry_loop_invariant:
  assumes "P s" and "\<And>s. P s \<Longrightarrow> P (snd (oper s))" and "\<And>k s. P s \<Longrightarrow> P (backoff pol draw slp k s)"
  shows "P (snd (retry_loop oper pol draw slp n k le s))"
  using assms(1)
proof (induction n arbitrary: k le s)
  case (Suc n)
  obtain r s1 where o: "oper s = (r, s1)" by (cases "oper s")
  from assms(2) [OF Suc.prems] have "P s1" by (simp add: o)
  then show ?case using Suc.IH assms(3) by (auto simp: o split: sum.splits)
qed simp

lemma run_with_retry_invariant:
  assumes "P s" and "\<And>s. P s \<Longrightarrow> P (snd (oper s))" and "\<And>k s. P s \<Longrightarrow> P (backoff pol draw slp k s)"
  shows "P (snd (run_with_retry oper pol draw slp s))"
  unfolding run_with_retry_def by (rule retry_loop_invariant [of P, OF assms]) auto

text \<open>
  \<open>nth_call j s\<close> is the state in which call number \<open>j\<close> (from 0) is made when the
  calls before it failed and were followed by their pauses.
\<close>

primrec nth_call ::
  "('s \<Rightarrow> 'a res \<times> 's) \<Rightarrow> RetryPolicy \<Rightarrow> ('s \<Rightarrow> real \<times> 's) \<Rightarrow> (real \<Rightarrow> 's \<Rightarrow> 's) \<Rightarrow>
   nat \<Rightarrow> 's \<Rightarrow> 's" where
  "nth_call oper pol draw slp 0 s = s"
| "nth_call oper pol draw slp (Suc j) s =
     backoff pol draw slp j (snd (oper (nth_call oper pol draw slp j s)))"

definition retry_outcome ::
  "('s \<Rightarrow> 'a res \<times> 's) \<Rightarrow> (nat \<Rightarrow> 's) \<Rightarrow> nat \<Rightarrow> nat \<Rightarrow> nat \<Rightarrow> ('a \<times> nat) res \<times> 's \<Rightarrow> bool" where
  "retry_outcome oper st k n j out \<longleftrightarrow>
     k \<le> j \<and> j < k + n \<and>
     (\<forall>i. k \<le> i \<and> i < j \<longrightarrow> (\<exists>e. fst (oper (st i)) = Inl e \<and> is_retryable e)) \<and>
     snd out = snd (oper (st j)) \<and>
     (case fst (oper (st j)) of
        Inr v \<Rightarrow> fst out = Inr (v, j + 1)
      | Inl e \<Rightarrow> fst out = Inl e \<and> (\<not> is_retryable e \<or> j = k + n - 1))"

lemma retry_outcome_step:
  assumes "retry_outcome oper st (Suc k) n j out"
    and "fst (oper (st k)) = Inl e" "is_retryable e"
  shows "retry_outcome oper st k (Suc n) j out"
  unfolding retry_outcome_def
proof (intro conjI)
  show "\<forall>i. k \<le> i \<and> i < j \<longrightarrow> (\<exists>e. fst (oper (st i)) = Inl e \<and> is_retryable e)"
  proof (intro allI impI)
    fix i assume "k \<le> i \<and> i < j"
    then show "\<exists>e. fst (oper (st i)) = Inl e \<and> is_retryable e"
      using assms by (cases "i = k") (auto simp: retry_outcome_def)
  qed
qed (use assms(1) in \<open>auto simp: retry_outcome_def split: sum.splits\<close>)

lemma retry_loop_outcome:
  assumes "0 < n" and "max_attempts pol = int (n + k)"
  shows "\<exists>j. retry_outcome oper (\<lambda>i. nth_call oper pol draw slp i s) k n j
           (retry_loop oper pol draw slp n k le (nth_call oper pol draw slp k s))"
  using assms
proof (induction n arbitrary: k le)
  case (Suc n)
  let ?st = "\<lambda>i. nth_call oper pol draw slp i s"
  obtain x s1 where o: "oper (?st k) = (x, s1)" by (cases "oper (?st k)")
  show ?case
  proof (cases "\<exists>e. x = Inl e \<and> is_retryable e \<and> n \<noteq> 0")
    case False
    then have "retry_outcome oper ?st k (Suc n) k
        (retry_loop oper pol draw slp (Suc n) k le (?st k))"
      using o Suc.prems by (cases x) (auto simp: retry_outcome_def dest: is_retryable_provider)
    then show ?thesis ..
  next
    case True
    then obtain e where e: "x = Inl e" "is_retryable e" "0 < n" by auto
    have again: "retry_loop oper pol draw slp (Suc n) k le (?st k) =
        retry_loop oper pol draw slp n (Suc k) (Some e) (?st (Suc k))"
      using e o Suc.prems by (simp add: is_retryable_provider)
    obtain j where "retry_outcome oper ?st (Suc k) n j
        (retry_loop oper pol draw slp n (Suc k) (Some e) (?st (Suc k)))"
      using Suc.IH [of "Suc k" "Some e"] e(3) Suc.prems by auto
    then have "retry_outcome oper ?st k (Suc n) j
        (retry_loop oper pol draw slp n (Suc k) (Some e) (?st (Suc k)))"
      by (rule retry_outcome_step [where e = e]) (simp_all add: o e)
    then show ?thesis unfolding again ..
  qed
qed simp

lemma base_delay_bounds:
  assumes "0 \<le> initial_delay_seconds pol" "0 \<le> max_delay_seconds pol"
  shows "0 \<le> base_delay pol k \<and> base_delay pol k \<le> max_delay_seconds pol"
  using assms by (simp add: base_delay_def)

subsection \<open>Lemmas on the circuit breaker\<close>

lemma new_CircuitBreaker_inv: "new_CircuitBreaker t c l = Inr cb \<Longrightarrow> cb_inv cb"
  by (auto simp: new_CircuitBreaker_def cb_inv_def split: if_splits)

lemma allow_request_inv: "cb_inv cb \<Longrightarrow> allow_request cb w = (ok, cb', w') \<Longrightarrow> cb_inv cb'"
  by (auto simp: allow_request_def cb_inv_def take_probe_def case_prod_beta Let_def
      split: CircuitState.splits if_splits)

lemma record_success_inv: "cb_inv cb \<Longrightarrow> cb_inv (record_success cb)"
  by (auto simp: record_success_def cb_inv_def)

lemma record_failure_inv: "cb_inv cb \<Longrightarrow> record_failure cb w = (cb', w') \<Longrightarrow> cb_inv cb'"
  by (auto simp: record_failure_def cb_inv_def case_prod_beta Let_def
      split: CircuitState.splits if_splits)

lemma cb_step_inv: "cb_step cb e cb' \<Longrightarrow> cb_inv cb \<Longrightarrow> cb_inv cb'"
  by (induction rule: cb_step.induct)
    (rule allow_request_inv record_success_inv record_failure_inv; assumption)+

lemma cb_run_inv: "cb_run cb es cb' \<Longrightarrow> cb_inv cb \<Longrightarrow> cb_inv cb'"
  by (induction rule: cb_run.induct) (auto intro: cb_step_inv)

lemma cb_step_config:
  "cb_step cb e cb' \<Longrightarrow> failure_threshold cb' = failure_threshold cb \<and>
     cooldown_seconds cb' = cooldown_seconds cb \<and>
     half_open_probe_limit cb' = half_open_probe_limit cb"
proof (induction rule: cb_step.induct)
  case (permit cb w ok cb' w')
  then show ?case
    by (auto simp: allow_request_def take_probe_def case_prod_beta Let_def
        split: CircuitState.splits if_splits)
next
  case (success cb)
  then show ?case by (simp add: record_success_def)
next
  case (failure cb w cb' w')
  then show ?case by (auto simp: record_failure_def case_prod_beta Let_def split: if_splits)
qed

lemma allow_request_world: "world_le w (snd (snd (allow_request cb w)))"
  by (auto simp: allow_request_def case_prod_beta Let_def split: CircuitState.splits)

lemma record_failure_world: "world_le w (snd (record_failure cb w))"
  by (auto simp: record_failure_def case_prod_beta Let_def)

text \<open>Permits handed out while no outcome is recorded.\<close>

definition permits :: "cb_event list \<Rightarrow> nat" where
  "permits es = count_list es (Permit True)"

definition only_permits :: "cb_event list \<Rightarrow> bool" where
  "only_permits es \<longleftrightarrow> (\<forall>e \<in> set es. \<exists>b. e = Permit b)"

lemma half_open_permit:
  assumes "cb_state cb = HALF_OPEN" "cb_step cb (Permit ok) cb'"
  shows "cb_state cb' = HALF_OPEN \<and> probes cb' = probes cb + (if ok then 1 else 0) \<and>
    (ok \<longleftrightarrow> probes cb < half_open_probe_limit cb)"
  using assms by (auto simp: allow_request_def take_probe_def split: if_splits)

lemma half_open_run:
  assumes "cb_run cb es cb'" "cb_state cb = HALF_OPEN" "only_permits es"
    "probes cb \<le> half_open_probe_limit cb"
  shows "cb_state cb' = HALF_OPEN \<and> probes cb' = probes cb + int (permits es) \<and>
    probes cb' \<le> half_open_probe_limit cb"
  using assms
proof (induction rule: cb_run.induct)
  case (cb_nil cb)
  then show ?case by (simp add: permits_def)
next
  case (cb_cons cb e cb1 es cb2)
  then obtain ok where e: "e = Permit ok" and es: "only_permits es" by (auto simp: only_permits_def)
  have s: "cb_state cb1 = HALF_OPEN" "probes cb1 = probes cb + (if ok then 1 else 0)"
    "ok \<longleftrightarrow> probes cb < half_open_probe_limit cb"
    using half_open_permit [OF cb_cons.prems(1) cb_cons.hyps(1) [unfolded e]] by simp_all
  have c: "half_open_probe_limit cb1 = half_open_probe_limit cb"
    using cb_step_config [OF cb_cons.hyps(1)] by simp
  have "probes cb1 \<le> half_open_probe_limit cb1" using s c cb_cons.prems(3) by (cases ok) simp_all
  with cb_cons.IH [OF s(1) es] show ?case
    using s c e by (auto simp: permits_def)
qed

lemma open_permit:
  assumes "cb_state cb = OPEN" "cb_step cb (Permit ok) cb'" "1 \<le> half_open_probe_limit cb"
  shows "(ok \<and> cb_state cb' = HALF_OPEN \<and> probes cb' = 1) \<or> (\<not> ok \<and> cb' = cb)"
  using assms by (auto simp: allow_request_def take_probe_def case_prod_beta Let_def split: if_splits)

lemma open_run:
  assumes "cb_run cb es cb'" "cb_state cb = OPEN" "only_permits es" "1 \<le> half_open_probe_limit cb"
  shows "int (permits es) \<le> half_open_probe_limit cb"
  using assms
proof (induction rule: cb_run.induct)
  case (cb_nil cb)
  then show ?case by (simp add: permits_def)
next
  case (cb_cons cb e cb1 es cb2)
  then obtain ok where e: "e = Permit ok" and es: "only_permits es" by (auto simp: only_permits_def)
  have c: "half_open_probe_limit cb1 = half_open_probe_limit cb"
    using cb_step_config [OF cb_cons.hyps(1)] by simp
  consider "ok" "cb_state cb1 = HALF_OPEN" "probes cb1 = 1" | "\<not> ok" "cb1 = cb"
    using open_permit [OF cb_cons.prems(1) cb_cons.hyps(1) [unfolded e] cb_cons.prems(3)] by auto
  then show ?case
  proof cases
    case 1
    then have "probes cb2 = 1 + int (permits es) \<and> probes cb2 \<le> half_open_probe_limit cb1"
      using half_open_run [OF cb_cons.hyps(2) _ es] c cb_cons.prems(3) by simp
    then show ?thesis using c 1 e by (simp add: permits_def)
  next
    case 2
    then show ?thesis using cb_cons.IH cb_cons.prems es e by (simp add: permits_def)
  qed
qed

text \<open>A run of failures with nothing in between.\<close>

fun record_failures :: "nat \<Rightarrow> CircuitBreaker \<Rightarrow> world \<Rightarrow> CircuitBreaker \<times> world" where
  "record_failures 0 cb w = (cb, w)"
| "record_failures (Suc n) cb w = (let (cb1, w1) = record_failure cb w in record_failures n cb1 w1)"

lemma record_failure_count:
  "record_failure cb w = (cb', w') \<Longrightarrow>
     consecutive_failures cb' = consecutive_failures cb + 1 \<and>
     failure_threshold cb' = failure_threshold cb"
  by (auto simp: record_failure_def case_prod_beta Let_def split: if_splits)

lemma record_failures_open:
  "cb_inv cb \<Longrightarrow> cb_state cb = CLOSED \<Longrightarrow> record_failures n cb w = (cb', w') \<Longrightarrow>
   cb_state cb' = (if consecutive_failures cb + int n \<ge> failure_threshold cb then OPEN else CLOSED) \<and>
   consecutive_failures cb' = consecutive_failures cb + int n"
proof (induction n arbitrary: cb w)
  case 0
  then show ?case by (simp add: cb_inv_def)
next
  case (Suc n)
  obtain cb1 w1 where f: "record_failure cb w = (cb1, w1)" by (cases "record_failure cb w")
  have inv: "cb_inv cb1" using record_failure_inv Suc.prems(1) f .
  have run: "record_failures n cb1 w1 = (cb', w')" using Suc.prems(3) f by simp
  show ?case
  proof (cases "cb_state cb1 = CLOSED")
    case True
    then show ?thesis using Suc.IH [OF inv True run] record_failure_count [OF f] by auto
  next
    case False
    have stays: "cb_state b = OPEN \<Longrightarrow> cb_inv b \<Longrightarrow> record_failures n b v = (b', v') \<Longrightarrow>
        cb_state b' = OPEN \<and> consecutive_failures b' = consecutive_failures b + int n" for b v b' v'
    proof (induction n arbitrary: b v)
      case (Suc n)
      obtain b1 v1 where g: "record_failure b v = (b1, v1)" by (cases "record_failure b v")
      then have "cb_state b1 = OPEN"
        using Suc.prems by (auto simp: record_failure_def cb_inv_def case_prod_beta Let_def)
      then show ?case
        using Suc.IH [of b1 v1] Suc.prems g record_failure_inv record_failure_count [OF g] by auto
    qed simp
    have "cb_state cb1 = OPEN" "consecutive_failures cb1 \<ge> failure_threshold cb"
      using False f Suc.prems(2)
      by (auto simp: record_failure_def case_prod_beta Let_def split: if_splits)
    then show ?thesis using stays [OF _ inv run] record_failure_count [OF f] by auto
  qed
qed

lemma cb_stuck:
  assumes "cb_run cb es cb'" "cb_state cb = HALF_OPEN" "half_open_probe_limit cb \<le> probes cb"
    "only_permits es"
  shows "cb' = cb \<and> set es \<subseteq> {Permit False}"
  using assms
proof (induction rule: cb_run.induct)
  case (cb_cons cb e cb1 es cb2)
  then obtain ok where e: "e = Permit ok" and es: "only_permits es" by (auto simp: only_permits_def)
  have "ok = False \<and> cb1 = cb"
    using cb_cons.hyps(1) cb_cons.prems(1,2) e by (auto simp: allow_request_def take_probe_def)
  with cb_cons.IH cb_cons.prems es e show ?case by auto
qed simp

subsection \<open>Properties of retries\<close>

text \<open>
  C30. \<open>run_with_retry\<close> with a positive budget always returns, after between one and
  \<open>max_attempts\<close> calls. Every call but the last failed with a retryable provider error
  and was followed by its pause; the outcome is the outcome of the last call; a success
  reports how many calls were made; an error is raised only if it is not retryable or the
  budget is spent.
\<close>

theorem run_with_retry_spec:
  fixes oper :: "'s \<Rightarrow> 'a res \<times> 's"
  assumes "0 < max_attempts pol"
  shows "\<exists>j. let st = (\<lambda>i. nth_call oper pol draw slp i s); out = run_with_retry oper pol draw slp s
    in int j < max_attempts pol \<and>
       (\<forall>i. i < j \<longrightarrow> (\<exists>e. fst (oper (st i)) = Inl e \<and> is_retryable e)) \<and>
       snd out = snd (oper (st j)) \<and>
       (case fst (oper (st j)) of
          Inr v \<Rightarrow> fst out = Inr (v, j + 1)
        | Inl e \<Rightarrow> fst out = Inl e \<and> (\<not> is_retryable e \<or> int j = max_attempts pol - 1))"
proof -
  have n: "0 < nat (max_attempts pol)" "max_attempts pol = int (nat (max_attempts pol) + 0)"
    using assms by auto
  obtain j where "retry_outcome oper (\<lambda>i. nth_call oper pol draw slp i s) 0 (nat (max_attempts pol)) j
      (run_with_retry oper pol draw slp s)"
    using retry_loop_outcome [OF n, of oper draw slp s None] by (auto simp: run_with_retry_def)
  then show ?thesis
    using assms by (intro exI [of _ j]) (auto simp: retry_outcome_def Let_def split: sum.splits)
qed

text \<open>An operation that fails once with a server error and then succeeds.\<close>

definition flaky :: "nat \<Rightarrow> nat res \<times> nat" where
  "flaky n = (if n < 1 then Inl (ProviderError ''HTTP_503'' ''unavailable'') else Inr n, Suc n)"

theorem run_with_retry_spec_witness:
  "run_with_retry flaky default_RetryPolicy (\<lambda>n. (1 / 2, n)) (\<lambda>d n. n) 0 = (Inr (1, 2), 2)"
proof -
  let ?st = "\<lambda>i. nth_call flaky default_RetryPolicy (\<lambda>n. (1 / 2, n)) (\<lambda>d n. n) i 0"
  let ?out = "run_with_retry flaky default_RetryPolicy (\<lambda>n. (1 / 2, n)) (\<lambda>d n. n) 0"
  have pause: "backoff default_RetryPolicy (\<lambda>n::nat. (1 / 2, n)) (\<lambda>d n. n) k m = m" for k m
    by (simp add: backoff_def delay_for_def Let_def default_RetryPolicy_def)
  have st: "?st i = i" for i by (induction i) (simp_all add: pause flaky_def)
  have budget: "max_attempts default_RetryPolicy = 3" by (simp add: default_RetryPolicy_def)
  then have "0 < max_attempts default_RetryPolicy" by simp
  from run_with_retry_spec [OF this, of flaky "\<lambda>n. (1 / 2, n)" "\<lambda>d n. n" 0]
  obtain j where j: "j < 3" "\<forall>i<j. i < 1" "snd ?out = Suc j"
    "if j < 1 then fst ?out = Inl (ProviderError ''HTTP_503'' ''unavailable'') \<and> j = 2
     else fst ?out = Inr (j, j + 1)"
    by (auto simp: Let_def st budget flaky_def is_retryable_def RETRYABLE_ERRORS_def
        split: if_splits)
  have "j = 1" using j by (cases j) (auto split: if_splits)
  with j have "fst ?out = Inr (1, 2)" "snd ?out = 2" by simp_all
  then show ?thesis by (metis prod.collapse)
qed

text \<open>
  Every pause lies within the jitter band around a base delay that never exceeds the
  configured maximum; in particular no pause is negative, and no pause exceeds the maximum
  by more than the jitter ratio.
\<close>

lemma delay_for_bounds:
  fixes draw :: "'s \<Rightarrow> real \<times> 's"
  assumes pol: "0 \<le> initial_delay_seconds pol" "0 \<le> max_delay_seconds pol"
      "0 \<le> jitter_ratio pol" "jitter_ratio pol \<le> 1"
    and rnd: "0 \<le> fst (draw s)" "fst (draw s) \<le> 1"
  shows "let d = fst (delay_for pol draw k None s); b = base_delay pol k
         in b * (1 - jitter_ratio pol) \<le> d \<and> d \<le> b * (1 + jitter_ratio pol) \<and> 0 \<le> d \<and>
            d \<le> max_delay_seconds pol * (1 + jitter_ratio pol)"
proof -
  let ?v = "fst (draw s)" and ?j = "jitter_ratio pol" and ?b = "base_delay pol k"
  let ?f = "1 + (?v * 2 - 1) * ?j"
  have d: "fst (delay_for pol draw k None s) = ?b * ?f"
    by (simp add: delay_for_def Let_def case_prod_beta)
  have b: "0 \<le> ?b" "?b \<le> max_delay_seconds pol" using base_delay_bounds [OF pol(1,2)] by auto
  have "0 \<le> ?v * ?j" using rnd pol by simp
  moreover have "?v * ?j \<le> 1 * ?j" using rnd pol by (intro mult_right_mono) simp_all
  ultimately have f: "1 - ?j \<le> ?f" "?f \<le> 1 + ?j" by (simp_all add: algebra_simps)
  have lo: "?b * (1 - ?j) \<le> ?b * ?f" and hi: "?b * ?f \<le> ?b * (1 + ?j)"
    using f b by (simp_all add: mult_left_mono)
  have "0 \<le> ?b * (1 - ?j)" using b pol by simp
  moreover have "?b * (1 + ?j) \<le> max_delay_seconds pol * (1 + ?j)" using b pol by (simp add: mult_right_mono)
  ultimately show ?thesis using d lo hi by (simp add: Let_def)
qed

subsection \<open>Properties of the circuit breaker\<close>

text \<open>
  A circuit built by the constructor keeps its invariant through every interleaving of
  permits, successes and failures: while \<open>CLOSED\<close> the failure count stays under the
  threshold, it is at least the threshold in the other two states, and between one and
  \<open>half_open_probe_limit\<close> probes are out exactly in \<open>HALF_OPEN\<close>.
\<close>

lemma circuit_reachable_inv:
  assumes "new_CircuitBreaker threshold cooldown probe_limit = Inr cb" "cb_run cb es cb'"
  shows "cb_inv cb'"
  using assms new_CircuitBreaker_inv cb_run_inv by blast

text \<open>
  C31. However many callers ask an \<open>OPEN\<close> circuit, at most \<open>half_open_probe_limit\<close> of
  them are let through until the outcome of a call is recorded.
\<close>

theorem half_open_probe_bound:
  assumes "cb_inv cb" "cb_state cb = OPEN" "only_permits es" "cb_run cb es cb'"
  shows "int (permits es) \<le> half_open_probe_limit cb"
  using assms open_run by (auto simp: cb_inv_def)

definition open_circuit :: CircuitBreaker where
  "open_circuit = \<lparr>failure_threshold = 3, cooldown_seconds = 0, half_open_probe_limit = 1,
                   cb_state = OPEN, consecutive_failures = 3, opened_at = 0, probes = 0\<rparr>"

theorem half_open_probe_bound_witness: "int (permits [Permit True, Permit False]) \<le> 1"
proof -
  let ?h = "open_circuit\<lparr>cb_state := HALF_OPEN, probes := 1\<rparr>"
  have "cb_step open_circuit (Permit True) ?h"
    by (rule cb_step.permit [of _ sample_world])
      (simp add: allow_request_def take_probe_def open_circuit_def sample_world_def monotonic_def)
  moreover have "cb_step ?h (Permit False) ?h"
    by (rule cb_step.permit [of _ sample_world])
      (simp add: allow_request_def take_probe_def open_circuit_def)
  ultimately have run: "cb_run open_circuit [Permit True, Permit False] ?h"
    by (metis cb_run.intros)
  have inv: "cb_inv open_circuit" by (simp add: cb_inv_def open_circuit_def)
  have state: "cb_state open_circuit = OPEN" by (simp add: open_circuit_def)
  have only: "only_permits [Permit True, Permit False]" by (auto simp: only_permits_def)
  have limit: "half_open_probe_limit open_circuit = 1" by (simp add: open_circuit_def)
  from half_open_probe_bound [OF inv state only run] show ?thesis unfolding limit .
qed

text \<open>
  A \<open>CLOSED\<close> circuit opens at exactly the configured number of consecutive failures,
  not before and not after, and the failure count is exact.
\<close>

lemma circuit_opens_at_threshold:
  assumes "new_CircuitBreaker threshold cooldown probe_limit = Inr cb"
    and "record_failures n cb w = (cb', w')"
  shows "cb_state cb' = (if threshold \<le> int n then OPEN else CLOSED) \<and>
    consecutive_failures cb' = int n"
proof -
  have "cb_inv cb" "cb_state cb = CLOSED" "consecutive_failures cb = 0" "failure_threshold cb = threshold"
    using assms(1) new_CircuitBreaker_inv
    by (auto simp: new_CircuitBreaker_def split: if_splits)
  with record_failures_open [OF _ _ assms(2)] show ?thesis by auto
qed

text \<open>
  C32. Every step of a circuit follows an edge of the documented state machine or is the
  late success of a call that was in flight: a permit only moves \<open>OPEN\<close> to
  \<open>HALF_OPEN\<close>, and only once the cooldown has elapsed; a failure leads to \<open>OPEN\<close> from
  \<open>HALF_OPEN\<close> and at the threshold; a success always leads to \<open>CLOSED\<close>, from
  \<open>OPEN\<close> too.
\<close>

theorem circuit_transitions:
  assumes "cb_inv cb"
  shows "(let (ok, cb', w') = allow_request cb w
          in (cb_state cb' = cb_state cb \<or>
                cb_state cb = OPEN \<and> cb_state cb' = HALF_OPEN \<and> ok \<and>
                cooldown_seconds cb \<le> mono_at w (tick w) - opened_at cb) \<and>
             (cb_state cb = OPEN \<and> mono_at w (tick w) - opened_at cb < cooldown_seconds cb
                \<longrightarrow> \<not> ok \<and> cb' = cb)) \<and>
    (let (cb', w') = record_failure cb w
     in cb_state cb' = (if cb_state cb = CLOSED \<and> consecutive_failures cb + 1 < failure_threshold cb
                        then CLOSED else OPEN) \<and>
        (cb_state cb' = OPEN \<longrightarrow> opened_at cb' = mono_at w (tick w))) \<and>
    cb_state (record_success cb) = CLOSED"
proof -
  have allow: "let (ok, cb', w') = allow_request cb w
          in (cb_state cb' = cb_state cb \<or>
                cb_state cb = OPEN \<and> cb_state cb' = HALF_OPEN \<and> ok \<and>
                cooldown_seconds cb \<le> mono_at w (tick w) - opened_at cb) \<and>
             (cb_state cb = OPEN \<and> mono_at w (tick w) - opened_at cb < cooldown_seconds cb
                \<longrightarrow> \<not> ok \<and> cb' = cb)"
    using assms by (cases "cb_state cb")
      (auto simp: allow_request_def take_probe_def monotonic_def cb_inv_def)
  have fail: "let (cb', w') = record_failure cb w
     in cb_state cb' = (if cb_state cb = CLOSED \<and> consecutive_failures cb + 1 < failure_threshold cb
                        then CLOSED else OPEN) \<and>
        (cb_state cb' = OPEN \<longrightarrow> opened_at cb' = mono_at w (tick w))"
    using assms by (cases "cb_state cb")
      (auto simp: record_failure_def monotonic_def cb_inv_def)
  from allow fail show ?thesis by (simp add: record_success_def)
qed

theorem circuit_transitions_witness: "cb_state (record_success open_circuit) = CLOSED"
proof -
  have "cb_inv open_circuit" by (simp add: cb_inv_def open_circuit_def)
  from circuit_transitions [OF this] show ?thesis by blast
qed

text \<open>
  A \<open>HALF_OPEN\<close> circuit whose probes are all out refuses every request, for ever and
  whatever the time, until the outcome of a call is recorded: there is no timeout for a
  probe whose outcome never arrives.
\<close>

lemma half_open_waits_for_outcome:
  assumes "cb_state cb = HALF_OPEN" "half_open_probe_limit cb \<le> probes cb"
    and "cb_run cb es cb'" "only_permits es"
  shows "cb' = cb \<and> set es \<subseteq> {Permit False}"
  using assms cb_stuck by blast

end
