(* ===== verification/Routing.thy ===== *)
theory Routing
  imports Providers "HOL-Library.Product_Lexorder" "HOL-Library.Multiset"
begin

text \<open>
  Provider routing (\<open>routing.py\<close>): the bounded observation window of a provider, the
  composite score, and the router with its five strategies. The router's dictionaries are
  ordered dictionaries over provider names, as in the source; reading the statistics of a
  provider creates them (\<open>setdefault\<close>), so every key function threads the router.
\<close>

subsection \<open>Floats with infinities\<close>

text \<open>
  The finite floats and the two infinities, in their order. (A NaN is only met by the
  validation of weights, which treats it like an infinity.)
\<close>

datatype pyfloat = NegInf | Fin real | PosInf

fun pyfloat_le :: "pyfloat \<Rightarrow> pyfloat \<Rightarrow> bool" where
  "pyfloat_le NegInf y = True"
| "pyfloat_le x PosInf = True"
| "pyfloat_le (Fin x) (Fin y) = (x \<le> y)"
| "pyfloat_le x y = False"

instantiation pyfloat :: linorder
begin

definition less_eq_pyfloat :: "pyfloat \<Rightarrow> pyfloat \<Rightarrow> bool" where
  "less_eq_pyfloat = pyfloat_le"

definition less_pyfloat :: "pyfloat \<Rightarrow> pyfloat \<Rightarrow> bool" where
  "less_pyfloat x y = (pyfloat_le x y \<and> \<not> pyfloat_le y x)"

instance
proof
  fix x y z :: pyfloat
  show "x < y \<longleftrightarrow> x \<le> y \<and> \<not> y \<le> x" by (simp add: less_eq_pyfloat_def less_pyfloat_def)
  show "x \<le> x" by (cases x) (simp_all add: less_eq_pyfloat_def)
  show "x \<le> y \<Longrightarrow> y \<le> z \<Longrightarrow> x \<le> z" by (cases x; cases y; cases z) (simp_all add: less_eq_pyfloat_def)
  show "x \<le> y \<Longrightarrow> y \<le> x \<Longrightarrow> x = y" by (cases x; cases y) (simp_all add: less_eq_pyfloat_def)
  show "x \<le> y \<or> y \<le> x" by (cases x; cases y) (auto simp: less_eq_pyfloat_def)
qed

end

lemma pyfloat_order [simp]:
  "NegInf \<le> x" "x \<le> PosInf" "Fin a \<le> Fin b \<longleftrightarrow> a \<le> b" "Fin a < Fin b \<longleftrightarrow> a < b"
  "NegInf < Fin a" "Fin a < PosInf" "\<not> PosInf \<le> Fin a" "\<not> Fin a \<le> NegInf" "\<not> PosInf < x" "\<not> x < NegInf"
  by (cases x; auto simp: less_eq_pyfloat_def less_pyfloat_def)+

subsection \<open>Weights, observations, the composite score\<close>

definition ROUTING_STRATEGIES :: "string list" where
  "ROUTING_STRATEGIES =
     [''round_robin'', ''weighted_round_robin'', ''lowest_latency'', ''highest_success_rate'', ''composite'']"

definition MAX_COMPOSITE_WEIGHT :: real where
  "MAX_COMPOSITE_WEIGHT = 5"

record CompositeWeights =
  wgt_success :: real
  wgt_latency :: real
  wgt_load :: real
  wgt_recent_failure :: real

definition default_CompositeWeights :: CompositeWeights where
  "default_CompositeWeights =
     \<lparr>wgt_success = 1, wgt_latency = 1, wgt_load = 1, wgt_recent_failure = 0\<rparr>"

definition weight_ok :: "pyfloat \<Rightarrow> bool" where
  "weight_ok value = (case value of Fin x \<Rightarrow> 0 \<le> x \<and> x \<le> MAX_COMPOSITE_WEIGHT | _ \<Rightarrow> False)"

fun finite_part :: "pyfloat \<Rightarrow> real" where
  "finite_part (Fin x) = x"
| "finite_part _ = 0"

definition new_CompositeWeights ::
  "pyfloat \<Rightarrow> pyfloat \<Rightarrow> pyfloat \<Rightarrow> pyfloat \<Rightarrow> CompositeWeights res" where
  "new_CompositeWeights success latency load recent_failure =
     (case find (\<lambda>(name, value). \<not> weight_ok value)
        [(''success'', success), (''latency'', latency), (''load'', load),
         (''recent_failure'', recent_failure)] of
        Some (name, _) \<Rightarrow> Inl (ValueError (''composite '' @ name @ '' weight must be between 0 and 5.0''))
      | None \<Rightarrow> Inr \<lparr>wgt_success = finite_part success, wgt_latency = finite_part latency,
                      wgt_load = finite_part load, wgt_recent_failure = finite_part recent_failure\<rparr>)"

definition weights_as_dict :: "CompositeWeights \<Rightarrow> (string, real) dict" where
  "weights_as_dict w =
     [(''success'', wgt_success w), (''latency'', wgt_latency w), (''load'', wgt_load w),
      (''recent_failure'', wgt_recent_failure w)]"

record ProviderObservation =
  obs_success_rate :: real
  obs_average_latency_ms :: real
  obs_inflight :: int
  obs_recent_failure_rate :: real

record RoutingCandidate =
  cnd_position :: nat
  cnd_name :: string
  cnd_observation :: ProviderObservation

text \<open>Python's \<open>x ** y\<close> on non-negative floats; \<open>0.0 ** 0.0\<close> is \<open>1.0\<close>.\<close>

definition py_pow :: "real \<Rightarrow> real \<Rightarrow> real" where
  "py_pow x y = (if y = 0 then 1 else x powr y)"

definition composite_score :: "ProviderObservation \<Rightarrow> CompositeWeights \<Rightarrow> real" where
  "composite_score obs w =
     py_pow (obs_success_rate obs) (wgt_success w)
     / py_pow (1 + obs_average_latency_ms obs / 1000) (wgt_latency w)
     / py_pow (1 + of_int (obs_inflight obs)) (wgt_load w)
     / py_pow (1 + obs_recent_failure_rate obs) (wgt_recent_failure w)"

fun select_composite :: "RoutingCandidate list \<Rightarrow> CompositeWeights \<Rightarrow> RoutingCandidate res" where
  "select_composite [] w = Inl (LookupError ''No healthy payment provider is available'')"
| "select_composite (c # cs) w = Inr (first_max (\<lambda>x. composite_score (cnd_observation x) w) c cs)"

subsection \<open>Statistics of a provider\<close>

record ProviderStats =
  pst_window_size :: int
  pst_recent :: "(bool \<times> real) list"
  pst_inflight :: int
  pst_total_requests :: int
  pst_successes :: int
  pst_failures :: int
  pst_timeouts :: int
  pst_last_success_at :: "datetime option"
  pst_last_failure_at :: "datetime option"

definition new_ProviderStats :: "int \<Rightarrow> ProviderStats" where
  "new_ProviderStats window =
     \<lparr>pst_window_size = window, pst_recent = [], pst_inflight = 0, pst_total_requests = 0,
      pst_successes = 0, pst_failures = 0, pst_timeouts = 0, pst_last_success_at = None,
      pst_last_failure_at = None\<rparr>"

definition stats_start :: "ProviderStats \<Rightarrow> ProviderStats" where
  "stats_start s = s\<lparr>pst_inflight := pst_inflight s + 1\<rparr>"

text \<open>
  \<open>while len(recent) > window_size: recent.popleft()\<close>. The router accepts no window
  below one, so the deque is never empty when an element is taken.
\<close>

fun trim :: "int \<Rightarrow> 'a list \<Rightarrow> 'a list" where
  "trim window [] = []"
| "trim window (x # xs) = (if window < int (length (x # xs)) then trim window xs else x # xs)"

definition stats_finish :: "bool \<Rightarrow> real \<Rightarrow> string option \<Rightarrow> ProviderStats \<Rightarrow> world \<Rightarrow> ProviderStats \<times> world" where
  "stats_finish success latency_ms error_code s w =
     (let s1 = s\<lparr>pst_inflight := max 0 (pst_inflight s - 1),
                 pst_total_requests := pst_total_requests s + 1\<rparr>;
          (now, w1) = utcnow w;
          s2 = (if success
                then s1\<lparr>pst_successes := pst_successes s1 + 1, pst_last_success_at := Some now\<rparr>
                else s1\<lparr>pst_failures := pst_failures s1 + 1, pst_last_failure_at := Some now,
                        pst_timeouts := (if error_code = Some ''PROVIDER_TIMEOUT''
                                         then pst_timeouts s1 + 1 else pst_timeouts s1)\<rparr>)
      in (s2\<lparr>pst_recent := trim (pst_window_size s2) (pst_recent s2 @ [(success, max 0 latency_ms)])\<rparr>, w1))"

definition success_rate :: "ProviderStats \<Rightarrow> real" where
  "success_rate s =
     (if pst_recent s \<noteq> []
      then real (length (filter fst (pst_recent s))) / real (length (pst_recent s)) else 1)"

definition recent_failure_rate :: "ProviderStats \<Rightarrow> real" where
  "recent_failure_rate s = 1 - success_rate s"

definition average_latency_ms :: "ProviderStats \<Rightarrow> real" where
  "average_latency_ms s =
     (if pst_recent s \<noteq> [] then sum_list (map snd (pst_recent s)) / real (length (pst_recent s)) else 0)"

definition p95_latency_ms :: "ProviderStats \<Rightarrow> real" where
  "p95_latency_ms s =
     (if pst_recent s = [] then 0
      else let latencies = sort (map snd (pst_recent s))
           in latencies ! nat (max 0 (ceiling (real (length latencies) * (95 / 100)) - 1)))"

definition snapshot :: "ProviderStats \<Rightarrow> ProviderObservation" where
  "snapshot s =
     \<lparr>obs_success_rate = success_rate s, obs_average_latency_ms = average_latency_ms s,
      obs_inflight = pst_inflight s, obs_recent_failure_rate = recent_failure_rate s\<rparr>"

subsection \<open>The router\<close>

record ProviderRouter =
  rtr_strategy :: string
  rtr_next :: nat
  rtr_weighted_current :: "(string, real) dict"
  rtr_stats :: "(string, ProviderStats) dict"
  rtr_window_size :: int
  rtr_composite_weights :: CompositeWeights

text \<open>\<open>repr\<close> of a string over the characters of the model (code points below 256).\<close>

definition repr_char :: "char \<Rightarrow> char \<Rightarrow> string" where
  "repr_char quote c =
     (let n = of_char c :: nat
      in if c = quote \<or> c = CHR 0x5C then [CHR 0x5C, c]
         else if n = 9 then [CHR 0x5C, CHR ''t'']
         else if n = 10 then [CHR 0x5C, CHR ''n'']
         else if n = 13 then [CHR 0x5C, CHR ''r'']
         else if n < 32 \<or> 127 \<le> n \<and> n \<le> 160 \<or> n = 173
              then [CHR 0x5C, CHR ''x'', hex_digit (n div 16), hex_digit (n mod 16)]
         else [c])"

definition repr_str :: "string \<Rightarrow> string" where
  "repr_str s =
     (let quote = (if CHR 0x27 \<in> set s \<and> CHR 0x22 \<notin> set s then CHR 0x22 else CHR 0x27)
      in quote # concat (map (repr_char quote) s) @ [quote])"

definition strategy_error :: "string \<Rightarrow> exn" where
  "strategy_error strategy =
     ValueError (''routing strategy must be one of: '' @ join '', '' ROUTING_STRATEGIES @
                 ''; got '' @ repr_str strategy)"

definition new_ProviderRouter :: "string \<Rightarrow> int \<Rightarrow> CompositeWeights option \<Rightarrow> ProviderRouter res" where
  "new_ProviderRouter strategy window composite_weights =
     (if strategy \<notin> set ROUTING_STRATEGIES then Inl (strategy_error strategy)
      else if window < 1 then Inl (ValueError ''routing stats window_size must be positive'')
      else Inr \<lparr>rtr_strategy = strategy, rtr_next = 0, rtr_weighted_current = [], rtr_stats = [],
                rtr_window_size = window,
                rtr_composite_weights = (case composite_weights of None \<Rightarrow> default_CompositeWeights
                                         | Some ws \<Rightarrow> ws)\<rparr>)"

definition set_strategy :: "string \<Rightarrow> ProviderRouter \<Rightarrow> unit res \<times> ProviderRouter" where
  "set_strategy strategy r =
     (if strategy \<notin> set ROUTING_STRATEGIES then (Inl (strategy_error strategy), r)
      else (Inr (), r\<lparr>rtr_strategy := strategy\<rparr>))"

definition set_composite_weights :: "CompositeWeights \<Rightarrow> ProviderRouter \<Rightarrow> ProviderRouter" where
  "set_composite_weights weights r = r\<lparr>rtr_composite_weights := weights\<rparr>"

definition stats_for :: "provider \<Rightarrow> ProviderRouter \<Rightarrow> ProviderStats \<times> ProviderRouter" where
  "stats_for p r =
     (case map_of (rtr_stats r) (prv_name p) of
        Some s \<Rightarrow> (s, r)
      | None \<Rightarrow> let s = new_ProviderStats (rtr_window_size r)
                in (s, r\<lparr>rtr_stats := AList.update (prv_name p) s (rtr_stats r)\<rparr>))"

definition start_request :: "provider \<Rightarrow> ProviderRouter \<Rightarrow> ProviderRouter" where
  "start_request p r =
     (let (s, r1) = stats_for p r
      in r1\<lparr>rtr_stats := AList.update (prv_name p) (stats_start s) (rtr_stats r1)\<rparr>)"

definition finish_request ::
  "provider \<Rightarrow> bool \<Rightarrow> real \<Rightarrow> string option \<Rightarrow> ProviderRouter \<Rightarrow> world \<Rightarrow> ProviderRouter \<times> world" where
  "finish_request p success latency_ms error_code r w =
     (let (s, r1) = stats_for p r;
          (s1, w1) = stats_finish success latency_ms error_code s w
      in (r1\<lparr>rtr_stats := AList.update (prv_name p) s1 (rtr_stats r1)\<rparr>, w1))"

definition round_robin :: "provider list \<Rightarrow> ProviderRouter \<Rightarrow> provider \<times> ProviderRouter" where
  "round_robin providers r =
     (providers ! (rtr_next r mod length providers), r\<lparr>rtr_next := rtr_next r + 1\<rparr>)"

definition weight :: "provider \<Rightarrow> ProviderRouter \<Rightarrow> real \<times> ProviderRouter" where
  "weight p r = (let (s, r1) = stats_for p r in (max (5 / 100) (success_rate s), r1))"

definition weighted_current :: "ProviderRouter \<Rightarrow> string \<Rightarrow> real" where
  "weighted_current r name = (case map_of (rtr_weighted_current r) name of Some x \<Rightarrow> x | None \<Rightarrow> 0)"

text \<open>The loop of \<open>_weighted_round_robin\<close>, on \<open>(total, selected, selected_score)\<close>.\<close>

fun weighted_loop ::
  "provider list \<Rightarrow> real \<times> provider \<times> pyfloat \<Rightarrow> ProviderRouter \<Rightarrow> (real \<times> provider) \<times> ProviderRouter" where
  "weighted_loop [] (tot, selected, selected_score) r = ((tot, selected), r)"
| "weighted_loop (p # ps) (tot, selected, selected_score) r =
     (let (wt, r1) = weight p r;
          score = weighted_current r1 (prv_name p) + wt;
          r2 = r1\<lparr>rtr_weighted_current := AList.update (prv_name p) score (rtr_weighted_current r1)\<rparr>
      in weighted_loop ps
           (if Fin score > selected_score then (tot + wt, p, Fin score)
            else (tot + wt, selected, selected_score)) r2)"

definition weighted_round_robin :: "provider list \<Rightarrow> ProviderRouter \<Rightarrow> provider \<times> ProviderRouter" where
  "weighted_round_robin providers r =
     (let ((tot, selected), r1) = weighted_loop providers (0, hd providers, NegInf) r
      in (selected,
          r1\<lparr>rtr_weighted_current :=
               AList.update (prv_name selected) (weighted_current r1 (prv_name selected) - tot)
                 (rtr_weighted_current r1)\<rparr>))"

text \<open>\<open>providers.index(provider)\<close>: list search by equality, which is identity for providers.\<close>

fun index_of :: "provider \<Rightarrow> provider list \<Rightarrow> nat" where
  "index_of p [] = 0"
| "index_of p (q # qs) = (if prv_object q = prv_object p then 0 else Suc (index_of p qs))"

definition latency_key :: "provider list \<Rightarrow> provider \<Rightarrow> ProviderRouter \<Rightarrow> (pyfloat \<times> real \<times> nat) \<times> ProviderRouter" where
  "latency_key providers p r =
     (let (s, r1) = stats_for p r
      in ((if pst_recent s \<noteq> [] then Fin (average_latency_ms s) else PosInf,
           - success_rate s, index_of p providers), r1))"

definition success_key :: "provider list \<Rightarrow> provider \<Rightarrow> ProviderRouter \<Rightarrow> (real \<times> real \<times> int \<times> int) \<times> ProviderRouter" where
  "success_key providers p r =
     (let (s, r1) = stats_for p r
      in ((success_rate s, - average_latency_ms s, - pst_inflight s, - int (index_of p providers)), r1))"

text \<open>Python evaluates the key of every element once, in order.\<close>

fun keyed :: "(provider \<Rightarrow> ProviderRouter \<Rightarrow> 'k \<times> ProviderRouter) \<Rightarrow> provider list \<Rightarrow> ProviderRouter \<Rightarrow>
  ('k \<times> provider) list \<times> ProviderRouter" where
  "keyed f [] r = ([], r)"
| "keyed f (p # ps) r =
     (let (k, r1) = f p r; (ks, r2) = keyed f ps r1 in ((k, p) # ks, r2))"

fun candidates_from :: "nat \<Rightarrow> provider list \<Rightarrow> ProviderRouter \<Rightarrow> RoutingCandidate list \<times> ProviderRouter" where
  "candidates_from index [] r = ([], r)"
| "candidates_from index (p # ps) r =
     (let (s, r1) = stats_for p r; (cs, r2) = candidates_from (index + 1) ps r1
      in (\<lparr>cnd_position = index, cnd_name = prv_name p, cnd_observation = snapshot s\<rparr> # cs, r2))"

definition choose_provider :: "provider list \<Rightarrow> ProviderRouter \<Rightarrow> provider res \<times> ProviderRouter" where
  "choose_provider providers r =
     (if providers = [] then (Inl (LookupError ''No healthy payment provider is available''), r)
      else if rtr_strategy r = ''round_robin''
        then let (p, r1) = round_robin providers r in (Inr p, r1)
      else if rtr_strategy r = ''weighted_round_robin''
        then let (p, r1) = weighted_round_robin providers r in (Inr p, r1)
      else if rtr_strategy r = ''lowest_latency''
        then let (ks, r1) = keyed (latency_key providers) providers r
             in (Inr (snd (first_min fst (hd ks) (tl ks))), r1)
      else if rtr_strategy r = ''highest_success_rate''
        then let (ks, r1) = keyed (success_key providers) providers r
             in (Inr (snd (first_max fst (hd ks) (tl ks))), r1)
      else let (cs, r1) = candidates_from 0 providers r
           in (case select_composite cs (rtr_composite_weights r1) of
                 Inl e \<Rightarrow> (Inl e, r1)
               | Inr c \<Rightarrow> (Inr (providers ! cnd_position c), r1)))"

subsection \<open>Reading statistics\<close>

text \<open>
  The statistics a reader sees under a name; \<open>same_view\<close> says that a router differs
  only by statistics that were created by reading them.
\<close>

definition stats_view :: "ProviderRouter \<Rightarrow> string \<Rightarrow> ProviderStats" where
  "stats_view r name =
     (case map_of (rtr_stats r) name of Some s \<Rightarrow> s | None \<Rightarrow> new_ProviderStats (rtr_window_size r))"

definition same_view :: "ProviderRouter \<Rightarrow> ProviderRouter \<Rightarrow> bool" where
  "same_view r r' \<longleftrightarrow>
     stats_view r' = stats_view r \<and> (\<exists>st. r' = r\<lparr>rtr_stats := st\<rparr>) \<and>
     (dict_ok (rtr_stats r) \<longrightarrow> dict_ok (rtr_stats r'))"

lemma same_view_refl [simp, intro]: "same_view r r"
  by (auto simp: same_view_def intro: exI [of _ "rtr_stats r"])

lemma same_view_trans [trans]: "same_view a b \<Longrightarrow> same_view b c \<Longrightarrow> same_view a c"
  by (auto simp: same_view_def)

lemma same_view_fields:
  "same_view r r' \<Longrightarrow> stats_view r' = stats_view r \<and> rtr_strategy r' = rtr_strategy r \<and>
     rtr_next r' = rtr_next r \<and> rtr_weighted_current r' = rtr_weighted_current r \<and>
     rtr_window_size r' = rtr_window_size r \<and> rtr_composite_weights r' = rtr_composite_weights r"
  by (auto simp: same_view_def)

lemma stats_for_view: "fst (stats_for p r) = stats_view r (prv_name p)"
  by (simp add: stats_for_def stats_view_def Let_def split: option.splits)

lemma stats_for_same: "same_view r (snd (stats_for p r))"
  by (auto simp: stats_for_def same_view_def stats_view_def Let_def dict_simps fun_eq_iff
        intro: exI [of _ "rtr_stats r"] split: option.splits)

lemmas stats_for_read = stats_for_view stats_for_same

lemma latency_key_read:
  "fst (latency_key ps p r) =
     (let s = stats_view r (prv_name p)
      in (if pst_recent s \<noteq> [] then Fin (average_latency_ms s) else PosInf, - success_rate s, index_of p ps)) \<and>
   same_view r (snd (latency_key ps p r))"
  using stats_for_read [where p = p and r = r] by (simp add: latency_key_def Let_def case_prod_beta)

lemma success_key_read:
  "fst (success_key ps p r) =
     (let s = stats_view r (prv_name p)
      in (success_rate s, - average_latency_ms s, - pst_inflight s, - int (index_of p ps))) \<and>
   same_view r (snd (success_key ps p r))"
  using stats_for_read [where p = p and r = r] by (simp add: success_key_def Let_def case_prod_beta)

lemma keyed_read:
  assumes "\<And>p r. fst (f p r) = key (stats_view r) p \<and> same_view r (snd (f p r))"
  shows "fst (keyed f ps r) = map (\<lambda>p. (key (stats_view r) p, p)) ps \<and> same_view r (snd (keyed f ps r))"
proof (induction ps arbitrary: r)
  case (Cons p ps)
  have f: "fst (f p r) = key (stats_view r) p" "same_view r (snd (f p r))" using assms [of p r] by auto
  show ?case
    using Cons.IH [of "snd (f p r)"] f same_view_fields [OF f(2)] same_view_trans [OF f(2)]
    by (simp add: Let_def case_prod_beta)
qed simp

lemma candidates_from_read:
  "fst (candidates_from k ps r) =
     map (\<lambda>i. \<lparr>cnd_position = k + i, cnd_name = prv_name (ps ! i),
               cnd_observation = snapshot (stats_view r (prv_name (ps ! i)))\<rparr>) [0..<length ps] \<and>
   same_view r (snd (candidates_from k ps r))"
proof (induction ps arbitrary: k r)
  case (Cons p ps)
  note s = stats_for_read [where p = p and r = r]
  have idx: "map f [0..<length (p # ps)] = f 0 # map (\<lambda>i. f (Suc i)) [0..<length ps]" for f :: "nat \<Rightarrow> RoutingCandidate"
    by (simp add: map_upt_Suc del: upt_Suc)
  show ?case
    using Cons.IH [of "k + 1" "snd (stats_for p r)"] s same_view_fields [OF s(2)] same_view_trans [OF s(2)]
    by (simp only: idx) (simp add: Let_def case_prod_beta)
qed simp

lemma first_min_in_list: "xs \<noteq> [] \<Longrightarrow> first_min f (hd xs) (tl xs) \<in> set xs"
  using first_min_in [of f "hd xs" "tl xs"] by (cases xs) auto

lemma first_max_in_list: "xs \<noteq> [] \<Longrightarrow> first_max f (hd xs) (tl xs) \<in> set xs"
  using first_max_in [of f "hd xs" "tl xs"] by (cases xs) auto

lemma first_min_le_list: "x \<in> set xs \<Longrightarrow> f (first_min f (hd xs) (tl xs)) \<le> f x"
  using first_min_le [of x "hd xs" "tl xs" f] by (cases xs) auto

lemma first_max_ge_list: "x \<in> set xs \<Longrightarrow> f x \<le> f (first_max f (hd xs) (tl xs))"
  using first_max_ge [of x "hd xs" "tl xs" f] by (cases xs) auto

subsection \<open>Strategies that compare providers\<close>

text \<open>
  \<open>lowest_latency\<close> picks a provider of the list whose average latency is lowest, where
  a provider without observations counts as infinitely slow; among equally fast ones it
  picks one with the highest success rate. The statistics are only read.
\<close>

lemma lowest_latency_optimal:
  assumes "rtr_strategy r = ''lowest_latency''" "ps \<noteq> []"
    and "lat = (\<lambda>p. let s = stats_view r (prv_name p) in if pst_recent s \<noteq> [] then Fin (average_latency_ms s) else PosInf)"
    and "rate = (\<lambda>p. success_rate (stats_view r (prv_name p)))"
  shows "\<exists>p r'. choose_provider ps r = (Inr p, r') \<and> p \<in> set ps \<and> same_view r r' \<and>
    (\<forall>q\<in>set ps. lat p < lat q \<or> lat p = lat q \<and> rate q \<le> rate p)"
proof -
  define key where "key = (\<lambda>p. (lat p, - rate p, index_of p ps))"
  have k: "fst (keyed (latency_key ps) ps r) = map (\<lambda>p. (key p, p)) ps"
    "same_view r (snd (keyed (latency_key ps) ps r))"
    using keyed_read [of "latency_key ps" "\<lambda>v p. let s = v (prv_name p) in
        (if pst_recent s \<noteq> [] then Fin (average_latency_ms s) else PosInf, - success_rate s, index_of p ps)" ps r]
      latency_key_read [of ps] by (auto simp: key_def assms(3,4) Let_def)
  define ks where "ks = map (\<lambda>p. (key p, p)) ps"
  define m where "m = first_min fst (hd ks) (tl ks)"
  have "ks \<noteq> []" using assms(2) by (simp add: ks_def)
  then have "m \<in> set ks" unfolding m_def by (rule first_min_in_list)
  then have m: "snd m \<in> set ps" "fst m = key (snd m)" by (auto simp: ks_def)
  have "key (snd m) \<le> key q" if "q \<in> set ps" for q
    using first_min_le_list [of "(key q, q)" ks fst] that m(2) by (auto simp: ks_def m_def)
  then have "\<forall>q\<in>set ps. lat (snd m) < lat q \<or> lat (snd m) = lat q \<and> rate q \<le> rate (snd m)"
    by (fastforce simp: key_def less_eq_prod_def)
  moreover have "choose_provider ps r = (Inr (snd m), snd (keyed (latency_key ps) ps r))"
    using assms(1,2) k(1) by (simp add: choose_provider_def case_prod_beta Let_def m_def ks_def)
  ultimately show ?thesis using m k(2) by blast
qed

text \<open>
  \<open>highest_success_rate\<close> picks a provider with the highest success rate; among those
  one with the lowest average latency, and among those one with the fewest requests in
  flight.
\<close>

lemma highest_success_rate_optimal:
  assumes "rtr_strategy r = ''highest_success_rate''" "ps \<noteq> []"
    and "st = (\<lambda>p. stats_view r (prv_name p))"
  shows "\<exists>p r'. choose_provider ps r = (Inr p, r') \<and> p \<in> set ps \<and> same_view r r' \<and>
    (\<forall>q\<in>set ps. success_rate (st q) < success_rate (st p) \<or>
       success_rate (st q) = success_rate (st p) \<and>
       (average_latency_ms (st p) < average_latency_ms (st q) \<or>
        average_latency_ms (st p) = average_latency_ms (st q) \<and> pst_inflight (st p) \<le> pst_inflight (st q)))"
proof -
  define key where "key = (\<lambda>p. (success_rate (st p), - average_latency_ms (st p), - pst_inflight (st p),
    - int (index_of p ps)))"
  have k: "fst (keyed (success_key ps) ps r) = map (\<lambda>p. (key p, p)) ps"
    "same_view r (snd (keyed (success_key ps) ps r))"
    using keyed_read [of "success_key ps" "\<lambda>v p. let s = v (prv_name p) in
        (success_rate s, - average_latency_ms s, - pst_inflight s, - int (index_of p ps))" ps r]
      success_key_read [of ps] by (auto simp: key_def assms(3) Let_def)
  define ks where "ks = map (\<lambda>p. (key p, p)) ps"
  define m where "m = first_max fst (hd ks) (tl ks)"
  have "ks \<noteq> []" using assms(2) by (simp add: ks_def)
  then have "m \<in> set ks" unfolding m_def by (rule first_max_in_list)
  then have m: "snd m \<in> set ps" "fst m = key (snd m)" by (auto simp: ks_def)
  have "key q \<le> key (snd m)" if "q \<in> set ps" for q
    using first_max_ge_list [of "(key q, q)" ks fst] that m(2) by (auto simp: ks_def m_def)
  then have "\<forall>q\<in>set ps. success_rate (st q) < success_rate (st (snd m)) \<or>
       success_rate (st q) = success_rate (st (snd m)) \<and>
       (average_latency_ms (st (snd m)) < average_latency_ms (st q) \<or>
        average_latency_ms (st (snd m)) = average_latency_ms (st q) \<and> pst_inflight (st (snd m)) \<le> pst_inflight (st q))"
    by (fastforce simp: key_def less_eq_prod_def)
  moreover have "choose_provider ps r = (Inr (snd m), snd (keyed (success_key ps) ps r))"
    using assms(1,2) k(1) by (simp add: choose_provider_def case_prod_beta Let_def m_def ks_def)
  ultimately show ?thesis using m k(2) by blast
qed

text \<open>
  The first of the best: \<open>max\<close> over positions returns the least position among those with
  the highest key.
\<close>

lemma first_max_first:
  assumes "sorted_wrt (\<lambda>x y. pos x < (pos y :: nat)) (b # xs)"
    and "y \<in> set (b # xs)" "f y = f (first_max f b xs)"
  shows "pos (first_max f b xs) \<le> pos y"
  using assms
proof (induction xs arbitrary: b y)
  case (Cons x xs)
  let ?b = "if f x > f b then x else b"
  have s: "sorted_wrt (\<lambda>x y. pos x < pos y) (?b # xs)" using Cons.prems(1) by auto
  consider "y \<in> set (?b # xs)" | "y \<noteq> ?b" "y = b \<or> y = x" using Cons.prems(2) by auto
  then show ?case
  proof cases
    case 1
    then show ?thesis using Cons.IH [OF s] Cons.prems(3) by simp
  next
    case 2
    have ge: "f ?b \<le> f (first_max f ?b xs)" by (rule first_max_ge) simp
    with 2 Cons.prems(3) have "f y = f ?b" "f ?b = f (first_max f ?b xs)"
      by (auto split: if_splits)
    moreover have "f ?b = f (first_max f ?b xs) \<Longrightarrow> pos (first_max f ?b xs) \<le> pos ?b"
      by (rule Cons.IH [OF s _]) simp_all
    ultimately have "pos (first_max f ?b xs) \<le> pos ?b" by blast
    moreover have "pos ?b \<le> pos y" using 2 \<open>f y = f ?b\<close> Cons.prems(1) by (auto split: if_splits)
    ultimately show ?thesis by simp
  qed
qed simp

text \<open>
  \<open>composite\<close> picks the first provider of the list with the highest composite score
  under the router's weights.
\<close>

lemma composite_optimal:
  assumes "rtr_strategy r = ''composite''" "ps \<noteq> []"
    and "score = (\<lambda>i. composite_score (snapshot (stats_view r (prv_name (ps ! i)))) (rtr_composite_weights r))"
  shows "\<exists>i r'. choose_provider ps r = (Inr (ps ! i), r') \<and> i < length ps \<and> same_view r r' \<and>
    (\<forall>j<length ps. score j \<le> score i) \<and> (\<forall>j<i. score j < score i)"
proof -
  define cand where "cand = (\<lambda>i. \<lparr>cnd_position = i, cnd_name = prv_name (ps ! i),
    cnd_observation = snapshot (stats_view r (prv_name (ps ! i)))\<rparr>)"
  define cs where "cs = map cand [0..<length ps]"
  have c: "fst (candidates_from 0 ps r) = cs" "same_view r (snd (candidates_from 0 ps r))"
    using candidates_from_read [of 0 ps r] by (auto simp: cs_def cand_def)
  define f where "f = (\<lambda>x :: RoutingCandidate. composite_score (cnd_observation x) (rtr_composite_weights r))"
  have f: "f (cand i) = score i" for i by (simp add: f_def cand_def assms(3))
  have ne: "cs \<noteq> []" using assms(2) by (simp add: cs_def)
  define m where "m = first_max f (hd cs) (tl cs)"
  have "m \<in> set cs" unfolding m_def using ne by (rule first_max_in_list)
  then obtain i where i: "i < length ps" "m = cand i" by (auto simp: cs_def)
  have best: "score j \<le> score i" if "j < length ps" for j
    using first_max_ge_list [of "cand j" cs f] that i f by (auto simp: cs_def m_def)
  have srt: "sorted_wrt (\<lambda>x y. cnd_position x < cnd_position y) cs"
    by (auto simp: cs_def cand_def sorted_wrt_map sorted_wrt_upt)
  have "score j < score i" if "j < i" for j
  proof -
    have "cand j \<in> set (hd cs # tl cs)" using that i ne by (auto simp: cs_def)
    then have "\<not> f (cand j) = f m"
      using first_max_first [of cnd_position "hd cs" "tl cs" "cand j" f] srt ne that i(2)
      by (auto simp: m_def cand_def)
    then show ?thesis using best [of j] that i f by auto
  qed
  moreover have "select_composite cs (rtr_composite_weights r) = Inr m"
    using ne by (cases cs) (simp_all add: m_def f_def)
  then have "choose_provider ps r = (Inr (ps ! i), snd (candidates_from 0 ps r))"
    using assms(1,2) c i same_view_fields [OF c(2)]
    by (simp add: choose_provider_def case_prod_beta Let_def cand_def)
  ultimately show ?thesis using best i c(2) by blast
qed

text \<open>
  The composite score rises with the success rate and falls with latency, requests in
  flight and recent failures, for every accepted choice of weights.
\<close>

lemma composite_score_mono:
  assumes "new_CompositeWeights w1 w2 w3 w4 = Inr w"
    and "0 \<le> obs_success_rate a" "obs_success_rate a \<le> obs_success_rate b"
    and "0 \<le> obs_average_latency_ms b" "obs_average_latency_ms b \<le> obs_average_latency_ms a"
    and "0 \<le> obs_inflight b" "obs_inflight b \<le> obs_inflight a"
    and "0 \<le> obs_recent_failure_rate b" "obs_recent_failure_rate b \<le> obs_recent_failure_rate a"
  shows "0 \<le> composite_score a w \<and> composite_score a w \<le> composite_score b w"
proof -
  have w: "0 \<le> wgt_success w" "0 \<le> wgt_latency w" "0 \<le> wgt_load w" "0 \<le> wgt_recent_failure w"
    using assms(1)
    by (auto simp: new_CompositeWeights_def weight_ok_def split: if_splits pyfloat.splits option.splits prod.splits)
  have up: "0 \<le> py_pow x y \<and> py_pow x y \<le> py_pow x' y" if "0 \<le> x" "x \<le> x'" "0 \<le> y" for x x' y
    using that by (auto simp: py_pow_def powr_mono2)
  have pos: "0 < py_pow (1 + x) y" if "0 \<le> x" for x y
    using that by (auto simp: py_pow_def)
  let ?s = "py_pow (obs_success_rate a) (wgt_success w)"
  let ?s' = "py_pow (obs_success_rate b) (wgt_success w)"
  have s: "0 \<le> ?s" "?s \<le> ?s'" using up [OF assms(2,3) w(1)] by auto
  have div: "0 \<le> x / p \<and> x / p \<le> x' / p'" if "0 \<le> x" "x \<le> x'" "0 < p'" "p' \<le> p" for x x' p p' :: real
    using that frac_le [of x' x p' p] by (auto intro: frac_le)
  let ?l = "\<lambda>x. py_pow (1 + obs_average_latency_ms x / 1000) (wgt_latency w)"
  let ?i = "\<lambda>x. py_pow (1 + of_int (obs_inflight x)) (wgt_load w)"
  let ?f = "\<lambda>x. py_pow (1 + obs_recent_failure_rate x) (wgt_recent_failure w)"
  have l: "0 < ?l b" "?l b \<le> ?l a" using assms(4,5) w(2) up pos by auto
  have i: "0 < ?i b" "?i b \<le> ?i a" using assms(6,7) w(3) up pos by auto
  have f: "0 < ?f b" "?f b \<le> ?f a" using assms(8,9) w(4) up pos by auto
  note d1 = div [OF s l]
  note d2 = div [OF conjunct1 [OF d1] conjunct2 [OF d1] i]
  show ?thesis
    unfolding composite_score_def by (rule div [OF conjunct1 [OF d2] conjunct2 [OF d2] f])
qed

subsection \<open>Round robin\<close>

fun choose_many :: "nat \<Rightarrow> provider list \<Rightarrow> ProviderRouter \<Rightarrow> provider res list \<times> ProviderRouter" where
  "choose_many 0 ps r = ([], r)"
| "choose_many (Suc n) ps r =
     (let (p, r1) = choose_provider ps r; (qs, r2) = choose_many n ps r1 in (p # qs, r2))"

lemma choose_many_round_robin:
  assumes "rtr_strategy r = ''round_robin''" "ps \<noteq> []"
  shows "choose_many n ps r =
    (map (\<lambda>i. Inr (ps ! ((rtr_next r + i) mod length ps))) [0..<n], r\<lparr>rtr_next := rtr_next r + n\<rparr>)"
  using assms
proof (induction n arbitrary: r)
  case (Suc n)
  let ?r = "r\<lparr>rtr_next := rtr_next r + 1\<rparr>"
  have "choose_provider ps r = (Inr (ps ! (rtr_next r mod length ps)), ?r)"
    using Suc.prems by (simp add: choose_provider_def round_robin_def)
  moreover have "choose_many n ps ?r =
      (map (\<lambda>i. Inr (ps ! ((rtr_next r + Suc i) mod length ps))) [0..<n], r\<lparr>rtr_next := rtr_next r + Suc n\<rparr>)"
    using Suc.IH [of ?r] Suc.prems by simp
  ultimately show ?case by (simp add: map_upt_Suc del: upt_Suc)
qed simp

text \<open>
  Round robin is fair: over any \<open>length ps\<close> consecutive choices from the same list
  every provider is chosen exactly once, in list order starting at the router's position.
\<close>

lemma round_robin_fair:
  assumes "rtr_strategy r = ''round_robin''" "ps \<noteq> []"
  shows "choose_many (length ps) ps r = (map Inr (rotate (rtr_next r) ps), r\<lparr>rtr_next := rtr_next r + length ps\<rparr>)"
proof -
  have "map (\<lambda>i. Inr (ps ! ((rtr_next r + i) mod length ps))) [0..<length ps] =
      (map Inr (rotate (rtr_next r) ps) :: provider res list)"
    by (rule nth_equalityI) (simp_all add: nth_rotate add.commute)
  then show ?thesis using choose_many_round_robin [OF assms, of "length ps"] by simp
qed

subsection \<open>The observation window\<close>

datatype stats_call = Started | Ended bool real "string option"

fun run_stats :: "stats_call list \<Rightarrow> ProviderStats \<times> world \<Rightarrow> ProviderStats \<times> world" where
  "run_stats [] (s, w) = (s, w)"
| "run_stats (Started # cs) (s, w) = run_stats cs (stats_start s, w)"
| "run_stats (Ended ok latency code # cs) (s, w) = run_stats cs (stats_finish ok latency code s w)"

fun outcomes :: "stats_call list \<Rightarrow> (bool \<times> real \<times> string option) list" where
  "outcomes [] = []"
| "outcomes (Started # cs) = outcomes cs"
| "outcomes (Ended ok latency code # cs) = (ok, latency, code) # outcomes cs"

definition starts :: "stats_call list \<Rightarrow> nat" where
  "starts cs = length (filter ((=) Started) cs)"

definition bracketed :: "stats_call list \<Rightarrow> bool" where
  "bracketed cs \<longleftrightarrow> (\<forall>k\<le>length cs. length (outcomes (take k cs)) \<le> starts (take k cs))"

definition observed :: "int \<Rightarrow> (bool \<times> real \<times> string option) list \<Rightarrow> (bool \<times> real) list" where
  "observed window os = drop (length os - nat window) (map (\<lambda>(ok, latency, code). (ok, max 0 latency)) os)"

definition history_ok :: "int \<Rightarrow> stats_call list \<Rightarrow> ProviderStats \<Rightarrow> bool" where
  "history_ok window cs s \<longleftrightarrow>
     pst_window_size s = window \<and> pst_recent s = observed window (outcomes cs) \<and>
     pst_total_requests s = int (length (outcomes cs)) \<and>
     pst_successes s = int (length (filter (\<lambda>(ok, l, c). ok) (outcomes cs))) \<and>
     pst_failures s = int (length (filter (\<lambda>(ok, l, c). \<not> ok) (outcomes cs))) \<and>
     pst_timeouts s = int (length (filter (\<lambda>(ok, l, c). \<not> ok \<and> c = Some ''PROVIDER_TIMEOUT'') (outcomes cs))) \<and>
     0 \<le> pst_inflight s \<and>
     (bracketed cs \<longrightarrow> pst_inflight s = int (starts cs) - int (length (outcomes cs)))"

lemma trim_drop: "0 \<le> n \<Longrightarrow> trim n xs = drop (length xs - nat n) xs"
proof (induction xs)
  case (Cons x xs)
  show ?case
  proof (cases "n < int (length (x # xs))")
    case True
    then have "length (x # xs) - nat n = Suc (length xs - nat n)" using Cons.prems by auto
    then show ?thesis using True Cons by simp
  qed auto
qed simp

lemma run_stats_append: "run_stats (cs @ ds) st = run_stats ds (run_stats cs st)"
  by (induction cs st rule: run_stats.induct) auto

lemma outcomes_append [simp]: "outcomes (cs @ ds) = outcomes cs @ outcomes ds"
  by (induction cs rule: outcomes.induct) auto

lemma bracketed_snocD: "bracketed (cs @ [c]) \<Longrightarrow> bracketed cs \<and> length (outcomes (cs @ [c])) \<le> starts (cs @ [c])"
proof -
  assume b: "bracketed (cs @ [c])"
  have "length (outcomes (take k cs)) \<le> starts (take k cs)" if "k \<le> length cs" for k
    using b that unfolding bracketed_def by (auto dest: spec [of _ k])
  moreover have "length (outcomes (cs @ [c])) \<le> starts (cs @ [c])"
    using b unfolding bracketed_def by (auto dest: spec [of _ "length (cs @ [c])"])
  ultimately show ?thesis by (simp add: bracketed_def)
qed

lemma observed_snoc:
  assumes "1 \<le> window"
  shows "trim window (observed window os @ [(ok, max 0 l)]) = observed window (os @ [(ok, l, c)])"
proof -
  have "length (observed window os) = min (length os) (nat window)" by (auto simp: observed_def)
  then show ?thesis using assms by (auto simp: trim_drop observed_def min_def not_le Suc_diff_le le_Suc_eq)
qed

lemma stats_history_step:
  assumes "1 \<le> window" "history_ok window cs s"
  shows "history_ok window (cs @ [c]) (fst (run_stats [c] (s, w)))"
proof (cases c)
  case Started
  then show ?thesis
    using assms(2) by (auto simp: history_ok_def stats_start_def starts_def dest: bracketed_snocD)
next
  case (Ended ok l code)
  let ?s = "fst (stats_finish ok l code s w)"
  have rec: "pst_recent ?s = observed window (outcomes cs @ [(ok, l, code)])"
    using assms observed_snoc [OF assms(1), of "outcomes cs" ok l code]
    by (auto simp: history_ok_def stats_finish_def Let_def case_prod_beta)
  have inf: "pst_inflight ?s = max 0 (pst_inflight s - 1)"
    by (simp add: stats_finish_def Let_def case_prod_beta)
  have brk: "bracketed (cs @ [c]) \<Longrightarrow> pst_inflight ?s = int (starts cs) - int (length (outcomes cs)) - 1"
    using bracketed_snocD [of cs c] assms(2) inf Ended by (auto simp: history_ok_def starts_def)
  show ?thesis
    using assms(2) rec brk inf unfolding history_ok_def
    by (auto simp: Ended stats_finish_def Let_def case_prod_beta starts_def)
qed

text \<open>
  The statistics of a provider after any sequence of starts and finishes, from a fresh
  window: the deque holds the last \<open>window_size\<close> outcomes in order, the totals count all
  outcomes by kind (so successes and failures add up to the requests and timeouts are
  among the failures), and requests in flight are the started minus the finished ones
  whenever no finish precedes its start.
\<close>

lemma stats_history:
  assumes "1 \<le> window"
  shows "history_ok window cs (fst (run_stats cs (new_ProviderStats window, w)))"
proof (induction cs rule: rev_induct)
  case Nil
  then show ?case using assms
    by (simp add: history_ok_def new_ProviderStats_def observed_def starts_def)
next
  case (snoc c cs)
  obtain s w' where run: "run_stats cs (new_ProviderStats window, w) = (s, w')" by fastforce
  show ?case using stats_history_step [OF assms, of cs s c w'] snoc run by (simp add: run_stats_append)
qed

lemma history_latencies: "history_ok window cs s \<Longrightarrow> x \<in> set (map snd (pst_recent s)) \<Longrightarrow> 0 \<le> x"
  by (auto simp: history_ok_def observed_def dest!: in_set_dropD)

text \<open>
  \<open>p95_latency_ms\<close> is the nearest-rank percentile of the window: one of the observed
  latencies, at least 95 per cent of the observations are at most that, and fewer than
  95 per cent lie below it.
\<close>

lemma p95_nearest_rank:
  assumes "pst_recent s \<noteq> []" "ls = map snd (pst_recent s)"
  shows "p95_latency_ms s \<in> set ls \<and>
    95 / 100 * real (length ls) \<le> real (length (filter (\<lambda>x. x \<le> p95_latency_ms s) ls)) \<and>
    real (length (filter (\<lambda>x. x < p95_latency_ms s) ls)) < 95 / 100 * real (length ls)"
proof -
  define xs where "xs = sort ls"
  define i where "i = nat (max 0 (ceiling (real (length xs) * (95 / 100)) - 1))"
  define v where "v = xs ! i"
  have v: "p95_latency_ms s = v" using assms by (simp add: p95_latency_ms_def xs_def i_def v_def Let_def)
  have pos: "0 < length xs" using assms by (simp add: xs_def)
  have i: "real i < real (length xs) * (95 / 100)" "real (length xs) * (95 / 100) \<le> real (Suc i)" "i < length xs"
    using pos unfolding i_def by linarith+
  have cnt: "length (filter P ls) = length (filter P xs)" for P
    by (simp add: xs_def filter_sort)
  have srt: "sorted xs" by (simp add: xs_def)
  have "\<forall>x\<in>set (take (Suc i) xs). x \<le> v"
    using srt i(3) by (auto simp: v_def in_set_conv_nth sorted_iff_nth_mono)
  then have "length (filter (\<lambda>x. x \<le> v) (take (Suc i) xs)) = Suc i" using i(3) by simp
  moreover have "length (filter P xs) = length (filter P (take k xs)) + length (filter P (drop k xs))" for P k
    by (metis append_take_drop_id filter_append length_append)
  note split = this
  ultimately have le: "Suc i \<le> length (filter (\<lambda>x. x \<le> v) xs)" using split [of "\<lambda>x. x \<le> v" "Suc i"] by simp
  have "\<forall>x\<in>set (drop i xs). \<not> x < v"
    using srt by (auto simp: v_def in_set_conv_nth sorted_iff_nth_mono not_less)
  then have "filter (\<lambda>x. x < v) (drop i xs) = []" by (auto simp: filter_empty_conv)
  then have lt: "length (filter (\<lambda>x. x < v) xs) \<le> i"
    using split [of "\<lambda>x. x < v" i] length_filter_le [of "\<lambda>x. x < v" "take i xs"] by simp
  have "v \<in> set ls" using i(3) nth_mem [OF i(3)] by (simp add: v_def xs_def)
  moreover have "length xs = length ls" by (simp add: xs_def)
  ultimately show ?thesis using v cnt le lt i by (simp add: algebra_simps)
qed

definition sample_stats :: ProviderStats where
  "sample_stats = (new_ProviderStats 20)\<lparr>pst_recent := [(True, 30), (True, 10), (False, 20)]\<rparr>"

subsection \<open>Weighted round robin\<close>

definition weight_of :: "ProviderRouter \<Rightarrow> provider \<Rightarrow> real" where
  "weight_of r p = max (5 / 100) (success_rate (stats_view r (prv_name p)))"

definition credit :: "ProviderRouter \<Rightarrow> provider \<Rightarrow> real" where
  "credit r p = weighted_current r (prv_name p)"

text \<open>\<open>same_weights\<close>: the two routers give every provider the same weight and strategy.\<close>

definition same_weights :: "ProviderRouter \<Rightarrow> ProviderRouter \<Rightarrow> bool" where
  "same_weights r r' \<longleftrightarrow> weight_of r' = weight_of r \<and> rtr_strategy r' = rtr_strategy r"

lemma stats_view_weighted [simp]: "stats_view (r\<lparr>rtr_weighted_current := d\<rparr>) = stats_view r"
  by (simp add: stats_view_def fun_eq_iff split: option.splits)

lemma weight_read: "fst (weight p r) = weight_of r p" "same_view r (snd (weight p r))"
  using stats_for_read [where p = p and r = r] by (simp_all add: weight_def weight_of_def case_prod_beta Let_def)

lemma same_view_weights:
  "same_view r r' \<Longrightarrow> same_weights r (r'\<lparr>rtr_weighted_current := d\<rparr>) \<and> weighted_current r' = weighted_current r"
  using same_view_fields [of r r'] by (simp add: same_weights_def weight_of_def weighted_current_def fun_eq_iff)

lemma weighted_current_update:
  "weighted_current (r\<lparr>rtr_weighted_current := AList.update n x (rtr_weighted_current r)\<rparr>) =
     (weighted_current r)(n := x)"
  by (simp add: weighted_current_def fun_eq_iff dict_simps)

lemma weighted_loop_read:
  assumes "weighted_loop ps (tot, sel, sc) r = ((tot', sel'), r')" "distinct (map prv_name ps)"
  shows "tot' = tot + sum_list (map (weight_of r) ps) \<and> same_weights r r' \<and>
    (\<forall>p\<in>set ps. credit r' p = credit r p + weight_of r p) \<and>
    (\<forall>n. n \<notin> prv_name ` set ps \<longrightarrow> weighted_current r' n = weighted_current r n) \<and>
    (\<exists>sc'. sc \<le> sc' \<and> (\<forall>q\<in>set ps. Fin (credit r q + weight_of r q) \<le> sc') \<and>
      (sel' = sel \<and> sc' = sc \<or> sel' \<in> set ps \<and> sc' = Fin (credit r sel' + weight_of r sel')))"
  using assms
proof (induction ps arbitrary: tot sel sc r)
  case Nil
  then show ?case by (auto simp: same_weights_def)
next
  case (Cons p ps)
  define r1 where "r1 = snd (weight p r)"
  define score where "score = credit r p + weight_of r p"
  define r2 where "r2 = r1\<lparr>rtr_weighted_current := AList.update (prv_name p) score (rtr_weighted_current r1)\<rparr>"
  have v: "weighted_current r1 = weighted_current r" "same_weights r r2"
    using same_view_weights [OF weight_read(2) [of r p]] by (auto simp: r1_def r2_def)
  have cur: "weighted_current r2 = (weighted_current r)(prv_name p := score)"
    unfolding r2_def weighted_current_update v(1) ..
  have w: "weight_of r2 = weight_of r" using v(2) by (simp add: same_weights_def)
  have cr: "credit r2 q = credit r q" if "q \<in> set ps" for q
    using that Cons.prems(2) cur by (auto simp: credit_def image_iff)
  define sel1 sc1 where "sel1 = (if Fin score > sc then p else sel)" and "sc1 = (if Fin score > sc then Fin score else sc)"
  have "weighted_loop ps (tot + weight_of r p, sel1, sc1) r2 = ((tot', sel'), r')"
    using Cons.prems(1) weight_read(1) [of p r] v(1)
    by (auto simp: Let_def case_prod_beta r1_def r2_def score_def credit_def sel1_def sc1_def split: if_splits)
  from Cons.IH [OF this] Cons.prems(2)
  obtain sc' where IH: "tot' = tot + weight_of r p + sum_list (map (weight_of r) ps)" "same_weights r2 r'"
    "\<forall>q\<in>set ps. credit r' q = credit r q + weight_of r q"
    "\<forall>n. n \<notin> prv_name ` set ps \<longrightarrow> weighted_current r' n = weighted_current r2 n"
    "sc1 \<le> sc'" "\<forall>q\<in>set ps. Fin (credit r q + weight_of r q) \<le> sc'"
    "sel' = sel1 \<and> sc' = sc1 \<or> sel' \<in> set ps \<and> sc' = Fin (credit r sel' + weight_of r sel')"
    unfolding w using cr by auto
  have own: "credit r' p = score"
    using IH(4) Cons.prems(2) cur by (auto simp: credit_def image_iff)
  have "sc \<le> sc1" "Fin score \<le> sc1" by (auto simp: sc1_def)
  then have "sc \<le> sc'" "Fin score \<le> sc'" using IH(5) by auto
  moreover have "\<forall>n. n \<notin> prv_name ` set (p # ps) \<longrightarrow> weighted_current r' n = weighted_current r n"
    using IH(4) cur by auto
  moreover have "same_weights r r'" using v(2) IH(2) by (simp add: same_weights_def)
  moreover have "sel' = sel \<and> sc' = sc \<or> sel' \<in> set (p # ps) \<and> sc' = Fin (credit r sel' + weight_of r sel')"
    using IH(7) by (auto simp: sel1_def sc1_def score_def split: if_splits)
  ultimately show ?case
    using IH(1,3,6) own by (intro conjI exI [of _ sc']) (auto simp: score_def)
qed

text \<open>One choice: every provider earns its weight and the richest one pays the total.\<close>

lemma weighted_choice:
  assumes "rtr_strategy r = ''weighted_round_robin''" "ps \<noteq> []" "distinct (map prv_name ps)"
    and "W = sum_list (map (weight_of r) ps)"
  obtains p r' where "choose_provider ps r = (Inr p, r')" "p \<in> set ps" "same_weights r r'"
    "\<forall>q\<in>set ps. credit r' q = credit r q + weight_of r q - (if q = p then W else 0)"
    "\<forall>q\<in>set ps. credit r q + weight_of r q \<le> credit r p + weight_of r p"
proof -
  obtain tot sel r1 where run: "weighted_loop ps (0, hd ps, NegInf) r = ((tot, sel), r1)" by (metis prod.collapse)
  define r2 where "r2 = r1\<lparr>rtr_weighted_current :=
    AList.update (prv_name sel) (weighted_current r1 (prv_name sel) - tot) (rtr_weighted_current r1)\<rparr>"
  note L = weighted_loop_read [OF run assms(3)]
  have tot: "tot = W" using L assms(4) by simp
  obtain sc' where sc: "\<forall>q\<in>set ps. Fin (credit r q + weight_of r q) \<le> sc'"
    "sel = hd ps \<and> sc' = NegInf \<or> sel \<in> set ps \<and> sc' = Fin (credit r sel + weight_of r sel)"
    using L by blast
  then have sel: "sel \<in> set ps" "sc' = Fin (credit r sel + weight_of r sel)"
    using assms(2) by (auto dest: bspec [of _ _ "hd ps"])
  have "credit r2 q = credit r q + weight_of r q - (if q = sel then W else 0)" if "q \<in> set ps" for q
  proof -
    have "prv_name q = prv_name sel \<longleftrightarrow> q = sel"
      using that sel(1) assms(3) by (auto simp: distinct_map dest: inj_onD)
    then show ?thesis using L that tot by (auto simp: credit_def r2_def weighted_current_update)
  qed
  moreover have "same_weights r r2"
    using L by (simp add: same_weights_def r2_def weight_of_def fun_eq_iff)
  moreover have "choose_provider ps r = (Inr sel, r2)"
    using assms(1,2) run by (simp add: choose_provider_def weighted_round_robin_def r2_def Let_def)
  moreover have "\<forall>q\<in>set ps. credit r q + weight_of r q \<le> credit r sel + weight_of r sel"
    using sc(1) sel(2) by simp
  ultimately show ?thesis using sel(1) that by blast
qed

text \<open>
  The credits stay above minus one full turn and sum to zero: with positive weights the
  richest provider has a positive balance before it pays.
\<close>

lemma sum_distinct: "distinct xs \<Longrightarrow> sum_list (map f xs) = sum f (set xs)" for f :: "'a \<Rightarrow> real"
  by (simp add: sum_list_distinct_conv_sum_set)

lemma credit_inv_step:
  assumes "finite S" "p \<in> S" "\<forall>q\<in>S. 0 < w q" "W = sum w S"
    and "\<forall>q\<in>S. - W < c q" "sum c S = 0"
    and "\<forall>q\<in>S. c' q = c q + w q - (if q = p then W else 0)"
    and "\<forall>q\<in>S. c q + w q \<le> c p + w p"
  shows "(\<forall>q\<in>S. - W < (c' q :: real)) \<and> sum c' S = 0"
proof -
  have "sum c' S = sum (\<lambda>q. c q + w q) S - sum (\<lambda>q. if q = p then W else 0) S"
    using assms(7) by (simp add: sum_subtractf)
  then have z: "sum c' S = 0" using assms(1,2,4,6) by (simp add: sum.distrib)
  have "0 < sum (\<lambda>q. c q + w q) S"
    using assms(1-4,6) by (auto simp: sum.distrib intro: sum_pos)
  then have "\<not> (\<forall>q\<in>S. c q + w q \<le> 0)" by (meson not_le sum_nonpos)
  then have "0 < c p + w p" using assms(8) by (meson less_le_trans not_le)
  then have "- W < c' q" if "q \<in> S" for q
    using assms(3,5,7) that by (cases "q = p") (force+)
  with z show ?thesis by blast
qed

lemma weight_of_pos: "0 < weight_of r p"
  by (simp add: weight_of_def less_max_iff_disj)

lemma weighted_many:
  assumes "rtr_strategy r = ''weighted_round_robin''" "ps \<noteq> []" "distinct (map prv_name ps)"
    and "W = sum_list (map (weight_of r) ps)"
    and "\<forall>q\<in>set ps. - W < credit r q" "sum (credit r) (set ps) = 0"
  shows "\<exists>qs r'. choose_many n ps r = (map Inr qs, r') \<and> length qs = n \<and> set qs \<subseteq> set ps \<and>
    (\<forall>q\<in>set ps. - W < credit r' q) \<and> sum (credit r') (set ps) = 0 \<and>
    (\<forall>q\<in>set ps. credit r' q = credit r q + real n * weight_of r q - W * real (count_list qs q))"
  using assms
proof (induction n arbitrary: r)
  case (Suc n)
  obtain p r1 where c: "choose_provider ps r = (Inr p, r1)" "p \<in> set ps" "same_weights r r1"
    "\<forall>q\<in>set ps. credit r1 q = credit r q + weight_of r q - (if q = p then W else 0)"
    "\<forall>q\<in>set ps. credit r q + weight_of r q \<le> credit r p + weight_of r p"
    using weighted_choice [OF Suc.prems(1-4)] by blast
  have w: "weight_of r1 = weight_of r" "rtr_strategy r1 = ''weighted_round_robin''"
    using c(3) Suc.prems(1) by (auto simp: same_weights_def)
  have "distinct ps" using Suc.prems(3) by (simp add: distinct_map)
  then have W: "W = sum (weight_of r) (set ps)" using Suc.prems(4) by (simp add: sum_distinct)
  have inv: "\<forall>q\<in>set ps. - W < credit r1 q" "sum (credit r1) (set ps) = 0"
    using credit_inv_step [OF _ c(2) _ W Suc.prems(5,6) c(4,5)] weight_of_pos by auto
  obtain qs r' where IH: "choose_many n ps r1 = (map Inr qs, r')" "length qs = n" "set qs \<subseteq> set ps"
    "\<forall>q\<in>set ps. - W < credit r' q" "sum (credit r') (set ps) = 0"
    "\<forall>q\<in>set ps. credit r' q = credit r1 q + real n * weight_of r q - W * real (count_list qs q)"
    using Suc.IH [OF w(2) Suc.prems(2,3) _ inv] Suc.prems(4) w(1) by auto
  have "credit r' q = credit r q + real (Suc n) * weight_of r q - W * real (count_list (p # qs) q)"
    if "q \<in> set ps" for q
    using IH(6) c(4) that by (cases "p = q") (auto simp: algebra_simps)
  moreover have "choose_many (Suc n) ps r = (map Inr (p # qs), r')" using IH(1) c(1) by simp
  moreover have "length (p # qs) = Suc n" "set (p # qs) \<subseteq> set ps" using IH(2,3) c(2) by auto
  ultimately show ?case using IH(4,5) by blast
qed (auto intro: exI [of _ "[]"])

text \<open>
  C34. Weighted round robin is fair while the weights stay the same: after \<open>n\<close> choices from
  a fresh router a provider with weight \<open>w\<close> of a total \<open>W\<close> was chosen fewer than
  \<open>n * w / W + 1\<close> times and at least \<open>n * w / W - (m - 1)\<close> times, where \<open>m\<close> is the number
  of providers. A weight is the success rate, at least one twentieth, so no provider is
  starved.
\<close>

theorem weighted_round_robin_fair:
  assumes "rtr_strategy r = ''weighted_round_robin''" "rtr_weighted_current r = []"
    and "distinct (map prv_name ps)" "p \<in> set ps" "W = sum_list (map (weight_of r) ps)"
    and "c = real (count_list (fst (choose_many n ps r)) (Inr p))"
  shows "1 / 20 \<le> weight_of r p \<and> c < real n * weight_of r p / W + 1 \<and>
    real n * weight_of r p / W - real (length ps - 1) \<le> c"
proof -
  have ne: "ps \<noteq> []" and d: "distinct ps" using assms(3,4) by (auto simp: distinct_map)
  have W: "W = sum (weight_of r) (set ps)" using assms(5) d by (simp add: sum_distinct)
  have pos: "0 < W" unfolding W using assms(4) weight_of_pos by (intro sum_pos) auto
  have z: "credit r q = 0" for q using assms(2) by (simp add: credit_def weighted_current_def)
  obtain qs r' where run: "choose_many n ps r = (map Inr qs, r')" "\<forall>q\<in>set ps. - W < credit r' q"
    "sum (credit r') (set ps) = 0"
    "\<forall>q\<in>set ps. credit r' q = credit r q + real n * weight_of r q - W * real (count_list qs q)"
    using weighted_many [OF assms(1) ne assms(3,5), of n] z pos by auto
  have c: "c = real (count_list qs p)"
    unfolding assms(6) run(1) by (simp add: count_list_map_conv inj_def)
  have cr: "credit r' p = real n * weight_of r p - W * c" using run(4) assms(4) z c by simp
  have "sum (credit r') (set ps - {p}) \<ge> (\<Sum>q\<in>set ps - {p}. - W)"
    using run(2) by (intro sum_mono) (auto intro: less_imp_le)
  moreover have "sum (credit r') (set ps) = credit r' p + sum (credit r') (set ps - {p})"
    using assms(4) by (simp add: sum.remove)
  moreover have "card (set ps - {p}) = length ps - 1" using assms(4) d by (simp add: distinct_card)
  ultimately have up: "credit r' p \<le> real (length ps - 1) * W" using run(3) by simp
  have "- W < credit r' p" using run(2) assms(4) by blast
  then have "W * c < real n * weight_of r p + W" using cr by simp
  then have "c < real n * weight_of r p / W + 1" using pos by (simp add: field_simps)
  moreover have "real n * weight_of r p \<le> (c + real (length ps - 1)) * W" using up cr by (simp add: algebra_simps)
  then have "real n * weight_of r p / W - real (length ps - 1) \<le> c" using pos by (simp add: field_simps)
  ultimately show ?thesis by (simp add: weight_of_def)
qed

subsection \<open>Every choice is a provider of the list\<close>

lemma weighted_loop_in:
  "snd (fst (weighted_loop ps (tot, sel, sc) r)) \<in> insert sel (set ps)"
proof (induction ps arbitrary: tot sel sc r)
  case (Cons p ps)
  let ?r = "(snd (weight p r))\<lparr>rtr_weighted_current := AList.update (prv_name p)
    (weighted_current (snd (weight p r)) (prv_name p) + fst (weight p r)) (rtr_weighted_current (snd (weight p r)))\<rparr>"
  show ?case
    using Cons.IH [of _ p _ ?r] Cons.IH [of _ sel _ ?r] by (auto simp: Let_def case_prod_beta)
qed simp

lemma keyed_providers: "map snd (fst (keyed f ps r)) = ps"
  by (induction ps arbitrary: r) (simp_all add: Let_def case_prod_beta)

lemma keyed_member:
  assumes "ps \<noteq> []" "ks = fst (keyed f ps r)"
  shows "snd (first_min fst (hd ks) (tl ks)) \<in> set ps \<and> snd (first_max fst (hd ks) (tl ks)) \<in> set ps"
proof -
  have ks: "map snd ks = ps" using assms(2) keyed_providers by simp
  then have "ks \<noteq> []" using assms(1) by auto
  moreover have "set ps = snd ` set ks" using ks by (metis set_map)
  ultimately show ?thesis by (simp add: first_min_in_list first_max_in_list)
qed

lemma composite_member:
  assumes "ps \<noteq> []"
  shows "\<exists>c. select_composite (fst (candidates_from 0 ps r)) w = Inr c \<and> cnd_position c < length ps"
proof -
  define cs where "cs = fst (candidates_from 0 ps r)"
  have ne: "cs \<noteq> []" and pos: "\<forall>c\<in>set cs. cnd_position c < length ps"
    using candidates_from_read [of 0 ps r] assms by (auto simp: cs_def)
  then have "select_composite cs w = Inr (first_max (\<lambda>x. composite_score (cnd_observation x) w) (hd cs) (tl cs))"
    by (cases cs) auto
  then show ?thesis using first_max_in_list [OF ne] pos by (auto simp: cs_def)
qed

text \<open>
  Choosing from a non-empty list always returns a provider of that list, whatever the
  strategy and the state of the router; choosing from an empty list raises
  \<open>LookupError\<close> and leaves the router as it was.
\<close>

theorem choose_provider_total:
  "if ps = [] then choose_provider ps r = (Inl (LookupError ''No healthy payment provider is available''), r)
   else \<exists>p\<in>set ps. fst (choose_provider ps r) = Inr p"
proof (cases "ps = []")
  case False
  have rr: "ps ! (n mod length ps) \<in> set ps" for n using False by (intro nth_mem) simp
  have wr: "fst (weighted_round_robin ps r) \<in> set ps"
    using weighted_loop_in [of ps 0 "hd ps" NegInf r] False
    by (auto simp: weighted_round_robin_def Let_def case_prod_beta)
  note k = keyed_member [OF False refl, of "latency_key ps" r] keyed_member [OF False refl, of "success_key ps" r]
  obtain c where c: "select_composite (fst (candidates_from 0 ps r)) (rtr_composite_weights (snd (candidates_from 0 ps r))) = Inr c"
    "cnd_position c < length ps"
    using composite_member [OF False] by blast
  have "ps ! cnd_position c \<in> set ps" using c(2) by (rule nth_mem)
  then show ?thesis
    using False rr wr k c(1) by (simp add: choose_provider_def round_robin_def Let_def case_prod_beta)
qed (simp add: choose_provider_def)

subsection \<open>Evaluations\<close>

definition stripe :: provider where
  "stripe = MockStripeProvider 0 None"

definition adyen :: provider where
  "adyen = MockAdyenProvider 1 None"

abbreviation fleet :: "provider list" where
  "fleet \<equiv> [stripe, adyen]"

definition sample_router :: "string \<Rightarrow> ProviderRouter" where
  "sample_router strategy =
     \<lparr>rtr_strategy = strategy, rtr_next = 5, rtr_weighted_current = [],
      rtr_stats = [(''mockstripe'', sample_stats), (''mockadyen'', sample_stats\<lparr>pst_recent := [(False, 1)]\<rparr>)],
      rtr_window_size = 20, rtr_composite_weights = default_CompositeWeights\<rparr>"


lemma fleet_facts [simp]:
  "prv_name stripe = ''mockstripe''" "prv_name adyen = ''mockadyen''" "stripe \<noteq> adyen" "adyen \<noteq> stripe"
  by (simp_all add: stripe_def adyen_def MockStripeProvider_def MockAdyenProvider_def new_MockProvider_def)

lemma sample_views:
  "stats_view (sample_router st) ''mockstripe'' = sample_stats"
  "stats_view (sample_router st) ''mockadyen'' = sample_stats\<lparr>pst_recent := [(False, 1)]\<rparr>"
  "rtr_strategy (sample_router st) = st" "rtr_composite_weights (sample_router st) = default_CompositeWeights"
  "rtr_next (sample_router st) = 5" "rtr_weighted_current (sample_router st) = []"
  by (simp_all add: stats_view_def sample_router_def)

lemma sample_rates:
  "success_rate sample_stats = 2 / 3" "average_latency_ms sample_stats = 20"
  "success_rate (sample_stats\<lparr>pst_recent := [(False, 1)]\<rparr>) = 0"
  "average_latency_ms (sample_stats\<lparr>pst_recent := [(False, 1)]\<rparr>) = 1"
  "pst_recent sample_stats \<noteq> []" "pst_inflight sample_stats = 0"
  by (simp_all add: success_rate_def average_latency_ms_def sample_stats_def new_ProviderStats_def)

lemmas sample_simps = sample_views sample_rates

theorem weighted_round_robin_fair_witness:
  "real (count_list (fst (choose_many 43 fleet (sample_router ''weighted_round_robin''))) (Inr adyen)) \<in> {2..<4}"
proof -
  let ?r = "sample_router ''weighted_round_robin''"
  have w: "weight_of ?r stripe = 2 / 3" "weight_of ?r adyen = 1 / 20"
    by (simp_all add: weight_of_def sample_simps)
  have "sum_list (map (weight_of ?r) fleet) = 43 / 60"
    by (simp add: w)
  then show ?thesis
    using weighted_round_robin_fair [OF sample_views(3,6) _ _ refl refl, of fleet adyen 43] w by simp
qed

end
