(* ===== verification/Idempotency.thy ===== *)
theory Idempotency
  imports Prelude
begin

text \<open>
  Idempotency coordination (\<open>idempotency.py\<close>): the process-local coordinator with its
  records, per-key locks and \<open>asyncio.Event\<close> objects, the coordinator protocol as a
  locale, and the system of concurrent tasks that acquire, wait for, complete and abort
  claims.

  The bodies of the methods run under the lock of their key and contain no \<open>await\<close>, so
  each is one atomic step; the only suspension point is \<open>event.wait()\<close>. Events are
  objects with identity: an aborted claim sets its event and a later claim of the same key
  creates a new one, while waiters keep the one they saw.
\<close>

subsection \<open>The memory coordinator\<close>

datatype IdempotencyStatus = CLAIMED | COMPLETED | CONFLICT

record IdempotencyDecision =
  dec_status :: IdempotencyStatus
  dec_payment_id :: "uuid option"

type_synonym record_key = "string \<times> string"

record MemoryIdempotencyCoordinator =
  idm_records :: "record_key \<rightharpoonup> string \<times> uuid option \<times> bool"
  idm_locks :: "record_key set"
  idm_events :: "record_key \<rightharpoonup> nat"
  idm_event_set :: "nat \<Rightarrow> bool"
  idm_next_event :: nat

definition new_MemoryIdempotencyCoordinator :: MemoryIdempotencyCoordinator where
  "new_MemoryIdempotencyCoordinator =
     \<lparr>idm_records = Map.empty, idm_locks = {}, idm_events = Map.empty,
      idm_event_set = (\<lambda>_. False), idm_next_event = 0\<rparr>"

definition key_lock :: "record_key \<Rightarrow> MemoryIdempotencyCoordinator \<Rightarrow> MemoryIdempotencyCoordinator" where
  "key_lock key c = c\<lparr>idm_locks := insert key (idm_locks c)\<rparr>"

definition set_event :: "record_key \<Rightarrow> MemoryIdempotencyCoordinator \<Rightarrow> unit res \<times> MemoryIdempotencyCoordinator" where
  "set_event key c =
     (case idm_events c key of
        None \<Rightarrow> (Inl (KeyError (snd key)), c)
      | Some ev \<Rightarrow> (Inr (), c\<lparr>idm_event_set := (idm_event_set c)(ev := True)\<rparr>))"

datatype acquire_result = Decided IdempotencyDecision | AwaitEvent nat

text \<open>
  One round of the loop of \<open>acquire\<close>. \<open>AwaitEvent ev\<close>: the task now waits for the
  event object \<open>ev\<close> and starts the next round once it is set.
\<close>

definition acquire ::
  "string \<Rightarrow> string \<Rightarrow> string \<Rightarrow> MemoryIdempotencyCoordinator \<Rightarrow>
   acquire_result res \<times> MemoryIdempotencyCoordinator" where
  "acquire merchant_id key fingerprint c0 =
     (let rk = (merchant_id, key); c = key_lock rk c0
      in case idm_records c rk of
           None \<Rightarrow>
             (Inr (Decided \<lparr>dec_status = CLAIMED, dec_payment_id = None\<rparr>),
              c\<lparr>idm_records := (idm_records c)(rk \<mapsto> (fingerprint, None, False)),
                idm_events := (idm_events c)(rk \<mapsto> idm_next_event c),
                idm_event_set := (idm_event_set c)(idm_next_event c := False),
                idm_next_event := Suc (idm_next_event c)\<rparr>)
         | Some (saved_fingerprint, payment_id, completed) \<Rightarrow>
             if saved_fingerprint \<noteq> fingerprint
             then (Inr (Decided \<lparr>dec_status = CONFLICT, dec_payment_id = None\<rparr>), c)
             else if completed
             then (Inr (Decided \<lparr>dec_status = COMPLETED, dec_payment_id = payment_id\<rparr>), c)
             else case idm_events c rk of
                    None \<Rightarrow> (Inl (KeyError key), c)
                  | Some ev \<Rightarrow> (Inr (AwaitEvent ev), c))"

definition complete ::
  "string \<Rightarrow> string \<Rightarrow> string \<Rightarrow> uuid \<Rightarrow> MemoryIdempotencyCoordinator \<Rightarrow>
   unit res \<times> MemoryIdempotencyCoordinator" where
  "complete merchant_id key fingerprint payment_id c0 =
     (let rk = (merchant_id, key); c = key_lock rk c0
      in case idm_records c rk of
           None \<Rightarrow> (Inl (IdempotencyUnavailable ''Idempotency claim is missing''), c)
         | Some (saved, _, _) \<Rightarrow>
             if saved \<noteq> fingerprint
             then (Inl (IdempotencyUnavailable ''Idempotency claim is missing''), c)
             else set_event rk
                    (c\<lparr>idm_records := (idm_records c)(rk \<mapsto> (fingerprint, Some payment_id, True))\<rparr>))"

definition abort ::
  "string \<Rightarrow> string \<Rightarrow> string \<Rightarrow> MemoryIdempotencyCoordinator \<Rightarrow>
   unit res \<times> MemoryIdempotencyCoordinator" where
  "abort merchant_id key fingerprint c0 =
     (let rk = (merchant_id, key); c = key_lock rk c0
      in case idm_records c rk of
           None \<Rightarrow> (Inr (), c)
         | Some (saved, _, completed) \<Rightarrow>
             if saved = fingerprint \<and> \<not> completed
             then set_event rk (c\<lparr>idm_records := (idm_records c)(rk := None)\<rparr>)
             else (Inr (), c))"

text \<open>
  The invariant: a record and its event agree. A claim in flight has an unset event of its
  own and no payment; a completed one has a payment and a set event; an event without a
  record is set. Event objects of different keys are different.
\<close>

definition claim_ok :: "MemoryIdempotencyCoordinator \<Rightarrow> record_key \<Rightarrow> bool" where
  "claim_ok c rk =
     (case idm_events c rk of
        None \<Rightarrow> idm_records c rk = None
      | Some ev \<Rightarrow> ev < idm_next_event c \<and>
          (case idm_records c rk of
             None \<Rightarrow> idm_event_set c ev
           | Some (fp, pid, fin) \<Rightarrow> (idm_event_set c ev \<longleftrightarrow> fin) \<and> (fin \<longleftrightarrow> pid \<noteq> None)))"

definition idm_inv :: "MemoryIdempotencyCoordinator \<Rightarrow> bool" where
  "idm_inv c \<longleftrightarrow> (\<forall>rk. claim_ok c rk) \<and>
     (\<forall>rk rk' ev. idm_events c rk = Some ev \<longrightarrow> idm_events c rk' = Some ev \<longrightarrow> rk = rk')"

text \<open>What a client can see of a claim: its fingerprint, and its payment once completed.\<close>

definition idm_view :: "MemoryIdempotencyCoordinator \<Rightarrow> record_key \<rightharpoonup> string \<times> uuid option" where
  "idm_view c rk = map_option (\<lambda>(fp, pid, fin). (fp, pid)) (idm_records c rk)"

subsection \<open>The coordinator protocol\<close>

text \<open>
  The contract of \<open>IdempotencyCoordinator\<close> over an abstract state of claims: an absent
  key is claimed, another fingerprint conflicts, a completed claim returns its payment, a
  claim in flight makes the caller wait; completing and aborting resolve the claim of the
  caller's fingerprint.
\<close>

locale idempotency_coordinator =
  fixes acq :: "string \<Rightarrow> string \<Rightarrow> string \<Rightarrow> 'c \<Rightarrow> acquire_result res \<times> 'c"
    and cmp :: "string \<Rightarrow> string \<Rightarrow> string \<Rightarrow> uuid \<Rightarrow> 'c \<Rightarrow> unit res \<times> 'c"
    and abt :: "string \<Rightarrow> string \<Rightarrow> string \<Rightarrow> 'c \<Rightarrow> unit res \<times> 'c"
    and view :: "'c \<Rightarrow> record_key \<rightharpoonup> string \<times> uuid option"
    and invar :: "'c \<Rightarrow> bool"
  assumes acq_invar: "invar c \<Longrightarrow> invar (snd (acq m k fp c))"
    and cmp_invar: "invar c \<Longrightarrow> invar (snd (cmp m k fp pid c))"
    and abt_invar: "invar c \<Longrightarrow> invar (snd (abt m k fp c))"
    and acq_absent: "invar c \<Longrightarrow> view c (m, k) = None \<Longrightarrow>
      fst (acq m k fp c) = Inr (Decided \<lparr>dec_status = CLAIMED, dec_payment_id = None\<rparr>) \<and>
      view (snd (acq m k fp c)) = (view c)((m, k) \<mapsto> (fp, None))"
    and acq_conflict: "invar c \<Longrightarrow> view c (m, k) = Some (fp', r) \<Longrightarrow> fp' \<noteq> fp \<Longrightarrow>
      fst (acq m k fp c) = Inr (Decided \<lparr>dec_status = CONFLICT, dec_payment_id = None\<rparr>) \<and>
      view (snd (acq m k fp c)) = view c"
    and acq_completed: "invar c \<Longrightarrow> view c (m, k) = Some (fp, Some pid) \<Longrightarrow>
      fst (acq m k fp c) = Inr (Decided \<lparr>dec_status = COMPLETED, dec_payment_id = Some pid\<rparr>) \<and>
      view (snd (acq m k fp c)) = view c"
    and acq_in_flight: "invar c \<Longrightarrow> view c (m, k) = Some (fp, None) \<Longrightarrow>
      (\<exists>ev. fst (acq m k fp c) = Inr (AwaitEvent ev)) \<and> view (snd (acq m k fp c)) = view c"
    and cmp_claim: "invar c \<Longrightarrow> view c (m, k) = Some (fp, r) \<Longrightarrow>
      fst (cmp m k fp pid c) = Inr () \<and>
      view (snd (cmp m k fp pid c)) = (view c)((m, k) \<mapsto> (fp, Some pid))"
    and cmp_missing: "invar c \<Longrightarrow> map_option fst (view c (m, k)) \<noteq> Some fp \<Longrightarrow>
      fst (cmp m k fp pid c) = Inl (IdempotencyUnavailable ''Idempotency claim is missing'') \<and>
      view (snd (cmp m k fp pid c)) = view c"
    and abt_claim: "invar c \<Longrightarrow> view c (m, k) = Some (fp, None) \<Longrightarrow>
      fst (abt m k fp c) = Inr () \<and> view (snd (abt m k fp c)) = (view c)((m, k) := None)"
    and abt_other: "invar c \<Longrightarrow> view c (m, k) \<noteq> Some (fp, None) \<Longrightarrow>
      fst (abt m k fp c) = Inr () \<and> view (snd (abt m k fp c)) = view c"
begin

text \<open>A completed claim is replayed for ever: other claims cannot change it.\<close>

lemma replay_after_complete:
  assumes "invar c" "view c (m, k) = Some (fp, r)"
  shows "fst (acq m k fp (snd (cmp m k fp pid c))) =
    Inr (Decided \<lparr>dec_status = COMPLETED, dec_payment_id = Some pid\<rparr>)"
  using assms cmp_claim cmp_invar acq_completed by simp

lemma conflict_after_complete:
  assumes "invar c" "view c (m, k) = Some (fp, r)" "fp' \<noteq> fp"
  shows "fst (acq m k fp' (snd (cmp m k fp pid c))) =
    Inr (Decided \<lparr>dec_status = CONFLICT, dec_payment_id = None\<rparr>)"
  using assms cmp_claim [of c m k fp r pid] cmp_invar acq_conflict by simp

lemma claim_again_after_abort:
  assumes "invar c" "view c (m, k) = Some (fp, None)"
  shows "fst (acq m k fp' (snd (abt m k fp c))) =
    Inr (Decided \<lparr>dec_status = CLAIMED, dec_payment_id = None\<rparr>)"
  using assms abt_claim abt_invar acq_absent by simp

text \<open>Every acquisition by the protocol decides or waits, and only a claim changes the view.\<close>

lemma acquire_cases:
  assumes "invar c"
  obtains (claimed) "fst (acq m k fp c) = Inr (Decided \<lparr>dec_status = CLAIMED, dec_payment_id = None\<rparr>)"
      "view c (m, k) = None" "view (snd (acq m k fp c)) = (view c)((m, k) \<mapsto> (fp, None))"
  | (conflict) fp' r where "fst (acq m k fp c) = Inr (Decided \<lparr>dec_status = CONFLICT, dec_payment_id = None\<rparr>)"
      "view c (m, k) = Some (fp', r)" "fp' \<noteq> fp" "view (snd (acq m k fp c)) = view c"
  | (completed) pid where "fst (acq m k fp c) = Inr (Decided \<lparr>dec_status = COMPLETED, dec_payment_id = Some pid\<rparr>)"
      "view c (m, k) = Some (fp, Some pid)" "view (snd (acq m k fp c)) = view c"
  | (waits) ev where "fst (acq m k fp c) = Inr (AwaitEvent ev)"
      "view c (m, k) = Some (fp, None)" "view (snd (acq m k fp c)) = view c"
proof (cases "view c (m, k)")
  case None
  then show ?thesis using acq_absent [OF assms None, of fp] claimed by blast
next
  case (Some q)
  obtain fp' r where q: "q = (fp', r)" by (cases q)
  show ?thesis
  proof (cases "fp' = fp")
    case False
    then show ?thesis using acq_conflict [OF assms Some [unfolded q] False] conflict Some q by blast
  next
    case True
    show ?thesis
    proof (cases r)
      case None
      then have v: "view c (m, k) = Some (fp, None)" using Some q True by simp
      show ?thesis using acq_in_flight [OF assms v] waits v by blast
    next
      case (Some pid)
      then have v: "view c (m, k) = Some (fp, Some pid)" using \<open>view c (m, k) = Some q\<close> q True by simp
      show ?thesis using acq_completed [OF assms v] completed v by blast
    qed
  qed
qed

end

subsection \<open>The memory coordinator keeps the contract\<close>

lemmas idm_defs = acquire_def complete_def abort_def set_event_def key_lock_def Let_def

lemma new_idm_inv: "idm_inv new_MemoryIdempotencyCoordinator"
  by (simp add: idm_inv_def claim_ok_def new_MemoryIdempotencyCoordinator_def)

lemma key_lock_fields [simp]:
  "idm_records (key_lock rk c) = idm_records c" "idm_events (key_lock rk c) = idm_events c"
  "idm_event_set (key_lock rk c) = idm_event_set c" "idm_next_event (key_lock rk c) = idm_next_event c"
  by (simp_all add: key_lock_def)

lemma idm_inv_key_lock [simp]: "idm_inv (key_lock rk c) = idm_inv c"
  unfolding idm_inv_def claim_ok_def key_lock_fields by (rule refl)

lemma idm_inv_claim_ok: "idm_inv c \<Longrightarrow> claim_ok c rk"
  unfolding idm_inv_def by blast

lemma idm_inv_events: "idm_inv c \<Longrightarrow> idm_events c rk = Some ev \<Longrightarrow> idm_events c rk' = Some ev \<Longrightarrow> rk = rk'"
  unfolding idm_inv_def by blast

lemma idm_inv_event_bound: "idm_inv c \<Longrightarrow> idm_events c rk = Some ev \<Longrightarrow> ev < idm_next_event c"
  using idm_inv_claim_ok [of c rk] by (simp add: claim_ok_def)

lemma idm_inv_recordD:
  assumes "idm_inv c" "idm_records c rk = Some (fp, pid, fin)"
  obtains ev where "idm_events c rk = Some ev" "idm_event_set c ev \<longleftrightarrow> fin" "fin \<longleftrightarrow> pid \<noteq> None"
    "ev < idm_next_event c"
proof -
  from assms(1) have "claim_ok c rk" by (rule idm_inv_claim_ok)
  with assms(2) that show thesis by (auto simp: claim_ok_def split: option.splits)
qed

text \<open>The three writes of the coordinator: a new claim, and a claim resolved either way.\<close>

definition open_claim :: "record_key \<Rightarrow> string \<Rightarrow> MemoryIdempotencyCoordinator \<Rightarrow> MemoryIdempotencyCoordinator" where
  "open_claim rk fp c = c\<lparr>idm_records := (idm_records c)(rk \<mapsto> (fp, None, False)),
     idm_events := (idm_events c)(rk \<mapsto> idm_next_event c),
     idm_event_set := (idm_event_set c)(idm_next_event c := False),
     idm_next_event := Suc (idm_next_event c)\<rparr>"

definition close_claim ::
  "record_key \<Rightarrow> nat \<Rightarrow> (string \<times> uuid option \<times> bool) option \<Rightarrow> MemoryIdempotencyCoordinator \<Rightarrow>
   MemoryIdempotencyCoordinator" where
  "close_claim rk ev r c = c\<lparr>idm_records := (idm_records c)(rk := r),
     idm_event_set := (idm_event_set c)(ev := True)\<rparr>"

lemma idm_inv_open_claim:
  assumes "idm_inv c"
  shows "idm_inv (open_claim rk fp c)"
  unfolding idm_inv_def
proof (intro conjI allI impI)
  fix rk'
  have ok: "claim_ok c rk'" using assms by (rule idm_inv_claim_ok)
  show "claim_ok (open_claim rk fp c) rk'"
  proof (cases "rk' = rk")
    case True
    then show ?thesis by (simp add: claim_ok_def open_claim_def)
  next
    case False
    then show ?thesis using ok by (auto simp: claim_ok_def open_claim_def split: option.splits)
  qed
  fix rk'' ev
  assume "idm_events (open_claim rk fp c) rk' = Some ev" "idm_events (open_claim rk fp c) rk'' = Some ev"
  then show "rk' = rk''"
    using idm_inv_events [OF assms, of rk' ev rk''] idm_inv_event_bound [OF assms, of rk' ev]
      idm_inv_event_bound [OF assms, of rk'' ev]
    by (auto simp: open_claim_def split: if_splits)
qed

lemma idm_inv_close_claim:
  assumes "idm_inv c" "idm_events c rk = Some ev"
    and r: "r = None \<or> (\<exists>fp pid. r = Some (fp, Some pid, True))"
  shows "idm_inv (close_claim rk ev r c)"
  unfolding idm_inv_def
proof (intro conjI allI impI)
  fix rk'
  have ok: "claim_ok c rk'" using assms(1) by (rule idm_inv_claim_ok)
  show "claim_ok (close_claim rk ev r c) rk'"
  proof (cases "rk' = rk")
    case True
    then show ?thesis using ok assms(2) r by (auto simp: claim_ok_def close_claim_def)
  next
    case False
    then have "idm_events c rk' \<noteq> Some ev" using idm_inv_events [OF assms(1,2)] by metis
    with False show ?thesis using ok by (auto simp: claim_ok_def close_claim_def split: option.splits)
  qed
  fix rk'' ev'
  assume "idm_events (close_claim rk ev r c) rk' = Some ev'" "idm_events (close_claim rk ev r c) rk'' = Some ev'"
  then show "rk' = rk''" using idm_inv_events [OF assms(1)] by (simp add: close_claim_def)
qed

text \<open>The methods in terms of these writes.\<close>

lemma acquire_absent:
  "idm_records c (m, k) = None \<Longrightarrow>
   acquire m k fp c = (Inr (Decided \<lparr>dec_status = CLAIMED, dec_payment_id = None\<rparr>),
                       open_claim (m, k) fp (key_lock (m, k) c))"
  by (simp add: acquire_def open_claim_def Let_def)

lemma acquire_present:
  assumes "idm_records c (m, k) = Some (fp', pid, fin)" "idm_events c (m, k) = Some ev"
  shows "acquire m k fp c =
    (Inr (if fp' \<noteq> fp then Decided \<lparr>dec_status = CONFLICT, dec_payment_id = None\<rparr>
          else if fin then Decided \<lparr>dec_status = COMPLETED, dec_payment_id = pid\<rparr>
          else AwaitEvent ev), key_lock (m, k) c)"
  using assms by (simp add: acquire_def Let_def)

lemma complete_present:
  assumes "idm_records c (m, k) = Some (fp, pid', fin)" "idm_events c (m, k) = Some ev"
  shows "complete m k fp pid c =
    (Inr (), close_claim (m, k) ev (Some (fp, Some pid, True)) (key_lock (m, k) c))"
  using assms by (simp add: complete_def set_event_def close_claim_def Let_def)

lemma complete_missing:
  assumes "map_option fst (idm_records c (m, k)) \<noteq> Some fp"
  shows "complete m k fp pid c =
    (Inl (IdempotencyUnavailable ''Idempotency claim is missing''), key_lock (m, k) c)"
  using assms by (auto simp: complete_def Let_def split: option.splits)

lemma abort_present:
  assumes "idm_records c (m, k) = Some (fp, pid', False)" "idm_events c (m, k) = Some ev"
  shows "abort m k fp c = (Inr (), close_claim (m, k) ev None (key_lock (m, k) c))"
  using assms by (simp add: abort_def set_event_def close_claim_def Let_def)

lemma abort_other:
  assumes "\<And>pid'. idm_records c (m, k) \<noteq> Some (fp, pid', False)"
  shows "abort m k fp c = (Inr (), key_lock (m, k) c)"
  using assms by (auto simp: abort_def Let_def split: option.split)

lemma acquire_inv:
  assumes "idm_inv c"
  shows "idm_inv (snd (acquire m k fp c))"
proof (cases "idm_records c (m, k)")
  case None
  then show ?thesis using assms by (simp add: acquire_absent idm_inv_open_claim)
next
  case (Some q)
  obtain fp' pid fin where q: "q = (fp', pid, fin)" by (cases q)
  obtain ev where "idm_events c (m, k) = Some ev" by (rule idm_inv_recordD [OF assms Some [unfolded q]])
  then show ?thesis using Some q assms by (simp add: acquire_present)
qed

lemma complete_inv:
  assumes "idm_inv c"
  shows "idm_inv (snd (complete m k fp pid c))"
proof (cases "map_option fst (idm_records c (m, k)) = Some fp")
  case True
  then obtain pid' fin where r: "idm_records c (m, k) = Some (fp, pid', fin)" by auto
  obtain ev where "idm_events c (m, k) = Some ev" by (rule idm_inv_recordD [OF assms r])
  then show ?thesis using assms r by (simp add: complete_present idm_inv_close_claim)
next
  case False
  then show ?thesis using assms by (simp add: complete_missing)
qed

lemma abort_inv:
  assumes "idm_inv c"
  shows "idm_inv (snd (abort m k fp c))"
proof (cases "\<exists>pid'. idm_records c (m, k) = Some (fp, pid', False)")
  case True
  then obtain pid' where r: "idm_records c (m, k) = Some (fp, pid', False)" by blast
  obtain ev where "idm_events c (m, k) = Some ev" by (rule idm_inv_recordD [OF assms r])
  then show ?thesis using assms r by (simp add: abort_present idm_inv_close_claim)
next
  case False
  then show ?thesis using assms by (simp add: abort_other)
qed

lemma idm_view_simps [simp]:
  "idm_view (key_lock rk c) = idm_view c"
  "idm_view (open_claim rk fp c) = (idm_view c)(rk \<mapsto> (fp, None))"
  "idm_view (close_claim rk ev r c) = (idm_view c)(rk := map_option (\<lambda>(fp, pid, fin). (fp, pid)) r)"
  by (auto simp: idm_view_def open_claim_def close_claim_def fun_eq_iff)

lemma idm_view_None: "idm_view c rk = None \<longleftrightarrow> idm_records c rk = None"
  by (simp add: idm_view_def)

lemma idm_view_SomeE:
  assumes "idm_inv c" "idm_view c rk = Some (fp, r)"
  obtains ev where "idm_records c rk = Some (fp, r, r \<noteq> None)" "idm_events c rk = Some ev"
    "idm_event_set c ev \<longleftrightarrow> r \<noteq> None"
proof -
  from assms(2) obtain fin where rec: "idm_records c rk = Some (fp, r, fin)" by (auto simp: idm_view_def)
  show thesis by (rule idm_inv_recordD [OF assms(1) rec]) (use rec that in auto)
qed

interpretation memory: idempotency_coordinator acquire complete abort idm_view idm_inv
proof unfold_locales
  fix c m k fp fp' r pid
  assume inv: "idm_inv c"
  note D = idm_view_SomeE [OF inv]
  show "idm_inv (snd (acquire m k fp c))" using inv by (rule acquire_inv)
  show "idm_inv (snd (complete m k fp pid c))" using inv by (rule complete_inv)
  show "idm_inv (snd (abort m k fp c))" using inv by (rule abort_inv)
  show "fst (acquire m k fp c) = Inr (Decided \<lparr>dec_status = CLAIMED, dec_payment_id = None\<rparr>) \<and>
      idm_view (snd (acquire m k fp c)) = (idm_view c)((m, k) \<mapsto> (fp, None))"
    if "idm_view c (m, k) = None"
    using that by (simp add: acquire_absent idm_view_None)
  show "fst (acquire m k fp c) = Inr (Decided \<lparr>dec_status = CONFLICT, dec_payment_id = None\<rparr>) \<and>
      idm_view (snd (acquire m k fp c)) = idm_view c"
    if "idm_view c (m, k) = Some (fp', r)" "fp' \<noteq> fp"
    by (rule D [OF that(1)]) (use that in \<open>simp add: acquire_present\<close>)
  show "fst (acquire m k fp c) = Inr (Decided \<lparr>dec_status = COMPLETED, dec_payment_id = Some pid\<rparr>) \<and>
      idm_view (snd (acquire m k fp c)) = idm_view c"
    if "idm_view c (m, k) = Some (fp, Some pid)"
    by (rule D [OF that]) (simp add: acquire_present)
  show "(\<exists>ev. fst (acquire m k fp c) = Inr (AwaitEvent ev)) \<and> idm_view (snd (acquire m k fp c)) = idm_view c"
    if "idm_view c (m, k) = Some (fp, None)"
    by (rule D [OF that]) (simp add: acquire_present)
  show "fst (complete m k fp pid c) = Inr () \<and>
      idm_view (snd (complete m k fp pid c)) = (idm_view c)((m, k) \<mapsto> (fp, Some pid))"
    if "idm_view c (m, k) = Some (fp, r)"
    by (rule D [OF that]) (simp add: complete_present)
  show "fst (complete m k fp pid c) = Inl (IdempotencyUnavailable ''Idempotency claim is missing'') \<and>
      idm_view (snd (complete m k fp pid c)) = idm_view c"
    if "map_option fst (idm_view c (m, k)) \<noteq> Some fp"
    using that by (subst (1 2) complete_missing) (auto simp: idm_view_def split: option.splits)
  show "fst (abort m k fp c) = Inr () \<and> idm_view (snd (abort m k fp c)) = (idm_view c)((m, k) := None)"
    if "idm_view c (m, k) = Some (fp, None)"
    by (rule D [OF that]) (simp add: abort_present)
  show "fst (abort m k fp c) = Inr () \<and> idm_view (snd (abort m k fp c)) = idm_view c"
    if "idm_view c (m, k) \<noteq> Some (fp, None)"
  proof -
    have "idm_records c (m, k) \<noteq> Some (fp, pid', False)" for pid'
    proof
      assume rec: "idm_records c (m, k) = Some (fp, pid', False)"
      show False by (rule idm_inv_recordD [OF inv rec]) (use rec that in \<open>auto simp: idm_view_def\<close>)
    qed
    then show ?thesis by (simp add: abort_other)
  qed
qed

subsection \<open>Concurrent tasks\<close>

text \<open>
  A request that uses the coordinator: it tries to acquire its key, waits for an event and
  tries again, holds the claim while it runs the payment, and resolves the claim by
  completing it with a payment or aborting it. \<open>Answered\<close> is a request that was told
  about another request's payment, or of a conflict.
\<close>

datatype task =
    Trying record_key string
  | Waiting record_key string nat
  | Holding record_key string
  | Answered record_key string IdempotencyDecision
  | Resolved record_key string "uuid option"

record idm_sys =
  coord :: MemoryIdempotencyCoordinator
  tasks :: "nat \<rightharpoonup> task"

definition idm_init :: idm_sys where
  "idm_init = \<lparr>coord = new_MemoryIdempotencyCoordinator, tasks = Map.empty\<rparr>"

inductive idm_step :: "idm_sys \<Rightarrow> idm_sys \<Rightarrow> bool" where
  arrive: "tasks s i = None \<Longrightarrow> idm_step s (s\<lparr>tasks := (tasks s)(i \<mapsto> Trying (m, k) fp)\<rparr>)"
| claim: "tasks s i = Some (Trying (m, k) fp) \<Longrightarrow>
    acquire m k fp (coord s) = (Inr (Decided d), c) \<Longrightarrow> dec_status d = CLAIMED \<Longrightarrow>
    idm_step s (s\<lparr>coord := c, tasks := (tasks s)(i \<mapsto> Holding (m, k) fp)\<rparr>)"
| answer: "tasks s i = Some (Trying (m, k) fp) \<Longrightarrow>
    acquire m k fp (coord s) = (Inr (Decided d), c) \<Longrightarrow> dec_status d \<noteq> CLAIMED \<Longrightarrow>
    idm_step s (s\<lparr>coord := c, tasks := (tasks s)(i \<mapsto> Answered (m, k) fp d)\<rparr>)"
| await: "tasks s i = Some (Trying (m, k) fp) \<Longrightarrow>
    acquire m k fp (coord s) = (Inr (AwaitEvent ev), c) \<Longrightarrow>
    idm_step s (s\<lparr>coord := c, tasks := (tasks s)(i \<mapsto> Waiting (m, k) fp ev)\<rparr>)"
| wake: "tasks s i = Some (Waiting rk fp ev) \<Longrightarrow> idm_event_set (coord s) ev \<Longrightarrow>
    idm_step s (s\<lparr>tasks := (tasks s)(i \<mapsto> Trying rk fp)\<rparr>)"
| finish: "tasks s i = Some (Holding (m, k) fp) \<Longrightarrow>
    complete m k fp pid (coord s) = (Inr (), c) \<Longrightarrow>
    idm_step s (s\<lparr>coord := c, tasks := (tasks s)(i \<mapsto> Resolved (m, k) fp (Some pid))\<rparr>)"
| give_up: "tasks s i = Some (Holding (m, k) fp) \<Longrightarrow>
    abort m k fp (coord s) = (Inr (), c) \<Longrightarrow>
    idm_step s (s\<lparr>coord := c, tasks := (tasks s)(i \<mapsto> Resolved (m, k) fp None)\<rparr>)"

inductive idm_reachable :: "idm_sys \<Rightarrow> bool" where
  start: "idm_reachable idm_init"
| step: "idm_reachable s \<Longrightarrow> idm_step s t \<Longrightarrow> idm_reachable t"

text \<open>
  The invariant of one task against the coordinator, and of the claims against the tasks.
\<close>

fun task_ok :: "MemoryIdempotencyCoordinator \<Rightarrow> task \<Rightarrow> bool" where
  "task_ok c (Trying rk fp) = True"
| "task_ok c (Waiting rk fp ev) =
     (ev < idm_next_event c \<and>
      (idm_event_set c ev \<or> idm_events c rk = Some ev \<and> idm_view c rk = Some (fp, None)))"
| "task_ok c (Holding rk fp) = (idm_view c rk = Some (fp, None))"
| "task_ok c (Answered rk fp d) =
     (dec_status d = COMPLETED \<longrightarrow>
        (\<exists>pid. dec_payment_id d = Some pid \<and> idm_view c rk = Some (fp, Some pid)))"
| "task_ok c (Resolved rk fp r) = (\<forall>pid. r = Some pid \<longrightarrow> idm_view c rk = Some (fp, Some pid))"

definition owner :: "record_key \<Rightarrow> task \<Rightarrow> bool" where
  "owner rk t \<longleftrightarrow> (\<exists>fp. t = Holding rk fp) \<or> (\<exists>fp pid. t = Resolved rk fp (Some pid))"

definition sys_inv :: "idm_sys \<Rightarrow> bool" where
  "sys_inv s \<longleftrightarrow> idm_inv (coord s) \<and>
     (\<forall>i t. tasks s i = Some t \<longrightarrow> task_ok (coord s) t) \<and>
     (\<forall>i j t u rk. tasks s i = Some t \<longrightarrow> tasks s j = Some u \<longrightarrow> owner rk t \<longrightarrow> owner rk u \<longrightarrow> i = j) \<and>
     (\<forall>rk fp. idm_view (coord s) rk = Some (fp, None) \<longrightarrow> (\<exists>i. tasks s i = Some (Holding rk fp)))"

text \<open>An owner pins the view of its key, so no two keys' owners interfere.\<close>

lemma owner_view: "task_ok c t \<Longrightarrow> owner rk t \<Longrightarrow> idm_view c rk \<noteq> None"
  by (auto simp: owner_def)

lemma sys_invD:
  assumes "sys_inv s"
  shows "idm_inv (coord s)"
    and "tasks s i = Some t \<Longrightarrow> task_ok (coord s) t"
    and "tasks s i = Some t \<Longrightarrow> tasks s j = Some u \<Longrightarrow> owner rk t \<Longrightarrow> owner rk u \<Longrightarrow> i = j"
    and "idm_view (coord s) rk = Some (fp, None) \<Longrightarrow> \<exists>i. tasks s i = Some (Holding rk fp)"
  using assms unfolding sys_inv_def by blast+

text \<open>
  Updating one task: the others keep their invariant, the task that moved gets it, it owns
  its key only if nobody else does, and claims in flight keep their holder.
\<close>

lemma sys_inv_update:
  assumes inv: "sys_inv s" and c: "idm_inv c"
    and others: "\<And>j u. j \<noteq> i \<Longrightarrow> tasks s j = Some u \<Longrightarrow> task_ok c u"
    and moved: "task_ok c t"
    and own: "\<And>rk j u. j \<noteq> i \<Longrightarrow> tasks s j = Some u \<Longrightarrow> owner rk u \<Longrightarrow> owner rk t \<Longrightarrow> False"
    and claims: "\<And>rk fp. idm_view c rk = Some (fp, None) \<Longrightarrow>
        t = Holding rk fp \<or> (\<exists>j. j \<noteq> i \<and> tasks s j = Some (Holding rk fp))"
  shows "sys_inv (s\<lparr>coord := c, tasks := (tasks s)(i \<mapsto> t)\<rparr>)"
  unfolding sys_inv_def
proof (simp_all del: fun_upd_apply, intro conjI allI impI)
  show "idm_inv c" by fact
next
  fix j u assume "((tasks s)(i \<mapsto> t)) j = Some u"
  then show "task_ok c u" using others moved by (auto split: if_splits)
next
  fix j l u v rk
  assume "((tasks s)(i \<mapsto> t)) j = Some u" "((tasks s)(i \<mapsto> t)) l = Some v" "owner rk u" "owner rk v"
  then show "j = l"
    using own [of j u rk] own [of l v rk] sys_invD(3) [OF inv, of j u l v rk] by (auto split: if_splits)
next
  fix rk fp assume "idm_view c rk = Some (fp, None)"
  then show "\<exists>j. ((tasks s)(i \<mapsto> t)) j = Some (Holding rk fp)"
    using claims by (metis fun_upd_other fun_upd_same)
qed

lemma task_ok_key_lock [simp]: "task_ok (key_lock rk c) t = task_ok c t"
  by (cases t) simp_all

lemma task_ok_open_claim:
  assumes "idm_inv c" "idm_view c rk = None" "task_ok c t"
  shows "task_ok (open_claim rk fp c) t"
proof (cases t)
  case (Waiting rk' fp' ev)
  then have ev: "ev < idm_next_event c" "idm_event_set c ev \<or> idm_events c rk' = Some ev \<and> idm_view c rk' = Some (fp', None)"
    using assms(3) by auto
  show ?thesis
  proof (cases "idm_event_set c ev")
    case True
    then show ?thesis using Waiting ev(1) by (simp add: open_claim_def)
  next
    case False
    with ev(2) have v: "idm_events c rk' = Some ev" "idm_view c rk' = Some (fp', None)" by auto
    then have "rk' \<noteq> rk" using assms(2) by auto
    then show ?thesis using Waiting v ev(1) by (simp add: open_claim_def) (simp add: idm_view_def)
  qed
qed (use assms in auto)

lemma task_ok_close_claim:
  assumes "idm_view c rk = Some (fp, None)" "idm_events c rk = Some ev" "task_ok c t" "\<not> owner rk t"
  shows "task_ok (close_claim rk ev r c) t"
proof (cases t)
  case (Waiting rk' fp' ev')
  then show ?thesis
    using assms by (cases "rk' = rk") (auto simp: close_claim_def idm_view_def)
qed (use assms in \<open>auto simp: owner_def\<close>)

lemma sys_inv_move:
  assumes inv: "sys_inv s" and c: "c = coord s \<or> c = key_lock rk (coord s)"
    and "\<And>rk fp. tasks s i \<noteq> Some (Holding rk fp)" and "task_ok (coord s) t" "\<And>rk. \<not> owner rk t"
  shows "sys_inv (s\<lparr>coord := c, tasks := (tasks s)(i \<mapsto> t)\<rparr>)"
proof (rule sys_inv_update [OF inv])
  note I = sys_invD [OF inv]
  show "idm_inv c" using c I(1) by auto
  show "task_ok c t" using c assms(4) by auto
  show "task_ok c u" if "tasks s j = Some u" for j u using c I(2) [OF that] by auto
  show False if "owner rk t" for rk using that assms(5) by blast
  show "t = Holding rk fp \<or> (\<exists>j. j \<noteq> i \<and> tasks s j = Some (Holding rk fp))"
    if "idm_view c rk = Some (fp, None)" for rk fp
  proof -
    have "idm_view (coord s) rk = Some (fp, None)" using that c by auto
    then obtain j where "tasks s j = Some (Holding rk fp)" using I(4) by blast
    then show ?thesis using assms(3) by metis
  qed
qed

lemma sys_inv_resolve:
  assumes inv: "sys_inv s" and i: "tasks s i = Some (Holding rk fp)"
    and ev: "idm_events (coord s) rk = Some ev" and r: "r = None \<or> (\<exists>pid. r = Some (fp, Some pid, True))"
    and t: "t = Resolved rk fp (case r of None \<Rightarrow> None | Some (fp, pid, fin) \<Rightarrow> pid)"
  shows "sys_inv (s\<lparr>coord := close_claim rk ev r (key_lock rk (coord s)), tasks := (tasks s)(i \<mapsto> t)\<rparr>)"
proof (rule sys_inv_update [OF inv])
  note I = sys_invD [OF inv]
  have v: "idm_view (coord s) rk = Some (fp, None)" using I(2) [OF i] by simp
  have own: "owner rk (Holding rk fp)" by (simp add: owner_def)
  let ?c = "close_claim rk ev r (key_lock rk (coord s))"
  show "idm_inv ?c" using I(1) ev r by (intro idm_inv_close_claim) auto
  show "task_ok ?c u" if "j \<noteq> i" "tasks s j = Some u" for j u
    using v ev I(2) [OF that(2)] I(3) [OF that(2) i _ own] that(1)
    by (intro task_ok_close_claim) auto
  show "task_ok ?c t" using r t by auto
  show False if "j \<noteq> i" "tasks s j = Some u" "owner rk' u" "owner rk' t" for rk' j u
    using that I(3) [OF that(2) i, of rk'] t by (auto simp: owner_def)
  show "t = Holding rk' fp' \<or> (\<exists>j. j \<noteq> i \<and> tasks s j = Some (Holding rk' fp'))"
    if view: "idm_view ?c rk' = Some (fp', None)" for rk' fp'
  proof -
    have "rk' \<noteq> rk" "idm_view (coord s) rk' = Some (fp', None)" using view r by (auto split: if_splits)
    moreover then obtain j where "tasks s j = Some (Holding rk' fp')" using I(4) by blast
    ultimately show ?thesis using i by (intro disjI2 exI [of _ j]) auto
  qed
qed

lemma acquire_decided:
  assumes "idm_inv c" "acquire m k fp c = (Inr r, c')" "\<And>d. r = Decided d \<Longrightarrow> dec_status d \<noteq> CLAIMED"
  shows "c' = key_lock (m, k) c \<and>
    (case r of Decided d \<Rightarrow> task_ok c (Answered (m, k) fp d) | AwaitEvent ev \<Rightarrow> task_ok c (Waiting (m, k) fp ev))"
proof (cases "idm_records c (m, k)")
  case None
  then show ?thesis using assms acquire_absent [OF None, of fp] by auto
next
  case (Some q)
  obtain fp' pid fin where q: "q = (fp', pid, fin)" by (cases q)
  obtain ev where ev: "idm_events c (m, k) = Some ev" "fin \<longleftrightarrow> pid \<noteq> None" "ev < idm_next_event c"
    by (rule idm_inv_recordD [OF assms(1) Some [unfolded q]])
  show ?thesis
    using acquire_present [OF Some [unfolded q] ev(1), of fp] assms(2,3) Some q ev
    by (auto simp: idm_view_def split: if_splits)
qed

lemma idm_step_inv:
  assumes "idm_step s t" "sys_inv s"
  shows "sys_inv t"
  using assms
proof (induction rule: idm_step.induct)
  case (arrive s i m k fp)
  have "sys_inv (s\<lparr>coord := coord s, tasks := (tasks s)(i \<mapsto> Trying (m, k) fp)\<rparr>)"
    using arrive by (intro sys_inv_move) (auto simp: owner_def)
  then show ?case by simp
next
  case (wake s i rk fp ev)
  have "sys_inv (s\<lparr>coord := coord s, tasks := (tasks s)(i \<mapsto> Trying rk fp)\<rparr>)"
    using wake by (intro sys_inv_move) (auto simp: owner_def)
  then show ?case by simp
next
  case (answer s i m k fp d c)
  then have "c = key_lock (m, k) (coord s) \<and> task_ok (coord s) (Answered (m, k) fp d)"
    using acquire_decided [OF sys_invD(1)] by fastforce
  with answer show ?case by (intro sys_inv_move) (auto simp: owner_def)
next
  case (await s i m k fp ev c)
  then have "c = key_lock (m, k) (coord s) \<and> task_ok (coord s) (Waiting (m, k) fp ev)"
    using acquire_decided [OF sys_invD(1)] by fastforce
  with await show ?case by (intro sys_inv_move) (auto simp: owner_def)
next
  case (claim s i m k fp d c)
  note I = sys_invD [OF claim.prems]
  have none: "idm_view (coord s) (m, k) = None" and c: "c = open_claim (m, k) fp (key_lock (m, k) (coord s))"
    using claim.hyps
    by (auto simp: idm_view_None acquire_def open_claim_def Let_def split: option.splits if_splits prod.splits)
  show ?case
  proof (rule sys_inv_update [OF claim.prems])
    show "idm_inv c" unfolding c using I(1) by (intro idm_inv_open_claim) simp
    show "task_ok c u" if "j \<noteq> i" "tasks s j = Some u" for j u
      unfolding c using I(1) I(2) [OF that(2)] none by (intro task_ok_open_claim) simp_all
    show "task_ok c (Holding (m, k) fp)" by (simp add: c)
    show False if "tasks s j = Some u" "owner rk u" "owner rk (Holding (m, k) fp)" for rk j u
      using that I(2) [OF that(1)] none owner_view by (fastforce simp: owner_def)
    show "Holding (m, k) fp = Holding rk fp' \<or> (\<exists>j. j \<noteq> i \<and> tasks s j = Some (Holding rk fp'))"
      if view: "idm_view c rk = Some (fp', None)" for rk fp'
    proof (cases "rk = (m, k)")
      case True
      then show ?thesis using view by (simp add: c)
    next
      case False
      then obtain j where "tasks s j = Some (Holding rk fp')" using view I(4) [of rk fp'] by (auto simp: c)
      then show ?thesis using claim.hyps(1) by (intro disjI2 exI [of _ j]) auto
    qed
  qed
next
  case (finish s i m k fp pid c)
  note I = sys_invD [OF finish.prems]
  have "idm_view (coord s) (m, k) = Some (fp, None)" using I(2) [OF finish.hyps(1)] by simp
  then obtain ev where ev: "idm_records (coord s) (m, k) = Some (fp, None, False)" "idm_events (coord s) (m, k) = Some ev"
    by (rule idm_view_SomeE [OF I(1)]) simp
  then have "c = close_claim (m, k) ev (Some (fp, Some pid, True)) (key_lock (m, k) (coord s))"
    using finish.hyps(2) complete_present [OF ev, of pid] by simp
  then show ?case
    using sys_inv_resolve [OF finish.prems finish.hyps(1) ev(2), of "Some (fp, Some pid, True)"] by simp
next
  case (give_up s i m k fp c)
  note I = sys_invD [OF give_up.prems]
  have "idm_view (coord s) (m, k) = Some (fp, None)" using I(2) [OF give_up.hyps(1)] by simp
  then obtain ev where ev: "idm_records (coord s) (m, k) = Some (fp, None, False)" "idm_events (coord s) (m, k) = Some ev"
    by (rule idm_view_SomeE [OF I(1)]) simp
  then have "c = close_claim (m, k) ev None (key_lock (m, k) (coord s))"
    using give_up.hyps(2) abort_present [OF ev] by simp
  then show ?case using sys_inv_resolve [OF give_up.prems give_up.hyps(1) ev(2), of None] by simp
qed

lemma idm_reachable_inv: "idm_reachable s \<Longrightarrow> sys_inv s"
proof (induction rule: idm_reachable.induct)
  case start
  show ?case
    using new_idm_inv
    by (simp add: sys_inv_def idm_init_def idm_view_def new_MemoryIdempotencyCoordinator_def)
qed (rule idm_step_inv)

subsection \<open>Properties\<close>

text \<open>
  C7. Whatever the interleaving of concurrent requests, at most one request per merchant
  and idempotency key holds the claim or has completed it: two requests that run, or have
  run to completion, the payment of the same key are the same request.
\<close>

theorem claim_exclusive:
  assumes "idm_reachable s" and "tasks s i = Some t" "tasks s j = Some u"
    and "owner rk t" "owner rk u"
  shows "i = j"
  using sys_invD(3) [OF idm_reachable_inv [OF assms(1)] assms(2-5)] .

text \<open>One task claims the key, a second one waits for it.\<close>

definition two_tasks :: idm_sys where
  "two_tasks = (let s1 = idm_init\<lparr>tasks := [0 \<mapsto> Trying (''m'', ''k'') ''f'']\<rparr>
     in s1\<lparr>coord := snd (acquire ''m'' ''k'' ''f'' (coord s1)),
           tasks := [0 \<mapsto> Holding (''m'', ''k'') ''f'']\<rparr>)"

definition waiting_tasks :: idm_sys where
  "waiting_tasks = two_tasks\<lparr>
     coord := snd (acquire ''m'' ''k'' ''f'' (coord two_tasks)),
     tasks := [0 \<mapsto> Holding (''m'', ''k'') ''f'', 1 \<mapsto> Waiting (''m'', ''k'') ''f'' 0]\<rparr>"

lemmas sample_task_defs = two_tasks_def waiting_tasks_def idm_init_def
  new_MemoryIdempotencyCoordinator_def acquire_def key_lock_def Let_def

lemma two_tasks_reachable: "idm_reachable two_tasks"
proof -
  let ?s = "idm_init\<lparr>tasks := (tasks idm_init)(0 \<mapsto> Trying (''m'', ''k'') ''f'')\<rparr>"
  have "idm_step idm_init ?s" by (rule idm_step.arrive) (simp add: idm_init_def)
  then have r: "idm_reachable ?s" by (rule idm_reachable.step [OF idm_reachable.start])
  have "idm_step ?s (?s\<lparr>coord := snd (acquire ''m'' ''k'' ''f'' (coord ?s)),
      tasks := (tasks ?s)(0 \<mapsto> Holding (''m'', ''k'') ''f'')\<rparr>)"
    by (rule idm_step.claim [where d = "\<lparr>dec_status = CLAIMED, dec_payment_id = None\<rparr>"])
      (simp_all add: sample_task_defs)
  then have "idm_reachable (?s\<lparr>coord := snd (acquire ''m'' ''k'' ''f'' (coord ?s)),
      tasks := (tasks ?s)(0 \<mapsto> Holding (''m'', ''k'') ''f'')\<rparr>)"
    by (rule idm_reachable.step [OF r])
  then show ?thesis by (simp add: two_tasks_def idm_init_def Let_def)
qed

lemma waiting_tasks_reachable: "idm_reachable waiting_tasks"
proof -
  let ?s = "two_tasks\<lparr>tasks := (tasks two_tasks)(1 \<mapsto> Trying (''m'', ''k'') ''f'')\<rparr>"
  have "idm_step two_tasks ?s" by (rule idm_step.arrive) (simp add: two_tasks_def)
  then have r: "idm_reachable ?s" by (rule idm_reachable.step [OF two_tasks_reachable])
  have "idm_step ?s (?s\<lparr>coord := snd (acquire ''m'' ''k'' ''f'' (coord ?s)),
      tasks := (tasks ?s)(1 \<mapsto> Waiting (''m'', ''k'') ''f'' 0)\<rparr>)"
    by (rule idm_step.await) (simp_all add: sample_task_defs)
  then have "idm_reachable (?s\<lparr>coord := snd (acquire ''m'' ''k'' ''f'' (coord ?s)),
      tasks := (tasks ?s)(1 \<mapsto> Waiting (''m'', ''k'') ''f'' 0)\<rparr>)"
    by (rule idm_reachable.step [OF r])
  then show ?thesis by (simp add: waiting_tasks_def two_tasks_def Let_def)
qed

theorem claim_exclusive_witness: "\<exists>t. tasks two_tasks 0 = Some t \<and> owner (''m'', ''k'') t \<and> (0::nat) = 0"
proof -
  have t: "tasks two_tasks 0 = Some (Holding (''m'', ''k'') ''f'')" by (simp add: two_tasks_def)
  have o: "owner (''m'', ''k'') (Holding (''m'', ''k'') ''f'')" by (simp add: owner_def)
  from claim_exclusive [OF two_tasks_reachable t t o o] t o show ?thesis by blast
qed

text \<open>
  Agreement: every request that is told a key is completed gets the payment with which
  its one owner completed it, and so do all later ones; its fingerprint is the owner's.
\<close>

theorem completed_agree:
  assumes "idm_reachable s" and "tasks s i = Some (Resolved rk fp (Some pid))"
    and "tasks s j = Some (Answered rk fp' d)" "dec_status d = COMPLETED"
  shows "dec_payment_id d = Some pid \<and> fp' = fp"
  using sys_invD(2) [OF idm_reachable_inv [OF assms(1)] assms(2)]
    sys_invD(2) [OF idm_reachable_inv [OF assms(1)] assms(3)] assms(4) by auto

definition replayed_tasks :: idm_sys where
  "replayed_tasks = two_tasks\<lparr>
     coord := snd (acquire ''m'' ''k'' ''f'' (snd (complete ''m'' ''k'' ''f'' 7 (coord two_tasks)))),
     tasks := [0 \<mapsto> Resolved (''m'', ''k'') ''f'' (Some 7),
               1 \<mapsto> Answered (''m'', ''k'') ''f'' \<lparr>dec_status = COMPLETED, dec_payment_id = Some 7\<rparr>]\<rparr>"

lemma replayed_tasks_reachable: "idm_reachable replayed_tasks"
proof -
  let ?c = "snd (complete ''m'' ''k'' ''f'' 7 (coord two_tasks))"
  let ?s = "two_tasks\<lparr>coord := ?c, tasks := (tasks two_tasks)(0 \<mapsto> Resolved (''m'', ''k'') ''f'' (Some 7))\<rparr>"
  let ?t = "?s\<lparr>tasks := (tasks ?s)(1 \<mapsto> Trying (''m'', ''k'') ''f'')\<rparr>"
  let ?d = "\<lparr>dec_status = COMPLETED, dec_payment_id = Some 7\<rparr>"
  let ?u = "?t\<lparr>coord := snd (acquire ''m'' ''k'' ''f'' ?c),
      tasks := (tasks ?t)(1 \<mapsto> Answered (''m'', ''k'') ''f'' ?d)\<rparr>"
  have "idm_step two_tasks ?s"
    by (rule idm_step.finish) (simp_all add: sample_task_defs complete_def set_event_def)
  moreover have "idm_step ?s ?t" by (rule idm_step.arrive) (simp add: two_tasks_def)
  moreover have "idm_step ?t ?u"
    by (rule idm_step.answer [where d = ?d]) (simp_all add: sample_task_defs complete_def set_event_def)
  ultimately have "idm_reachable ?u"
    using two_tasks_reachable idm_reachable.step by blast
  then show ?thesis by (simp add: replayed_tasks_def two_tasks_def Let_def)
qed

theorem completed_agree_witness:
  "dec_payment_id \<lparr>dec_status = COMPLETED, dec_payment_id = Some 7\<rparr> = Some (7::uuid)"
proof -
  let ?d = "\<lparr>dec_status = COMPLETED, dec_payment_id = Some 7\<rparr>"
  have r: "tasks replayed_tasks 0 = Some (Resolved (''m'', ''k'') ''f'' (Some 7))"
    and a: "tasks replayed_tasks 1 = Some (Answered (''m'', ''k'') ''f'' ?d)"
    and d: "dec_status ?d = COMPLETED"
    by (simp_all add: replayed_tasks_def)
  from completed_agree [OF replayed_tasks_reachable r a d] show ?thesis by blast
qed

text \<open>
  C8. No wake-up is lost and no claim is orphaned: a waiting request either has its event
  set, so that it can take its next round, or some request holds the claim it waits for and
  completing or aborting that claim sets exactly its event.
\<close>

theorem no_lost_wakeup:
  assumes "idm_reachable s" and "tasks s i = Some (Waiting (m, k) fp ev)"
  shows "idm_step s (s\<lparr>tasks := (tasks s)(i \<mapsto> Trying (m, k) fp)\<rparr>) \<or>
    (\<exists>j. tasks s j = Some (Holding (m, k) fp) \<and>
       (\<forall>pid. idm_event_set (snd (complete m k fp pid (coord s))) ev) \<and>
       idm_event_set (snd (abort m k fp (coord s))) ev)"
proof -
  note I = sys_invD [OF idm_reachable_inv [OF assms(1)]]
  consider "idm_event_set (coord s) ev"
    | "idm_events (coord s) (m, k) = Some ev" "idm_view (coord s) (m, k) = Some (fp, None)"
    using I(2) [OF assms(2)] by auto
  then show ?thesis
  proof cases
    case 1
    with assms(2) show ?thesis by (blast intro: idm_step.wake)
  next
    case 2
    obtain j where "tasks s j = Some (Holding (m, k) fp)" using I(4) [OF 2(2)] by blast
    moreover have "idm_records (coord s) (m, k) = Some (fp, None, False)"
      by (rule idm_view_SomeE [OF I(1) 2(2)]) simp
    ultimately show ?thesis
      using 2(1) by (auto simp: complete_present abort_present close_claim_def)
  qed
qed

theorem no_lost_wakeup_witness:
  "idm_step waiting_tasks (waiting_tasks\<lparr>tasks := (tasks waiting_tasks)(1 \<mapsto> Trying (''m'', ''k'') ''f'')\<rparr>) \<or>
   (\<exists>j. tasks waiting_tasks j = Some (Holding (''m'', ''k'') ''f'') \<and>
      (\<forall>pid. idm_event_set (snd (complete ''m'' ''k'' ''f'' pid (coord waiting_tasks))) 0) \<and>
      idm_event_set (snd (abort ''m'' ''k'' ''f'' (coord waiting_tasks))) 0)"
  by (rule no_lost_wakeup [OF waiting_tasks_reachable]) (simp add: waiting_tasks_def)

end
