(* ===== verification/Fingerprint.thy ===== *)
theory Fingerprint
  imports Json
begin

text \<open>
  The request fingerprint (\<open>service.py\<close>): the payment input, its canonical JSON text as
  \<open>json.dumps\<close> writes it with sorted keys and compact separators, and the digest of that
  text. The hash function is a parameter. The text determines the fingerprinted fields,
  so two requests share a fingerprint only if they carry the same data or the hash
  collides on their texts.
\<close>

record PaymentInput =
  inp_merchant_id :: string
  inp_amount :: int
  inp_currency :: string
  inp_payment_method_type :: string
  inp_token :: string
  inp_idempotency_key :: string

definition json_member :: "string \<Rightarrow> string \<Rightarrow> string" where
  "json_member key text = json_string key @ CHR '':'' # text"

text \<open>The keys in sorted order.\<close>

definition canonical_json :: "PaymentInput \<Rightarrow> string" where
  "canonical_json data =
     CHR 0x7B # json_member ''amount'' (json_int (inp_amount data)) @
     CHR '','' # json_member ''currency'' (json_string (inp_currency data)) @
     CHR '','' # json_member ''merchant_id'' (json_string (inp_merchant_id data)) @
     CHR '','' # json_member ''payment_method_type'' (json_string (inp_payment_method_type data)) @
     CHR '','' # json_member ''token'' (json_string (inp_token data)) @ [CHR 0x7D]"

definition request_fingerprint :: "(string \<Rightarrow> string) \<Rightarrow> PaymentInput \<Rightarrow> string" where
  "request_fingerprint sha256 data = sha256 (canonical_json data)"

subsection \<open>The text determines the data\<close>

lemma canonical_json_inj:
  assumes "canonical_json a = canonical_json b"
  shows "inp_amount a = inp_amount b \<and> inp_currency a = inp_currency b \<and> inp_merchant_id a = inp_merchant_id b \<and>
    inp_payment_method_type a = inp_payment_method_type b \<and> inp_token a = inp_token b"
proof -
  note strip = append.assoc append_Cons append_Nil
  show ?thesis
    using assms unfolding canonical_json_def json_member_def strip
    by (auto dest!: json_int_prefix json_string_prefix dest: json_string_prefix [of _ "[]" _ "[]", simplified])
qed

text \<open>
  Two requests have the same fingerprint exactly when they carry the same merchant,
  amount, currency, payment method type and token, provided the hash does not collide on
  their two texts. The idempotency key is not part of it.
\<close>

lemma fingerprint_distinguishes:
  assumes "sha256 (canonical_json a) = sha256 (canonical_json b) \<longrightarrow> canonical_json a = canonical_json b"
  shows "request_fingerprint sha256 a = request_fingerprint sha256 b \<longleftrightarrow>
    a\<lparr>inp_idempotency_key := k\<rparr> = b\<lparr>inp_idempotency_key := k\<rparr>"
proof
  assume "request_fingerprint sha256 a = request_fingerprint sha256 b"
  then have "canonical_json a = canonical_json b" using assms by (simp add: request_fingerprint_def)
  from canonical_json_inj [OF this] show "a\<lparr>inp_idempotency_key := k\<rparr> = b\<lparr>inp_idempotency_key := k\<rparr>" by simp
next
  assume eq: "a\<lparr>inp_idempotency_key := k\<rparr> = b\<lparr>inp_idempotency_key := k\<rparr>"
  have "canonical_json x = canonical_json (x\<lparr>inp_idempotency_key := k\<rparr>)" for x by (simp add: canonical_json_def)
  with eq have "canonical_json a = canonical_json b" by metis
  then show "request_fingerprint sha256 a = request_fingerprint sha256 b" by (simp add: request_fingerprint_def)
qed

definition sample_input :: PaymentInput where
  "sample_input = \<lparr>inp_merchant_id = ''m'', inp_amount = 100, inp_currency = ''INR'',
     inp_payment_method_type = ''card'', inp_token = ''test_card'', inp_idempotency_key = ''key''\<rparr>"

end
