(* ===== verification/Service.thy ===== *)
theory Service
  imports Outbox Reliability Routing Idempotency Fingerprint
begin

text \<open>
  The payment service (\<open>service.py\<close>): creation with idempotency, provider selection,
  retries, circuit breakers and failover, and refunds.

  The service is generic in its collaborators, as in the source: providers are a
  \<open>provider_ops\<close>, and the idempotency coordinator, the payment store and the outbox are a
  \<open>backend_ops\<close> over a state of any type, whose operations may fail in any way. The
  in-memory collaborators are one such backend. A method runs from its call to its return
  without another task in between; the interleavings of tasks around a claim are the
  subject of the idempotency theory.
\<close>

subsection \<open>State\<close>

datatype metric_call =
    Inc string "string list"
  | GaugeSet string "string list" real
  | Observe string "string list" real

record 'b backend_ops =
  be_acquire :: "string \<Rightarrow> string \<Rightarrow> string \<Rightarrow> 'b \<Rightarrow> acquire_result res \<times> 'b"
  be_complete :: "string \<Rightarrow> string \<Rightarrow> string \<Rightarrow> uuid \<Rightarrow> 'b \<Rightarrow> unit res \<times> 'b"
  be_abort :: "string \<Rightarrow> string \<Rightarrow> string \<Rightarrow> 'b \<Rightarrow> unit res \<times> 'b"
  be_get :: "uuid \<Rightarrow> 'b \<Rightarrow> Payment option res \<times> 'b"
  be_get_by_idempotency :: "string \<Rightarrow> string \<Rightarrow> 'b \<Rightarrow> Payment option res \<times> 'b"
  be_list :: "string option \<Rightarrow> string option \<Rightarrow> datetime option \<Rightarrow> datetime option \<Rightarrow> 'b \<Rightarrow> Payment list res \<times> 'b"
  be_save :: "Payment \<Rightarrow> 'b \<Rightarrow> unit res \<times> 'b"
  be_save_with_events :: "(Payment \<Rightarrow> EventEnvelope list \<Rightarrow> 'b \<Rightarrow> unit res \<times> 'b) option"
  be_append :: "(EventEnvelope list \<Rightarrow> 'b \<Rightarrow> unit res \<times> 'b) option"
  be_outbox_is_store :: bool

text \<open>
  \<open>be_append\<close> is \<open>None\<close> when the service has no outbox, \<open>be_save_with_events\<close> when
  the store has no such method.

  A semaphore is its limit: a run of one method releases every permit it takes.
\<close>

record 'b PaymentService =
  svc_providers :: "provider list"
  svc_backend :: 'b
  svc_router :: ProviderRouter
  svc_retry_policy :: RetryPolicy
  svc_metrics :: "metric_call list option"
  svc_provider_concurrency_limit :: int
  svc_semaphores :: "string \<rightharpoonup> int option"
  svc_circuits :: "string \<rightharpoonup> CircuitBreaker"
  svc_refund_locks :: "string set"

type_synonym 'b svc = "'b PaymentService \<times> world"

definition on_backend :: "('b \<Rightarrow> 'a res \<times> 'b) \<Rightarrow> 'b svc \<Rightarrow> 'a res \<times> 'b svc" where
  "on_backend f st = (let (r, b) = f (svc_backend (fst st)) in (r, (fst st)\<lparr>svc_backend := b\<rparr>, snd st))"

subsection \<open>Metrics\<close>

definition emit :: "metric_call \<Rightarrow> 'b PaymentService \<Rightarrow> 'b PaymentService" where
  "emit m s = (case svc_metrics s of None \<Rightarrow> s | Some ms \<Rightarrow> s\<lparr>svc_metrics := Some (ms @ [m])\<rparr>)"

definition set_circuit_metric :: "string \<Rightarrow> 'b PaymentService \<Rightarrow> 'b PaymentService" where
  "set_circuit_metric name s =
     (case svc_circuits s name of
        None \<Rightarrow> s
      | Some cb \<Rightarrow>
          fold (\<lambda>state. emit (GaugeSet ''provider_circuit_state'' [name, state]
                               (if state = circuit_state_value (cb_state cb) then 1 else 0)))
            [''CLOSED'', ''OPEN'', ''HALF_OPEN''] s)"

definition timestamp :: "datetime option \<Rightarrow> real" where
  "timestamp d = (case d of None \<Rightarrow> 0 | Some t \<Rightarrow> of_int t / 1000000)"

definition set_inflight_metric :: "string \<Rightarrow> 'b PaymentService \<Rightarrow> 'b PaymentService" where
  "set_inflight_metric name s =
     (let stats = stats_view (svc_router s) name
      in emit (GaugeSet ''provider_last_failure_timestamp'' [name] (timestamp (pst_last_failure_at stats)))
          (emit (GaugeSet ''provider_last_success_timestamp'' [name] (timestamp (pst_last_success_at stats)))
            (emit (GaugeSet ''provider_p95_latency_seconds'' [name] (p95_latency_ms stats / 1000))
              (emit (GaugeSet ''provider_inflight'' [name] (of_int (pst_inflight stats))) s))))"

definition record_provider_failure_metrics :: "string \<Rightarrow> string \<Rightarrow> real \<Rightarrow> 'b PaymentService \<Rightarrow> 'b PaymentService" where
  "record_provider_failure_metrics name error_code latency_ms s =
     (let bounded_code =
            (if error_code \<in> {''PROVIDER_TIMEOUT'', ''PROVIDER_UNAVAILABLE'', ''PAYMENT_DECLINED'', ''HTTP_502'', ''HTTP_503''}
             then error_code else ''other'');
          s1 = emit (Inc ''provider_requests_total'' [name, ''error'']) s;
          s2 = emit (Inc ''provider_failures_total'' [name, bounded_code]) s1;
          s3 = emit (Observe ''provider_latency_seconds'' [name] (latency_ms / 1000)) s2
      in if error_code = ''PROVIDER_TIMEOUT'' then emit (Inc ''provider_timeouts_total'' [name]) s3 else s3)"

subsection \<open>Concurrency limits and circuits\<close>

definition set_provider_concurrency :: "string \<Rightarrow> int \<Rightarrow> 'b PaymentService \<Rightarrow> unit res \<times> 'b PaymentService" where
  "set_provider_concurrency name limit s =
     (if limit < 0 then (Inl (ValueError ''provider concurrency limit must be zero or positive''), s)
      else (Inr (), s\<lparr>svc_semaphores := (svc_semaphores s)(name \<mapsto> (if limit \<noteq> 0 then Some limit else None))\<rparr>))"

definition record_circuit_transition ::
  "'b backend_ops \<Rightarrow> string \<Rightarrow> CircuitState \<Rightarrow> CircuitState \<Rightarrow> 'b svc \<Rightarrow> unit res \<times> 'b svc" where
  "record_circuit_transition be name previous current st =
     (let (s, w) = st;
          w1 = log_append (CircuitTransition name (circuit_state_value previous) (circuit_state_value current)) w;
          s1 = emit (Inc ''provider_circuit_transitions_total''
                      [name, circuit_state_value previous, circuit_state_value current]) s
      in case be_append be of
           Some app \<Rightarrow>
             if current = OPEN \<or> current = CLOSED
             then let (ev, w2) = new_EventEnvelope
                        (if current = OPEN then PROVIDER_CIRCUIT_OPENED else PROVIDER_CIRCUIT_CLOSED) ''system'' None
                        [(''provider'', JString name), (''from_state'', JString (circuit_state_value previous)),
                         (''to_state'', JString (circuit_state_value current))] (Some name) w1
                  in on_backend (app [ev]) (s1, w2)
             else (Inr (), (s1, w1))
         | None \<Rightarrow> (Inr (), (s1, w1)))"

text \<open>The common frame of the three circuit operations: read, step, publish, report a transition.\<close>

definition step_circuit ::
  "'b backend_ops \<Rightarrow> string \<Rightarrow> (CircuitBreaker \<Rightarrow> world \<Rightarrow> 'a \<times> CircuitBreaker \<times> world) \<Rightarrow> 'b svc \<Rightarrow> 'a res \<times> 'b svc" where
  "step_circuit be name f st =
     (case svc_circuits (fst st) name of
        None \<Rightarrow> (Inl (KeyError name), st)
      | Some circuit \<Rightarrow>
          let (v, circuit1, w1) = f circuit (snd st);
              s1 = set_circuit_metric name
                     ((fst st)\<lparr>svc_circuits := (svc_circuits (fst st))(name \<mapsto> circuit1)\<rparr>)
          in if cb_state circuit \<noteq> cb_state circuit1
             then then_do (record_circuit_transition be name (cb_state circuit) (cb_state circuit1) (s1, w1))
                    (\<lambda>_ st1. (Inr v, st1))
             else (Inr v, (s1, w1)))"

definition allow_provider :: "'b backend_ops \<Rightarrow> provider \<Rightarrow> 'b svc \<Rightarrow> bool res \<times> 'b svc" where
  "allow_provider be p = step_circuit be (prv_name p) allow_request"

definition record_provider_success :: "'b backend_ops \<Rightarrow> provider \<Rightarrow> 'b svc \<Rightarrow> unit res \<times> 'b svc" where
  "record_provider_success be p = step_circuit be (prv_name p) (\<lambda>cb w. ((), record_success cb, w))"

definition record_provider_failure :: "'b backend_ops \<Rightarrow> provider \<Rightarrow> 'b svc \<Rightarrow> unit res \<times> 'b svc" where
  "record_provider_failure be p = step_circuit be (prv_name p) (\<lambda>cb w. ((), record_failure cb w))"

subsection \<open>Construction\<close>

fun make_circuits :: "provider list \<Rightarrow> int \<Rightarrow> real \<Rightarrow> (string \<rightharpoonup> CircuitBreaker) \<Rightarrow> (string \<rightharpoonup> CircuitBreaker) res" where
  "make_circuits [] threshold cooldown m = Inr m"
| "make_circuits (p # ps) threshold cooldown m =
     (case new_CircuitBreaker threshold cooldown 1 of
        Inl e \<Rightarrow> Inl e
      | Inr cb \<Rightarrow> make_circuits ps threshold cooldown (m(prv_name p \<mapsto> cb)))"

fun init_providers :: "provider list \<Rightarrow> 'b PaymentService \<Rightarrow> 'b PaymentService res" where
  "init_providers [] s = Inr s"
| "init_providers (p # ps) s =
     (let s1 = set_circuit_metric (prv_name p) s;
          limit = (if cfg_max_concurrency (prv_config p) \<noteq> 0 then cfg_max_concurrency (prv_config p)
                   else svc_provider_concurrency_limit s)
      in case set_provider_concurrency (prv_name p) limit s1 of
           (Inl e, _) \<Rightarrow> Inl e
         | (Inr _, s2) \<Rightarrow> init_providers ps s2)"

definition new_PaymentService ::
  "provider list \<Rightarrow> 'b \<Rightarrow> RetryPolicy option \<Rightarrow> int \<Rightarrow> real \<Rightarrow> metric_call list option \<Rightarrow> string \<Rightarrow>
   CompositeWeights option \<Rightarrow> int \<Rightarrow> 'b PaymentService res" where
  "new_PaymentService providers backend retry_policy threshold cooldown metrics strategy weights limit =
     (if limit < 0 then Inl (ValueError ''provider_concurrency_limit must be zero or positive'')
      else case new_ProviderRouter strategy 20 weights of
             Inl e \<Rightarrow> Inl e
           | Inr router \<Rightarrow>
               (case make_circuits providers threshold cooldown Map.empty of
                  Inl e \<Rightarrow> Inl e
                | Inr circuits \<Rightarrow>
                    init_providers providers
                      \<lparr>svc_providers = providers, svc_backend = backend, svc_router = router,
                       svc_retry_policy = (case retry_policy of None \<Rightarrow> default_RetryPolicy | Some pol \<Rightarrow> pol),
                       svc_metrics = metrics, svc_provider_concurrency_limit = limit,
                       svc_semaphores = Map.empty, svc_circuits = circuits, svc_refund_locks = {}\<rparr>))"

subsection \<open>Events and saving\<close>

definition payment_event ::
  "Payment \<Rightarrow> EventType \<Rightarrow> PaymentStatus option \<Rightarrow> world \<Rightarrow> EventEnvelope \<times> world" where
  "payment_event payment event_type status w =
     new_EventEnvelope event_type (pay_merchant_id payment) (Some (pay_id payment))
       [(''payment_id'', JString (str_uuid (pay_id payment))),
        (''status'', JString (status_value (case status of None \<Rightarrow> pay_status payment | Some x \<Rightarrow> x)))]
       (pay_provider payment) w"

definition save_payment :: "'b backend_ops \<Rightarrow> Payment \<Rightarrow> EventEnvelope list \<Rightarrow> 'b svc \<Rightarrow> unit res \<times> 'b svc" where
  "save_payment be payment events st =
     (let separately =
            then_do (on_backend (be_save be payment) st)
              (\<lambda>_ st1. case be_append be of
                         Some app \<Rightarrow> if events \<noteq> [] then on_backend (app events) st1 else (Inr (), st1)
                       | None \<Rightarrow> (Inr (), st1))
      in case be_save_with_events be of
           Some saver \<Rightarrow>
             if events \<noteq> [] \<and> be_outbox_is_store be then on_backend (saver payment events) st else separately
         | None \<Rightarrow> separately)"

subsection \<open>Attempts at one provider\<close>

text \<open>
  The state of \<open>operation\<close>: the service, and the attempts the closure has collected.
\<close>

type_synonym 'b attempt_state = "'b svc \<times> PaymentAttempt list"

definition call_provider ::
  "provider_ops \<Rightarrow> provider \<Rightarrow> Payment \<Rightarrow> PaymentInput \<Rightarrow> 'b svc \<Rightarrow> ProviderPaymentResult res \<times> 'b svc" where
  "call_provider ops p payment data st =
     (case svc_semaphores (fst st) (prv_name p) of
        None \<Rightarrow> (Inl (KeyError (prv_name p)), st)
      | Some semaphore \<Rightarrow>
          let (r, w) = op_create_payment ops p (str_uuid (pay_id payment)) (inp_amount data)
                         (inp_currency data) (inp_token data) (snd st)
          in (r, (fst st, w)))"

text \<open>\<open>finish_call\<close>: latency, \<open>finish_request\<close> and the in-flight metric, as all three outcomes do them.\<close>

definition finish_call :: "provider \<Rightarrow> bool \<Rightarrow> string option \<Rightarrow> real \<Rightarrow> 'b svc \<Rightarrow> real \<times> 'b svc" where
  "finish_call p success error_code started st =
     (let (s, w) = st;
          (now, w1) = perf_counter w;
          latency_ms = (now - started) * 1000;
          (router, w2) = finish_request p success latency_ms error_code (svc_router s) w1
      in (latency_ms, (set_inflight_metric (prv_name p) (s\<lparr>svc_router := router\<rparr>), w2)))"

definition on_provider_error ::
  "'b backend_ops \<Rightarrow> provider \<Rightarrow> exn \<Rightarrow> real \<Rightarrow> 'b attempt_state \<Rightarrow> ProviderPaymentResult res \<times> 'b attempt_state" where
  "on_provider_error be p error started ast =
     (let (st, attempts) = ast;
          (latency_ms, st1) = finish_call p False (Some (exn_code error)) started st
      in case record_provider_failure be p st1 of
           (Inl e, st2) \<Rightarrow> (Inl e, (st2, attempts))
         | (Inr _, (s2, w2)) \<Rightarrow>
             let s3 = record_provider_failure_metrics (prv_name p) (exn_code error) latency_ms s2;
                 s4 = (if is_retryable error then emit (Inc ''retries_total'' [prv_name p]) s3 else s3);
                 (attempt, w3) = new_PaymentAttempt (prv_name p) (int (length attempts) + 1)
                                   (if is_retryable error then ''RETRY'' else ''FAILED'') latency_ms
                                   (Some (exn_code error)) w2
             in (Inl error, ((s4, w3), attempts @ [attempt])))"

definition on_other_error ::
  "provider \<Rightarrow> exn \<Rightarrow> real \<Rightarrow> 'b attempt_state \<Rightarrow> ProviderPaymentResult res \<times> 'b attempt_state" where
  "on_other_error p error started ast =
     (let (st, attempts) = ast;
          (latency_ms, (s1, w1)) = finish_call p False (Some ''INTERNAL_ERROR'') started st
      in (Inl error, ((record_provider_failure_metrics (prv_name p) ''INTERNAL_ERROR'' latency_ms s1, w1), attempts)))"

definition on_provider_success ::
  "'b backend_ops \<Rightarrow> provider \<Rightarrow> ProviderPaymentResult \<Rightarrow> real \<Rightarrow> 'b attempt_state \<Rightarrow>
   ProviderPaymentResult res \<times> 'b attempt_state" where
  "on_provider_success be p result started ast =
     (let (st, attempts) = ast
      in case record_provider_success be p st of
           (Inl e, st1) \<Rightarrow> (Inl e, (st1, attempts))
         | (Inr _, st1) \<Rightarrow>
             let (latency_ms, (s2, w2)) = finish_call p True None started st1;
                 s3 = emit (Observe ''provider_latency_seconds'' [prv_name p] (latency_ms / 1000))
                        (emit (Inc ''provider_requests_total'' [prv_name p, ''success'']) s2);
                 (attempt, w3) = new_PaymentAttempt (prv_name p) (int (length attempts) + 1) ''SUCCEEDED''
                                   latency_ms None w2
             in (Inr result, ((s3, w3), attempts @ [attempt])))"

definition operation ::
  "provider_ops \<Rightarrow> 'b backend_ops \<Rightarrow> provider \<Rightarrow> Payment \<Rightarrow> PaymentInput \<Rightarrow> 'b attempt_state \<Rightarrow>
   ProviderPaymentResult res \<times> 'b attempt_state" where
  "operation ops be p payment data ast =
     (let (st, attempts) = ast
      in case allow_provider be p st of
           (Inl e, st1) \<Rightarrow> (Inl e, (st1, attempts))
         | (Inr False, st1) \<Rightarrow> (Inl (ProviderError ''CIRCUIT_OPEN'' ''Provider circuit is open''), (st1, attempts))
         | (Inr True, (s1, w1)) \<Rightarrow>
             let (started, w2) = perf_counter w1;
                 s2 = set_inflight_metric (prv_name p) (s1\<lparr>svc_router := start_request p (svc_router s1)\<rparr>)
             in case call_provider ops p payment data (s2, w2) of
                  (Inr result, st3) \<Rightarrow> on_provider_success be p result started (st3, attempts)
                | (Inl error, st3) \<Rightarrow>
                    if is_ProviderError error then on_provider_error be p error started (st3, attempts)
                    else if is_Exception error then on_other_error p error started (st3, attempts)
                    else (Inl error, (st3, attempts)))"

definition attempt_draw :: "'b attempt_state \<Rightarrow> real \<times> 'b attempt_state" where
  "attempt_draw ast = (let ((s, w), attempts) = ast; (r, w1) = random_draw w in (r, ((s, w1), attempts)))"

definition attempt_sleep :: "real \<Rightarrow> 'b attempt_state \<Rightarrow> 'b attempt_state" where
  "attempt_sleep d ast = (let ((s, w), attempts) = ast in ((s, sleep d w), attempts))"

definition fail_last :: "PaymentAttempt list \<Rightarrow> PaymentAttempt list" where
  "fail_last attempts =
     (if attempts = [] then [] else butlast attempts @ [(last attempts)\<lparr>att_result := ''FAILED''\<rparr>])"

text \<open>
  \<open>_attempt_provider\<close> returns the outcome and the payment with the attempts it was
  extended by; an exception other than a \<open>ProviderError\<close> leaves the payment alone.
\<close>

definition attempt_provider ::
  "provider_ops \<Rightarrow> 'b backend_ops \<Rightarrow> Payment \<Rightarrow> provider \<Rightarrow> PaymentInput \<Rightarrow> 'b svc \<Rightarrow>
   ProviderPaymentResult res \<times> Payment \<times> 'b svc" where
  "attempt_provider ops be payment p data st =
     (case run_with_retry (operation ops be p payment data) (svc_retry_policy (fst st))
             attempt_draw attempt_sleep (st, []) of
        (Inr (result, _), (st1, attempts)) \<Rightarrow>
          (Inr result, payment\<lparr>pay_attempts := pay_attempts payment @ attempts\<rparr>, st1)
      | (Inl e, (st1, attempts)) \<Rightarrow>
          if is_ProviderError e
          then (Inl e, payment\<lparr>pay_attempts := pay_attempts payment @ fail_last attempts\<rparr>, st1)
          else (Inl e, payment, st1))"

subsection \<open>Creating a payment\<close>

text \<open>The events of a payment that reached its terminal status, in order.\<close>

definition creation_events :: "Payment \<Rightarrow> EventType \<Rightarrow> world \<Rightarrow> EventEnvelope list \<times> world" where
  "creation_events payment final w =
     (let (e1, w1) = payment_event payment PAYMENT_CREATED (Some PROCESSING) w;
          (e2, w2) = payment_event payment PAYMENT_PROCESSING (Some PROCESSING) w1;
          (e3, w3) = payment_event payment final None w2
      in ([e1, e2, e3], w3))"

text \<open>Saving a terminal payment, completing the claim and counting the payment.\<close>

definition settle ::
  "'b backend_ops \<Rightarrow> PaymentInput \<Rightarrow> string \<Rightarrow> Payment \<Rightarrow> EventType \<Rightarrow> 'b svc \<Rightarrow> unit res \<times> 'b svc" where
  "settle be data fingerprint payment final st =
     (let (events, w1) = creation_events payment final (snd st)
      in then_do (save_payment be payment events (fst st, w1))
           (\<lambda>_ st1. then_do (on_backend (be_complete be (inp_merchant_id data) (inp_idempotency_key data)
                                         fingerprint (pay_id payment)) st1)
              (\<lambda>_ (s2, w2). (Inr (), (emit (Inc ''payments_total'' [status_value (pay_status payment)]) s2, w2)))))"

definition failover_codes :: "string set" where
  "failover_codes = {''PROVIDER_UNAVAILABLE'', ''HTTP_502'', ''HTTP_503'', ''CIRCUIT_OPEN''}"

text \<open>
  The loop over the candidates. The result is the payment that succeeded, or \<open>None\<close> with
  the last provider error when the loop ended without one, or an exception; the payment
  with what the loop wrote into it is passed along.
\<close>

fun try_candidates ::
  "provider_ops \<Rightarrow> 'b backend_ops \<Rightarrow> PaymentInput \<Rightarrow> string \<Rightarrow> provider list \<Rightarrow> exn option \<Rightarrow> Payment \<Rightarrow>
   'b svc \<Rightarrow> bool res \<times> exn option \<times> Payment \<times> 'b svc" where
  "try_candidates ops be data fingerprint [] last_error payment st = (Inr False, last_error, payment, st)"
| "try_candidates ops be data fingerprint (p # ps) last_error payment st =
     (let (r, payment2, st2) =
            (case attempt_provider ops be payment p data st of
               (Inl e, payment1, st1) \<Rightarrow> (Inl e, payment1, st1)
             | (Inr result, payment1, st1) \<Rightarrow>
                 let payment2 = payment1\<lparr>pay_status := SUCCEEDED, pay_reference := Some (res_reference result),
                                         pay_provider := Some (prv_name p)\<rparr>;
                     (r, st2) = settle be data fingerprint payment2 PAYMENT_SUCCEEDED st1
                 in (r, payment2, st2))
      in case r of
           Inr _ \<Rightarrow> (Inr True, last_error, payment2, st2)
         | Inl e \<Rightarrow>
             if \<not> is_ProviderError e then (Inl e, last_error, payment2, st2)
             else if exn_code e \<notin> failover_codes then (Inr False, Some e, payment2, st2)
             else try_candidates ops be data fingerprint ps (Some e) payment2 st2)"

text \<open>\<open>[p for p in providers if await p.health_check()]\<close>\<close>

fun healthy_providers :: "provider_ops \<Rightarrow> provider list \<Rightarrow> world \<Rightarrow> provider list res \<times> world" where
  "healthy_providers ops [] w = (Inr [], w)"
| "healthy_providers ops (p # ps) w =
     then_do (op_health_check ops p w)
       (\<lambda>ok w1. then_do (healthy_providers ops ps w1) (\<lambda>qs w2. (Inr (if ok then p # qs else qs), w2)))"

text \<open>
  The body of \<open>create\<close> under a claim: its result, and whether the claim is still held
  (\<open>claimed\<close>) when it ends.
\<close>

definition create_claimed ::
  "provider_ops \<Rightarrow> 'b backend_ops \<Rightarrow> PaymentInput \<Rightarrow> string \<Rightarrow> 'b svc \<Rightarrow> (Payment res \<times> bool) \<times> 'b svc" where
  "create_claimed ops be data fingerprint st0 =
     (case on_backend (be_get_by_idempotency be (inp_merchant_id data) (inp_idempotency_key data)) st0 of
        (Inl e, st1) \<Rightarrow> ((Inl e, True), st1)
      | (Inr (Some existing), st1) \<Rightarrow>
          if pay_fingerprint existing \<noteq> fingerprint
          then ((Inl (IdempotencyConflict ''Idempotency-Key was reused with different payment data''), True), st1)
          else (case on_backend (be_complete be (inp_merchant_id data) (inp_idempotency_key data) fingerprint
                                  (pay_id existing)) st1 of
                  (Inl e, st2) \<Rightarrow> ((Inl e, True), st2)
                | (Inr _, st2) \<Rightarrow> ((Inr existing, False), st2))
      | (Inr None, (s1, w1)) \<Rightarrow>
          let (payment, w2) = new_Payment (inp_merchant_id data) (inp_amount data) (inp_currency data)
                                (inp_payment_method_type data) (inp_idempotency_key data) fingerprint w1
          in case healthy_providers ops (svc_providers s1) w2 of
               (Inl e, w3) \<Rightarrow> ((Inl e, True), (s1, w3))
             | (Inr healthy, w3) \<Rightarrow>
                 (case choose_provider healthy (svc_router s1) of
                    (Inl e, router) \<Rightarrow> ((Inl e, True), (s1\<lparr>svc_router := router\<rparr>, w3))
                  | (Inr p, router) \<Rightarrow>
                      (case try_candidates ops be data fingerprint
                              (p # filter (\<lambda>q. prv_object q \<noteq> prv_object p) healthy) None payment
                              (s1\<lparr>svc_router := router\<rparr>, w3) of
                         (Inl e, _, payment1, st4) \<Rightarrow> ((Inl e, True), st4)
                       | (Inr True, _, payment1, st4) \<Rightarrow> ((Inr payment1, False), st4)
                       | (Inr False, last_error, payment1, st4) \<Rightarrow>
                           (case settle be data fingerprint (payment1\<lparr>pay_status := FAILED\<rparr>) PAYMENT_FAILED st4 of
                              (Inl e, st5) \<Rightarrow> ((Inl e, True), st5)
                            | (Inr _, st5) \<Rightarrow>
                                ((Inl (case last_error of
                                         Some e \<Rightarrow> e
                                       | None \<Rightarrow> ProviderError ''PROVIDER_UNAVAILABLE'' ''No provider completed the payment''),
                                  False), st5)))))"

text \<open>
  \<open>create\<close>. The outcome is \<open>None\<close> when the task has to wait for another request's
  claim; it then calls \<open>acquire\<close> again once that claim is resolved.
\<close>

definition create ::
  "(string \<Rightarrow> string) \<Rightarrow> provider_ops \<Rightarrow> 'b backend_ops \<Rightarrow> PaymentInput \<Rightarrow> 'b svc \<Rightarrow> Payment res option \<times> 'b svc" where
  "create sha256 ops be data st =
     (let fingerprint = request_fingerprint sha256 data
      in case on_backend (be_acquire be (inp_merchant_id data) (inp_idempotency_key data) fingerprint) st of
           (Inl e, st1) \<Rightarrow> (Some (Inl e), st1)
         | (Inr (AwaitEvent ev), st1) \<Rightarrow> (None, st1)
         | (Inr (Decided decision), st1) \<Rightarrow>
             (case dec_status decision of
                CONFLICT \<Rightarrow>
                  (Some (Inl (IdempotencyConflict ''Idempotency-Key was reused with different payment data'')), st1)
              | COMPLETED \<Rightarrow>
                  let st2 = (emit (Inc ''idempotency_hits_total'' []) (fst st1), snd st1);
                      (found, st3) = (case dec_payment_id decision of
                                        None \<Rightarrow> (Inr None, st2)
                                      | Some pid \<Rightarrow> on_backend (be_get be pid) st2)
                  in (case found of
                        Inl e \<Rightarrow> (Some (Inl e), st3)
                      | Inr None \<Rightarrow>
                          (Some (Inl (IdempotencyUnavailable ''Idempotency result is missing its authoritative payment'')), st3)
                      | Inr (Some existing) \<Rightarrow> (Some (Inr existing), st3))
              | CLAIMED \<Rightarrow>
                  let ((r, claimed), st2) = create_claimed ops be data fingerprint st1
                  in if claimed
                     then (case on_backend (be_abort be (inp_merchant_id data) (inp_idempotency_key data) fingerprint) st2 of
                             (Inl e, st3) \<Rightarrow> if is_Exception e then (Some r, st3) else (Some (Inl e), st3)
                           | (Inr _, st3) \<Rightarrow> (Some r, st3))
                     else (Some r, st2)))"

subsection \<open>Refunding a payment\<close>

definition refund ::
  "provider_ops \<Rightarrow> 'b backend_ops \<Rightarrow> uuid \<Rightarrow> int option \<Rightarrow> 'b svc \<Rightarrow> Refund res \<times> 'b svc" where
  "refund ops be payment_id amount st =
     then_do (on_backend (be_get be payment_id)
                ((fst st)\<lparr>svc_refund_locks := insert (str_uuid payment_id) (svc_refund_locks (fst st))\<rparr>, snd st))
       (\<lambda>found (s, w).
          case found of
            None \<Rightarrow> (Inl (RefundError ''VALIDATION_ERROR'' ''Payment not found''), (s, w))
          | Some payment \<Rightarrow>
              if pay_status payment \<noteq> SUCCEEDED \<and> pay_status payment \<noteq> REFUNDED
              then (Inl (RefundError ''VALIDATION_ERROR'' ''Only a successful payment can be refunded''), (s, w))
              else let remaining = pay_amount payment - pay_refunded_amount payment;
                       refund_amount = (case amount of None \<Rightarrow> remaining | Some a \<Rightarrow> a)
                   in if refund_amount \<le> 0 \<or> refund_amount > remaining
                      then (Inl (RefundError ''VALIDATION_ERROR'' ''Refund amount exceeds the remaining refundable amount''), (s, w))
                      else (case find (\<lambda>p. Some (prv_name p) = pay_provider payment) (svc_providers s) of
                              None \<Rightarrow> (Inl (RefundError ''PROVIDER_UNAVAILABLE'' ''Original payment provider is unavailable''), (s, w))
                            | Some p \<Rightarrow>
                                then_do (let (r, w1) = op_refund_payment ops p (str_uuid (pay_id payment)) refund_amount w
                                         in (r, (s, w1)))
                                  (\<lambda>result (s1, w1).
                                     let (rf, w2) = new_Refund (pay_id payment) refund_amount (Some (res_reference result)) w1;
                                         paid_back = pay_refunded_amount payment + refund_amount;
                                         payment1 = payment\<lparr>pay_refunded_amount := paid_back,
                                                            pay_refunds := pay_refunds payment @ [rf],
                                                            pay_status := (if paid_back = pay_amount payment then REFUNDED
                                                                           else pay_status payment)\<rparr>;
                                         (ev, w3) = payment_event payment1 PAYMENT_REFUNDED None w2
                                     in then_do (save_payment be payment1 [ev] (s1, w3)) (\<lambda>_ st2. (Inr rf, st2)))))"

subsection \<open>The in-memory collaborators\<close>

text \<open>
  \<open>separate\<close> says whether the service was given an outbox of its own; otherwise the store,
  which has an \<open>append\<close> method, is the outbox.
\<close>

record memory_backend =
  mbk_store :: InMemoryPaymentStore
  mbk_outbox :: InMemoryPaymentStore
  mbk_idempotency :: MemoryIdempotencyCoordinator

definition memory_ops :: "bool \<Rightarrow> memory_backend backend_ops" where
  "memory_ops separate =
     \<lparr>be_acquire = (\<lambda>m k fp b. let (r, c) = acquire m k fp (mbk_idempotency b) in (r, b\<lparr>mbk_idempotency := c\<rparr>)),
      be_complete = (\<lambda>m k fp pid b. let (r, c) = complete m k fp pid (mbk_idempotency b) in (r, b\<lparr>mbk_idempotency := c\<rparr>)),
      be_abort = (\<lambda>m k fp b. let (r, c) = abort m k fp (mbk_idempotency b) in (r, b\<lparr>mbk_idempotency := c\<rparr>)),
      be_get = (\<lambda>i b. (Inr (get i (mbk_store b)), b)),
      be_get_by_idempotency = (\<lambda>m k b. (Inr (get_by_idempotency m k (mbk_store b)), b)),
      be_list = (\<lambda>m v after before b. (Inr (list_payments m v after before (mbk_store b)), b)),
      be_save = (\<lambda>p b. (Inr (), b\<lparr>mbk_store := save p (mbk_store b)\<rparr>)),
      be_save_with_events = Some (\<lambda>p es b. (Inr (), b\<lparr>mbk_store := save_with_events p es (mbk_store b)\<rparr>)),
      be_append = Some (\<lambda>es b. (Inr (), if separate then b\<lparr>mbk_outbox := append_events es (mbk_outbox b)\<rparr>
                                        else b\<lparr>mbk_store := append_events es (mbk_store b)\<rparr>)),
      be_outbox_is_store = (\<not> separate)\<rparr>"

end
