(* ===== verification/Payments.thy ===== *)
theory Payments
  imports Service
begin

text \<open>
  Correctness of the payment service: what attempts at providers leave untouched, that
  every claim is resolved, that creating and refunding refine an abstract payment ledger,
  and what the recorded attempts say.
\<close>

subsection \<open>What an attempt may touch\<close>

lemma emit_fields [simp]:
  "svc_providers (emit m s) = svc_providers s" "svc_backend (emit m s) = svc_backend s"
  "svc_router (emit m s) = svc_router s" "svc_retry_policy (emit m s) = svc_retry_policy s"
  "svc_semaphores (emit m s) = svc_semaphores s" "svc_circuits (emit m s) = svc_circuits s"
  "svc_refund_locks (emit m s) = svc_refund_locks s"
  "svc_provider_concurrency_limit (emit m s) = svc_provider_concurrency_limit s"
  by (simp_all add: emit_def split: option.splits)

lemma metric_fields [simp]:
  "svc_providers (set_circuit_metric n s) = svc_providers s" "svc_backend (set_circuit_metric n s) = svc_backend s"
  "svc_router (set_circuit_metric n s) = svc_router s" "svc_retry_policy (set_circuit_metric n s) = svc_retry_policy s"
  "svc_semaphores (set_circuit_metric n s) = svc_semaphores s" "svc_circuits (set_circuit_metric n s) = svc_circuits s"
  "svc_providers (set_inflight_metric n s) = svc_providers s" "svc_backend (set_inflight_metric n s) = svc_backend s"
  "svc_router (set_inflight_metric n s) = svc_router s" "svc_retry_policy (set_inflight_metric n s) = svc_retry_policy s"
  "svc_semaphores (set_inflight_metric n s) = svc_semaphores s" "svc_circuits (set_inflight_metric n s) = svc_circuits s"
  "svc_providers (record_provider_failure_metrics n c l s) = svc_providers s"
  "svc_backend (record_provider_failure_metrics n c l s) = svc_backend s"
  "svc_router (record_provider_failure_metrics n c l s) = svc_router s"
  "svc_retry_policy (record_provider_failure_metrics n c l s) = svc_retry_policy s"
  "svc_semaphores (record_provider_failure_metrics n c l s) = svc_semaphores s"
  "svc_circuits (record_provider_failure_metrics n c l s) = svc_circuits s"
  "svc_provider_concurrency_limit (set_circuit_metric n s) = svc_provider_concurrency_limit s"
  "svc_provider_concurrency_limit (set_inflight_metric n s) = svc_provider_concurrency_limit s"
  by (simp_all add: set_circuit_metric_def set_inflight_metric_def record_provider_failure_metrics_def Let_def
      split: option.splits)

text \<open>
  The frame of an attempt: a predicate on the backend and the world survives if it
  survives the passing of time and the append of one event whose identifier was just
  drawn. Attempts reach the backend in no other way.
\<close>

locale attempt_frame = payment_provider ops for ops +
  fixes be :: "'b backend_ops" and J :: "'b \<Rightarrow> world \<Rightarrow> bool"
  assumes J_time: "J b w \<Longrightarrow> world_le w w' \<Longrightarrow> J b w'"
    and J_append: "J b w \<Longrightarrow> be_append be = Some app \<Longrightarrow> evt_id e = uuid_at w (tick w) \<Longrightarrow>
      evt_aggregate_id e = None \<Longrightarrow> world_le w w' \<Longrightarrow> tick w < tick w' \<Longrightarrow> J (snd (app [e] b)) w'"
begin

abbreviation JS :: "'b svc \<Rightarrow> bool" where
  "JS st \<equiv> J (svc_backend (fst st)) (snd st)"

lemma record_circuit_transition_J: "JS st \<Longrightarrow> JS (snd (record_circuit_transition be n p c st))"
proof -
  assume j: "JS st"
  obtain s w where st: "st = (s, w)" by (cases st)
  let ?w = "log_append (CircuitTransition n (circuit_state_value p) (circuit_state_value c)) w"
  have j1: "J (svc_backend s) ?w" using j st J_time by auto
  show ?thesis
  proof (cases "be_append be")
    case None
    then show ?thesis using j1 by (simp add: record_circuit_transition_def st Let_def)
  next
    case (Some app)
    define ev where "ev = new_EventEnvelope
      (if c = OPEN then PROVIDER_CIRCUIT_OPENED else PROVIDER_CIRCUIT_CLOSED) ''system'' None
      [(''provider'', JString n), (''from_state'', JString (circuit_state_value p)), (''to_state'', JString (circuit_state_value c))] (Some n) ?w"
    have ev: "evt_id (fst ev) = uuid_at ?w (tick ?w)" "evt_aggregate_id (fst ev) = None" "tick ?w < tick (snd ev)"
      using new_EventEnvelope_fields [of _ "''system''" None _ "Some n" ?w "fst ev" "snd ev"] by (auto simp: ev_def)
    have "world_le ?w (snd ev)" by (simp add: ev_def)
    then have "J (snd (app [fst ev] (svc_backend s))) (snd ev)" using J_append [OF j1 Some] ev by blast
    then show ?thesis
      using Some j1 by (auto simp: record_circuit_transition_def st Let_def on_backend_def case_prod_beta ev_def)
  qed
qed

lemma step_circuit_J:
  assumes "JS st" "\<And>cb w. world_le w (snd (snd (f cb w)))"
  shows "JS (snd (step_circuit be n f st))"
proof (cases "svc_circuits (fst st) n")
  case (Some cb)
  let ?s = "set_circuit_metric n ((fst st)\<lparr>svc_circuits := (svc_circuits (fst st))(n \<mapsto> fst (snd (f cb (snd st))))\<rparr>)"
  have j: "JS (?s, snd (snd (f cb (snd st))))" using J_time [OF assms(1) assms(2)] by simp
  have "JS (snd (then_do (record_circuit_transition be n (cb_state cb) (cb_state (fst (snd (f cb (snd st)))))
      (?s, snd (snd (f cb (snd st))))) (\<lambda>_ st1. (Inr (fst (f cb (snd st))), st1))))"
    by (rule then_do_inv [where P = JS]) (use record_circuit_transition_J [OF j] in auto)
  then show ?thesis using j Some by (simp add: step_circuit_def Let_def case_prod_beta)
qed (use assms(1) in \<open>simp add: step_circuit_def\<close>)

lemma circuit_ops_J:
  assumes "JS st"
  shows "JS (snd (allow_provider be p st))" "JS (snd (record_provider_success be p st))"
    "JS (snd (record_provider_failure be p st))"
  unfolding allow_provider_def record_provider_success_def record_provider_failure_def
  by (rule step_circuit_J [OF assms]; simp add: allow_request_world record_failure_world)+

lemma finish_call_J: "JS st \<Longrightarrow> JS (snd (finish_call p ok c t st))"
proof -
  assume j: "JS st"
  have "world_le w (snd (finish_request p ok l c r (snd (perf_counter w))))" for w l r
    using world_le_trans [OF world_le_readings(2) world_le_readings(3), of w]
    by (simp add: finish_request_def stats_finish_def Let_def case_prod_beta)
  then show ?thesis
    using J_time [OF j] by (simp add: finish_call_def Let_def case_prod_beta)
qed

lemma new_attempt_J: "JS (s, w) \<Longrightarrow> svc_backend s' = svc_backend s \<Longrightarrow> JS (s', snd (new_PaymentAttempt n k r l c w))"
  using J_time [of "svc_backend s" w] by simp

lemma on_provider_error_J:
  assumes "JS st"
  shows "JS (fst (snd (on_provider_error be p e t (st, as))))"
proof -
  let ?f = "finish_call p False (Some (exn_code e)) t st"
  have "JS (snd (record_provider_failure be p (snd ?f)))"
    by (intro circuit_ops_J finish_call_J assms)
  then show ?thesis
    using J_time [OF _ new_PaymentAttempt_world]
    by (auto simp: on_provider_error_def Let_def case_prod_beta split: sum.splits)
qed

lemma on_provider_success_J:
  assumes "JS st"
  shows "JS (fst (snd (on_provider_success be p r t (st, as))))"
proof -
  have s: "JS (snd (record_provider_success be p st))" by (intro circuit_ops_J assms)
  have "JS (snd (finish_call p True None t (snd (record_provider_success be p st))))"
    by (intro finish_call_J s)
  then show ?thesis
    using s J_time [OF _ new_PaymentAttempt_world]
    by (auto simp: on_provider_success_def Let_def case_prod_beta split: sum.splits)
qed

lemma on_other_error_J: "JS st \<Longrightarrow> JS (fst (snd (on_other_error p e t (st, as))))"
  using finish_call_J [of st p False "Some ''INTERNAL_ERROR''" t]
  by (simp add: on_other_error_def Let_def case_prod_beta)

lemma call_provider_J: "JS st \<Longrightarrow> JS (snd (call_provider ops p pay d st))"
  using J_time [OF _ create_payment_world] by (simp add: call_provider_def Let_def case_prod_beta split: option.splits)

lemma operation_J:
  assumes "JS (fst ast)"
  shows "JS (fst (snd (operation ops be p pay d ast)))"
proof -
  obtain st as where ast: "ast = (st, as)" by (cases ast)
  obtain r s1 w1 where al: "allow_provider be p st = (r, (s1, w1))" by (metis prod.collapse)
  have j1: "JS (s1, w1)" using circuit_ops_J(1) [of st p] assms ast al by simp
  define s2 where "s2 = set_inflight_metric (prv_name p) (s1\<lparr>svc_router := start_request p (svc_router s1)\<rparr>)"
  obtain q st3 where cp: "call_provider ops p pay d (s2, snd (perf_counter w1)) = (q, st3)"
    by (metis prod.collapse)
  have "JS (s2, snd (perf_counter w1))" using J_time [OF j1] by (simp add: s2_def)
  then have j3: "JS st3" using call_provider_J [of "(s2, snd (perf_counter w1))" p pay d] cp by simp
  show ?thesis
    using j1 j3 on_provider_success_J on_provider_error_J on_other_error_J
    by (auto simp: operation_def ast al Let_def case_prod_beta cp s2_def [symmetric] split: sum.splits bool.splits)
qed

lemma backoff_J: "JS (fst ast) \<Longrightarrow> JS (fst (backoff pol attempt_draw attempt_sleep k ast))"
proof -
  assume j: "JS (fst ast)"
  obtain s w as where ast: "ast = ((s, w), as)" by (metis prod.collapse)
  have "world_le w (sleep d (snd (random_draw w)))" "world_le w (sleep d w)" for d
    using world_le_trans [OF world_le_readings(4) world_le_readings(6)] by auto
  then show ?thesis
    using J_time [of "svc_backend s" w] j
    by (auto simp: backoff_def delay_for_def attempt_draw_def attempt_sleep_def ast Let_def case_prod_beta)
qed

lemma attempt_provider_J:
  assumes "JS st"
  shows "JS (snd (snd (attempt_provider ops be pay p d st)))"
proof -
  let ?run = "run_with_retry (operation ops be p pay d) (svc_retry_policy (fst st)) attempt_draw attempt_sleep (st, [])"
  have "JS (fst (snd ?run))"
    by (rule run_with_retry_invariant [where P = "\<lambda>ast. JS (fst ast)"])
      (simp_all add: assms operation_J backoff_J)
  then show ?thesis
    by (auto simp: attempt_provider_def case_prod_beta split: sum.splits)
qed

lemma healthy_providers_J: "J b w \<Longrightarrow> J b (snd (healthy_providers ops ps w))"
proof (induction ps arbitrary: w)
  case (Cons p ps)
  have "J b (snd (op_health_check ops p w))" using J_time [OF Cons.prems health_check_world] .
  then show ?case
    by (auto intro!: then_do_inv [where P = "J b"] Cons.IH)
qed simp

end

subsection \<open>The in-memory backend\<close>

text \<open>Identifiers are never drawn twice and everything stored carries one that was drawn.\<close>

definition drawn :: "world \<Rightarrow> uuid set" where
  "drawn w = uuid_at w ` {..<tick w}"

definition ids_ok :: "memory_backend \<Rightarrow> world \<Rightarrow> bool" where
  "ids_ok b w \<longleftrightarrow> inj (uuid_at w) \<and> (\<forall>i p. get i (mbk_store b) = Some p \<longrightarrow> i \<in> drawn w) \<and>
     known_events (mbk_store b) \<subseteq> drawn w \<and> known_events (mbk_outbox b) \<subseteq> drawn w"

definition outbox_of :: "bool \<Rightarrow> memory_backend \<Rightarrow> InMemoryPaymentStore" where
  "outbox_of separate b = (if separate then mbk_outbox b else mbk_store b)"

definition stores_ok :: "memory_backend \<Rightarrow> world \<Rightarrow> bool" where
  "stores_ok b w \<longleftrightarrow> store_inv (mbk_store b) \<and> store_inv (mbk_outbox b) \<and> ids_ok b w"

text \<open>The payments as a map from a merchant's idempotency key.\<close>

definition ledger :: "memory_backend \<Rightarrow> string \<times> string \<rightharpoonup> Payment" where
  "ledger b rk = get_by_idempotency (fst rk) (snd rk) (mbk_store b)"

text \<open>
  \<open>untouched\<close>: since the backend \<open>b0\<close> and the world \<open>w0\<close> only circuit events were appended to the outbox.
\<close>

definition untouched :: "bool \<Rightarrow> memory_backend \<Rightarrow> world \<Rightarrow> memory_backend \<Rightarrow> world \<Rightarrow> bool" where
  "untouched separate b0 w0 b w \<longleftrightarrow>
     world_le w0 w \<and> stores_ok b w \<and> mbk_idempotency b = mbk_idempotency b0 \<and> ledger b = ledger b0 \<and>
     (\<forall>i. get i (mbk_store b) = get i (mbk_store b0)) \<and>
     (\<exists>es. pending (outbox_of separate b) = pending (outbox_of separate b0) @ es \<and>
           (\<forall>e\<in>set es. evt_aggregate_id e = None))"

lemma drawn_mono: "world_le w w' \<Longrightarrow> drawn w \<subseteq> drawn w'"
  by (auto simp: drawn_def world_le_def)

lemma drawn_next: "inj (uuid_at w) \<Longrightarrow> uuid_at w (tick w) \<notin> drawn w"
  by (auto simp: drawn_def dest: injD)

lemma drawn_later: "world_le w w' \<Longrightarrow> tick w < tick w' \<Longrightarrow> uuid_at w (tick w) \<in> drawn w'"
  by (auto simp: drawn_def world_le_def)

lemma ids_ok_time: "ids_ok b w \<Longrightarrow> world_le w w' \<Longrightarrow> ids_ok b w'"
  using drawn_mono [of w w'] world_le_uuid_at [of w w'] unfolding ids_ok_def by auto

lemma stores_ok_time: "stores_ok b w \<Longrightarrow> world_le w w' \<Longrightarrow> stores_ok b w'"
  unfolding stores_ok_def using ids_ok_time by blast

lemma untouched_time: "untouched sep b0 w0 b w \<Longrightarrow> world_le w w' \<Longrightarrow> untouched sep b0 w0 b w'"
  unfolding untouched_def using stores_ok_time world_le_trans by blast

lemma untouched_refl: "stores_ok b w \<Longrightarrow> untouched sep b w b w"
  unfolding untouched_def by auto

lemma known_events_append [simp]: "known_events (append_events es s) = known_events s \<union> evt_id ` set es"
  by (rule in_memory_outbox.app_known)

definition append_op :: "bool \<Rightarrow> EventEnvelope list \<Rightarrow> memory_backend \<Rightarrow> memory_backend" where
  "append_op sep es b = (if sep then b\<lparr>mbk_outbox := append_events es (mbk_outbox b)\<rparr>
                         else b\<lparr>mbk_store := append_events es (mbk_store b)\<rparr>)"

lemma memory_ops_fields [simp]:
  "be_append (memory_ops sep) = Some (\<lambda>es b. (Inr (), append_op sep es b))"
  "be_get (memory_ops sep) = (\<lambda>i b. (Inr (get i (mbk_store b)), b))"
  "be_get_by_idempotency (memory_ops sep) = (\<lambda>m k b. (Inr (ledger b (m, k)), b))"
  "be_save (memory_ops sep) = (\<lambda>p b. (Inr (), b\<lparr>mbk_store := save p (mbk_store b)\<rparr>))"
  "be_save_with_events (memory_ops sep) = Some (\<lambda>p es b. (Inr (), b\<lparr>mbk_store := save_with_events p es (mbk_store b)\<rparr>))"
  "be_outbox_is_store (memory_ops sep) = (\<not> sep)"
  by (auto simp: memory_ops_def append_op_def ledger_def fun_eq_iff)

lemma memory_claim_ops [simp]:
  "be_acquire (memory_ops sep) = (\<lambda>m k fp b. (fst (acquire m k fp (mbk_idempotency b)),
     b\<lparr>mbk_idempotency := snd (acquire m k fp (mbk_idempotency b))\<rparr>))"
  "be_complete (memory_ops sep) = (\<lambda>m k fp pid b. (fst (complete m k fp pid (mbk_idempotency b)),
     b\<lparr>mbk_idempotency := snd (complete m k fp pid (mbk_idempotency b))\<rparr>))"
  "be_abort (memory_ops sep) = (\<lambda>m k fp b. (fst (abort m k fp (mbk_idempotency b)),
     b\<lparr>mbk_idempotency := snd (abort m k fp (mbk_idempotency b))\<rparr>))"
  by (simp_all add: memory_ops_def case_prod_beta Let_def)

lemma append_op_facts:
  assumes "stores_ok b w" "distinct (map evt_id es)" "evt_id ` set es \<inter> drawn w = {}"
    "evt_id ` set es \<subseteq> drawn w'" "world_le w w'"
  shows "stores_ok (append_op sep es b) w'" "mbk_idempotency (append_op sep es b) = mbk_idempotency b"
    "ledger (append_op sep es b) = ledger b" "get i (mbk_store (append_op sep es b)) = get i (mbk_store b)"
    "pending (outbox_of sep (append_op sep es b)) = pending (outbox_of sep b) @ es"
proof -
  have ids: "ids_ok b w'" using assms ids_ok_time unfolding stores_ok_def by blast
  show "stores_ok (append_op sep es b) w'"
    using assms(1,4) ids by (auto simp: stores_ok_def ids_ok_def append_op_def append_inv)
  show "mbk_idempotency (append_op sep es b) = mbk_idempotency b" by (simp add: append_op_def)
  show "ledger (append_op sep es b) = ledger b" by (auto simp: append_op_def ledger_def fun_eq_iff)
  show "get i (mbk_store (append_op sep es b)) = get i (mbk_store b)" by (simp add: append_op_def)
  have "known_events (outbox_of sep b) \<inter> evt_id ` set es = {}" "store_inv (outbox_of sep b)"
    using assms(1,3) by (auto simp: stores_ok_def ids_ok_def outbox_of_def)
  then show "pending (outbox_of sep (append_op sep es b)) = pending (outbox_of sep b) @ es"
    using in_memory_outbox.app_pend [of "outbox_of sep b" es] assms(2)
    by (cases sep) (simp_all add: append_op_def outbox_of_def)
qed

lemma memory_frame:
  assumes "payment_provider ops"
  shows "attempt_frame ops (memory_ops sep) (untouched sep b0 w0)"
proof (intro attempt_frame.intro attempt_frame_axioms.intro assms)
  show "untouched sep b0 w0 b w \<Longrightarrow> world_le w w' \<Longrightarrow> untouched sep b0 w0 b w'" for b w w'
    by (rule untouched_time)
  fix b w app and e :: EventEnvelope and w'
  assume u: "untouched sep b0 w0 b w" and app: "be_append (memory_ops sep) = Some app"
    and e: "evt_id e = uuid_at w (tick w)" "evt_aggregate_id e = None" and t: "world_le w w'" "tick w < tick w'"
  have "evt_id ` set [e] \<inter> drawn w = {}" "evt_id ` set [e] \<subseteq> drawn w'"
    using u e drawn_next drawn_later [OF t] by (auto simp: untouched_def stores_ok_def ids_ok_def)
  then have f: "stores_ok (append_op sep [e] b) w'" "mbk_idempotency (append_op sep [e] b) = mbk_idempotency b"
    "ledger (append_op sep [e] b) = ledger b" "\<forall>i. get i (mbk_store (append_op sep [e] b)) = get i (mbk_store b)"
    "pending (outbox_of sep (append_op sep [e] b)) = pending (outbox_of sep b) @ [e]"
    using append_op_facts [where b = b and w = w and es = "[e]" and w' = w' and sep = sep] u t(1) by (auto simp: untouched_def)
  obtain es where "pending (outbox_of sep b) = pending (outbox_of sep b0) @ es" "\<forall>e\<in>set es. evt_aggregate_id e = None"
    using u by (auto simp: untouched_def)
  then have "\<exists>es. pending (outbox_of sep (append_op sep [e] b)) = pending (outbox_of sep b0) @ es \<and>
      (\<forall>e\<in>set es. evt_aggregate_id e = None)"
    using f(5) e(2) by (intro exI [of _ "es @ [e]"]) auto
  then show "untouched sep b0 w0 (snd (app [e] b)) w'"
    using u f app world_le_trans [OF _ t(1)] by (auto simp: untouched_def)
qed

interpretation mock_frame: attempt_frame mock_ops "memory_ops sep" "untouched sep b0 w0" for sep b0 w0
  by (rule memory_frame [OF mock.payment_provider_axioms])

subsection \<open>Saving and settling\<close>

definition saved :: "bool \<Rightarrow> Payment \<Rightarrow> EventEnvelope list \<Rightarrow> memory_backend \<Rightarrow> memory_backend" where
  "saved sep p es b = append_op sep es (b\<lparr>mbk_store := save p (mbk_store b)\<rparr>)"

lemma save_payment_memory:
  "es \<noteq> [] \<Longrightarrow> save_payment (memory_ops sep) p es (s, w) =
     (Inr (), (s\<lparr>svc_backend := saved sep p es (svc_backend s)\<rparr>, w))"
  by (simp add: save_payment_def on_backend_def saved_def append_op_def save_with_events_eq)

lemma saved_facts:
  assumes "stores_ok b w" "can_save (mbk_store b) p" "pay_id p \<in> drawn w"
    and "distinct (map evt_id es)" "evt_id ` set es \<inter> drawn w = {}" "evt_id ` set es \<subseteq> drawn w'" "world_le w w'"
  shows "stores_ok (saved sep p es b) w'" "mbk_idempotency (saved sep p es b) = mbk_idempotency b"
    "ledger (saved sep p es b) = (ledger b)(key_of p \<mapsto> p)"
    "get i (mbk_store (saved sep p es b)) = (if i = pay_id p then Some p else get i (mbk_store b))"
    "pending (outbox_of sep (saved sep p es b)) = pending (outbox_of sep b) @ es"
proof -
  let ?b = "b\<lparr>mbk_store := save p (mbk_store b)\<rparr>"
  have inv: "store_inv (save p (mbk_store b))"
    using in_memory.sv_invar assms(1,2) by (auto simp: stores_ok_def)
  have ok: "stores_ok ?b w"
    using assms(1,3) inv by (auto simp: stores_ok_def ids_ok_def split: if_splits)
  note f = append_op_facts [OF ok assms(4-7), where sep = sep]
  have led: "ledger ?b = (ledger b)(key_of p \<mapsto> p)"
    using in_memory.gk_sv [of "mbk_store b" p] assms(1,2) by (auto simp: ledger_def stores_ok_def fun_eq_iff)
  have pend: "pending (outbox_of sep ?b) = pending (outbox_of sep b)" by (simp add: outbox_of_def)
  show "stores_ok (saved sep p es b) w'" "mbk_idempotency (saved sep p es b) = mbk_idempotency b"
    "ledger (saved sep p es b) = (ledger b)(key_of p \<mapsto> p)"
    "get i (mbk_store (saved sep p es b)) = (if i = pay_id p then Some p else get i (mbk_store b))"
    "pending (outbox_of sep (saved sep p es b)) = pending (outbox_of sep b) @ es"
    using f led pend by (simp_all add: saved_def)
qed

lemma payment_event_fields:
  "payment_event p t x w = (e, w') \<Longrightarrow>
   evt_type e = t \<and> evt_merchant_id e = pay_merchant_id p \<and> evt_aggregate_id e = Some (pay_id p) \<and>
   evt_provider e = pay_provider p \<and> evt_id e = uuid_at w (tick w) \<and> tick w' = tick w + 2 \<and> world_le w w' \<and>
   evt_payload e = [(''payment_id'', JString (str_uuid (pay_id p))),
                    (''status'', JString (status_value (case x of None \<Rightarrow> pay_status p | Some y \<Rightarrow> y)))]"
proof -
  assume "payment_event p t x w = (e, w')"
  then have ev: "new_EventEnvelope t (pay_merchant_id p) (Some (pay_id p))
      [(''payment_id'', JString (str_uuid (pay_id p))),
       (''status'', JString (status_value (case x of None \<Rightarrow> pay_status p | Some y \<Rightarrow> y)))]
      (pay_provider p) w = (e, w')"
    by (simp add: payment_event_def)
  have "world_le w w'" using arg_cong [OF ev, of snd] new_EventEnvelope_world by (metis snd_conv)
  then show ?thesis using new_EventEnvelope_fields [OF ev] by blast
qed

text \<open>The three events of a created payment.\<close>

definition creation_event_ok :: "Payment \<Rightarrow> EventType \<Rightarrow> PaymentStatus \<Rightarrow> EventEnvelope \<Rightarrow> bool" where
  "creation_event_ok p t x e \<longleftrightarrow>
     evt_type e = t \<and> evt_merchant_id e = pay_merchant_id p \<and> evt_aggregate_id e = Some (pay_id p) \<and>
     evt_provider e = pay_provider p \<and>
     evt_payload e = [(''payment_id'', JString (str_uuid (pay_id p))), (''status'', JString (status_value x))]"

definition creation_events_ok :: "Payment \<Rightarrow> EventType \<Rightarrow> EventEnvelope list \<Rightarrow> bool" where
  "creation_events_ok p final es \<longleftrightarrow>
     list_all2 (\<lambda>(t, x) e. creation_event_ok p t x e)
       [(PAYMENT_CREATED, PROCESSING), (PAYMENT_PROCESSING, PROCESSING), (final, pay_status p)] es"

lemma creation_events_facts:
  assumes "creation_events p final w = (es, w')" "inj (uuid_at w)"
  shows "creation_events_ok p final es" "es \<noteq> []" "distinct (map evt_id es)" "evt_id ` set es \<inter> drawn w = {}"
    "evt_id ` set es \<subseteq> drawn w'" "world_le w w'"
proof -
  obtain e1 w1 where 1: "payment_event p PAYMENT_CREATED (Some PROCESSING) w = (e1, w1)" by (metis prod.collapse)
  obtain e2 w2 where 2: "payment_event p PAYMENT_PROCESSING (Some PROCESSING) w1 = (e2, w2)" by (metis prod.collapse)
  obtain e3 w3 where 3: "payment_event p final None w2 = (e3, w3)" by (metis prod.collapse)
  have es: "es = [e1, e2, e3]" "w' = w3" using assms(1) 1 2 3 by (simp_all add: creation_events_def)
  note f = payment_event_fields [OF 1] payment_event_fields [OF 2] payment_event_fields [OF 3]
  have u: "uuid_at w1 = uuid_at w" "uuid_at w2 = uuid_at w" "uuid_at w3 = uuid_at w"
    using f world_le_uuid_at by metis+
  have t: "tick w1 = tick w + 2" "tick w2 = tick w + 4" "tick w3 = tick w + 6" using f by simp_all
  have ids: "evt_id e1 = uuid_at w (tick w)" "evt_id e2 = uuid_at w (tick w + 2)" "evt_id e3 = uuid_at w (tick w + 4)"
    "tick w3 = tick w + 6"
    using f u t by metis+
  have inj: "uuid_at w m = uuid_at w n \<longleftrightarrow> m = n" for m n using assms(2) by (simp add: inj_eq)
  show "creation_events_ok p final es" "es \<noteq> []"
    using f es(1) by (simp_all add: creation_events_ok_def creation_event_ok_def)
  show "distinct (map evt_id es)" using ids es(1) by (simp add: inj)
  show "evt_id ` set es \<inter> drawn w = {}" using ids es(1) by (auto simp: drawn_def inj)
  show "evt_id ` set es \<subseteq> drawn w'" using ids es u by (auto simp: drawn_def)
  show "world_le w w'" using f es(2) world_le_trans by metis
qed

text \<open>
  What settling a new payment does: relative to the backend \<open>b0\<close> at the claim, the
  payment is in the ledger, the claim is completed with its identifier, and the outbox got
  circuit events followed by the payment's three events.
\<close>

definition settled ::
  "bool \<Rightarrow> PaymentInput \<Rightarrow> string \<Rightarrow> EventType \<Rightarrow> Payment \<Rightarrow> memory_backend \<Rightarrow> world \<Rightarrow>
   memory_backend \<Rightarrow> world \<Rightarrow> bool" where
  "settled sep data fp final p b0 w0 b w \<longleftrightarrow>
     world_le w0 w \<and> stores_ok b w \<and> idm_inv (mbk_idempotency b) \<and>
     ledger b = (ledger b0)(key_of p \<mapsto> p) \<and>
     (\<forall>i. get i (mbk_store b) = (if i = pay_id p then Some p else get i (mbk_store b0))) \<and>
     idm_view (mbk_idempotency b) =
       (idm_view (mbk_idempotency b0))((inp_merchant_id data, inp_idempotency_key data) \<mapsto> (fp, Some (pay_id p))) \<and>
     (\<exists>cs es. pending (outbox_of sep b) = pending (outbox_of sep b0) @ cs @ es \<and>
        (\<forall>e\<in>set cs. evt_aggregate_id e = None) \<and> creation_events_ok p final es)"

lemma settle_memory:
  assumes "untouched sep b0 w0 (svc_backend s) w" "idm_inv (mbk_idempotency b0)"
    and "idm_view (mbk_idempotency b0) (inp_merchant_id data, inp_idempotency_key data) = Some (fp, None)"
    and "get (pay_id p) (mbk_store b0) = None" "ledger b0 (key_of p) = None" "pay_id p \<in> drawn w0"
  shows "\<exists>s' w'. settle (memory_ops sep) data fp p final (s, w) = (Inr (), (s', w')) \<and>
    settled sep data fp final p b0 w0 (svc_backend s') w' \<and> svc_providers s' = svc_providers s"
proof -
  let ?b = "svc_backend s" and ?m = "inp_merchant_id data" and ?k = "inp_idempotency_key data"
  obtain es w' where ev: "creation_events p final w = (es, w')" by (metis prod.collapse)
  have ok: "stores_ok ?b w" and inj: "inj (uuid_at w)"
    using assms(1) by (auto simp: untouched_def stores_ok_def ids_ok_def)
  note f = creation_events_facts [OF ev inj]
  have can: "can_save (mbk_store ?b) p"
    using assms(1,4,5) by (simp add: untouched_def can_save_def ledger_def key_of_def fun_eq_iff)
  have "pay_id p \<in> drawn w" using assms(1,6) drawn_mono by (auto simp: untouched_def)
  note sv = saved_facts [OF ok can this f(3-6), where sep = sep]
  let ?b1 = "saved sep p es ?b"
  have idm: "mbk_idempotency ?b1 = mbk_idempotency b0" using sv(2) assms(1) by (simp add: untouched_def)
  define c where "c = complete ?m ?k fp (pay_id p) (mbk_idempotency ?b1)"
  have c: "fst c = Inr ()" "idm_inv (snd c)"
    "idm_view (snd c) = (idm_view (mbk_idempotency b0))((?m, ?k) \<mapsto> (fp, Some (pay_id p)))"
    using memory.cmp_claim [OF assms(2,3), of "pay_id p"] memory.cmp_invar [OF assms(2)] by (simp_all add: c_def idm)
  let ?b2 = "?b1\<lparr>mbk_idempotency := snd c\<rparr>"
  define s' where "s' = emit (Inc ''payments_total'' [status_value (pay_status p)]) (s\<lparr>svc_backend := ?b2\<rparr>)"
  have run: "settle (memory_ops sep) data fp p final (s, w) = (Inr (), (s', w'))"
    using ev f(2) c(1)
    by (simp add: settle_def save_payment_memory on_backend_def Let_def c_def s'_def)
  have same: "mbk_store ?b2 = mbk_store ?b1" "mbk_outbox ?b2 = mbk_outbox ?b1" by simp_all
  then have keep: "stores_ok ?b2 w' = stores_ok ?b1 w'" "ledger ?b2 = ledger ?b1"
    "outbox_of sep ?b2 = outbox_of sep ?b1"
    by (simp_all add: stores_ok_def ids_ok_def ledger_def outbox_of_def fun_eq_iff)
  obtain cs where cs: "pending (outbox_of sep ?b) = pending (outbox_of sep b0) @ cs" "\<forall>e\<in>set cs. evt_aggregate_id e = None"
    using assms(1) by (auto simp: untouched_def)
  have pend: "pending (outbox_of sep ?b2) = pending (outbox_of sep b0) @ cs @ es"
    using sv(5) cs(1) keep(3) by simp
  have "settled sep data fp final p b0 w0 ?b2 w'"
    unfolding settled_def
  proof (intro conjI)
    show "world_le w0 w'" using assms(1) f(6) world_le_trans by (auto simp: untouched_def)
    show "stores_ok ?b2 w'" using keep(1) sv(1) by simp
    show "idm_inv (mbk_idempotency ?b2)" using c(2) by simp
    show "ledger ?b2 = (ledger b0)(key_of p \<mapsto> p)" using keep(2) sv(3) assms(1) by (simp add: untouched_def)
    show "\<forall>i. get i (mbk_store ?b2) = (if i = pay_id p then Some p else get i (mbk_store b0))"
      using sv(4) assms(1) by (simp add: untouched_def)
    show "idm_view (mbk_idempotency ?b2) = (idm_view (mbk_idempotency b0))((?m, ?k) \<mapsto> (fp, Some (pay_id p)))"
      using c(3) by simp
    show "\<exists>cs es. pending (outbox_of sep ?b2) = pending (outbox_of sep b0) @ cs @ es \<and>
        (\<forall>e\<in>set cs. evt_aggregate_id e = None) \<and> creation_events_ok p final es"
      using pend cs(2) f(1) by blast
  qed
  then show ?thesis using run by (auto simp: s'_def)
qed

subsection \<open>The candidates\<close>

text \<open>What a payment under creation takes from the request.\<close>

definition payment_for :: "PaymentInput \<Rightarrow> string \<Rightarrow> uuid \<Rightarrow> Payment \<Rightarrow> bool" where
  "payment_for data fp i p \<longleftrightarrow>
     pay_merchant_id p = inp_merchant_id data \<and> pay_amount p = inp_amount data \<and>
     pay_currency p = inp_currency data \<and> pay_method_type p = inp_payment_method_type data \<and>
     pay_idempotency_key p = inp_idempotency_key data \<and> pay_fingerprint p = fp \<and> pay_id p = i \<and>
     pay_refunded_amount p = 0 \<and> pay_refunds p = []"

lemma payment_for_key: "payment_for data fp i p \<Longrightarrow> key_of p = (inp_merchant_id data, inp_idempotency_key data)"
  by (simp add: payment_for_def key_of_def)

lemma attempt_provider_payment:
  "attempt_provider ops be p q data st = (r, p', st') \<Longrightarrow> \<exists>as. p' = p\<lparr>pay_attempts := pay_attempts p @ as\<rparr>"
  by (auto simp: attempt_provider_def split: prod.splits sum.splits if_splits intro: exI [of _ "[]"])

lemma payment_for_update:
  "payment_for data fp i p \<Longrightarrow> payment_for data fp i (p\<lparr>pay_attempts := as\<rparr>)"
  "payment_for data fp i p \<Longrightarrow>
   payment_for data fp i (p\<lparr>pay_status := st, pay_reference := rf, pay_provider := pv\<rparr>)"
  "payment_for data fp i p \<Longrightarrow> payment_for data fp i (p\<lparr>pay_status := st\<rparr>)"
  by (simp_all add: payment_for_def)

text \<open>The outcome of the loop over the candidates.\<close>

definition candidates_outcome ::
  "bool \<Rightarrow> PaymentInput \<Rightarrow> string \<Rightarrow> uuid \<Rightarrow> provider list \<Rightarrow> memory_backend \<Rightarrow> world \<Rightarrow>
   bool res \<times> exn option \<times> Payment \<times> memory_backend svc \<Rightarrow> bool" where
  "candidates_outcome sep data fp i ps b0 w0 out \<longleftrightarrow>
     (case out of (x, le, p, st) \<Rightarrow>
        payment_for data fp i p \<and> (\<forall>e. le = Some e \<longrightarrow> is_ProviderError e) \<and>
        (case x of
           Inr True \<Rightarrow> pay_status p = SUCCEEDED \<and> (\<exists>q\<in>set ps. pay_provider p = Some (prv_name q)) \<and>
             settled sep data fp PAYMENT_SUCCEEDED p b0 w0 (svc_backend (fst st)) (snd st)
         | Inr False \<Rightarrow> untouched sep b0 w0 (svc_backend (fst st)) (snd st)
         | Inl e \<Rightarrow> \<not> is_ProviderError e \<and> untouched sep b0 w0 (svc_backend (fst st)) (snd st)))"

lemma candidates_outcome_mono:
  "candidates_outcome sep data fp i ps b0 w0 out \<Longrightarrow> set ps \<subseteq> set qs \<Longrightarrow>
   candidates_outcome sep data fp i qs b0 w0 out"
  by (auto simp: candidates_outcome_def split: prod.splits sum.splits bool.splits)

lemma try_candidates_memory:
  assumes "payment_provider ops" "idm_inv (mbk_idempotency b0)"
    and "idm_view (mbk_idempotency b0) (inp_merchant_id data, inp_idempotency_key data) = Some (fp, None)"
    and "get i (mbk_store b0) = None" "ledger b0 (inp_merchant_id data, inp_idempotency_key data) = None" "i \<in> drawn w0"
    and "untouched sep b0 w0 (svc_backend (fst st)) (snd st)" "payment_for data fp i p"
    and "\<forall>e. le = Some e \<longrightarrow> is_ProviderError e"
  shows "candidates_outcome sep data fp i ps b0 w0 (try_candidates ops (memory_ops sep) data fp ps le p st)"
  using assms(7-)
proof (induction ps arbitrary: le p st)
  case Nil
  then show ?case by (simp add: candidates_outcome_def)
next
  case (Cons q ps)
  obtain r p1 s1 w1 where at: "attempt_provider ops (memory_ops sep) p q data st = (r, p1, (s1, w1))"
    by (metis prod.collapse)
  have u1: "untouched sep b0 w0 (svc_backend s1) w1"
    using attempt_frame.attempt_provider_J [OF memory_frame [OF assms(1)] Cons.prems(1)] at by (metis fst_conv snd_conv)
  have p1: "payment_for data fp i p1"
    using attempt_provider_payment [OF at] payment_for_update(1) [OF Cons.prems(2)] by auto
  show ?case
  proof (cases r)
    case (Inr result)
    define p2 where "p2 = p1\<lparr>pay_status := SUCCEEDED, pay_reference := Some (res_reference result),
      pay_provider := Some (prv_name q)\<rparr>"
    have p2: "payment_for data fp i p2" using payment_for_update(2) [OF p1] by (simp add: p2_def)
    have pid: "pay_id p2 = i" using p2 by (simp add: payment_for_def)
    obtain s' w' where se: "settle (memory_ops sep) data fp p2 PAYMENT_SUCCEEDED (s1, w1) = (Inr (), (s', w'))"
      "settled sep data fp PAYMENT_SUCCEEDED p2 b0 w0 (svc_backend s') w'"
      using settle_memory [OF u1 assms(2,3), of p2 PAYMENT_SUCCEEDED] assms(4-6) pid payment_for_key [OF p2] by auto
    have "try_candidates ops (memory_ops sep) data fp (q # ps) le p st = (Inr True, le, p2, (s', w'))"
      using at Inr se(1) by (simp add: p2_def Let_def)
    then show ?thesis
      using p2 se(2) Cons.prems(3) by (auto simp: candidates_outcome_def p2_def)
  next
    case (Inl e)
    show ?thesis
    proof (cases "is_ProviderError e \<and> exn_code e \<in> failover_codes")
      case True
      then have "try_candidates ops (memory_ops sep) data fp (q # ps) le p st =
          try_candidates ops (memory_ops sep) data fp ps (Some e) p1 (s1, w1)"
        using at Inl by simp
      then show ?thesis
        using Cons.IH [of "(s1, w1)" p1 "Some e"] u1 p1 True candidates_outcome_mono [of sep data fp i ps]
        by (metis (no_types, lifting) fst_conv snd_conv option.inject set_subset_Cons)
    next
      case False
      then show ?thesis
        using at Inl u1 p1 Cons.prems(3) by (auto simp: candidates_outcome_def)
    qed
  qed
qed

subsection \<open>The body of \<open>create\<close> under a claim\<close>

lemma new_Payment_for:
  assumes "new_Payment (inp_merchant_id data) (inp_amount data) (inp_currency data)
      (inp_payment_method_type data) (inp_idempotency_key data) fp w = (p, w')"
  shows "payment_for data fp (uuid_at w (tick w)) p" "pay_status p = PROCESSING" "pay_attempts p = []"
    "pay_provider p = None" "world_le w w'" "tick w < tick w'"
proof -
  show "payment_for data fp (uuid_at w (tick w)) p" "pay_status p = PROCESSING" "pay_attempts p = []"
    "pay_provider p = None" "tick w < tick w'"
    using assms by (auto simp: new_Payment_def uuid4_def utcnow_def payment_for_def)
  show "world_le w w'" using new_Payment_world assms by (metis snd_conv)
qed

datatype claim_outcome =
    Existing Payment
  | Conflicting
  | Settled EventType Payment
  | Rejected

text \<open>What each outcome means for the result, the claim and the backend.\<close>

definition claim_outcome_ok ::
  "bool \<Rightarrow> PaymentInput \<Rightarrow> string \<Rightarrow> memory_backend \<Rightarrow> world \<Rightarrow> provider list \<Rightarrow> claim_outcome \<Rightarrow> Payment res \<Rightarrow> bool \<Rightarrow>
   memory_backend \<Rightarrow> world \<Rightarrow> bool" where
  "claim_outcome_ok sep data fp b0 w0 ps oc r claimed b w =
     (let rk = (inp_merchant_id data, inp_idempotency_key data)
      in case oc of
           Existing p \<Rightarrow> ledger b0 rk = Some p \<and> pay_fingerprint p = fp \<and> r = Inr p \<and> \<not> claimed \<and> w = w0 \<and>
             b = b0\<lparr>mbk_idempotency := snd (complete (fst rk) (snd rk) fp (pay_id p) (mbk_idempotency b0))\<rparr>
         | Conflicting \<Rightarrow> (\<exists>p. ledger b0 rk = Some p \<and> pay_fingerprint p \<noteq> fp) \<and> claimed \<and> w = w0 \<and> b = b0 \<and>
             r = Inl (IdempotencyConflict ''Idempotency-Key was reused with different payment data'')
         | Settled final p \<Rightarrow> ledger b0 rk = None \<and> \<not> claimed \<and> payment_for data fp (uuid_at w0 (tick w0)) p \<and>
             settled sep data fp final p b0 w0 b w \<and>
             (if final = PAYMENT_SUCCEEDED
              then pay_status p = SUCCEEDED \<and> r = Inr p \<and> (\<exists>q\<in>set ps. pay_provider p = Some (prv_name q))
              else final = PAYMENT_FAILED \<and> pay_status p = FAILED \<and> (\<exists>e. r = Inl e \<and> is_ProviderError e))
         | Rejected \<Rightarrow> ledger b0 rk = None \<and> claimed \<and> (\<exists>e. r = Inl e) \<and> untouched sep b0 w0 b w)"

lemma healthy_providers_subset: "healthy_providers ops ps w = (Inr qs, w') \<Longrightarrow> set qs \<subseteq> set ps"
proof (induction ps arbitrary: w qs w')
  case (Cons p ps)
  then show ?case by (fastforce elim!: then_do_cases split: if_splits)
qed auto

lemma settled_weaken: "settled sep data fp final p b0 w1 b w \<Longrightarrow> world_le w0 w1 \<Longrightarrow> settled sep data fp final p b0 w0 b w"
  unfolding settled_def using world_le_trans by blast

lemma untouched_weaken: "untouched sep b0 w1 b w \<Longrightarrow> world_le w0 w1 \<Longrightarrow> untouched sep b0 w0 b w"
  unfolding untouched_def using world_le_trans by blast

text \<open>The end of the body, after the loop over the candidates.\<close>

lemma claimed_candidates:
  assumes "idm_inv (mbk_idempotency b0)"
    and "idm_view (mbk_idempotency b0) (inp_merchant_id data, inp_idempotency_key data) = Some (fp, None)"
    and "get i (mbk_store b0) = None" "ledger b0 (inp_merchant_id data, inp_idempotency_key data) = None" "i \<in> drawn w2"
    and out: "candidates_outcome sep data fp i ps b0 w2 (x, le, p4, st4)" and w: "world_le w w2"
    and i: "i = uuid_at w (tick w)"
    and run: "(case (x, le, p4, st4) of
         (Inl e, _, payment1, st4) \<Rightarrow> ((Inl e, True), st4)
       | (Inr True, _, payment1, st4) \<Rightarrow> ((Inr payment1, False), st4)
       | (Inr False, last_error, payment1, st4) \<Rightarrow>
           (case settle (memory_ops sep) data fp (payment1\<lparr>pay_status := FAILED\<rparr>) PAYMENT_FAILED st4 of
              (Inl e, st5) \<Rightarrow> ((Inl e, True), st5)
            | (Inr _, st5) \<Rightarrow>
                ((Inl (case last_error of Some e \<Rightarrow> e
                   | None \<Rightarrow> ProviderError ''PROVIDER_UNAVAILABLE'' ''No provider completed the payment''), False), st5)))
      = ((r, claimed), st')"
  shows "\<exists>oc. claim_outcome_ok sep data fp b0 w ps oc r claimed (svc_backend (fst st')) (snd st')"
proof -
  have p4: "payment_for data fp i p4" and le: "\<forall>e. le = Some e \<longrightarrow> is_ProviderError e"
    using out by (auto simp: candidates_outcome_def)
  consider e where "x = Inl e" | "x = Inr True" | "x = Inr False" by (cases x) auto
  then show ?thesis
  proof cases
    case 1
    then have "claim_outcome_ok sep data fp b0 w ps Rejected r claimed (svc_backend (fst st')) (snd st')"
      using out run untouched_weaken [OF _ w] assms(4) by (auto simp: candidates_outcome_def claim_outcome_ok_def)
    then show ?thesis ..
  next
    case 2
    then have "claim_outcome_ok sep data fp b0 w ps (Settled PAYMENT_SUCCEEDED p4) r claimed (svc_backend (fst st')) (snd st')"
      using out run settled_weaken [OF _ w] assms(4) i by (auto simp: candidates_outcome_def claim_outcome_ok_def)
    then show ?thesis ..
  next
    case 3
    define p5 where "p5 = p4\<lparr>pay_status := FAILED\<rparr>"
    have p5: "payment_for data fp i p5" using payment_for_update(3) [OF p4] by (simp add: p5_def)
    have pid: "pay_id p5 = i" using p5 by (simp add: payment_for_def)
    obtain s4 w4 where st4: "st4 = (s4, w4)" by (cases st4)
    have u4: "untouched sep b0 w2 (svc_backend s4) w4" using out 3 st4 by (simp add: candidates_outcome_def)
    obtain s5 w5 where se: "settle (memory_ops sep) data fp p5 PAYMENT_FAILED (s4, w4) = (Inr (), (s5, w5))"
      "settled sep data fp PAYMENT_FAILED p5 b0 w2 (svc_backend s5) w5"
      using settle_memory [OF u4 assms(1,2), of p5 PAYMENT_FAILED] assms(3-5) pid payment_for_key [OF p5] by auto
    then have "claim_outcome_ok sep data fp b0 w ps (Settled PAYMENT_FAILED p5) r claimed (svc_backend (fst st')) (snd st')"
      using run 3 st4 settled_weaken [OF se(2) w] assms(4) p5 le i
      by (auto simp: claim_outcome_ok_def p5_def [symmetric]) (simp add: p5_def, auto split: option.splits)
    then show ?thesis ..
  qed
qed

lemma create_claimed_memory:
  assumes "payment_provider ops" "stores_ok (svc_backend s) w" "idm_inv (mbk_idempotency (svc_backend s))"
    and "idm_view (mbk_idempotency (svc_backend s)) (inp_merchant_id data, inp_idempotency_key data) = Some (fp, None)"
    and run: "create_claimed ops (memory_ops sep) data fp (s, w) = ((r, claimed), st')"
  shows "\<exists>oc. claim_outcome_ok sep data fp (svc_backend s) w (svc_providers s) oc r claimed (svc_backend (fst st')) (snd st')"
proof (cases "ledger (svc_backend s) (inp_merchant_id data, inp_idempotency_key data)")
  case (Some p)
  have c: "fst (complete (inp_merchant_id data) (inp_idempotency_key data) fp (pay_id p) (mbk_idempotency (svc_backend s))) = Inr ()"
    using memory.cmp_claim [OF assms(3,4)] by blast
  show ?thesis
  proof (cases "pay_fingerprint p = fp")
    case True
    then have "claim_outcome_ok sep data fp (svc_backend s) w (svc_providers s) (Existing p) r claimed (svc_backend (fst st')) (snd st')"
      using run Some c by (auto simp: create_claimed_def on_backend_def claim_outcome_ok_def)
    then show ?thesis ..
  next
    case False
    then have "claim_outcome_ok sep data fp (svc_backend s) w (svc_providers s) Conflicting r claimed (svc_backend (fst st')) (snd st')"
      using run Some by (auto simp: create_claimed_def on_backend_def claim_outcome_ok_def)
    then show ?thesis ..
  qed
next
  case None
  let ?b = "svc_backend s"
  obtain p w2 where np: "new_Payment (inp_merchant_id data) (inp_amount data) (inp_currency data)
      (inp_payment_method_type data) (inp_idempotency_key data) fp w = (p, w2)" by (metis prod.collapse)
  note p = new_Payment_for [OF np]
  let ?i = "uuid_at w (tick w)"
  have inj: "inj (uuid_at w)" using assms(2) by (simp add: stores_ok_def ids_ok_def)
  have gi: "get ?i (mbk_store ?b) = None"
    using assms(2) drawn_next [OF inj] by (cases "get ?i (mbk_store ?b)") (auto simp: stores_ok_def ids_ok_def)
  have di: "?i \<in> drawn w2" using drawn_later p(5,6) .
  have u2: "untouched sep ?b w2 ?b w2" using untouched_refl stores_ok_time assms(2) p(5) by blast
  obtain q w3 where hp: "healthy_providers ops (svc_providers s) w2 = (q, w3)" by (metis prod.collapse)
  have u3: "untouched sep ?b w2 ?b w3"
    using attempt_frame.healthy_providers_J [OF memory_frame [OF assms(1)] u2] hp by (metis snd_conv)
  show ?thesis
  proof (cases "\<exists>healthy c router. q = Inr healthy \<and> choose_provider healthy (svc_router s) = (Inr c, router)")
    case False
    then have "(\<exists>e. r = Inl e) \<and> claimed \<and> svc_backend (fst st') = ?b \<and> snd st' = w3"
      using run None np hp
      by (auto simp: create_claimed_def on_backend_def Let_def split: sum.splits prod.splits)
    then have "claim_outcome_ok sep data fp ?b w (svc_providers s) Rejected r claimed (svc_backend (fst st')) (snd st')"
      using None untouched_weaken [OF u3 p(5)] by (auto simp: claim_outcome_ok_def)
    then show ?thesis ..
  next
    case True
    then obtain healthy c router where h: "q = Inr healthy" "choose_provider healthy (svc_router s) = (Inr c, router)"
      by blast
    define cands where "cands = c # filter (\<lambda>q. prv_object q \<noteq> prv_object c) healthy"
    define s3 where "s3 = s\<lparr>svc_router := router\<rparr>"
    obtain x le p4 st4 where tc: "try_candidates ops (memory_ops sep) data fp cands None p (s3, w3) = (x, le, p4, st4)"
      by (metis prod.collapse)
    have "c \<in> set healthy"
      using choose_provider_total [of healthy "svc_router s"] h(2) by (auto split: if_splits)
    then have sub: "set cands \<subseteq> set (svc_providers s)"
      using healthy_providers_subset [of ops "svc_providers s" w2 healthy w3] hp h(1) by (auto simp: cands_def)
    have "candidates_outcome sep data fp ?i cands ?b w2 (try_candidates ops (memory_ops sep) data fp cands None p (s3, w3))"
      by (rule try_candidates_memory [OF assms(1,3,4) gi None di]) (simp_all add: s3_def u3 p(1))
    then have out: "candidates_outcome sep data fp ?i (svc_providers s) ?b w2 (x, le, p4, st4)"
      using tc candidates_outcome_mono [OF _ sub] by metis
    have body: "create_claimed ops (memory_ops sep) data fp (s, w) =
      (case (x, le, p4, st4) of
         (Inl e, _, payment1, st4) \<Rightarrow> ((Inl e, True), st4)
       | (Inr True, _, payment1, st4) \<Rightarrow> ((Inr payment1, False), st4)
       | (Inr False, last_error, payment1, st4) \<Rightarrow>
           (case settle (memory_ops sep) data fp (payment1\<lparr>pay_status := FAILED\<rparr>) PAYMENT_FAILED st4 of
              (Inl e, st5) \<Rightarrow> ((Inl e, True), st5)
            | (Inr _, st5) \<Rightarrow>
                ((Inl (case last_error of Some e \<Rightarrow> e
                   | None \<Rightarrow> ProviderError ''PROVIDER_UNAVAILABLE'' ''No provider completed the payment''), False), st5)))"
      using None np hp h tc by (simp add: create_claimed_def on_backend_def Let_def cands_def s3_def)
    show ?thesis
      by (rule claimed_candidates [OF assms(3,4) gi None di out p(5) refl run [unfolded body]])
  qed
qed

subsection \<open>The service refines a payment ledger\<close>

text \<open>
  The service invariant over the in-memory collaborators: both stores are consistent, every
  stored payment is terminal with a balanced refund ledger, and a claim the coordinator
  knows is completed with the very payment the store has under that key. No claim is in
  flight between two calls. (The coordinator may know less than the store, as after a
  restart.)
\<close>

definition payments_ok :: "memory_backend \<Rightarrow> bool" where
  "payments_ok b \<longleftrightarrow> (\<forall>i p. get i (mbk_store b) = Some p \<longrightarrow>
     ledger_ok p \<and> pay_status p \<in> {SUCCEEDED, FAILED, REFUNDED})"

definition claims_coherent :: "memory_backend \<Rightarrow> bool" where
  "claims_coherent b \<longleftrightarrow> (\<forall>rk v. idm_view (mbk_idempotency b) rk = Some v \<longrightarrow>
     (\<exists>p. ledger b rk = Some p \<and> v = (pay_fingerprint p, Some (pay_id p))))"

definition service_inv :: "memory_backend \<Rightarrow> world \<Rightarrow> bool" where
  "service_inv b w \<longleftrightarrow>
     stores_ok b w \<and> idm_inv (mbk_idempotency b) \<and> payments_ok b \<and> claims_coherent b"

text \<open>
  The abstract ledger: one payment per merchant and idempotency key. Creating replays the
  payment of the key, rejects another request under the same key, or records one new
  payment, which succeeded or failed; or nothing happens and an error is raised.
\<close>

type_synonym payment_ledger = "string \<times> string \<rightharpoonup> Payment"

definition request_key :: "PaymentInput \<Rightarrow> string \<times> string" where
  "request_key data = (inp_merchant_id data, inp_idempotency_key data)"

inductive spec_create :: "PaymentInput \<Rightarrow> string \<Rightarrow> payment_ledger \<Rightarrow> Payment res \<Rightarrow> payment_ledger \<Rightarrow> bool"
  for data fp L where
  replay: "L (request_key data) = Some p \<Longrightarrow> pay_fingerprint p = fp \<Longrightarrow> spec_create data fp L (Inr p) L"
| conflict: "L (request_key data) = Some p \<Longrightarrow> pay_fingerprint p \<noteq> fp \<Longrightarrow>
    spec_create data fp L (Inl (IdempotencyConflict ''Idempotency-Key was reused with different payment data'')) L"
| succeeded: "L (request_key data) = None \<Longrightarrow> payment_for data fp i p \<Longrightarrow> (\<forall>q\<in>ran L. pay_id q \<noteq> i) \<Longrightarrow>
    pay_status p = SUCCEEDED \<Longrightarrow> spec_create data fp L (Inr p) (L(request_key data \<mapsto> p))"
| failed: "L (request_key data) = None \<Longrightarrow> payment_for data fp i p \<Longrightarrow> (\<forall>q\<in>ran L. pay_id q \<noteq> i) \<Longrightarrow>
    pay_status p = FAILED \<Longrightarrow> is_ProviderError e \<Longrightarrow> spec_create data fp L (Inl e) (L(request_key data \<mapsto> p))"
| rejected: "L (request_key data) = None \<Longrightarrow> spec_create data fp L (Inl e) L"

inductive_simps spec_create_simps: "spec_create data fp L r L'"

lemma service_inv_stores: "service_inv b w \<Longrightarrow> stores_ok b w \<and> idm_inv (mbk_idempotency b)"
  by (simp add: service_inv_def)

lemma service_inv_time: "service_inv b w \<Longrightarrow> world_le w w' \<Longrightarrow> service_inv b w'"
  unfolding service_inv_def using stores_ok_time by blast

lemma set_claims_fields [simp]:
  "ledger (b\<lparr>mbk_idempotency := c\<rparr>) = ledger b" "stores_ok (b\<lparr>mbk_idempotency := c\<rparr>) w = stores_ok b w"
  "payments_ok (b\<lparr>mbk_idempotency := c\<rparr>) = payments_ok b"
  "outbox_of sep (b\<lparr>mbk_idempotency := c\<rparr>) = outbox_of sep b"
  by (simp_all add: ledger_def stores_ok_def ids_ok_def payments_ok_def outbox_of_def fun_eq_iff)

lemma claims_coherent_set:
  "claims_coherent b \<Longrightarrow> idm_view c = idm_view (mbk_idempotency b) \<Longrightarrow> claims_coherent (b\<lparr>mbk_idempotency := c\<rparr>)"
  by (simp add: claims_coherent_def)

lemma claims_coherent_complete:
  "claims_coherent b \<Longrightarrow> ledger b rk = Some p \<Longrightarrow>
   idm_view c = (idm_view (mbk_idempotency b))(rk \<mapsto> (pay_fingerprint p, Some (pay_id p))) \<Longrightarrow>
   claims_coherent (b\<lparr>mbk_idempotency := c\<rparr>)"
  unfolding claims_coherent_def set_claims_fields by (auto split: if_splits)

lemma ledger_ran: "stores_ok b w \<Longrightarrow> q \<in> ran (ledger b) \<Longrightarrow> get (pay_id q) (mbk_store b) = Some q"
  using in_memory.gk_key by (auto simp: ran_def ledger_def stores_ok_def)

lemma ledger_get: "stores_ok b w \<Longrightarrow> ledger b rk = Some q \<Longrightarrow> get (pay_id q) (mbk_store b) = Some q"
  by (rule ledger_ran) (simp, rule ranI)

text \<open>The step from the claimed backend to the final one, for each outcome of the body.\<close>

lemma settled_refines:
  assumes inv: "stores_ok b w" "payments_ok b" "claims_coherent b"
    and b0: "b0 = b\<lparr>mbk_idempotency := c0\<rparr>" "idm_view c0 = (idm_view (mbk_idempotency b))(request_key data \<mapsto> (fp, None))"
    and st: "settled sep data fp final p b0 w b1 w1" "payment_for data fp (uuid_at w (tick w)) p"
      "pay_status p \<in> {SUCCEEDED, FAILED}"
  shows "service_inv b1 w1 \<and> ledger b1 = (ledger b)(request_key data \<mapsto> p) \<and>
    (\<forall>q\<in>ran (ledger b). pay_id q \<noteq> uuid_at w (tick w))"
proof -
  have key: "key_of p = request_key data" using payment_for_key [OF st(2)] by (simp add: request_key_def)
  have L: "ledger b1 = (ledger b)(request_key data \<mapsto> p)" using st(1) b0(1) key by (simp add: settled_def)
  have V: "idm_view (mbk_idempotency b1) = (idm_view (mbk_idempotency b))(request_key data \<mapsto> (fp, Some (pay_id p)))"
    using st(1) b0 by (simp add: settled_def request_key_def)
  have "ledger_ok p" using st(2,3) by (auto simp: payment_for_def intro: ledger_ok_fresh)
  then have "payments_ok b1" using st(1,3) inv(2) b0(1) by (auto simp: settled_def payments_ok_def)
  moreover have "claims_coherent b1"
    using inv(3) st(2) unfolding claims_coherent_def V L by (auto simp: payment_for_def split: if_splits)
  moreover have "pay_id q \<noteq> uuid_at w (tick w)" if "q \<in> ran (ledger b)" for q
  proof -
    have "pay_id q \<in> drawn w" using ledger_ran [OF inv(1) that] inv(1) by (auto simp: stores_ok_def ids_ok_def)
    then show ?thesis using drawn_next inv(1) by (auto simp: stores_ok_def ids_ok_def)
  qed
  ultimately show ?thesis using st(1) L by (auto simp: service_inv_def settled_def)
qed


lemma create_claim:
  assumes "fst (acquire (inp_merchant_id data) (inp_idempotency_key data) (request_fingerprint sha data)
      (mbk_idempotency (svc_backend s))) = Inr (Decided \<lparr>dec_status = CLAIMED, dec_payment_id = None\<rparr>)"
    and s1: "s1 = s\<lparr>svc_backend := (svc_backend s)\<lparr>mbk_idempotency := snd (acquire (inp_merchant_id data)
      (inp_idempotency_key data) (request_fingerprint sha data) (mbk_idempotency (svc_backend s)))\<rparr>\<rparr>"
    and cc: "create_claimed ops (memory_ops sep) data (request_fingerprint sha data) (s1, w) = ((r, claimed), (s2, w2))"
    and ab: "fst (abort (inp_merchant_id data) (inp_idempotency_key data) (request_fingerprint sha data)
      (mbk_idempotency (svc_backend s2))) = Inr ()"
  shows "create sha ops (memory_ops sep) data (s, w) =
    (Some r, (if claimed then s2\<lparr>svc_backend := (svc_backend s2)\<lparr>mbk_idempotency := snd (abort (inp_merchant_id data)
      (inp_idempotency_key data) (request_fingerprint sha data) (mbk_idempotency (svc_backend s2)))\<rparr>\<rparr> else s2, w2))"
  using assms by (simp add: create_def on_backend_def Let_def)

text \<open>
  The postcondition of \<open>create\<close>: the invariant, the abstract step, and what reached the
  outbox: circuit events, followed by the three events of the payment if one was recorded.
\<close>

definition create_post ::
  "bool \<Rightarrow> PaymentInput \<Rightarrow> string \<Rightarrow> provider list \<Rightarrow> memory_backend \<Rightarrow> world \<Rightarrow> Payment res \<Rightarrow> memory_backend \<Rightarrow> world \<Rightarrow> bool" where
  "create_post sep data fp ps b w r b' w' \<longleftrightarrow>
     service_inv b' w' \<and> world_le w w' \<and> spec_create data fp (ledger b) r (ledger b') \<and>
     (\<exists>cs es. pending (outbox_of sep b') = pending (outbox_of sep b) @ cs @ es \<and> (\<forall>e\<in>set cs. evt_aggregate_id e = None) \<and>
        (if ledger b' = ledger b then es = []
         else \<exists>p. ledger b' = (ledger b)(request_key data \<mapsto> p) \<and>
           creation_events_ok p (if pay_status p = SUCCEEDED then PAYMENT_SUCCEEDED else PAYMENT_FAILED) es \<and>
           (pay_status p = SUCCEEDED \<longrightarrow> (\<exists>q\<in>set ps. pay_provider p = Some (prv_name q)))))"

lemma create_post_same:
  assumes "service_inv b' w'" "world_le w w'" "ledger b' = ledger b" "spec_create data fp (ledger b) r (ledger b)"
    and "pending (outbox_of sep b') = pending (outbox_of sep b) @ cs" "\<forall>e\<in>set cs. evt_aggregate_id e = None"
  shows "create_post sep data fp ps b w r b' w'"
  unfolding create_post_def using assms by (intro conjI exI [of _ cs] exI [of _ "[]"]) auto

lemma abort_claim:
  assumes "idm_inv c" "idm_view c = v(rk \<mapsto> (fp, None))" "v rk = None"
  shows "idm_inv (snd (abort (fst rk) (snd rk) fp c))" "idm_view (snd (abort (fst rk) (snd rk) fp c)) = v"
    "fst (abort (fst rk) (snd rk) fp c) = Inr ()"
  using memory.abt_invar [OF assms(1)] memory.abt_claim [OF assms(1), of "fst rk" "snd rk" fp] assms(2,3)
  by (auto simp: fun_eq_iff)

lemma claim_outcome_refines:
  assumes inv: "service_inv b w" and none: "idm_view (mbk_idempotency b) (request_key data) = None"
    and b0: "b0 = b\<lparr>mbk_idempotency := c0\<rparr>" "idm_inv c0"
      "idm_view c0 = (idm_view (mbk_idempotency b))(request_key data \<mapsto> (fp, None))"
    and oc: "claim_outcome_ok sep data fp b0 w ps oc r claimed b2 w2"
    and b3: "b3 = (if claimed then b2\<lparr>mbk_idempotency := snd (abort (inp_merchant_id data) (inp_idempotency_key data)
      fp (mbk_idempotency b2))\<rparr> else b2)"
  shows "create_post sep data fp ps b w r b3 w2"
proof -
  have rk: "request_key data = (inp_merchant_id data, inp_idempotency_key data)" by (simp add: request_key_def)
  have I: "stores_ok b w" "idm_inv (mbk_idempotency b)" "payments_ok b" "claims_coherent b"
    using inv by (auto simp: service_inv_def)
  have L0: "ledger b0 = ledger b" "outbox_of sep b0 = outbox_of sep b" "mbk_idempotency b0 = c0" by (simp_all add: b0)
  note ab = abort_claim [OF b0(2,3) none, unfolded rk fst_conv snd_conv]
  show ?thesis
  proof (cases oc)
    case (Existing p)
    then have o: "ledger b (request_key data) = Some p" "pay_fingerprint p = fp" "r = Inr p" "\<not> claimed" "w2 = w"
      "b2 = b0\<lparr>mbk_idempotency := snd (complete (inp_merchant_id data) (inp_idempotency_key data) fp (pay_id p) c0)\<rparr>"
      using oc L0 rk by (simp_all add: claim_outcome_ok_def)
    let ?c = "snd (complete (inp_merchant_id data) (inp_idempotency_key data) fp (pay_id p) c0)"
    have b3': "b3 = b\<lparr>mbk_idempotency := ?c\<rparr>" using b3 o b0(1) by simp
    have "idm_inv ?c" "idm_view ?c = (idm_view (mbk_idempotency b))(request_key data \<mapsto> (fp, Some (pay_id p)))"
      using memory.cmp_invar [OF b0(2)] memory.cmp_claim [OF b0(2), of _ _ fp] b0(3) rk by simp_all
    then have "service_inv b3 w"
      using I claims_coherent_complete [OF I(4) o(1), of ?c] o(2) by (simp add: service_inv_def b3')
    then show ?thesis
      using o spec_create.replay [of "ledger b" data p fp] by (intro create_post_same [of _ _ _ _ _ _ _ _ "[]"]) (simp_all add: b3')
  next
    case Conflicting
    then obtain p where o: "ledger b (request_key data) = Some p" "pay_fingerprint p \<noteq> fp" "claimed" "w2 = w" "b2 = b0"
      "r = Inl (IdempotencyConflict ''Idempotency-Key was reused with different payment data'')"
      using oc L0 rk by (auto simp: claim_outcome_ok_def)
    have b3': "b3 = b\<lparr>mbk_idempotency := snd (abort (inp_merchant_id data) (inp_idempotency_key data) fp c0)\<rparr>"
      using b3 o b0(1) by simp
    have "service_inv b3 w" using I ab claims_coherent_set [OF I(4) ab(2)] by (simp add: service_inv_def b3')
    then show ?thesis
      using o spec_create.conflict [of "ledger b" data p fp] by (intro create_post_same [of _ _ _ _ _ _ _ _ "[]"]) (simp_all add: b3')
  next
    case Rejected
    then obtain e where o: "ledger b (request_key data) = None" "claimed" "r = Inl e" "untouched sep b0 w b2 w2"
      using oc L0 rk by (auto simp: claim_outcome_ok_def)
    let ?c = "snd (abort (inp_merchant_id data) (inp_idempotency_key data) fp c0)"
    have u: "world_le w w2" "stores_ok b2 w2" "mbk_idempotency b2 = c0" "ledger b2 = ledger b"
      "\<forall>i. get i (mbk_store b2) = get i (mbk_store b)"
      using o(4) L0 by (auto simp: untouched_def b0(1))
    obtain cs where cs: "pending (outbox_of sep b2) = pending (outbox_of sep b) @ cs" "\<forall>e\<in>set cs. evt_aggregate_id e = None"
      using o(4) L0 by (auto simp: untouched_def)
    have b3': "b3 = b2\<lparr>mbk_idempotency := ?c\<rparr>" using b3 o(2) u(3) by simp
    have "payments_ok b2" using I(3) u(5) by (simp add: payments_ok_def)
    moreover have "claims_coherent b3" using I(4) ab(2) u(4) unfolding claims_coherent_def b3' by simp
    ultimately have "service_inv b3 w2" using u ab(1) by (simp add: service_inv_def b3')
    then show ?thesis
      using u cs o spec_create.rejected [of "ledger b" data fp e] by (intro create_post_same [of _ _ _ _ _ _ _ _ cs]) (simp_all add: b3')
  next
    case (Settled final p)
    then have o: "ledger b (request_key data) = None" "b3 = b2" "settled sep data fp final p b0 w b2 w2"
      "payment_for data fp (uuid_at w (tick w)) p"
      "if final = PAYMENT_SUCCEEDED
              then pay_status p = SUCCEEDED \<and> r = Inr p \<and> (\<exists>q\<in>set ps. pay_provider p = Some (prv_name q))
              else final = PAYMENT_FAILED \<and> pay_status p = FAILED \<and> (\<exists>e. r = Inl e \<and> is_ProviderError e)"
      using oc L0 rk b3 by (auto simp: claim_outcome_ok_def)
    have S: "service_inv b2 w2" "ledger b2 = (ledger b)(request_key data \<mapsto> p)"
      "\<forall>q\<in>ran (ledger b). pay_id q \<noteq> uuid_at w (tick w)"
      using settled_refines [OF I(1,3,4) b0(1,3) o(3,4)] o(5) by (auto split: if_splits)
    have ne: "ledger b2 \<noteq> ledger b" using S(2) o(1) by (metis fun_upd_same option.distinct(1))
    obtain cs es where ev: "pending (outbox_of sep b2) = pending (outbox_of sep b) @ cs @ es"
      "\<forall>e\<in>set cs. evt_aggregate_id e = None" "creation_events_ok p final es"
      using o(3) L0(2) by (auto simp: settled_def)
    have fin: "final = (if pay_status p = SUCCEEDED then PAYMENT_SUCCEEDED else PAYMENT_FAILED)"
      using o(5) by (auto split: if_splits)
    have spec: "spec_create data fp (ledger b) r (ledger b2)"
      using o S(2,3) spec_create.succeeded spec_create.failed by (auto split: if_splits)
    have pv: "pay_status p = SUCCEEDED \<longrightarrow> (\<exists>q\<in>set ps. pay_provider p = Some (prv_name q))"
      using o(5) by (auto split: if_splits)
    have "world_le w w2" using o(3) by (simp add: settled_def)
    then show ?thesis
      unfolding create_post_def o(2) if_not_P [OF ne]
      using S(1,2) spec ev [unfolded fin] pv by blast
  qed
qed


text \<open>
  Everything \<open>create\<close> can do over the in-memory collaborators: it returns, and the
  postcondition holds.
\<close>

lemma create_memory:
  assumes P: "payment_provider ops" and inv: "service_inv (svc_backend s) w"
  shows "\<exists>r s' w'. create sha ops (memory_ops sep) data (s, w) = (Some r, (s', w')) \<and>
    create_post sep data (request_fingerprint sha data) (svc_providers s) (svc_backend s) w r (svc_backend s') w'"
proof -
  define b fp where "b = svc_backend s" and "fp = request_fingerprint sha data"
  let ?m = "inp_merchant_id data" and ?k = "inp_idempotency_key data" and ?c = "mbk_idempotency b"
  have rk: "request_key data = (?m, ?k)" by (simp add: request_key_def)
  have I: "service_inv b w" "idm_inv ?c" "claims_coherent b" using inv by (auto simp: service_inv_def b_def)
  define c0 where "c0 = snd (acquire ?m ?k fp ?c)"
  define b0 where "b0 = b\<lparr>mbk_idempotency := c0\<rparr>"
  have c0: "idm_inv c0" using memory.acq_invar [OF I(2)] by (simp add: c0_def)
  have same: "service_inv b0 w \<and> ledger b0 = ledger b \<and> outbox_of sep b0 = outbox_of sep b" if "idm_view c0 = idm_view ?c"
    using I c0 claims_coherent_set [OF I(3) that] by (simp add: service_inv_def b0_def)
  show ?thesis
  proof (cases rule: memory.acquire_cases [OF I(2), of ?m ?k fp, case_names claimed conflict completed waits])
    case claimed
    define s1 where "s1 = s\<lparr>svc_backend := b0\<rparr>"
    obtain r cl s2 w2 where cc: "create_claimed ops (memory_ops sep) data fp (s1, w) = ((r, cl), (s2, w2))"
      by (metis prod.collapse)
    have v: "idm_view c0 = (idm_view ?c)(request_key data \<mapsto> (fp, None))" using claimed rk by (simp add: c0_def)
    obtain oc where oc: "claim_outcome_ok sep data fp b0 w (svc_providers s) oc r cl (svc_backend s2) w2"
      using create_claimed_memory [OF P, of s1 w data fp sep] cc c0 v rk I(1)
      by (auto simp: s1_def b0_def service_inv_def)
    have idm2: "idm_inv (mbk_idempotency (svc_backend s2))"
      using oc c0 memory.cmp_invar [OF c0]
      by (cases oc) (auto simp: claim_outcome_ok_def untouched_def settled_def b0_def)
    have ab: "fst (abort ?m ?k fp (mbk_idempotency (svc_backend s2))) = Inr ()"
      using memory.abt_claim [OF idm2] memory.abt_other [OF idm2] by metis
    have none: "idm_view ?c (request_key data) = None" using claimed rk by simp
    note post = claim_outcome_refines [OF I(1) none b0_def c0 v oc refl]
    have "create sha ops (memory_ops sep) data (s, w) = (Some r, (if cl then s2\<lparr>svc_backend := (svc_backend s2)
        \<lparr>mbk_idempotency := snd (abort ?m ?k fp (mbk_idempotency (svc_backend s2)))\<rparr>\<rparr> else s2, w2))"
      unfolding fp_def by (rule create_claim) (use claimed cc ab in \<open>simp_all add: s1_def b0_def c0_def b_def fp_def\<close>)
    then show ?thesis using post unfolding b_def fp_def by (cases cl) auto
  next
    case (conflict fp' r')
    obtain p where p: "ledger b (request_key data) = Some p" "pay_fingerprint p \<noteq> fp"
      using I(3) conflict rk unfolding claims_coherent_def by (metis fst_conv)
    have "create sha ops (memory_ops sep) data (s, w) =
        (Some (Inl (IdempotencyConflict ''Idempotency-Key was reused with different payment data'')), (s\<lparr>svc_backend := b0\<rparr>, w))"
      using conflict(1) by (simp add: create_def on_backend_def b_def fp_def b0_def c0_def)
    moreover have "create_post sep data fp (svc_providers s) b w
        (Inl (IdempotencyConflict ''Idempotency-Key was reused with different payment data'')) b0 w"
      using same conflict p spec_create.conflict [of "ledger b" data p fp]
      by (intro create_post_same [of _ _ _ _ _ _ _ _ "[]"]) (simp_all add: c0_def)
    ultimately show ?thesis by (auto simp: b_def fp_def)
  next
    case (completed pid)
    obtain p where p: "ledger b (request_key data) = Some p" "pay_fingerprint p = fp" "pay_id p = pid"
      using I(3) completed rk unfolding claims_coherent_def by (metis prod.inject option.inject)
    have "get pid (mbk_store b0) = Some p"
      using ledger_get [OF _ p(1), of w] p(3) I(1) by (simp add: service_inv_def b0_def)
    then have "create sha ops (memory_ops sep) data (s, w) =
        (Some (Inr p), (emit (Inc ''idempotency_hits_total'' []) (s\<lparr>svc_backend := b0\<rparr>), w))"
      using completed(1) by (simp add: create_def on_backend_def b_def fp_def b0_def c0_def Let_def)
    moreover have "create_post sep data fp (svc_providers s) b w (Inr p) b0 w"
      using same completed p spec_create.replay [of "ledger b" data p fp]
      by (intro create_post_same [of _ _ _ _ _ _ _ _ "[]"]) (simp_all add: c0_def)
    ultimately show ?thesis by (auto simp: b_def fp_def)
  next
    case (waits ev)
    then show ?thesis using I(3) rk unfolding claims_coherent_def by (metis prod.inject option.distinct(1))
  qed
qed


subsection \<open>Creating payments: the properties\<close>

text \<open>
  C3. Creating a payment refines the abstract ledger, whatever the providers answer or
  raise: the call always returns, the invariant is kept (so the claim is resolved, and
  every stored payment is terminal and agrees with its claim), and the ledger makes one
  step of the abstract specification.
\<close>

theorem create_refines:
  assumes "payment_provider ops" "service_inv (svc_backend s) w"
  shows "\<exists>r s' w'. create sha ops (memory_ops sep) data (s, w) = (Some r, (s', w')) \<and>
    service_inv (svc_backend s') w' \<and>
    spec_create data (request_fingerprint sha data) (ledger (svc_backend s)) r (ledger (svc_backend s'))"
  using create_memory [OF assms, of sha sep data] unfolding create_post_def by blast


text \<open>A request under a key that has a payment: nothing but the claim table and one metric changes.\<close>

definition same_but_claims :: "memory_backend PaymentService \<Rightarrow> memory_backend PaymentService \<Rightarrow> bool" where
  "same_but_claims s s' \<longleftrightarrow>
     mbk_store (svc_backend s') = mbk_store (svc_backend s) \<and> mbk_outbox (svc_backend s') = mbk_outbox (svc_backend s) \<and>
     svc_router s' = svc_router s \<and> svc_circuits s' = svc_circuits s \<and> svc_providers s' = svc_providers s"

lemma create_known_key:
  assumes inv: "service_inv (svc_backend s) w" and p: "ledger (svc_backend s) (request_key data) = Some p"
    and fp: "fp = request_fingerprint sha data"
  shows "\<exists>s'. same_but_claims s s' \<and> (\<forall>ops. create sha ops (memory_ops sep) data (s, w) =
    (Some (if pay_fingerprint p = fp then Inr p
           else Inl (IdempotencyConflict ''Idempotency-Key was reused with different payment data'')), (s', w)))"
proof -
  let ?m = "inp_merchant_id data" and ?k = "inp_idempotency_key data" and ?b = "svc_backend s"
  let ?c = "mbk_idempotency ?b"
  have rk: "request_key data = (?m, ?k)" by (simp add: request_key_def)
  have I: "idm_inv ?c" "claims_coherent ?b" using inv by (auto simp: service_inv_def)
  have got: "get (pay_id p) (mbk_store ?b) = Some p"
    using ledger_get [OF _ p, of w] inv by (simp add: service_inv_def)
  define c0 where "c0 = snd (acquire ?m ?k fp ?c)"
  have c0: "idm_inv c0" using memory.acq_invar [OF I(1)] by (simp add: c0_def)
  define s1 where "s1 = s\<lparr>svc_backend := ?b\<lparr>mbk_idempotency := c0\<rparr>\<rparr>"
  show ?thesis
  proof (cases rule: memory.acquire_cases [OF I(1), of ?m ?k fp, case_names claimed conflict completed waits])
    case claimed
    have v: "idm_view c0 (?m, ?k) = Some (fp, None)" using claimed by (simp add: c0_def)
    have fin: "fst (complete ?m ?k fp (pay_id p) c0) = Inr ()" "fst (abort ?m ?k fp c0) = Inr ()"
      using memory.cmp_claim [OF c0 v] memory.abt_claim [OF c0 v] by auto
    define c1 where "c1 = (if pay_fingerprint p = fp then snd (complete ?m ?k fp (pay_id p) c0) else snd (abort ?m ?k fp c0))"
    have "create sha ops (memory_ops sep) data (s, w) =
        (Some (if pay_fingerprint p = fp then Inr p
           else Inl (IdempotencyConflict ''Idempotency-Key was reused with different payment data'')),
         (s1\<lparr>svc_backend := (svc_backend s1)\<lparr>mbk_idempotency := c1\<rparr>\<rparr>, w))" for ops
      using claimed(1) p fin rk fp
      by (simp add: create_def create_claimed_def on_backend_def s1_def c0_def c1_def Let_def)
    moreover have "same_but_claims s (s1\<lparr>svc_backend := (svc_backend s1)\<lparr>mbk_idempotency := c1\<rparr>\<rparr>)"
      by (simp add: same_but_claims_def s1_def)
    ultimately show ?thesis by blast
  next
    case (conflict fp' r')
    then have "pay_fingerprint p \<noteq> fp" using I(2) p rk unfolding claims_coherent_def by (metis fst_conv option.inject)
    then have "create sha ops (memory_ops sep) data (s, w) =
        (Some (if pay_fingerprint p = fp then Inr p
           else Inl (IdempotencyConflict ''Idempotency-Key was reused with different payment data'')), (s1, w))" for ops
      using conflict(1) fp by (simp add: create_def on_backend_def s1_def c0_def)
    moreover have "same_but_claims s s1" by (simp add: same_but_claims_def s1_def)
    ultimately show ?thesis by blast
  next
    case (completed pid)
    then have "pay_fingerprint p = fp" "pay_id p = pid"
      using I(2) p rk unfolding claims_coherent_def by (metis prod.inject option.inject)+
    then have "create sha ops (memory_ops sep) data (s, w) =
        (Some (if pay_fingerprint p = fp then Inr p
           else Inl (IdempotencyConflict ''Idempotency-Key was reused with different payment data'')),
         (emit (Inc ''idempotency_hits_total'' []) s1, w))" for ops
      using completed(1) fp got by (simp add: create_def on_backend_def s1_def c0_def Let_def)
    moreover have "same_but_claims s (emit (Inc ''idempotency_hits_total'' []) s1)"
      by (simp add: same_but_claims_def s1_def)
    ultimately show ?thesis by blast
  next
    case (waits ev)
    then show ?thesis using I(2) rk unfolding claims_coherent_def by (metis prod.inject option.distinct(1))
  qed
qed

text \<open>
  A repeated request is replayed: if the store has a payment under the request's key
  with the request's fingerprint, \<open>create\<close> returns that payment. The result and the new
  state are the same for every implementation of the providers, so no provider is called;
  the stores, the router and the circuits are unchanged and no time passes.
\<close>

lemma create_replays:
  assumes "service_inv (svc_backend s) w" "ledger (svc_backend s) (request_key data) = Some p"
    and "pay_fingerprint p = request_fingerprint sha data"
  shows "\<exists>s'. same_but_claims s s' \<and> (\<forall>ops. create sha ops (memory_ops sep) data (s, w) = (Some (Inr p), (s', w)))"
  using create_known_key [OF assms(1,2) refl, of sha sep] assms(3) by simp

text \<open>
  A request that reuses a key with other data is refused with \<open>IdempotencyConflict\<close>,
  without calling a provider and without changing the stores, the router or the circuits.
\<close>

lemma create_conflicts:
  assumes "service_inv (svc_backend s) w" "ledger (svc_backend s) (request_key data) = Some p"
    and "pay_fingerprint p \<noteq> request_fingerprint sha data"
  shows "\<exists>s'. same_but_claims s s' \<and> (\<forall>ops. create sha ops (memory_ops sep) data (s, w) =
    (Some (Inl (IdempotencyConflict ''Idempotency-Key was reused with different payment data'')), (s', w)))"
  using create_known_key [OF assms(1,2) refl, of sha sep] assms(3) by simp


subsection \<open>Refunding payments\<close>

text \<open>What a refund writes: the refund is added and the status follows the balance.\<close>

definition refunded :: "Refund \<Rightarrow> Payment \<Rightarrow> Payment" where
  "refunded rf p = p\<lparr>pay_refunded_amount := pay_refunded_amount p + rfd_amount rf,
     pay_refunds := pay_refunds p @ [rf],
     pay_status := (if pay_refunded_amount p + rfd_amount rf = pay_amount p then REFUNDED else pay_status p)\<rparr>"

definition refundable :: "provider list \<Rightarrow> Payment \<Rightarrow> int option \<Rightarrow> (provider \<times> int) res" where
  "refundable ps p amount =
     (if pay_status p \<noteq> SUCCEEDED \<and> pay_status p \<noteq> REFUNDED
      then Inl (RefundError ''VALIDATION_ERROR'' ''Only a successful payment can be refunded'')
      else let remaining = pay_amount p - pay_refunded_amount p;
               n = (case amount of None \<Rightarrow> remaining | Some a \<Rightarrow> a)
           in if n \<le> 0 \<or> remaining < n
              then Inl (RefundError ''VALIDATION_ERROR'' ''Refund amount exceeds the remaining refundable amount'')
              else case find (\<lambda>q. Some (prv_name q) = pay_provider p) ps of
                     None \<Rightarrow> Inl (RefundError ''PROVIDER_UNAVAILABLE'' ''Original payment provider is unavailable'')
                   | Some q \<Rightarrow> Inr (q, n))"

lemma refunded_ledger_ok:
  assumes "ledger_ok p" "refundable ps p amount = Inr (q, rfd_amount rf)" "rfd_payment_id rf = pay_id p"
  shows "ledger_ok (refunded rf p)" "pay_status (refunded rf p) \<in> {SUCCEEDED, REFUNDED}"
    "0 < rfd_amount rf" "rfd_amount rf \<le> pay_amount p - pay_refunded_amount p"
proof -
  have g: "pay_status p = SUCCEEDED \<or> pay_status p = REFUNDED" "0 < rfd_amount rf"
    "rfd_amount rf \<le> pay_amount p - pay_refunded_amount p"
    using assms(2) by (auto simp: refundable_def Let_def split: if_splits option.splits)
  then have "pay_status p = SUCCEEDED"
    using assms(1) by (auto simp: ledger_ok_def)
  with g assms(1,3) show "ledger_ok (refunded rf p)" "pay_status (refunded rf p) \<in> {SUCCEEDED, REFUNDED}"
    "0 < rfd_amount rf" "rfd_amount rf \<le> pay_amount p - pay_refunded_amount p"
    by (auto simp: ledger_ok_def refunded_def)
qed

text \<open>\<open>refund\<close> over the in-memory collaborators, by its guards.\<close>

lemma refund_memory:
  fixes ops sep i amount s w
  defines "s0 \<equiv> s\<lparr>svc_refund_locks := insert (str_uuid i) (svc_refund_locks s)\<rparr>"
  shows "refund ops (memory_ops sep) i amount (s, w) =
    (case get i (mbk_store (svc_backend s)) of
       None \<Rightarrow> (Inl (RefundError ''VALIDATION_ERROR'' ''Payment not found''), (s0, w))
     | Some p \<Rightarrow>
         (case refundable (svc_providers s) p amount of
            Inl e \<Rightarrow> (Inl e, (s0, w))
          | Inr (q, n) \<Rightarrow>
              (case op_refund_payment ops q (str_uuid (pay_id p)) n w of
                 (Inl e, w1) \<Rightarrow> (Inl e, (s0, w1))
               | (Inr result, w1) \<Rightarrow>
                   let (rf, w2) = new_Refund (pay_id p) n (Some (res_reference result)) w1;
                       (ev, w3) = payment_event (refunded rf p) PAYMENT_REFUNDED None w2
                   in (Inr rf, (s0\<lparr>svc_backend := saved sep (refunded rf p) [ev] (svc_backend s)\<rparr>, w3)))))"
proof -
  have amt: "rfd_amount (fst (new_Refund a n b w)) = n" for a n b w
    by (simp add: new_Refund_def Let_def case_prod_beta)
  show ?thesis
    by (auto simp: refund_def on_backend_def refundable_def s0_def Let_def case_prod_beta amt refunded_def
        save_payment_memory split: option.splits sum.splits prod.splits)
qed


lemma new_Refund_fields:
  "new_Refund a n b w = (rf, w') \<Longrightarrow> rfd_amount rf = n \<and> rfd_payment_id rf = a \<and> rfd_reference rf = b \<and> world_le w w'"
  using new_Refund_world [of w a n b] by (auto simp: new_Refund_def Let_def case_prod_beta)

lemma refund_saves:
  assumes inv: "service_inv b w" and p: "get i (mbk_store b) = Some p"
    and ok: "refundable ps p amount = Inr (q, rfd_amount rf)" "rfd_payment_id rf = pay_id p"
    and w: "world_le w w2" and ev: "payment_event (refunded rf p) PAYMENT_REFUNDED None w2 = (e, w3)"
  shows "service_inv (saved sep (refunded rf p) [e] b) w3 \<and> world_le w w3 \<and>
    (\<forall>j. get j (mbk_store (saved sep (refunded rf p) [e] b)) = (if j = i then Some (refunded rf p) else get j (mbk_store b))) \<and>
    pending (outbox_of sep (saved sep (refunded rf p) [e] b)) = pending (outbox_of sep b) @ [e]"
proof -
  let ?p = "refunded rf p"
  have I: "stores_ok b w" "idm_inv (mbk_idempotency b)" "payments_ok b" "claims_coherent b"
    using inv by (auto simp: service_inv_def)
  have pid: "pay_id p = i" using in_memory.gt_id [of "mbk_store b" i p] I(1) p by (auto simp: stores_ok_def)
  have same: "pay_id ?p = pay_id p" "key_of ?p = key_of p" "pay_fingerprint ?p = pay_fingerprint p"
    by (simp_all add: refunded_def key_of_def)
  have can: "can_save (mbk_store b) ?p"
    using in_memory.write_back [of "mbk_store b" i p ?p] I(1) p same by (auto simp: stores_ok_def)
  have ok2: "stores_ok b w2" using stores_ok_time [OF I(1) w] .
  have d: "pay_id ?p \<in> drawn w2" using ok2 p pid same(1) by (auto simp: stores_ok_def ids_ok_def)
  note f = payment_event_fields [OF ev]
  have inj: "inj (uuid_at w2)" using ok2 by (simp add: stores_ok_def ids_ok_def)
  have fresh: "distinct (map evt_id [e])" "evt_id ` set [e] \<inter> drawn w2 = {}" "evt_id ` set [e] \<subseteq> drawn w3" "world_le w2 w3"
    using f drawn_next [OF inj] drawn_later [of w2 w3] by auto
  note sv = saved_facts [OF ok2 can d fresh, where sep = sep]
  have L: "ledger b (key_of p) = Some p"
    using in_memory.gt_id [of "mbk_store b" i p] I(1) p by (auto simp: stores_ok_def ledger_def key_of_def)
  have "ledger_ok p" using I(3) p by (auto simp: payments_ok_def)
  note lk = refunded_ledger_ok [OF this ok]
  have pay: "payments_ok (saved sep ?p [e] b)"
    using I(3) lk(1,2) by (auto simp: payments_ok_def sv(4) split: if_splits)
  have coh: "claims_coherent (saved sep ?p [e] b)"
    using I(4) L same unfolding claims_coherent_def sv(2) sv(3)
    by (metis fun_upd_apply option.inject)
  show ?thesis
    using sv pay coh I(2) pid same(1) w fresh(4) world_le_trans by (simp add: service_inv_def)
qed

text \<open>The postcondition of \<open>refund\<close>.\<close>

definition refund_post ::
  "bool \<Rightarrow> provider list \<Rightarrow> uuid \<Rightarrow> int option \<Rightarrow> memory_backend \<Rightarrow> Refund res \<Rightarrow> memory_backend \<Rightarrow> bool" where
  "refund_post sep ps i amount b r b' \<longleftrightarrow>
     (case r of
        Inl e \<Rightarrow> b' = b
      | Inr rf \<Rightarrow> \<exists>p q ev. get i (mbk_store b) = Some p \<and> refundable ps p amount = Inr (q, rfd_amount rf) \<and>
          (\<forall>j. get j (mbk_store b') = (if j = i then Some (refunded rf p) else get j (mbk_store b))) \<and>
          pending (outbox_of sep b') = pending (outbox_of sep b) @ [ev] \<and>
          creation_event_ok (refunded rf p) PAYMENT_REFUNDED (pay_status (refunded rf p)) ev)"

lemma refund_effect:
  assumes "payment_provider ops" "service_inv (svc_backend s) w"
    and "refund ops (memory_ops sep) i amount (s, w) = (r, (s', w'))"
  shows "service_inv (svc_backend s') w' \<and>
    refund_post sep (svc_providers s) i amount (svc_backend s) r (svc_backend s')"
proof -
  have time: "service_inv (svc_backend s) w1" if "world_le w w1" for w1
    using service_inv_time [OF assms(2) that] .
  note R = assms(3) [unfolded refund_memory]
  show ?thesis
  proof (cases "get i (mbk_store (svc_backend s))")
    case None
    then show ?thesis using R assms(2) by (auto simp: refund_post_def)
  next
    case (Some p)
    show ?thesis
    proof (cases "refundable (svc_providers s) p amount")
      case (Inl e)
      then show ?thesis using R Some assms(2) by (auto simp: refund_post_def)
    next
      case (Inr qn)
      obtain q n where qn: "qn = (q, n)" by (cases qn)
      obtain x w1 where op: "op_refund_payment ops q (str_uuid (pay_id p)) n w = (x, w1)" by (metis prod.collapse)
      have w1: "world_le w w1" using payment_provider.refund_payment_le [OF assms(1) op] .
      show ?thesis
      proof (cases x)
        case (Inl e)
        then show ?thesis using R Some Inr qn op time [OF w1] by (auto simp: refund_post_def)
      next
        case res: (Inr result)
        obtain rf w2 where rf: "new_Refund (pay_id p) n (Some (res_reference result)) w1 = (rf, w2)" by (metis prod.collapse)
        obtain ev w3 where ev: "payment_event (refunded rf p) PAYMENT_REFUNDED None w2 = (ev, w3)" by (metis prod.collapse)
        note rff = new_Refund_fields [OF rf]
        have out: "r = Inr rf" "svc_backend s' = saved sep (refunded rf p) [ev] (svc_backend s)" "w' = w3"
          using R Some Inr qn op res rf ev by auto
        have ok: "refundable (svc_providers s) p amount = Inr (q, rfd_amount rf)" "rfd_payment_id rf = pay_id p"
          using Inr qn rff by auto
        have "world_le w w2" using w1 rff world_le_trans by blast
        note sv = refund_saves [OF assms(2) Some ok this ev, of sep]
        have "creation_event_ok (refunded rf p) PAYMENT_REFUNDED (pay_status (refunded rf p)) ev"
          using payment_event_fields [OF ev] by (simp add: creation_event_ok_def)
        then show ?thesis using sv out Some ok(1) by (auto simp: refund_post_def)
      qed
    qed
  qed
qed

text \<open>
  C10. What a refund does, for every provider behaviour. It keeps the service invariant (in
  particular refunds never exceed the payment's amount). If it returns a refund, the
  payment was refundable, the refund is for the requested or the whole remaining amount,
  the stored payment got exactly this refund and became \<open>REFUNDED\<close> if nothing remains, no
  other payment changed, and one refund event was appended to the outbox. If it raises, the
  stores are as before.
\<close>

theorem refund_spec:
  assumes "payment_provider ops" "service_inv (svc_backend s) w"
    and "refund ops (memory_ops sep) i amount (s, w) = (r, (s', w'))"
  shows "service_inv (svc_backend s') w' \<and>
    (case r of
       Inl e \<Rightarrow> svc_backend s' = svc_backend s
     | Inr rf \<Rightarrow> \<exists>p q ev. get i (mbk_store (svc_backend s)) = Some p \<and>
         refundable (svc_providers s) p amount = Inr (q, rfd_amount rf) \<and>
         (\<forall>j. get j (mbk_store (svc_backend s')) =
                (if j = i then Some (refunded rf p) else get j (mbk_store (svc_backend s)))) \<and>
         pending (outbox_of sep (svc_backend s')) = pending (outbox_of sep (svc_backend s)) @ [ev] \<and>
         creation_event_ok (refunded rf p) PAYMENT_REFUNDED (pay_status (refunded rf p)) ev)"
  using refund_effect [OF assms] unfolding refund_post_def .

text \<open>
  A refund that is refused (unknown payment, wrong status, an amount that is not
  positive or exceeds what remains, or a provider that is gone) never reaches a provider:
  the error and the state are the same for every implementation of the providers, no time
  passes, and the stores are unchanged.
\<close>

lemma refund_refused:
  assumes "case get i (mbk_store (svc_backend s)) of
      None \<Rightarrow> e = RefundError ''VALIDATION_ERROR'' ''Payment not found''
    | Some p \<Rightarrow> refundable (svc_providers s) p amount = Inl e"
  shows "\<exists>s'. svc_backend s' = svc_backend s \<and> (\<forall>ops. refund ops (memory_ops sep) i amount (s, w) = (Inl e, (s', w)))"
  using assms
  by (intro exI [of _ "s\<lparr>svc_refund_locks := insert (str_uuid i) (svc_refund_locks s)\<rparr>"])
    (auto simp: refund_memory split: option.splits)


subsection \<open>Sequences of requests\<close>

datatype service_call = CreateCall PaymentInput | RefundCall uuid "int option"

fun serve :: "(string \<Rightarrow> string) \<Rightarrow> provider_ops \<Rightarrow> 'b backend_ops \<Rightarrow> service_call list \<Rightarrow> 'b svc \<Rightarrow> 'b svc" where
  "serve sha ops be [] st = st"
| "serve sha ops be (CreateCall data # rs) st = serve sha ops be rs (snd (create sha ops be data st))"
| "serve sha ops be (RefundCall i amount # rs) st = serve sha ops be rs (snd (refund ops be i amount st))"

text \<open>
  How a recorded payment may change: only refunds are added and the status follows them.
\<close>

definition evolves :: "Payment \<Rightarrow> Payment \<Rightarrow> bool" where
  "evolves p p' \<longleftrightarrow>
     (\<exists>rs x. p' = p\<lparr>pay_refunds := pay_refunds p @ rs,
                    pay_refunded_amount := pay_refunded_amount p + sum_list (map rfd_amount rs), pay_status := x\<rparr>)"

definition ledger_evolves :: "payment_ledger \<Rightarrow> payment_ledger \<Rightarrow> bool" where
  "ledger_evolves L L' \<longleftrightarrow> (\<forall>rk p. L rk = Some p \<longrightarrow> (\<exists>p'. L' rk = Some p' \<and> evolves p p'))"

lemma evolves_refl: "evolves p p"
  unfolding evolves_def by (intro exI [of _ "[]"] exI [of _ "pay_status p"]) simp

lemma evolves_trans: "evolves p q \<Longrightarrow> evolves q r \<Longrightarrow> evolves p r"
proof -
  assume "evolves p q" "evolves q r"
  then obtain rs x rs' x' where
    "q = p\<lparr>pay_refunds := pay_refunds p @ rs, pay_refunded_amount := pay_refunded_amount p + sum_list (map rfd_amount rs), pay_status := x\<rparr>"
    "r = q\<lparr>pay_refunds := pay_refunds q @ rs', pay_refunded_amount := pay_refunded_amount q + sum_list (map rfd_amount rs'), pay_status := x'\<rparr>"
    unfolding evolves_def by blast
  then show "evolves p r" unfolding evolves_def by (intro exI [of _ "rs @ rs'"] exI [of _ x']) simp
qed

lemma evolves_refunded: "evolves p (refunded rf p)"
  unfolding evolves_def refunded_def
  by (intro exI [of _ "[rf]"]
      exI [of _ "if pay_refunded_amount p + rfd_amount rf = pay_amount p then REFUNDED else pay_status p"]) simp

lemma ledger_evolves_refl: "ledger_evolves L L"
  unfolding ledger_evolves_def using evolves_refl by blast

lemma ledger_evolves_trans: "ledger_evolves K L \<Longrightarrow> ledger_evolves L M \<Longrightarrow> ledger_evolves K M"
  unfolding ledger_evolves_def using evolves_trans by meson

lemma ledger_evolves_add: "L rk = None \<Longrightarrow> ledger_evolves L (L(rk \<mapsto> p))"
  unfolding ledger_evolves_def using evolves_refl by fastforce

lemma spec_create_evolves: "spec_create data fp L r L' \<Longrightarrow> ledger_evolves L L'"
  by (induction rule: spec_create.induct) (rule ledger_evolves_refl | rule ledger_evolves_add, assumption)+

lemma refund_evolves:
  assumes "payment_provider ops" "service_inv (svc_backend s) w"
    and "refund ops (memory_ops sep) i amount (s, w) = (r, (s', w'))"
  shows "service_inv (svc_backend s') w' \<and> ledger_evolves (ledger (svc_backend s)) (ledger (svc_backend s'))"
proof (intro conjI)
  note R = refund_effect [OF assms, unfolded refund_post_def]
  show inv: "service_inv (svc_backend s') w'" using R by blast
  show "ledger_evolves (ledger (svc_backend s)) (ledger (svc_backend s'))"
  proof (cases r)
    case (Inl e)
    then show ?thesis using R ledger_evolves_refl by simp
  next
    case (Inr rf)
    then obtain p where p: "get i (mbk_store (svc_backend s)) = Some p"
      "\<forall>j. get j (mbk_store (svc_backend s')) = (if j = i then Some (refunded rf p) else get j (mbk_store (svc_backend s)))"
      using R by auto
    have st: "store_inv (mbk_store (svc_backend s))" "store_inv (mbk_store (svc_backend s'))"
      using inv assms(2) by (auto simp: service_inv_def stores_ok_def)
    show ?thesis
      unfolding ledger_evolves_def
    proof (intro allI impI)
      fix rk q assume q: "ledger (svc_backend s) rk = Some q"
      have g: "key_of q = rk" "get (pay_id q) (mbk_store (svc_backend s)) = Some q"
        using in_memory.gk_key [OF st(1), of "fst rk" "snd rk" q] q by (auto simp: ledger_def)
      define q' where "q' = (if pay_id q = i then refunded rf q else q)"
      have "get (pay_id q) (mbk_store (svc_backend s')) = Some q'" using p g(2) by (auto simp: q'_def)
      moreover have "key_of q' = rk" using g(1) by (simp add: q'_def refunded_def key_of_def)
      ultimately have "ledger (svc_backend s') rk = Some q'"
        using in_memory.gt_id [OF st(2)] by (auto simp: ledger_def key_of_def)
      then show "\<exists>p'. ledger (svc_backend s') rk = Some p' \<and> evolves q p'"
        using evolves_refl evolves_refunded by (auto simp: q'_def)
    qed
  qed
qed

lemma serve_evolves:
  assumes P: "payment_provider ops"
  shows "service_inv (svc_backend (fst st)) (snd st) \<Longrightarrow> serve sha ops (memory_ops sep) rs st = st' \<Longrightarrow>
    service_inv (svc_backend (fst st')) (snd st') \<and>
    ledger_evolves (ledger (svc_backend (fst st))) (ledger (svc_backend (fst st')))"
proof (induction rs arbitrary: st)
  case Nil
  then show ?case using ledger_evolves_refl by simp
next
  case (Cons q rs)
  obtain s w where st: "st = (s, w)" by (cases st)
  have inv: "service_inv (svc_backend s) w" using Cons.prems(1) st by simp
  define st1 where "st1 = (case q of CreateCall data \<Rightarrow> snd (create sha ops (memory_ops sep) data st)
    | RefundCall i amount \<Rightarrow> snd (refund ops (memory_ops sep) i amount st))"
  have "service_inv (svc_backend (fst st1)) (snd st1) \<and>
      ledger_evolves (ledger (svc_backend s)) (ledger (svc_backend (fst st1)))"
  proof (cases q)
    case (CreateCall data)
    obtain r s1 w1 where c: "create sha ops (memory_ops sep) data (s, w) = (Some r, (s1, w1))"
      "create_post sep data (request_fingerprint sha data) (svc_providers s) (svc_backend s) w r (svc_backend s1) w1"
      using create_memory [OF P inv] by blast
    then show ?thesis using spec_create_evolves CreateCall st by (auto simp: create_post_def st1_def)
  next
    case (RefundCall i amount)
    obtain r s1 w1 where "refund ops (memory_ops sep) i amount (s, w) = (r, (s1, w1))" by (metis prod.collapse)
    then show ?thesis using refund_evolves [OF P inv] RefundCall st by (auto simp: st1_def)
  qed
  moreover have "serve sha ops (memory_ops sep) rs st1 = st'" using Cons.prems(2) by (cases q) (simp_all add: st1_def)
  ultimately show ?case using Cons.IH [of st1] st ledger_evolves_trans by auto
qed

lemma new_backend_inv:
  assumes "inj (uuid_at w)"
  shows "service_inv \<lparr>mbk_store = new_InMemoryPaymentStore, mbk_outbox = new_InMemoryPaymentStore,
    mbk_idempotency = new_MemoryIdempotencyCoordinator\<rparr> w"
  using assms new_store_inv new_idm_inv
  by (auto simp: service_inv_def stores_ok_def ids_ok_def payments_ok_def claims_coherent_def
      new_InMemoryPaymentStore_def get_def known_events_def idm_view_def new_MemoryIdempotencyCoordinator_def)

definition new_memory_backend :: memory_backend where
  "new_memory_backend = \<lparr>mbk_store = new_InMemoryPaymentStore, mbk_outbox = new_InMemoryPaymentStore,
     mbk_idempotency = new_MemoryIdempotencyCoordinator\<rparr>"

lemma init_providers_backend: "init_providers ps s = Inr s' \<Longrightarrow> svc_backend s' = svc_backend s"
  by (induction ps s rule: init_providers.induct)
    (auto simp: Let_def set_provider_concurrency_def split: if_splits)

lemma new_service_backend:
  "new_PaymentService ps b pol thr cd ms strat ws limit = Inr s \<Longrightarrow> svc_backend s = b"
  by (auto simp: new_PaymentService_def dest: init_providers_backend split: if_splits sum.splits)

text \<open>
  From a new service, after any sequence of creations and refunds with any behaviour of
  the providers: no claim is left in flight, every payment is terminal with a balanced
  refund ledger and never refunded beyond its amount, the claim table agrees with the
  store, and a payment once recorded under a key stays there with its identity, changed by
  refunds only.
\<close>

lemma service_safe:
  assumes "payment_provider ops" "inj (uuid_at w)"
    and "new_PaymentService ps new_memory_backend pol thr cd ms strat ws limit = Inr s"
    and "serve sha ops (memory_ops sep) rs (s, w) = (s1, w1)"
    and "serve sha ops (memory_ops sep) rs' (s1, w1) = (s2, w2)"
  shows "service_inv (svc_backend s2) w2 \<and> ledger_evolves (ledger (svc_backend s1)) (ledger (svc_backend s2))"
proof -
  have "service_inv (svc_backend s) w"
    using new_backend_inv [OF assms(2)] new_service_backend [OF assms(3)] by (simp add: new_memory_backend_def)
  then have "service_inv (svc_backend s1) w1" using serve_evolves [OF assms(1) _ assms(4)] by simp
  then show ?thesis using serve_evolves [OF assms(1) _ assms(5)] by simp
qed

text \<open>
  C4. A key is charged once: if a creation returned a payment, then after any further
  requests the same request returns that payment again, with the refunds made since, and
  without calling a provider.
\<close>

theorem created_once:
  assumes "payment_provider ops" "service_inv (svc_backend s) w"
    and "create sha ops (memory_ops sep) data (s, w) = (Some (Inr p), (s1, w1))"
    and "serve sha ops (memory_ops sep) rs (s1, w1) = (s2, w2)"
  shows "\<exists>p' s3. evolves p p' \<and> (\<forall>ops'. create sha ops' (memory_ops sep) data (s2, w2) = (Some (Inr p'), (s3, w2)))"
proof -
  have post: "create_post sep data (request_fingerprint sha data) (svc_providers s) (svc_backend s) w (Inr p) (svc_backend s1) w1"
    using create_memory [OF assms(1,2), of sha sep data] assms(3) by auto
  then have inv1: "service_inv (svc_backend s1) w1" and fp: "pay_fingerprint p = request_fingerprint sha data"
    and L: "ledger (svc_backend s1) (request_key data) = Some p"
    by (auto simp: create_post_def spec_create_simps payment_for_def)
  have inv2: "service_inv (svc_backend s2) w2"
    and ev: "ledger_evolves (ledger (svc_backend s1)) (ledger (svc_backend s2))"
    using serve_evolves [OF assms(1) _ assms(4)] inv1 by simp_all
  obtain p' where p': "ledger (svc_backend s2) (request_key data) = Some p'" "evolves p p'"
    using ev L unfolding ledger_evolves_def by blast
  have "pay_fingerprint p' = request_fingerprint sha data" using p'(2) fp by (auto simp: evolves_def)
  then show ?thesis using create_known_key [OF inv2 p'(1) refl, of sha sep] p'(2) by auto
qed


subsection \<open>Evaluations\<close>

text \<open>
  A service over two mock providers with nothing stored, and one whose store holds a
  succeeded payment for the sample request (its fingerprint under the identity in place
  of the hash).
\<close>

definition sample_service :: "memory_backend PaymentService" where
  "sample_service = projr (new_PaymentService fleet new_memory_backend None 3 30 (Some []) ''round_robin'' None 0)"

lemma sample_service_new:
  "new_PaymentService fleet new_memory_backend None 3 30 (Some []) ''round_robin'' None 0 = Inr sample_service"
proof -
  have "\<exists>s. new_PaymentService fleet new_memory_backend None 3 30 (Some []) ''round_robin'' None 0 = Inr s"
    by (simp add: new_PaymentService_def new_ProviderRouter_def ROUTING_STRATEGIES_def new_CircuitBreaker_def
        set_provider_concurrency_def Let_def stripe_def adyen_def MockStripeProvider_def MockAdyenProvider_def
        new_MockProvider_def default_ProviderConfig_def)
  then show ?thesis by (auto simp: sample_service_def)
qed

lemma sample_world_inj: "inj (uuid_at sample_world)"
  by (simp add: sample_world_def inj_def)

lemma sample_service_inv: "service_inv (svc_backend sample_service) sample_world"
  using new_backend_inv [OF sample_world_inj] new_service_backend [OF sample_service_new]
  by (simp add: new_memory_backend_def)

definition paid_payment :: Payment where
  "paid_payment = sample_payment\<lparr>pay_idempotency_key := ''key'', pay_provider := Some ''mockstripe'',
     pay_fingerprint := request_fingerprint (\<lambda>t. t) sample_input\<rparr>"

definition later_world :: world where
  "later_world = sample_world\<lparr>tick := 10\<rparr>"

definition paid_backend :: memory_backend where
  "paid_backend = new_memory_backend\<lparr>mbk_store := save paid_payment new_InMemoryPaymentStore\<rparr>"

definition paid_service :: "memory_backend PaymentService" where
  "paid_service = sample_service\<lparr>svc_backend := paid_backend\<rparr>"

lemma paid_payment_fields [simp]:
  "pay_id paid_payment = 0" "pay_merchant_id paid_payment = ''m''" "pay_idempotency_key paid_payment = ''key''"
  "pay_status paid_payment = SUCCEEDED" "pay_refunds paid_payment = []" "pay_refunded_amount paid_payment = 0"
  "pay_amount paid_payment = 100" "pay_provider paid_payment = Some ''mockstripe''"
  "pay_fingerprint paid_payment = request_fingerprint (\<lambda>t. t) sample_input"
  by (simp_all add: paid_payment_def sample_payment_def new_Payment_def uuid4_def utcnow_def sample_world_def)

lemma paid_can_save: "can_save new_InMemoryPaymentStore paid_payment"
  by (simp add: can_save_def new_InMemoryPaymentStore_def get_def get_by_idempotency_def)

lemma paid_ledger:
  "ledger paid_backend (request_key sample_input) = Some paid_payment"
  "get i (mbk_store paid_backend) = (if i = 0 then Some paid_payment else None)"
proof -
  show "ledger paid_backend (request_key sample_input) = Some paid_payment"
    using in_memory.gk_sv [OF new_store_inv paid_can_save]
    by (simp add: ledger_def paid_backend_def request_key_def sample_input_def key_of_def)
  have "get i new_InMemoryPaymentStore = None" by (simp add: get_def new_InMemoryPaymentStore_def)
  then show "get i (mbk_store paid_backend) = (if i = 0 then Some paid_payment else None)"
    by (simp add: paid_backend_def)
qed

lemma paid_inv: "service_inv (svc_backend paid_service) later_world"
proof -
  have st: "store_inv (mbk_store paid_backend)"
    using in_memory.sv_invar [OF new_store_inv paid_can_save] by (simp add: paid_backend_def)
  have ob: "mbk_outbox paid_backend = new_InMemoryPaymentStore"
    "mbk_idempotency paid_backend = new_MemoryIdempotencyCoordinator"
    "known_events (mbk_store paid_backend) = {}" "known_events new_InMemoryPaymentStore = {}"
    by (simp_all add: paid_backend_def new_memory_backend_def known_events_def new_InMemoryPaymentStore_def save_def)
  have "0 \<in> drawn later_world" by (simp add: drawn_def later_world_def sample_world_def)
  then have "ids_ok paid_backend later_world"
    by (simp add: ids_ok_def paid_ledger(2) ob later_world_def sample_world_def inj_def)
  moreover have "payments_ok paid_backend"
    by (simp add: payments_ok_def paid_ledger(2) ledger_ok_fresh)
  moreover have "claims_coherent paid_backend"
    by (simp add: claims_coherent_def ob idm_view_def new_MemoryIdempotencyCoordinator_def)
  ultimately show ?thesis
    using st new_store_inv new_idm_inv by (simp add: paid_service_def service_inv_def stores_ok_def ob)
qed

theorem create_refines_witness:
  "\<exists>r s' w'. create (\<lambda>t. t) mock_ops (memory_ops True) sample_input (sample_service, sample_world) = (Some r, (s', w')) \<and>
     service_inv (svc_backend s') w'"
  using create_refines [OF mock.payment_provider_axioms sample_service_inv, of "\<lambda>t. t" True sample_input] by blast


theorem refund_spec_witness:
  "\<exists>r s' w'. refund mock_ops (memory_ops False) 0 (Some 40) (paid_service, later_world) = (r, (s', w')) \<and>
     service_inv (svc_backend s') w'"
proof -
  obtain r s' w' where run: "refund mock_ops (memory_ops False) 0 (Some 40) (paid_service, later_world) = (r, (s', w'))"
    by (metis prod.collapse)
  then show ?thesis using refund_spec [OF mock.payment_provider_axioms paid_inv run] by blast
qed

theorem created_once_witness:
  "\<exists>p' s3 w3. evolves paid_payment p' \<and>
     create (\<lambda>t. t) mock_ops (memory_ops False) sample_input
       (serve (\<lambda>t. t) mock_ops (memory_ops False) [RefundCall 0 (Some 40)]
         (snd (create (\<lambda>t. t) mock_ops (memory_ops False) sample_input (paid_service, later_world)))) = (Some (Inr p'), (s3, w3))"
proof -
  obtain s1 where c: "create (\<lambda>t. t) mock_ops (memory_ops False) sample_input (paid_service, later_world) =
      (Some (Inr paid_payment), (s1, later_world))"
    using create_known_key [OF paid_inv _ refl, of sample_input paid_payment "\<lambda>t. t" False] paid_ledger(1)
    by (auto simp: paid_service_def)
  obtain s2 w2 where a: "serve (\<lambda>t. t) mock_ops (memory_ops False) [RefundCall 0 (Some 40)] (s1, later_world) = (s2, w2)"
    by (metis prod.collapse)
  have "\<exists>p' s3. evolves paid_payment p' \<and>
      create (\<lambda>t. t) mock_ops (memory_ops False) sample_input (s2, w2) = (Some (Inr p'), (s3, w2))"
    using created_once [OF mock.payment_provider_axioms paid_inv c a] by blast
  then show ?thesis unfolding c snd_conv a by blast
qed

end
