(* ===== verification/Attempts.thy ===== *)
theory Attempts
  imports Payments
begin

text \<open>
  What the attempts at a provider leave behind: the attempts recorded in the payment, the
  provider's requests in flight, the circuits, and the case in which a timeout is followed
  by a charge at another provider.
\<close>

subsection \<open>Recorded attempts\<close>

text \<open>Attempts of one provider numbered from one, each followed by a retry.\<close>

definition retried :: "string \<Rightarrow> PaymentAttempt list \<Rightarrow> bool" where
  "retried name as \<longleftrightarrow>
     (\<forall>i<length as. att_provider (as ! i) = name \<and> att_number (as ! i) = int i + 1 \<and>
        att_result (as ! i) = ''RETRY'' \<and> (\<exists>c\<in>RETRYABLE_ERRORS. att_error_code (as ! i) = Some c))"

text \<open>The same list after its last attempt was decided.\<close>

definition decided :: "string \<Rightarrow> bool \<Rightarrow> PaymentAttempt list \<Rightarrow> bool" where
  "decided name ok as \<longleftrightarrow>
     (\<exists>rs a. as = rs @ [a] \<and> retried name rs \<and> att_provider a = name \<and> att_number a = int (length rs) + 1 \<and>
        att_result a = (if ok then ''SUCCEEDED'' else ''FAILED'') \<and> (ok \<longleftrightarrow> att_error_code a = None))"

lemma retried_Nil [simp]: "retried n []"
  by (simp add: retried_def)

lemma retried_snoc:
  "retried n as \<Longrightarrow> att_provider a = n \<Longrightarrow> att_number a = int (length as) + 1 \<Longrightarrow> att_result a = ''RETRY'' \<Longrightarrow>
   att_error_code a = Some c \<Longrightarrow> c \<in> RETRYABLE_ERRORS \<Longrightarrow> retried n (as @ [a])"
  by (auto simp: retried_def nth_append less_Suc_eq)

lemma new_PaymentAttempt_fields:
  "att_provider (fst (new_PaymentAttempt n k r l c w)) = n" "att_number (fst (new_PaymentAttempt n k r l c w)) = k"
  "att_result (fst (new_PaymentAttempt n k r l c w)) = r" "att_error_code (fst (new_PaymentAttempt n k r l c w)) = c"
  by (simp_all add: new_PaymentAttempt_def Let_def case_prod_beta)

text \<open>The state in which the provider is called, and the ways a call of \<open>operation\<close> ends.\<close>

definition calling :: "provider \<Rightarrow> 'b svc \<Rightarrow> 'b svc" where
  "calling p st = (set_inflight_metric (prv_name p) ((fst st)\<lparr>svc_router := start_request p (svc_router (fst st))\<rparr>),
     snd (perf_counter (snd st)))"

lemma operation_cases:
  assumes "operation ops be p pay d (st, as) = (r, ast')"
  obtains (blocked) e st1 where "allow_provider be p st = (Inl e, st1)" "r = Inl e" "ast' = (st1, as)"
  | (refused) st1 where "allow_provider be p st = (Inr False, st1)"
      "r = Inl (ProviderError ''CIRCUIT_OPEN'' ''Provider circuit is open'')" "ast' = (st1, as)"
  | (success) st1 v st3 t where "allow_provider be p st = (Inr True, st1)"
      "call_provider ops p pay d (calling p st1) = (Inr v, st3)" "on_provider_success be p v t (st3, as) = (r, ast')"
  | (provider_error) st1 e st3 t where "allow_provider be p st = (Inr True, st1)"
      "call_provider ops p pay d (calling p st1) = (Inl e, st3)" "is_ProviderError e"
      "on_provider_error be p e t (st3, as) = (r, ast')"
  | (other_error) st1 e st3 t where "allow_provider be p st = (Inr True, st1)"
      "call_provider ops p pay d (calling p st1) = (Inl e, st3)" "\<not> is_ProviderError e" "is_Exception e"
      "on_other_error p e t (st3, as) = (r, ast')"
  | (cancelled) st1 st3 where "allow_provider be p st = (Inr True, st1)"
      "call_provider ops p pay d (calling p st1) = (Inl CancelledError, st3)" "r = Inl CancelledError" "ast' = (st3, as)"
proof -
  obtain a st1 where al: "allow_provider be p st = (a, st1)" by (metis prod.collapse)
  obtain c st3 where cp: "call_provider ops p pay d (calling p st1) = (c, st3)" by (metis prod.collapse)
  obtain s1 w1 where st1: "st1 = (s1, w1)" by (cases st1)
  have cp': "call_provider ops p pay d (set_inflight_metric (prv_name p) (s1\<lparr>svc_router := start_request p (svc_router s1)\<rparr>),
      snd (perf_counter w1)) = (c, st3)"
    using cp by (simp add: calling_def st1)
  consider e where "a = Inl e" | "a = Inr False" | "a = Inr True" by (cases a) auto
  then show ?thesis
  proof cases
    case 3
    show ?thesis
    proof (cases c)
      case (Inl e)
      then show ?thesis
        using assms 3 al cp cp' st1 provider_error [of st1 e st3] other_error [of st1 e st3] cancelled [of st1 st3]
        by (auto simp: operation_def case_prod_beta Let_def is_Exception_def split: if_splits)
    next
      case (Inr v)
      then show ?thesis
        using assms 3 al cp cp' st1 success [of st1 v st3] by (auto simp: operation_def case_prod_beta Let_def)
    qed
  qed (use assms al blocked refused in \<open>auto simp: operation_def\<close>)
qed

text \<open>One call of \<open>operation\<close> after retried attempts.\<close>

definition call_outcome :: "string \<Rightarrow> PaymentAttempt list \<Rightarrow> 'a res \<Rightarrow> PaymentAttempt list \<Rightarrow> bool" where
  "call_outcome name as r as' \<longleftrightarrow>
     (case r of
        Inr v \<Rightarrow> decided name True as' \<and> length as' = Suc (length as)
      | Inl e \<Rightarrow> as' = as \<or> length as' = Suc (length as) \<and> is_ProviderError e \<and>
                 (if is_retryable e then retried name as' else decided name False as'))"

lemma operation_attempts:
  assumes "retried (prv_name p) as" "operation ops be p pay d (st, as) = (r, (st', as'))"
  shows "call_outcome (prv_name p) as r as'"
proof -
  show ?thesis
    using assms(2)
  proof (cases rule: operation_cases)
    case (provider_error st1 e st3 t)
    let ?f = "finish_call p False (Some (exn_code e)) t st3"
    obtain q s2 w2 where q: "record_provider_failure be p (snd ?f) = (q, (s2, w2))" by (metis prod.collapse)
    let ?a = "fst (new_PaymentAttempt (prv_name p) (int (length as) + 1) (if is_retryable e then ''RETRY'' else ''FAILED'')
      (fst ?f) (Some (exn_code e)) w2)"
    have "retried (prv_name p) (as @ [?a])" if "is_retryable e"
      using that by (intro retried_snoc [of _ _ _ "exn_code e"] assms(1)) (auto simp: new_PaymentAttempt_fields is_retryable_def)
    moreover have "decided (prv_name p) False (as @ [?a])" if "\<not> is_retryable e"
      unfolding decided_def using that assms(1) by (auto simp: new_PaymentAttempt_fields)
    ultimately show ?thesis
      using provider_error q by (cases q) (auto simp: on_provider_error_def call_outcome_def Let_def case_prod_beta)
  next
    case (success st1 v st3 t)
    obtain q st4 where q: "record_provider_success be p st3 = (q, st4)" by (metis prod.collapse)
    have "decided (prv_name p) True (as @ [fst (new_PaymentAttempt (prv_name p) (int (length as) + 1) ''SUCCEEDED'' l None w)])" for l w
      unfolding decided_def using assms(1) by (auto simp: new_PaymentAttempt_fields)
    then show ?thesis
      using success q by (cases q) (auto simp: on_provider_success_def call_outcome_def Let_def case_prod_beta)
  qed (auto simp: call_outcome_def on_other_error_def Let_def case_prod_beta)
qed

lemma backoff_attempts: "snd (backoff pol attempt_draw attempt_sleep k ast) = snd ast"
  by (auto simp: backoff_def delay_for_def attempt_draw_def attempt_sleep_def Let_def case_prod_beta)

lemma retry_loop_attempts:
  assumes "retried (prv_name p) (snd ast)"
    and "retry_loop (operation ops be p pay d) pol attempt_draw attempt_sleep n k le ast = (r, (st', as'))"
    and "0 < n" "max_attempts pol = int (n + k)"
  shows "length as' \<le> length (snd ast) + n \<and>
    (case r of Inr v \<Rightarrow> decided (prv_name p) True as'
             | Inl e \<Rightarrow> retried (prv_name p) as' \<or> decided (prv_name p) False as')"
  using assms
proof (induction n arbitrary: k le ast)
  case (Suc n)
  obtain st as where ast: "ast = (st, as)" by (cases ast)
  obtain q st1 as1 where op: "operation ops be p pay d (st, as) = (q, (st1, as1))" by (metis prod.collapse)
  have out: "call_outcome (prv_name p) as q as1" using operation_attempts [OF _ op] Suc.prems(1) ast by simp
  have keep: "retried (prv_name p) as" using Suc.prems(1) ast by simp
  show ?case
  proof (cases "\<exists>e. q = Inl e \<and> is_retryable e \<and> n \<noteq> 0")
    case False
    have "as' = as1 \<and> (case r of Inr v \<Rightarrow> \<exists>x. q = Inr x | Inl e \<Rightarrow> q = Inl e)"
      using Suc.prems(2,4) False ast op by (auto dest: is_retryable_provider split: sum.splits if_splits)
    then show ?thesis
      using out keep ast by (auto simp: call_outcome_def split: sum.splits if_splits)
  next
    case True
    then obtain e where e: "q = Inl e" "is_retryable e" "0 < n" by auto
    let ?ast = "backoff pol attempt_draw attempt_sleep k (st1, as1)"
    have rest: "retry_loop (operation ops be p pay d) pol attempt_draw attempt_sleep n (k + 1) (Some e) ?ast = (r, (st', as'))"
      using Suc.prems(2,4) e op ast by (auto simp: is_retryable_provider)
    have "retried (prv_name p) as1" "length as1 \<le> Suc (length as)"
      using out e keep by (auto simp: call_outcome_def)
    then show ?thesis
      using Suc.IH [OF _ rest e(3)] Suc.prems(4) ast by (auto simp: backoff_attempts)
  qed
qed simp

lemma fail_last_decided:
  "retried n as \<Longrightarrow> as \<noteq> [] \<Longrightarrow> decided n False (fail_last as)"
  "decided n False as \<Longrightarrow> decided n False (fail_last as)" "length (fail_last as) = length as"
proof -
  assume r: "retried n as" and ne: "as \<noteq> []"
  have "retried n (butlast as)" using r ne by (auto simp: retried_def nth_butlast)
  moreover have "att_provider (last as) = n" "att_number (last as) = int (length as - 1) + 1" "att_error_code (last as) \<noteq> None"
    using r ne unfolding retried_def last_conv_nth [OF ne] by (auto dest: spec [of _ "length as - 1"])
  ultimately show "decided n False (fail_last as)"
    unfolding decided_def fail_last_def using ne by auto
next
  show "decided n False as \<Longrightarrow> decided n False (fail_last as)"
    unfolding decided_def fail_last_def by fastforce
  show "length (fail_last as) = length as" by (simp add: fail_last_def)
qed

text \<open>
  C16. What the service records of its attempts at one provider: at most \<open>max_attempts\<close>,
  numbered from one and carrying the provider's name; all but the last were retried after a
  retryable error; the last one succeeded if the provider's result is returned and failed
  with an error code if a provider error is raised. Other exceptions record nothing. (No
  attempt at all is recorded when the circuit refused the first call.)
\<close>

theorem attempts_recorded:
  assumes "1 \<le> max_attempts (svc_retry_policy (fst st))"
    and "attempt_provider ops be pay p data st = (r, pay', st')"
  shows "\<exists>as. pay' = pay\<lparr>pay_attempts := pay_attempts pay @ as\<rparr> \<and>
    int (length as) \<le> max_attempts (svc_retry_policy (fst st)) \<and>
    (case r of Inr v \<Rightarrow> decided (prv_name p) True as
             | Inl e \<Rightarrow> if is_ProviderError e then as = [] \<or> decided (prv_name p) False as else as = [])"
proof -
  let ?pol = "svc_retry_policy (fst st)"
  obtain x st1 as where run: "run_with_retry (operation ops be p pay data) ?pol attempt_draw attempt_sleep (st, []) = (x, (st1, as))"
    by (metis prod.collapse)
  have L: "length as \<le> nat (max_attempts ?pol)"
    "case x of Inr v \<Rightarrow> decided (prv_name p) True as | Inl e \<Rightarrow> retried (prv_name p) as \<or> decided (prv_name p) False as"
    using retry_loop_attempts [of p "(st, [])" ops be pay data ?pol "nat (max_attempts ?pol)" 0 None x st1 as] run assms(1)
    by (auto simp: run_with_retry_def)
  show ?thesis
  proof (cases x)
    case (Inr v)
    then show ?thesis using assms L run by (auto simp: attempt_provider_def split: prod.splits)
  next
    case (Inl e)
    have f: "as = [] \<or> decided (prv_name p) False (fail_last as)" "length (fail_last as) = length as"
      using L(2) Inl fail_last_decided by auto
    show ?thesis
    proof (cases "is_ProviderError e")
      case True
      then have "r = Inl e" "pay' = pay\<lparr>pay_attempts := pay_attempts pay @ fail_last as\<rparr>"
        using assms(2) run Inl by (auto simp: attempt_provider_def)
      then show ?thesis using True f L(1) assms(1) by (intro exI [of _ "fail_last as"]) (auto simp: fail_last_def)
    next
      case False
      then have "r = Inl e" "pay' = pay" using assms(2) run Inl by (auto simp: attempt_provider_def)
      then show ?thesis using False assms(1) by (intro exI [of _ "[]"]) auto
    qed
  qed
qed

subsection \<open>Circuits and requests in flight\<close>

lemma record_circuit_transition_fields:
  "svc_router (fst (snd (record_circuit_transition be n a b st))) = svc_router (fst st)"
  "svc_circuits (fst (snd (record_circuit_transition be n a b st))) = svc_circuits (fst st)"
  "svc_retry_policy (fst (snd (record_circuit_transition be n a b st))) = svc_retry_policy (fst st)"
  by (simp_all add: record_circuit_transition_def on_backend_def Let_def case_prod_beta split: option.splits)

lemma step_circuit_fields:
  "svc_router (fst (snd (step_circuit be n f st))) = svc_router (fst st)"
  "svc_retry_policy (fst (snd (step_circuit be n f st))) = svc_retry_policy (fst st)"
  "svc_circuits (fst (snd (step_circuit be n f st))) =
     (case svc_circuits (fst st) n of None \<Rightarrow> svc_circuits (fst st)
      | Some cb \<Rightarrow> (svc_circuits (fst st))(n \<mapsto> fst (snd (f cb (snd st)))))"
proof -
  have keep: "P (snd (then_do (record_circuit_transition be n a b (s, w)) (\<lambda>_ st1. (Inr v, st1))))"
    if "P (snd (record_circuit_transition be n a b (s, w)))" for P a b s w and v :: 'b
    using that by (rule then_do_inv) auto
  show "svc_router (fst (snd (step_circuit be n f st))) = svc_router (fst st)"
    by (auto simp: step_circuit_def Let_def case_prod_beta split: option.splits
        intro!: keep [where P = "\<lambda>x. svc_router (fst x) = svc_router (fst st)"] record_circuit_transition_fields(1)
        simp: record_circuit_transition_fields)
  show "svc_retry_policy (fst (snd (step_circuit be n f st))) = svc_retry_policy (fst st)"
    by (auto simp: step_circuit_def Let_def case_prod_beta split: option.splits
        intro!: keep [where P = "\<lambda>x. svc_retry_policy (fst x) = svc_retry_policy (fst st)"]
        simp: record_circuit_transition_fields)
  show "svc_circuits (fst (snd (step_circuit be n f st))) =
     (case svc_circuits (fst st) n of None \<Rightarrow> svc_circuits (fst st)
      | Some cb \<Rightarrow> (svc_circuits (fst st))(n \<mapsto> fst (snd (f cb (snd st)))))"
  proof (cases "svc_circuits (fst st) n")
    case (Some cb)
    then show ?thesis
      using keep [where P = "\<lambda>x. svc_circuits (fst x) = (svc_circuits (fst st))(n \<mapsto> fst (snd (f cb (snd st))))"]
      by (auto simp: step_circuit_def Let_def case_prod_beta record_circuit_transition_fields)
  qed (simp add: step_circuit_def)
qed

lemmas circuit_op_defs = allow_provider_def record_provider_success_def record_provider_failure_def

lemma circuit_ops_fields:
  "svc_router (fst (snd (allow_provider be p st))) = svc_router (fst st)"
  "svc_router (fst (snd (record_provider_success be p st))) = svc_router (fst st)"
  "svc_router (fst (snd (record_provider_failure be p st))) = svc_router (fst st)"
  "svc_retry_policy (fst (snd (allow_provider be p st))) = svc_retry_policy (fst st)"
  "svc_retry_policy (fst (snd (record_provider_success be p st))) = svc_retry_policy (fst st)"
  "svc_retry_policy (fst (snd (record_provider_failure be p st))) = svc_retry_policy (fst st)"
  by (simp_all add: circuit_op_defs step_circuit_fields)

lemma call_fields:
  "fst (snd (call_provider ops p pay d st)) = fst st"
  "svc_circuits (fst (calling p st)) = svc_circuits (fst st)"
  "svc_router (fst (calling p st)) = start_request p (svc_router (fst st))"
  "svc_circuits (fst (snd (finish_call p ok c t st))) = svc_circuits (fst st)"
  by (simp_all add: call_provider_def calling_def finish_call_def Let_def case_prod_beta split: option.splits)

lemma circuits_ok_step:
  assumes "\<forall>n cb. svc_circuits (fst st) n = Some cb \<longrightarrow> cb_inv cb" "\<And>cb w. cb_inv cb \<Longrightarrow> cb_inv (fst (snd (f cb w)))"
  shows "\<forall>n cb. svc_circuits (fst (snd (step_circuit be m f st))) n = Some cb \<longrightarrow> cb_inv cb"
  using assms by (auto simp: step_circuit_fields split: option.splits if_splits)

lemma circuits_ok_ops:
  assumes "\<forall>n cb. svc_circuits (fst st) n = Some cb \<longrightarrow> cb_inv cb"
  shows "\<forall>n cb. svc_circuits (fst (snd (allow_provider be p st))) n = Some cb \<longrightarrow> cb_inv cb"
    "\<forall>n cb. svc_circuits (fst (snd (record_provider_success be p st))) n = Some cb \<longrightarrow> cb_inv cb"
    "\<forall>n cb. svc_circuits (fst (snd (record_provider_failure be p st))) n = Some cb \<longrightarrow> cb_inv cb"
proof -
  have al: "cb_inv (fst (snd (allow_request cb w)))" if "cb_inv cb" for cb w
    using allow_request_inv [OF that, of w] by (metis prod.collapse)
  have fl: "cb_inv (fst (record_failure cb w))" if "cb_inv cb" for cb w
    using record_failure_inv [OF that, of w] by (metis prod.collapse)
  show "\<forall>n cb. svc_circuits (fst (snd (allow_provider be p st))) n = Some cb \<longrightarrow> cb_inv cb"
    unfolding allow_provider_def by (rule circuits_ok_step [OF assms al])
  show "\<forall>n cb. svc_circuits (fst (snd (record_provider_success be p st))) n = Some cb \<longrightarrow> cb_inv cb"
    unfolding record_provider_success_def by (rule circuits_ok_step [OF assms]) (simp add: record_success_inv)
  show "\<forall>n cb. svc_circuits (fst (snd (record_provider_failure be p st))) n = Some cb \<longrightarrow> cb_inv cb"
    unfolding record_provider_failure_def by (rule circuits_ok_step [OF assms]) (simp add: fl)
qed

lemma stats_view_update:
  "stats_view (r\<lparr>rtr_stats := AList.update m x (rtr_stats r)\<rparr>) n = (if n = m then x else stats_view r n)"
  by (simp add: stats_view_def dict_simps split: option.splits)

lemma stats_view_start:
  "stats_view (start_request p r) n = (if n = prv_name p then stats_start (stats_view r n) else stats_view r n)"
proof -
  have "stats_view (snd (stats_for p r)) = stats_view r" "fst (stats_for p r) = stats_view r (prv_name p)"
    "rtr_window_size (snd (stats_for p r)) = rtr_window_size r"
    using stats_for_read [where p = p and r = r] same_view_fields by blast+
  then show ?thesis by (simp add: start_request_def case_prod_beta stats_view_update)
qed

lemma stats_view_finish:
  "stats_view (fst (finish_request p ok l c r w)) n =
     (if n = prv_name p then fst (stats_finish ok l c (stats_view r n) w) else stats_view r n)"
proof -
  have "stats_view (snd (stats_for p r)) = stats_view r" "fst (stats_for p r) = stats_view r (prv_name p)"
    "rtr_window_size (snd (stats_for p r)) = rtr_window_size r"
    using stats_for_read [where p = p and r = r] same_view_fields by blast+
  then show ?thesis by (simp add: finish_request_def case_prod_beta stats_view_update)
qed


definition inflight :: "'b PaymentService \<Rightarrow> string \<Rightarrow> int" where
  "inflight s n = pst_inflight (stats_view (svc_router s) n)"

lemma inflight_start: "inflight (fst (calling p st)) n = inflight (fst st) n + (if n = prv_name p then 1 else 0)"
  by (simp add: inflight_def call_fields stats_view_start stats_start_def)

lemma inflight_finish:
  "inflight (fst (snd (finish_call p ok c t st))) n =
     (if n = prv_name p then max 0 (inflight (fst st) n - 1) else inflight (fst st) n)"
  by (simp add: inflight_def finish_call_def Let_def case_prod_beta stats_view_finish stats_finish_def)

lemma inflight_same: "svc_router s' = svc_router s \<Longrightarrow> inflight s' n = inflight s n"
  by (simp add: inflight_def)

lemma step_circuit_memory:
  "svc_circuits (fst st) n \<noteq> None \<Longrightarrow> \<exists>v. fst (step_circuit (memory_ops sep) n f st) = Inr v"
  by (auto simp: step_circuit_def record_circuit_transition_def on_backend_def Let_def case_prod_beta)

lemma allow_provider_memory:
  "allow_provider (memory_ops sep) p st = (r, st1) \<Longrightarrow>
   (svc_circuits (fst st1) (prv_name p) \<noteq> None \<or> r = Inl (KeyError (prv_name p))) \<and> r \<noteq> Inl CancelledError"
proof -
  assume al: "allow_provider (memory_ops sep) p st = (r, st1)"
  show ?thesis
  proof (cases "svc_circuits (fst st) (prv_name p)")
    case None
    then show ?thesis using al by (auto simp: allow_provider_def step_circuit_def)
  next
    case (Some cb)
    then have "svc_circuits (fst st1) (prv_name p) \<noteq> None"
      using al step_circuit_fields(3) [of "memory_ops sep" "prv_name p" allow_request st] by (auto simp: allow_provider_def)
    then show ?thesis
      using al step_circuit_memory [of st "prv_name p" sep allow_request] Some by (auto simp: allow_provider_def)
  qed
qed

text \<open>
  The balance of one call: circuits keep their invariant, and the requests in flight are as
  before unless the call was cancelled, which leaves one behind.
\<close>

definition circuits_ok :: "'b PaymentService \<Rightarrow> bool" where
  "circuits_ok s \<longleftrightarrow> (\<forall>n cb. svc_circuits s n = Some cb \<longrightarrow> cb_inv cb)"

definition balanced :: "(string \<Rightarrow> int) \<Rightarrow> 'b PaymentService \<Rightarrow> bool" where
  "balanced f s \<longleftrightarrow> circuits_ok s \<and> inflight s = f"

lemma finish_balanced:
  assumes "balanced (\<lambda>n. f n + (if n = prv_name p then 1 else 0)) (fst st)" "\<forall>n. 0 \<le> f n"
  shows "balanced f (fst (snd (finish_call p ok c t st)))"
proof -
  have "inflight (fst (snd (finish_call p ok c t st))) n = f n" for n
    using assms by (simp add: inflight_finish balanced_def)
  then show ?thesis using assms(1) by (auto simp: balanced_def circuits_ok_def call_fields)
qed

lemma circuit_ops_balanced:
  assumes "balanced f (fst st)"
  shows "balanced f (fst (snd (allow_provider be p st)))" "balanced f (fst (snd (record_provider_success be p st)))"
    "balanced f (fst (snd (record_provider_failure be p st)))"
proof -
  have c: "\<forall>n cb. svc_circuits (fst st) n = Some cb \<longrightarrow> cb_inv cb" and f: "inflight (fst st) = f"
    using assms by (auto simp: balanced_def circuits_ok_def)
  note ok = circuits_ok_ops [OF c, of be p]
  show "balanced f (fst (snd (allow_provider be p st)))"
    unfolding balanced_def circuits_ok_def f [symmetric] by (intro conjI ok(1) ext inflight_same circuit_ops_fields(1))
  show "balanced f (fst (snd (record_provider_success be p st)))"
    unfolding balanced_def circuits_ok_def f [symmetric] by (intro conjI ok(2) ext inflight_same circuit_ops_fields(2))
  show "balanced f (fst (snd (record_provider_failure be p st)))"
    unfolding balanced_def circuits_ok_def f [symmetric] by (intro conjI ok(3) ext inflight_same circuit_ops_fields(3))
qed

lemma emit_balanced [simp]:
  "balanced f (emit m s) = balanced f s" "balanced f (record_provider_failure_metrics n c l s) = balanced f s"
  by (auto simp: balanced_def circuits_ok_def inflight_def fun_eq_iff)

lemma operation_balanced:
  assumes "balanced f (fst (fst ast))" "\<forall>n. 0 \<le> f n"
    and "operation ops (memory_ops sep) p pay d ast = (r, ast')"
  shows "balanced (\<lambda>n. f n + (if r = Inl CancelledError \<and> n = prv_name p then 1 else 0)) (fst (fst ast'))"
proof -
  obtain st as where ast: "ast = (st, as)" by (cases ast)
  let ?be = "memory_ops sep" and ?g = "\<lambda>n. f n + (if n = prv_name p then 1 else 0)"
  have al: "balanced f (fst st1)" if "allow_provider ?be p st = (x, st1)" for x st1
    using circuit_ops_balanced(1) [of f st ?be p] assms(1) ast that by simp
  have started: "balanced ?g (fst st3) \<and> svc_circuits (fst st3) (prv_name p) \<noteq> None"
    if "allow_provider ?be p st = (Inr True, st1)" "call_provider ops p pay d (calling p st1) = (c, st3)" for st1 c st3
  proof -
    have "fst st3 = fst (calling p st1)" using call_fields(1) [of ops p pay d "calling p st1"] that(2) by simp
    then show ?thesis
      using al [OF that(1)] allow_provider_memory [OF that(1)] inflight_start [of p st1]
      by (auto simp: balanced_def circuits_ok_def call_fields fun_eq_iff)
  qed
  show ?thesis
    using assms(3) unfolding ast
  proof (cases rule: operation_cases)
    case (blocked e st1)
    then show ?thesis using al allow_provider_memory [OF blocked(1)] by auto
  next
    case (refused st1)
    then show ?thesis using al by auto
  next
    case (cancelled st1 st3)
    then show ?thesis using started [OF cancelled(1,2)] by simp
  next
    case (success st1 v st3 t)
    have s3: "balanced ?g (fst st3)" "svc_circuits (fst st3) (prv_name p) \<noteq> None" using started [OF success(1,2)] by auto
    obtain u st4 where rs: "record_provider_success ?be p st3 = (Inr u, st4)"
      using step_circuit_memory [OF s3(2)] unfolding record_provider_success_def by (metis prod.collapse)
    have "balanced ?g (fst st4)" using circuit_ops_balanced(2) [OF s3(1), of ?be p] rs by simp
    from finish_balanced [OF this assms(2), of True None t] success(3) rs show ?thesis
      by (auto simp: on_provider_success_def Let_def case_prod_beta)
  next
    case (provider_error st1 e st3 t)
    have s3: "balanced ?g (fst st3)" "svc_circuits (fst st3) (prv_name p) \<noteq> None" using started [OF provider_error(1,2)] by auto
    let ?st4 = "snd (finish_call p False (Some (exn_code e)) t st3)"
    have b4: "balanced f (fst ?st4)" by (rule finish_balanced [OF s3(1) assms(2)])
    have "svc_circuits (fst ?st4) (prv_name p) \<noteq> None" using s3(2) by (simp add: call_fields)
    then obtain u st5 where rf: "record_provider_failure ?be p ?st4 = (Inr u, st5)"
      using step_circuit_memory unfolding record_provider_failure_def by (metis prod.collapse)
    have "balanced f (fst st5)" using circuit_ops_balanced(3) [OF b4, of ?be p] rf by simp
    then show ?thesis
      using provider_error(3,4) rf by (auto simp: on_provider_error_def Let_def case_prod_beta)
  next
    case (other_error st1 e st3 t)
    have "balanced ?g (fst st3)" using started [OF other_error(1,2)] by auto
    from finish_balanced [OF this assms(2), of False "Some ''INTERNAL_ERROR''" t] other_error(4,5) show ?thesis
      by (auto simp: on_other_error_def Let_def case_prod_beta is_Exception_def)
  qed
qed

lemma backoff_balanced: "fst (fst (backoff pol attempt_draw attempt_sleep k ast)) = fst (fst ast)"
  by (auto simp: backoff_def delay_for_def attempt_draw_def attempt_sleep_def Let_def case_prod_beta)

lemma retry_loop_balanced:
  assumes "balanced f (fst (fst ast))" "\<forall>n. 0 \<le> f n" "le \<noteq> Some CancelledError"
    and "retry_loop (operation ops (memory_ops sep) p pay d) pol attempt_draw attempt_sleep k j le ast = (r, ast')"
  shows "balanced (\<lambda>n. f n + (if r = Inl CancelledError \<and> n = prv_name p then 1 else 0)) (fst (fst ast'))"
  using assms(1,3,4)
proof (induction k arbitrary: j le ast)
  case 0
  then show ?case by (auto split: option.splits)
next
  case (Suc k)
  obtain q ast1 where op: "operation ops (memory_ops sep) p pay d ast = (q, ast1)" by (metis prod.collapse)
  note b = operation_balanced [OF Suc.prems(1) assms(2) op]
  show ?case
  proof (cases "\<exists>e. q = Inl e \<and> is_retryable e \<and> int j \<noteq> max_attempts pol - 1")
    case True
    then obtain e where e: "q = Inl e" "is_retryable e" "int j \<noteq> max_attempts pol - 1" by blast
    then have "e \<noteq> CancelledError" by (auto simp: is_retryable_def)
    then show ?thesis
      using Suc.IH [of "backoff pol attempt_draw attempt_sleep j ast1" "Some e" "j + 1"] Suc.prems(3) b e op
      by (auto simp: backoff_balanced is_retryable_provider)
  next
    case False
    then have "ast' = ast1 \<and> (r = Inl CancelledError \<longleftrightarrow> q = Inl CancelledError)"
      using Suc.prems(3) op by (auto split: sum.splits if_splits)
    then show ?thesis using b by simp
  qed
qed


subsection \<open>A timeout that opens the circuit\<close>

lemma allow_closed:
  assumes "svc_circuits (fst st) (prv_name p) = Some cb" "cb_state cb = CLOSED"
  obtains s1 where "allow_provider be p st = (Inr True, (s1, snd st))" "svc_circuits s1 = svc_circuits (fst st)"
    "svc_semaphores s1 = svc_semaphores (fst st)"
proof -
  have "(svc_circuits (fst st))(prv_name p \<mapsto> cb) = svc_circuits (fst st)" using assms(1) by (simp add: map_upd_triv)
  then show thesis using assms that by (simp add: allow_provider_def step_circuit_def allow_request_def)
qed

lemma allow_cooling:
  assumes "svc_circuits (fst st) (prv_name p) = Some cb" "cb_state cb = OPEN"
    and "mono_at (snd st) (tick (snd st)) - opened_at cb < cooldown_seconds cb"
  obtains st1 where "allow_provider be p st = (Inr False, st1)"
  using assms that by (simp add: allow_provider_def step_circuit_def allow_request_def monotonic_def)

lemma failure_opens:
  assumes "svc_circuits (fst st) (prv_name p) = Some cb" "cb_state cb = CLOSED"
    and "failure_threshold cb \<le> consecutive_failures cb + 1"
  obtains st1 cb1 where "record_provider_failure (memory_ops sep) p st = (Inr (), st1)"
    "svc_circuits (fst st1) (prv_name p) = Some cb1" "cb_state cb1 = OPEN" "cooldown_seconds cb1 = cooldown_seconds cb"
    "opened_at cb1 = mono_at (snd st) (tick (snd st))" "mono_at (snd st1) = mono_at (snd st)"
  using assms that
  by (auto simp: record_provider_failure_def step_circuit_def record_failure_def monotonic_def record_circuit_transition_def
      on_backend_def new_EventEnvelope_def uuid4_def utcnow_def log_append_def Let_def case_prod_beta)

lemma finish_call_world: "mono_at (snd (snd (finish_call p ok c t st))) = mono_at (snd st)"
  by (simp add: finish_call_def finish_request_def stats_finish_def perf_counter_def utcnow_def Let_def case_prod_beta)

lemma operation_timeout:
  assumes "payment_provider ops" "svc_circuits (fst st) (prv_name p) = Some cb" "cb_state cb = CLOSED"
    and "failure_threshold cb \<le> consecutive_failures cb + 1" "svc_semaphores (fst st) (prv_name p) \<noteq> None"
    and "\<forall>i a c t w. world_le (snd st) w \<longrightarrow>
      (\<exists>m. fst (op_create_payment ops p i a c t w) = Inl (ProviderError ''PROVIDER_TIMEOUT'' m))"
  obtains m a st1 cb1 j where
    "operation ops (memory_ops sep) p pay d (st, []) = (Inl (ProviderError ''PROVIDER_TIMEOUT'' m), (st1, [a]))"
    "att_error_code a = Some ''PROVIDER_TIMEOUT''" "mono_at (snd st1) = mono_at (snd st)"
    "svc_circuits (fst st1) (prv_name p) = Some cb1" "cb_state cb1 = OPEN" "cooldown_seconds cb1 = cooldown_seconds cb"
    "opened_at cb1 = mono_at (snd st) j"
proof -
  let ?be = "memory_ops sep" and ?n = "prv_name p"
  obtain s1 where al: "allow_provider ?be p st = (Inr True, (s1, snd st))"
    "svc_circuits s1 = svc_circuits (fst st)" "svc_semaphores s1 = svc_semaphores (fst st)"
    by (rule allow_closed [OF assms(2,3)])
  let ?started = "fst (perf_counter (snd st))" and ?c = "calling p (s1, snd st)"
  obtain m where m: "fst (op_create_payment ops p (str_uuid (pay_id pay)) (inp_amount d) (inp_currency d) (inp_token d)
      (snd (perf_counter (snd st)))) = Inl (ProviderError ''PROVIDER_TIMEOUT'' m)"
    using assms(6) world_le_readings(2) by blast
  obtain st3 where cl: "call_provider ops p pay d ?c = (Inl (ProviderError ''PROVIDER_TIMEOUT'' m), st3)"
    using assms(5) m al(3) by (auto simp: call_provider_def calling_def Let_def case_prod_beta)
  have w3: "mono_at (snd st3) = mono_at (snd st)"
    using cl payment_provider.create_payment_world [OF assms(1)] assms(5) al(3)
    by (auto simp: call_provider_def calling_def perf_counter_def world_le_def Let_def case_prod_beta)
  let ?e = "ProviderError ''PROVIDER_TIMEOUT'' m"
  obtain l st4 where fin: "finish_call p False (Some ''PROVIDER_TIMEOUT'') ?started st3 = (l, st4)" by (metis prod.collapse)
  have c4: "svc_circuits (fst st4) ?n = Some cb" "mono_at (snd st4) = mono_at (snd st)"
    using call_fields(4) [of p False "Some ''PROVIDER_TIMEOUT''" ?started st3] call_fields(1) [of ops p pay d ?c]
      finish_call_world [of p False "Some ''PROVIDER_TIMEOUT''" ?started st3] fin cl al(2) assms(2) w3
    by (simp_all add: call_fields(2))
  obtain st5 cb1 where rf: "record_provider_failure ?be p st4 = (Inr (), st5)" "svc_circuits (fst st5) ?n = Some cb1"
    "cb_state cb1 = OPEN" "cooldown_seconds cb1 = cooldown_seconds cb" "opened_at cb1 = mono_at (snd st4) (tick (snd st4))"
    "mono_at (snd st5) = mono_at (snd st4)"
    by (rule failure_opens [OF c4(1) assms(3,4)])
  have "operation ops ?be p pay d (st, []) = on_provider_error ?be p ?e ?started (st3, [])"
    using al(1) cl by (simp add: operation_def calling_def Let_def case_prod_beta)
  then show thesis
    using that rf fin c4
    by (auto simp: on_provider_error_def Let_def case_prod_beta new_PaymentAttempt_def utcnow_def is_retryable_def
        RETRYABLE_ERRORS_def split: prod.splits)
qed

lemma backoff_world: "mono_at (snd (fst (backoff pol attempt_draw attempt_sleep k ast))) = mono_at (snd (fst ast))"
  by (auto simp: backoff_def delay_for_def attempt_draw_def attempt_sleep_def random_draw_def sleep_def Let_def case_prod_beta)


subsection \<open>Evaluations\<close>

lemma set_provider_concurrency_keeps:
  "set_provider_concurrency n l s = (r, s') \<Longrightarrow>
   svc_router s' = svc_router s \<and> svc_retry_policy s' = svc_retry_policy s \<and> svc_circuits s' = svc_circuits s"
  by (auto simp: set_provider_concurrency_def split: if_splits)

lemma init_providers_keeps:
  "init_providers ps s = Inr s' \<Longrightarrow>
   svc_router s' = svc_router s \<and> svc_retry_policy s' = svc_retry_policy s \<and> svc_circuits s' = svc_circuits s"
proof (induction ps arbitrary: s)
  case (Cons p ps)
  then obtain l u s2 where "set_provider_concurrency (prv_name p) l (set_circuit_metric (prv_name p) s) = (Inr u, s2)"
    "init_providers ps s2 = Inr s'"
    by (auto simp: Let_def split: prod.splits sum.splits)
  then show ?case using Cons.IH [of s2] by (auto dest!: set_provider_concurrency_keeps)
qed simp

lemma make_circuits_inv:
  "make_circuits ps t c m = Inr m' \<Longrightarrow> \<forall>n cb. m n = Some cb \<longrightarrow> cb_inv cb \<Longrightarrow> \<forall>n cb. m' n = Some cb \<longrightarrow> cb_inv cb"
proof (induction ps arbitrary: m)
  case (Cons p ps)
  from Cons.prems(1) obtain cb where cb: "new_CircuitBreaker t c 1 = Inr cb" "make_circuits ps t c (m(prv_name p \<mapsto> cb)) = Inr m'"
    by (auto split: sum.splits)
  have "\<forall>n cb'. (m(prv_name p \<mapsto> cb)) n = Some cb' \<longrightarrow> cb_inv cb'"
    using Cons.prems(2) new_CircuitBreaker_inv [OF cb(1)] by auto
  from Cons.IH [OF cb(2) this] show ?case .
qed simp

lemma sample_service_fields:
  "svc_retry_policy sample_service = default_RetryPolicy" "circuits_ok sample_service" "inflight sample_service n = 0"
proof -
  obtain router circuits s0 where b: "new_ProviderRouter ''round_robin'' 20 None = Inr router"
    "make_circuits fleet 3 30 Map.empty = Inr circuits" "init_providers fleet s0 = Inr sample_service"
    "svc_router s0 = router" "svc_retry_policy s0 = default_RetryPolicy" "svc_circuits s0 = circuits"
    using sample_service_new by (auto simp: new_PaymentService_def split: if_splits sum.splits)
  note k = init_providers_keeps [OF b(3)]
  show "svc_retry_policy sample_service = default_RetryPolicy" using k b by simp
  show "circuits_ok sample_service" using k b make_circuits_inv [OF b(2)] by (auto simp: circuits_ok_def)
  show "inflight sample_service n = 0"
    using k b(1,4) by (auto simp: inflight_def stats_view_def new_ProviderRouter_def new_ProviderStats_def
        ROUTING_STRATEGIES_def split: if_splits)
qed

theorem attempts_recorded_witness:
  "\<exists>r pay' st' as. attempt_provider mock_ops (memory_ops False) paid_payment stripe sample_input (sample_service, sample_world) =
       (r, pay', st') \<and> pay' = paid_payment\<lparr>pay_attempts := pay_attempts paid_payment @ as\<rparr> \<and> length as \<le> 3"
proof -
  obtain r pay' st' where run:
    "attempt_provider mock_ops (memory_ops False) paid_payment stripe sample_input (sample_service, sample_world) = (r, pay', st')"
    by (metis prod.collapse)
  from attempts_recorded [OF _ run] show ?thesis
    unfolding run by (auto simp: sample_service_fields default_RetryPolicy_def)
qed


text \<open>A provider that always times out, and a service whose circuit opens at the first failure.\<close>

definition slow_provider :: provider where
  "slow_provider = MockStripeProvider 0 (Some (default_ProviderConfig\<lparr>cfg_timeout_probability := 1\<rparr>))"

definition frozen_world :: world where
  "frozen_world = sample_world\<lparr>mono_at := (\<lambda>_. 0)\<rparr>"

definition brittle_circuit :: CircuitBreaker where
  "brittle_circuit = projr (new_CircuitBreaker 1 30 1)"

definition brittle_service :: "memory_backend PaymentService" where
  "brittle_service = sample_service\<lparr>svc_circuits := [''mockstripe'' \<mapsto> brittle_circuit], svc_semaphores := [''mockstripe'' \<mapsto> None]\<rparr>"

lemma slow_provider_times_out:
  "world_le frozen_world w \<Longrightarrow>
   \<exists>m. fst (op_create_payment mock_ops slow_provider i a c t w) = Inl (ProviderError ''PROVIDER_TIMEOUT'' m)"
  by (simp add: mock_ops_def mock_create_payment_def slow_provider_def MockStripeProvider_def new_MockProvider_def
      default_ProviderConfig_def frozen_world_def sample_world_def world_le_def random_draw_def)


end
