(* ===== verification/Sql_Repository.thy ===== *)
theory Sql_Repository
  imports Store "HOL-Library.Multiset"
begin

text \<open>
  The PostgreSQL profile (\<open>db/models.py\<close>, \<open>db/repository.py\<close>): the tables with the
  constraints their columns declare, the writes each repository method stages, and the
  commit that applies all of them or none. The engine itself is a parameter: all the
  adapter knows of the order of rows is that a query returns each of them once.
\<close>

subsection \<open>Tables\<close>

record MerchantRow =
  mrw_id :: string
  mrw_created_at :: datetime

record PaymentRow =
  prw_id :: uuid
  prw_merchant_id :: string
  prw_amount :: int
  prw_currency :: string
  prw_status :: string
  prw_payment_method_type :: string
  prw_idempotency_key :: string
  prw_request_fingerprint :: string
  prw_provider :: "string option"
  prw_provider_reference :: "string option"
  prw_refunded_amount :: int
  prw_created_at :: datetime
  prw_updated_at :: datetime

record PaymentAttemptRow =
  arw_id :: uuid
  arw_payment_id :: uuid
  arw_provider :: string
  arw_attempt_number :: int
  arw_result :: string
  arw_error_code :: "string option"
  arw_latency_ms :: int
  arw_created_at :: datetime

record RefundRow =
  rrw_id :: uuid
  rrw_payment_id :: uuid
  rrw_amount :: int
  rrw_provider_reference :: "string option"
  rrw_created_at :: datetime

record OutboxEventRow =
  orw_id :: uuid
  orw_event_type :: string
  orw_merchant_id :: string
  orw_aggregate_id :: "uuid option"
  orw_provider :: "string option"
  orw_version :: int
  orw_payload :: "(string, json) dict"
  orw_created_at :: datetime
  orw_published_at :: "datetime option"

record database =
  db_merchants :: "MerchantRow list"
  db_payments :: "PaymentRow list"
  db_attempts :: "PaymentAttemptRow list"
  db_refunds :: "RefundRow list"
  db_outbox :: "OutboxEventRow list"

definition empty_database :: database where
  "empty_database = \<lparr>db_merchants = [], db_payments = [], db_attempts = [], db_refunds = [], db_outbox = []\<rparr>"

text \<open>The domains of the column types: \<open>String(n)\<close>, a nullable \<open>String(n)\<close> and \<open>Integer\<close>.\<close>

definition varchar :: "nat \<Rightarrow> string \<Rightarrow> bool" where
  "varchar n s \<longleftrightarrow> length s \<le> n"

definition varchar_null :: "nat \<Rightarrow> string option \<Rightarrow> bool" where
  "varchar_null n s \<longleftrightarrow> (case s of None \<Rightarrow> True | Some t \<Rightarrow> varchar n t)"

definition int4 :: "int \<Rightarrow> bool" where
  "int4 i \<longleftrightarrow> - (2 ^ 31) \<le> i \<and> i < 2 ^ 31"

definition payment_row_ok :: "PaymentRow \<Rightarrow> bool" where
  "payment_row_ok r \<longleftrightarrow>
     int4 (prw_amount r) \<and> varchar 3 (prw_currency r) \<and> varchar 20 (prw_status r) \<and>
     varchar 30 (prw_payment_method_type r) \<and> varchar 255 (prw_idempotency_key r) \<and>
     varchar 64 (prw_request_fingerprint r) \<and> varchar_null 50 (prw_provider r) \<and>
     varchar_null 255 (prw_provider_reference r) \<and> int4 (prw_refunded_amount r)"

definition attempt_row_ok :: "PaymentAttemptRow \<Rightarrow> bool" where
  "attempt_row_ok r \<longleftrightarrow>
     varchar 50 (arw_provider r) \<and> int4 (arw_attempt_number r) \<and> varchar 30 (arw_result r) \<and>
     varchar_null 50 (arw_error_code r) \<and> int4 (arw_latency_ms r)"

definition refund_row_ok :: "RefundRow \<Rightarrow> bool" where
  "refund_row_ok r \<longleftrightarrow> int4 (rrw_amount r) \<and> varchar_null 255 (rrw_provider_reference r)"

definition outbox_row_ok :: "OutboxEventRow \<Rightarrow> bool" where
  "outbox_row_ok r \<longleftrightarrow>
     varchar 100 (orw_event_type r) \<and> varchar 100 (orw_merchant_id r) \<and> varchar_null 50 (orw_provider r) \<and>
     int4 (orw_version r)"

definition columns_ok :: "database \<Rightarrow> bool" where
  "columns_ok db \<longleftrightarrow>
     list_all (\<lambda>r. varchar 100 (mrw_id r)) (db_merchants db) \<and> list_all payment_row_ok (db_payments db) \<and>
     list_all attempt_row_ok (db_attempts db) \<and> list_all refund_row_ok (db_refunds db) \<and>
     list_all outbox_row_ok (db_outbox db)"

text \<open>Primary keys, the unique idempotency key of a merchant, and the foreign keys.\<close>

definition keys_ok :: "database \<Rightarrow> bool" where
  "keys_ok db \<longleftrightarrow>
     distinct (map mrw_id (db_merchants db)) \<and> distinct (map prw_id (db_payments db)) \<and>
     distinct (map arw_id (db_attempts db)) \<and> distinct (map rrw_id (db_refunds db)) \<and>
     distinct (map orw_id (db_outbox db)) \<and>
     distinct (map (\<lambda>r. (prw_merchant_id r, prw_idempotency_key r)) (db_payments db)) \<and>
     list_all (\<lambda>r. prw_merchant_id r \<in> set (map mrw_id (db_merchants db))) (db_payments db) \<and>
     list_all (\<lambda>r. arw_payment_id r \<in> set (map prw_id (db_payments db))) (db_attempts db) \<and>
     list_all (\<lambda>r. rrw_payment_id r \<in> set (map prw_id (db_payments db))) (db_refunds db)"

subsection \<open>Transactions\<close>

datatype db_write =
    InsertMerchant MerchantRow
  | InsertPayment PaymentRow
  | UpdatePayment uuid string "string option" "string option" int datetime
  | InsertAttempt PaymentAttemptRow
  | InsertRefund RefundRow
  | InsertEvent OutboxEventRow
  | SetPublished uuid datetime

fun apply_write :: "db_write \<Rightarrow> database \<Rightarrow> database" where
  "apply_write (InsertMerchant r) db = db\<lparr>db_merchants := db_merchants db @ [r]\<rparr>"
| "apply_write (InsertPayment r) db = db\<lparr>db_payments := db_payments db @ [r]\<rparr>"
| "apply_write (UpdatePayment i status provider reference refunded updated) db =
     db\<lparr>db_payments := map (\<lambda>r. if prw_id r = i
          then r\<lparr>prw_status := status, prw_provider := provider, prw_provider_reference := reference,
                 prw_refunded_amount := refunded, prw_updated_at := updated\<rparr>
          else r) (db_payments db)\<rparr>"
| "apply_write (InsertAttempt r) db = db\<lparr>db_attempts := db_attempts db @ [r]\<rparr>"
| "apply_write (InsertRefund r) db = db\<lparr>db_refunds := db_refunds db @ [r]\<rparr>"
| "apply_write (InsertEvent r) db = db\<lparr>db_outbox := db_outbox db @ [r]\<rparr>"
| "apply_write (SetPublished i t) db =
     db\<lparr>db_outbox := map (\<lambda>r. if orw_id r = i then r\<lparr>orw_published_at := Some t\<rparr> else r) (db_outbox db)\<rparr>"

text \<open>
  The end of \<open>async with session.begin()\<close>: the staged writes are committed together, or the
  database refuses one of them, the transaction is rolled back and the driver's error is
  raised.
\<close>

definition commit :: "db_write list \<Rightarrow> database \<Rightarrow> unit res \<times> database" where
  "commit ws db =
     (let db1 = fold apply_write ws db
      in if \<not> columns_ok db1 then (Inl (OtherException ''DBAPIError''), db)
         else if \<not> keys_ok db1 then (Inl (OtherException ''IntegrityError''), db)
         else (Inr (), db1))"

subsection \<open>The engine\<close>

text \<open>The order in which the engine hands out the rows of a query without \<open>ORDER BY\<close>.\<close>

record engine =
  scan_payments :: "PaymentRow list \<Rightarrow> PaymentRow list"
  scan_attempts :: "PaymentAttemptRow list \<Rightarrow> PaymentAttemptRow list"
  scan_refunds :: "RefundRow list \<Rightarrow> RefundRow list"
  scan_events :: "OutboxEventRow list \<Rightarrow> OutboxEventRow list"

definition engine_ok :: "engine \<Rightarrow> bool" where
  "engine_ok eng \<longleftrightarrow>
     (\<forall>xs. mset (scan_payments eng xs) = mset xs) \<and> (\<forall>xs. mset (scan_attempts eng xs) = mset xs) \<and>
     (\<forall>xs. mset (scan_refunds eng xs) = mset xs) \<and> (\<forall>xs. mset (scan_events eng xs) = mset xs)"

subsection \<open>Reading\<close>

text \<open>\<open>PaymentStatus(value)\<close> looks an enumeration member up by its value.\<close>

definition status_of :: "string \<Rightarrow> PaymentStatus res" where
  "status_of v = (case find (\<lambda>s. status_value s = v) [PENDING, PROCESSING, SUCCEEDED, FAILED, REFUNDED] of
                    Some s \<Rightarrow> Inr s | None \<Rightarrow> Inl (ValueError (v @ '' is not a valid PaymentStatus'')))"

definition attempt_to_domain :: "PaymentAttemptRow \<Rightarrow> PaymentAttempt" where
  "attempt_to_domain r =
     \<lparr>att_provider = arw_provider r, att_number = arw_attempt_number r, att_result = arw_result r,
      att_latency_ms = of_int (arw_latency_ms r), att_created_at = arw_created_at r,
      att_error_code = arw_error_code r\<rparr>"

definition refund_to_domain :: "RefundRow \<Rightarrow> Refund" where
  "refund_to_domain r =
     \<lparr>rfd_payment_id = rrw_payment_id r, rfd_amount = rrw_amount r, rfd_reference = rrw_provider_reference r,
      rfd_id = rrw_id r, rfd_created_at = rrw_created_at r\<rparr>"

text \<open>The relationships \<open>row.attempts\<close> and \<open>row.refunds\<close>, loaded with the row.\<close>

definition row_attempts :: "engine \<Rightarrow> uuid \<Rightarrow> database \<Rightarrow> PaymentAttemptRow list" where
  "row_attempts eng i db = filter (\<lambda>a. arw_payment_id a = i) (scan_attempts eng (db_attempts db))"

definition row_refunds :: "engine \<Rightarrow> uuid \<Rightarrow> database \<Rightarrow> RefundRow list" where
  "row_refunds eng i db = filter (\<lambda>a. rrw_payment_id a = i) (scan_refunds eng (db_refunds db))"

definition to_domain :: "engine \<Rightarrow> database \<Rightarrow> PaymentRow \<Rightarrow> Payment res" where
  "to_domain eng db row =
     (case status_of (prw_status row) of
        Inl e \<Rightarrow> Inl e
      | Inr status \<Rightarrow>
          Inr \<lparr>pay_merchant_id = prw_merchant_id row, pay_amount = prw_amount row, pay_currency = prw_currency row,
               pay_method_type = prw_payment_method_type row, pay_idempotency_key = prw_idempotency_key row,
               pay_id = prw_id row, pay_status = status, pay_created_at = prw_created_at row,
               pay_updated_at = prw_updated_at row,
               pay_attempts = map attempt_to_domain (row_attempts eng (prw_id row) db),
               pay_reference = prw_provider_reference row, pay_provider = prw_provider row,
               pay_fingerprint = prw_request_fingerprint row, pay_refunded_amount = prw_refunded_amount row,
               pay_refunds = map refund_to_domain (row_refunds eng (prw_id row) db)\<rparr>)"

fun scalar_one_or_none :: "'a list \<Rightarrow> 'a option res" where
  "scalar_one_or_none [] = Inr None"
| "scalar_one_or_none [r] = Inr (Some r)"
| "scalar_one_or_none (r # s # rs) = Inl (OtherException ''MultipleResultsFound'')"

definition find_row :: "uuid \<Rightarrow> database \<Rightarrow> PaymentRow option res" where
  "find_row i db = scalar_one_or_none (filter (\<lambda>r. prw_id r = i) (db_payments db))"

definition loaded :: "engine \<Rightarrow> database \<Rightarrow> PaymentRow option res \<Rightarrow> Payment option res" where
  "loaded eng db r =
     (case r of Inl e \<Rightarrow> Inl e | Inr None \<Rightarrow> Inr None
      | Inr (Some row) \<Rightarrow> (case to_domain eng db row of Inl e \<Rightarrow> Inl e | Inr p \<Rightarrow> Inr (Some p)))"

definition sql_get :: "engine \<Rightarrow> uuid \<Rightarrow> database \<Rightarrow> Payment option res" where
  "sql_get eng i db = loaded eng db (find_row i db)"

definition sql_get_by_idempotency :: "engine \<Rightarrow> string \<Rightarrow> string \<Rightarrow> database \<Rightarrow> Payment option res" where
  "sql_get_by_idempotency eng merchant_id key db =
     loaded eng db (scalar_one_or_none
       (filter (\<lambda>r. prw_merchant_id r = merchant_id \<and> prw_idempotency_key r = key) (db_payments db)))"

fun all_or_error :: "'a res list \<Rightarrow> 'a list res" where
  "all_or_error [] = Inr []"
| "all_or_error (Inl e # rs) = Inl e"
| "all_or_error (Inr v # rs) = (case all_or_error rs of Inl e \<Rightarrow> Inl e | Inr vs \<Rightarrow> Inr (v # vs))"

definition sql_list ::
  "engine \<Rightarrow> string option \<Rightarrow> string option \<Rightarrow> datetime option \<Rightarrow> datetime option \<Rightarrow> database \<Rightarrow> Payment list res" where
  "sql_list eng merchant_id status created_after created_before db =
     all_or_error (map (to_domain eng db)
       (filter (\<lambda>r. (case merchant_id of None \<Rightarrow> True | Some m \<Rightarrow> prw_merchant_id r = m) \<and>
                    (case status of None \<Rightarrow> True | Some v \<Rightarrow> prw_status r = v) \<and>
                    (case created_after of None \<Rightarrow> True | Some t \<Rightarrow> t \<le> prw_created_at r) \<and>
                    (case created_before of None \<Rightarrow> True | Some t \<Rightarrow> prw_created_at r \<le> t))
         (sort_key prw_created_at (scan_payments eng (db_payments db)))))"

subsection \<open>Writing\<close>

definition payment_row :: "Payment \<Rightarrow> PaymentRow" where
  "payment_row p =
     \<lparr>prw_id = pay_id p, prw_merchant_id = pay_merchant_id p, prw_amount = pay_amount p,
      prw_currency = pay_currency p, prw_status = status_value (pay_status p),
      prw_payment_method_type = pay_method_type p, prw_idempotency_key = pay_idempotency_key p,
      prw_request_fingerprint = pay_fingerprint p, prw_provider = pay_provider p,
      prw_provider_reference = pay_reference p, prw_refunded_amount = pay_refunded_amount p,
      prw_created_at = pay_created_at p, prw_updated_at = pay_updated_at p\<rparr>"

definition attempt_row :: "uuid \<Rightarrow> uuid \<Rightarrow> PaymentAttempt \<Rightarrow> PaymentAttemptRow" where
  "attempt_row i payment_id a =
     \<lparr>arw_id = i, arw_payment_id = payment_id, arw_provider = att_provider a, arw_attempt_number = att_number a,
      arw_result = att_result a, arw_error_code = att_error_code a, arw_latency_ms = py_round (att_latency_ms a),
      arw_created_at = att_created_at a\<rparr>"

definition refund_row :: "Refund \<Rightarrow> RefundRow" where
  "refund_row f =
     \<lparr>rrw_id = rfd_id f, rrw_payment_id = rfd_payment_id f, rrw_amount = rfd_amount f,
      rrw_provider_reference = rfd_reference f, rrw_created_at = rfd_created_at f\<rparr>"

definition event_row :: "EventEnvelope \<Rightarrow> OutboxEventRow" where
  "event_row e =
     \<lparr>orw_id = evt_id e, orw_event_type = event_type_value (evt_type e), orw_merchant_id = evt_merchant_id e,
      orw_aggregate_id = evt_aggregate_id e, orw_provider = evt_provider e, orw_version = evt_version e,
      orw_payload = evt_payload e, orw_created_at = evt_occurred_at e, orw_published_at = None\<rparr>"

definition row_event :: "OutboxEventRow \<Rightarrow> EventEnvelope res" where
  "row_event r =
     (case event_type_of (orw_event_type r) of
        Inl e \<Rightarrow> Inl e
      | Inr t \<Rightarrow> Inr \<lparr>evt_type = t, evt_merchant_id = orw_merchant_id r, evt_aggregate_id = orw_aggregate_id r,
                     evt_payload = orw_payload r, evt_provider = orw_provider r, evt_version = orw_version r,
                     evt_id = orw_id r, evt_occurred_at = orw_created_at r\<rparr>)"

fun attempt_writes :: "uuid \<Rightarrow> PaymentAttempt list \<Rightarrow> world \<Rightarrow> db_write list \<times> world" where
  "attempt_writes payment_id [] w = ([], w)"
| "attempt_writes payment_id (a # as) w =
     (let (i, w1) = uuid4 w; (ws, w2) = attempt_writes payment_id as w1
      in (InsertAttempt (attempt_row i payment_id a) # ws, w2))"

definition attempt_marker :: "PaymentAttempt \<Rightarrow> string \<times> int \<times> datetime" where
  "attempt_marker a = (att_provider a, att_number a, att_created_at a)"

definition row_marker :: "PaymentAttemptRow \<Rightarrow> string \<times> int \<times> datetime" where
  "row_marker r = (arw_provider r, arw_attempt_number r, arw_created_at r)"

text \<open>
  What \<open>save_with_events\<close> stages after reading the database: the merchant if it is new, the
  payment or the columns it updates, the attempts and refunds that are not there yet, the
  events. A row that was just added has no attempts and no refunds.
\<close>

definition save_writes ::
  "engine \<Rightarrow> Payment \<Rightarrow> EventEnvelope list \<Rightarrow> database \<Rightarrow> world \<Rightarrow> db_write list res \<times> world" where
  "save_writes eng payment events db w =
     (case find_row (pay_id payment) db of
        Inl e \<Rightarrow> (Inl e, w)
      | Inr found \<Rightarrow>
          let merchant = (if pay_merchant_id payment \<in> set (map mrw_id (db_merchants db)) then []
                          else [InsertMerchant \<lparr>mrw_id = pay_merchant_id payment, mrw_created_at = pay_created_at payment\<rparr>]);
              row = (case found of
                       None \<Rightarrow> InsertPayment (payment_row payment)
                     | Some r \<Rightarrow> UpdatePayment (prw_id r) (status_value (pay_status payment)) (pay_provider payment)
                                   (pay_reference payment) (pay_refunded_amount payment) (pay_updated_at payment));
              existing_attempts = (case found of None \<Rightarrow> {} | Some r \<Rightarrow> row_marker ` set (row_attempts eng (prw_id r) db));
              existing_refunds = (case found of None \<Rightarrow> {} | Some r \<Rightarrow> rrw_id ` set (row_refunds eng (prw_id r) db));
              (attempts, w1) = attempt_writes (pay_id payment)
                 (filter (\<lambda>a. attempt_marker a \<notin> existing_attempts) (pay_attempts payment)) w;
              refunds = map (InsertRefund \<circ> refund_row) (filter (\<lambda>f. rfd_id f \<notin> existing_refunds) (pay_refunds payment))
          in (Inr (merchant @ [row] @ attempts @ refunds @ map (InsertEvent \<circ> event_row) events), w1))"

definition sql_save_with_events ::
  "engine \<Rightarrow> Payment \<Rightarrow> EventEnvelope list \<Rightarrow> database \<times> world \<Rightarrow> unit res \<times> database \<times> world" where
  "sql_save_with_events eng payment events st =
     (case save_writes eng payment events (fst st) (snd st) of
        (Inl e, w1) \<Rightarrow> (Inl e, (fst st, w1))
      | (Inr ws, w1) \<Rightarrow> (let (r, db1) = commit ws (fst st) in (r, (db1, w1))))"

definition sql_save :: "engine \<Rightarrow> Payment \<Rightarrow> database \<times> world \<Rightarrow> unit res \<times> database \<times> world" where
  "sql_save eng payment st = sql_save_with_events eng payment [] st"

definition sql_append :: "EventEnvelope list \<Rightarrow> database \<Rightarrow> unit res \<times> database" where
  "sql_append events db = commit (map (InsertEvent \<circ> event_row) events) db"

definition sql_unsent :: "engine \<Rightarrow> nat \<Rightarrow> database \<Rightarrow> EventEnvelope list res" where
  "sql_unsent eng limit db =
     all_or_error (map row_event
       (take limit (sort_key orw_created_at
         (scan_events eng (filter (\<lambda>r. orw_published_at r = None) (db_outbox db))))))"

definition sql_mark_published :: "uuid \<Rightarrow> database \<times> world \<Rightarrow> unit res \<times> database \<times> world" where
  "sql_mark_published event_id st =
     (let (now, w1) = utcnow (snd st); (r, db1) = commit [SetPublished event_id now] (fst st)
      in (r, (db1, w1)))"

subsection \<open>What the database holds\<close>

text \<open>Storing an attempt rounds its latency to whole milliseconds.\<close>

definition rounded :: "PaymentAttempt \<Rightarrow> PaymentAttempt" where
  "rounded a = a\<lparr>att_latency_ms := of_int (py_round (att_latency_ms a))\<rparr>"

definition stored_as :: "Payment \<Rightarrow> Payment \<Rightarrow> bool" where
  "stored_as p q \<longleftrightarrow>
     (\<exists>as rs. q = p\<lparr>pay_attempts := as, pay_refunds := rs\<rparr> \<and>
        mset as = mset (map rounded (pay_attempts p)) \<and> mset rs = mset (pay_refunds p))"

text \<open>The rows of a payment, whatever the order in which the engine returns them.\<close>

definition holds :: "database \<Rightarrow> Payment \<Rightarrow> bool" where
  "holds db p \<longleftrightarrow> payment_row p \<in> set (db_payments db) \<and>
     image_mset attempt_to_domain (filter_mset (\<lambda>a. arw_payment_id a = pay_id p) (mset (db_attempts db))) =
       mset (map rounded (pay_attempts p)) \<and>
     image_mset refund_to_domain (filter_mset (\<lambda>a. rrw_payment_id a = pay_id p) (mset (db_refunds db))) =
       mset (pay_refunds p)"

definition unpublished :: "OutboxEventRow \<Rightarrow> OutboxEventRow" where
  "unpublished r = r\<lparr>orw_published_at := None\<rparr>"

definition represents :: "database \<Rightarrow> InMemoryPaymentStore \<Rightarrow> bool" where
  "represents db s \<longleftrightarrow> keys_ok db \<and> columns_ok db \<and>
     (\<forall>i p. get i s = Some p \<longrightarrow> holds db p) \<and> (\<forall>r\<in>set (db_payments db). get (prw_id r) s \<noteq> None) \<and>
     map unpublished (db_outbox db) = map (event_row \<circ> snd) (sto_events s) \<and>
     sto_published s = orw_id ` {r \<in> set (db_outbox db). orw_published_at r \<noteq> None}"

lemma status_of_value [simp]: "status_of (status_value s) = Inr s"
  by (cases s) (simp_all add: status_of_def)

lemma row_event_row [simp]: "row_event (event_row e) = Inr e"
  by (simp add: row_event_def event_row_def)

lemma row_event_unpublished [simp]: "row_event (unpublished r) = row_event r"
  by (simp add: row_event_def unpublished_def split: sum.split)

lemma event_row_simps [simp]:
  "orw_id (unpublished r) = orw_id r" "orw_id (event_row e) = evt_id e" "unpublished (event_row e) = event_row e"
  "orw_created_at (event_row e) = evt_occurred_at e"
  by (simp_all add: unpublished_def event_row_def)

lemma attempt_row_domain [simp]: "attempt_to_domain (attempt_row i j a) = rounded a"
  by (simp add: attempt_to_domain_def attempt_row_def rounded_def)

lemma attempt_row_payment [simp]: "arw_payment_id (attempt_row i j a) = j"
  by (simp add: attempt_row_def)

lemma refund_row_domain [simp]: "refund_to_domain (refund_row f) = f"
  by (simp add: refund_to_domain_def refund_row_def)

lemma payment_row_fields [simp]:
  "prw_id (payment_row p) = pay_id p" "prw_merchant_id (payment_row p) = pay_merchant_id p"
  "prw_idempotency_key (payment_row p) = pay_idempotency_key p" "prw_created_at (payment_row p) = pay_created_at p"
  "prw_status (payment_row p) = status_value (pay_status p)"
  by (simp_all add: payment_row_def)

lemma py_round_int [simp]: "py_round (of_int n) = n"
  by (simp add: py_round_def)

lemma rounded_idem [simp]: "rounded (rounded a) = rounded a"
  by (simp add: rounded_def)

lemma all_or_error_Inr: "all_or_error (map (Inr \<circ> f) xs) = Inr (map f xs)"
  by (induction xs) simp_all

lemma scalar_unique:
  "distinct (map f rs) \<Longrightarrow> r \<in> set rs \<Longrightarrow> scalar_one_or_none (filter (\<lambda>x. f x = f r) rs) = Inr (Some r)"
proof (induction rs)
  case (Cons x rs)
  show ?case
  proof (cases "x = r")
    case True
    then have "filter (\<lambda>x. f x = f r) rs = []" using Cons.prems(1) by (auto simp: filter_empty_conv image_iff)
    then show ?thesis using True by simp
  next
    case False
    then have "f x \<noteq> f r" using Cons.prems by (auto simp: image_iff)
    then show ?thesis using Cons False by simp
  qed
qed simp

lemma scalar_none: "\<forall>r\<in>set rs. \<not> P r \<Longrightarrow> scalar_one_or_none (filter P rs) = Inr None"
  by (simp add: filter_False)

lemma find_row_Some: "keys_ok db \<Longrightarrow> r \<in> set (db_payments db) \<Longrightarrow> find_row (prw_id r) db = Inr (Some r)"
  unfolding find_row_def by (rule scalar_unique) (simp_all add: keys_ok_def)

lemma find_row_cases:
  assumes "keys_ok db"
  obtains (absent) "find_row i db = Inr None" "\<forall>r\<in>set (db_payments db). prw_id r \<noteq> i"
    | (present) r where "find_row i db = Inr (Some r)" "r \<in> set (db_payments db)" "prw_id r = i"
proof (cases "\<exists>r\<in>set (db_payments db). prw_id r = i")
  case True
  then show ?thesis using find_row_Some [OF assms] present by blast
next
  case False
  then show ?thesis using absent scalar_none by (auto simp: find_row_def)
qed

lemma to_domain_holds:
  assumes "engine_ok eng" "holds db p"
  obtains q where "to_domain eng db (payment_row p) = Inr q" "stored_as p q"
proof -
  let ?as = "map attempt_to_domain (row_attempts eng (pay_id p) db)"
  let ?rs = "map refund_to_domain (row_refunds eng (pay_id p) db)"
  let ?q = "p\<lparr>pay_attempts := ?as, pay_refunds := ?rs\<rparr>"
  have "mset ?as = mset (map rounded (pay_attempts p))" "mset ?rs = mset (pay_refunds p)"
    using assms by (simp_all add: row_attempts_def row_refunds_def engine_ok_def holds_def)
  then have "stored_as p ?q" unfolding stored_as_def by blast
  moreover have "to_domain eng db (payment_row p) = Inr ?q" by (simp add: to_domain_def payment_row_def)
  ultimately show thesis using that by blast
qed

lemma sql_get_holds:
  assumes "engine_ok eng" "keys_ok db" "holds db p"
  obtains q where "sql_get eng (pay_id p) db = Inr (Some q)" "stored_as p q"
proof -
  have "find_row (pay_id p) db = Inr (Some (payment_row p))"
    using find_row_Some [OF assms(2), of "payment_row p"] assms(3) by (simp add: holds_def)
  moreover obtain q where q: "to_domain eng db (payment_row p) = Inr q" "stored_as p q"
    by (rule to_domain_holds [OF assms(1,3)])
  ultimately have "sql_get eng (pay_id p) db = Inr (Some q)" by (simp add: sql_get_def loaded_def)
  then show thesis using q(2) that by blast
qed

lemma sql_get_key_holds:
  assumes "engine_ok eng" "keys_ok db" "holds db p"
  obtains q where "sql_get_by_idempotency eng (pay_merchant_id p) (pay_idempotency_key p) db = Inr (Some q)" "stored_as p q"
proof -
  have "scalar_one_or_none (filter (\<lambda>r. prw_merchant_id r = pay_merchant_id p \<and> prw_idempotency_key r = pay_idempotency_key p)
      (db_payments db)) = Inr (Some (payment_row p))"
    using scalar_unique [of "\<lambda>r. (prw_merchant_id r, prw_idempotency_key r)" "db_payments db" "payment_row p"] assms(2,3)
    by (simp add: keys_ok_def holds_def)
  moreover obtain q where q: "to_domain eng db (payment_row p) = Inr q" "stored_as p q"
    by (rule to_domain_holds [OF assms(1,3)])
  ultimately have "sql_get_by_idempotency eng (pay_merchant_id p) (pay_idempotency_key p) db = Inr (Some q)"
    by (simp add: sql_get_by_idempotency_def loaded_def)
  then show thesis using q(2) that by blast
qed

subsection \<open>The effect of a transaction\<close>

lemma fold_events [simp]:
  "fold apply_write (map (InsertEvent \<circ> f) es) db = db\<lparr>db_outbox := db_outbox db @ map f es\<rparr>"
  by (induction es arbitrary: db) simp_all

lemma fold_refunds [simp]:
  "fold apply_write (map (InsertRefund \<circ> f) es) db = db\<lparr>db_refunds := db_refunds db @ map f es\<rparr>"
  by (induction es arbitrary: db) simp_all

lemma fold_attempts:
  obtains rows where "fold apply_write (fst (attempt_writes i as w)) = (\<lambda>db. db\<lparr>db_attempts := db_attempts db @ rows\<rparr>)"
    "map attempt_to_domain rows = map rounded as" "\<forall>r\<in>set rows. arw_payment_id r = i"
proof (induction as arbitrary: w thesis)
  case Nil
  show ?case by (rule Nil [of "[]"]) (auto simp: fun_eq_iff)
next
  case (Cons a as)
  obtain rows where r: "fold apply_write (fst (attempt_writes i as (snd (uuid4 w)))) = (\<lambda>db. db\<lparr>db_attempts := db_attempts db @ rows\<rparr>)"
    "map attempt_to_domain rows = map rounded as" "\<forall>r\<in>set rows. arw_payment_id r = i"
    by (rule Cons.IH)
  show ?case
    using r by (intro Cons.prems [of "attempt_row (fst (uuid4 w)) i a # rows"])
      (auto simp: fun_eq_iff case_prod_beta)
qed

lemma commit_cases:
  assumes "commit ws db = (r, db')"
  obtains (committed) "r = Inr ()" "db' = fold apply_write ws db" "columns_ok db'" "keys_ok db'"
    | (rolled_back) e where "r = Inl (OtherException e)" "db' = db"
  using assms by (auto simp: commit_def Let_def split: if_splits)

text \<open>The columns a second save writes.\<close>

definition overwritten :: "Payment \<Rightarrow> PaymentRow \<Rightarrow> PaymentRow" where
  "overwritten p r = r\<lparr>prw_status := status_value (pay_status p), prw_provider := pay_provider p,
     prw_provider_reference := pay_reference p, prw_refunded_amount := pay_refunded_amount p,
     prw_updated_at := pay_updated_at p\<rparr>"

lemma overwritten_simps [simp]:
  "overwritten p (overwritten q r) = overwritten p r" "overwritten p (payment_row p) = payment_row p"
  "prw_id (overwritten p r) = prw_id r"
  by (simp_all add: overwritten_def payment_row_def)

text \<open>
  When a payment that is already stored may be saved again: its identity is unchanged and
  its attempts and refunds contain the stored ones.
\<close>

definition extends :: "Payment \<Rightarrow> Payment \<Rightarrow> bool" where
  "extends old p \<longleftrightarrow>
     payment_row old = overwritten old (payment_row p) \<and>
     mset (map rounded (filter (\<lambda>a. attempt_marker a \<in> attempt_marker ` set (pay_attempts old)) (pay_attempts p))) =
       mset (map rounded (pay_attempts old)) \<and>
     mset (filter (\<lambda>f. rfd_id f \<in> rfd_id ` set (pay_refunds old)) (pay_refunds p)) = mset (pay_refunds old)"

definition savable :: "InMemoryPaymentStore \<Rightarrow> Payment \<Rightarrow> bool" where
  "savable s p \<longleftrightarrow> (\<forall>f\<in>set (pay_refunds p). rfd_payment_id f = pay_id p) \<and>
     (case get (pay_id p) s of None \<Rightarrow> True | Some old \<Rightarrow> extends old p)"

lemma holds_markers:
  assumes "engine_ok eng" "holds db p"
  shows "row_marker ` set (row_attempts eng (pay_id p) db) = attempt_marker ` set (pay_attempts p)"
    and "rrw_id ` set (row_refunds eng (pay_id p) db) = rfd_id ` set (pay_refunds p)"
proof -
  have "set_mset (image_mset attempt_to_domain (filter_mset (\<lambda>a. arw_payment_id a = pay_id p) (mset (db_attempts db)))) =
      rounded ` set (pay_attempts p)"
    "set_mset (image_mset refund_to_domain (filter_mset (\<lambda>a. rrw_payment_id a = pay_id p) (mset (db_refunds db)))) =
      set (pay_refunds p)"
    using assms(2) by (simp_all add: holds_def)
  moreover have "set (row_attempts eng (pay_id p) db) = {a \<in> set (db_attempts db). arw_payment_id a = pay_id p}"
    "set (row_refunds eng (pay_id p) db) = {a \<in> set (db_refunds db). rrw_payment_id a = pay_id p}"
    using assms(1) by (auto simp: row_attempts_def row_refunds_def engine_ok_def simp flip: set_mset_mset)
  ultimately have e: "attempt_to_domain ` set (row_attempts eng (pay_id p) db) = rounded ` set (pay_attempts p)"
    "refund_to_domain ` set (row_refunds eng (pay_id p) db) = set (pay_refunds p)"
    by simp_all
  have m: "row_marker r = attempt_marker (attempt_to_domain r)" "attempt_marker (rounded a) = attempt_marker a"
    "rrw_id f = rfd_id (refund_to_domain f)" for r a f
    by (simp_all add: row_marker_def attempt_marker_def attempt_to_domain_def rounded_def refund_to_domain_def)
  have "row_marker ` X = attempt_marker ` attempt_to_domain ` X" "attempt_marker ` rounded ` Y = attempt_marker ` Y"
    "rrw_id ` Z = rfd_id ` refund_to_domain ` Z" for X Y Z
    by (simp_all add: image_image m)
  then show "row_marker ` set (row_attempts eng (pay_id p) db) = attempt_marker ` set (pay_attempts p)"
    "rrw_id ` set (row_refunds eng (pay_id p) db) = rfd_id ` set (pay_refunds p)"
    using e by simp_all
qed

text \<open>The tables after a save: only the rows of the saved payment and the new events changed.\<close>

definition old_attempts :: "Payment option \<Rightarrow> PaymentAttempt list" where
  "old_attempts old = (case old of None \<Rightarrow> [] | Some p \<Rightarrow> pay_attempts p)"

definition old_refunds :: "Payment option \<Rightarrow> Refund list" where
  "old_refunds old = (case old of None \<Rightarrow> [] | Some p \<Rightarrow> pay_refunds p)"

lemma find_row_represents:
  assumes "represents db s" "\<And>old. get i s = Some old \<Longrightarrow> pay_id old = i"
  shows "find_row i db = Inr (map_option payment_row (get i s))"
proof (cases "get i s")
  case None
  then have "\<forall>r\<in>set (db_payments db). prw_id r \<noteq> i" using assms(1) by (auto simp: represents_def)
  then show ?thesis using None scalar_none by (auto simp: find_row_def)
next
  case (Some old)
  then have "payment_row old \<in> set (db_payments db)" "keys_ok db" using assms(1) by (auto simp: represents_def holds_def)
  then show ?thesis using find_row_Some [of db "payment_row old"] assms(2) [OF Some] Some by simp
qed

lemma save_effect:
  assumes "engine_ok eng" "represents db s" "sql_save_with_events eng p es (db, w) = (Inr (), (db', w'))"
    and own: "\<And>old. get (pay_id p) s = Some old \<Longrightarrow> pay_id old = pay_id p"
  obtains rows where "keys_ok db'" "columns_ok db'" "db_outbox db' = db_outbox db @ map event_row es"
    "db_attempts db' = db_attempts db @ rows" "\<forall>r\<in>set rows. arw_payment_id r = pay_id p"
    "map attempt_to_domain rows = map rounded
       (filter (\<lambda>a. attempt_marker a \<notin> attempt_marker ` set (old_attempts (get (pay_id p) s))) (pay_attempts p))"
    "db_refunds db' = db_refunds db @ map refund_row
       (filter (\<lambda>f. rfd_id f \<notin> rfd_id ` set (old_refunds (get (pay_id p) s))) (pay_refunds p))"
    "db_payments db' = (if get (pay_id p) s = None then db_payments db @ [payment_row p]
       else map (\<lambda>r. if prw_id r = pay_id p then overwritten p r else r) (db_payments db))"
proof -
  let ?old = "get (pay_id p) s"
  have found: "find_row (pay_id p) db = Inr (map_option payment_row ?old)"
    by (rule find_row_represents [OF assms(2)]) (rule own)
  have m: "(case map_option payment_row ?old of None \<Rightarrow> {} | Some r \<Rightarrow> row_marker ` set (row_attempts eng (prw_id r) db)) =
      attempt_marker ` set (old_attempts ?old)"
    "(case map_option payment_row ?old of None \<Rightarrow> {} | Some r \<Rightarrow> rrw_id ` set (row_refunds eng (prw_id r) db)) =
      rfd_id ` set (old_refunds ?old)"
    using holds_markers [OF assms(1)] assms(2) by (auto simp: old_attempts_def old_refunds_def represents_def split: option.splits)
  let ?new = "filter (\<lambda>a. attempt_marker a \<notin> attempt_marker ` set (old_attempts ?old)) (pay_attempts p)"
  obtain rows where rows: "fold apply_write (fst (attempt_writes (pay_id p) ?new w)) = (\<lambda>db. db\<lparr>db_attempts := db_attempts db @ rows\<rparr>)"
    "map attempt_to_domain rows = map rounded ?new" "\<forall>r\<in>set rows. arw_payment_id r = pay_id p"
    by (rule fold_attempts)
  obtain ws w1 where ws: "save_writes eng p es db w = (Inr ws, w1)" "commit ws db = (Inr (), db')"
    using assms(3) by (auto simp: sql_save_with_events_def split: prod.splits sum.splits)
  from ws(2) have c: "db' = fold apply_write ws db" "columns_ok db'" "keys_ok db'" by (cases rule: commit_cases; simp)+
  have wsE: "ws = (if pay_merchant_id p \<in> set (map mrw_id (db_merchants db)) then []
        else [InsertMerchant \<lparr>mrw_id = pay_merchant_id p, mrw_created_at = pay_created_at p\<rparr>]) @
      [case ?old of None \<Rightarrow> InsertPayment (payment_row p)
       | Some q \<Rightarrow> UpdatePayment (pay_id q) (status_value (pay_status p)) (pay_provider p) (pay_reference p)
                    (pay_refunded_amount p) (pay_updated_at p)] @
      fst (attempt_writes (pay_id p) ?new w) @
      map (InsertRefund \<circ> refund_row) (filter (\<lambda>f. rfd_id f \<notin> rfd_id ` set (old_refunds ?old)) (pay_refunds p)) @
      map (InsertEvent \<circ> event_row) es"
    using ws(1) found m by (cases ?old) (auto simp: save_writes_def Let_def case_prod_beta old_attempts_def old_refunds_def)
  have "db_outbox db' = db_outbox db @ map event_row es" "db_attempts db' = db_attempts db @ rows"
    "db_refunds db' = db_refunds db @ map refund_row (filter (\<lambda>f. rfd_id f \<notin> rfd_id ` set (old_refunds ?old)) (pay_refunds p))"
    unfolding c(1) wsE fold_append rows(1) by (simp_all split: option.split)
  moreover have "db_payments db' = (if ?old = None then db_payments db @ [payment_row p]
       else map (\<lambda>r. if prw_id r = pay_id p then overwritten p r else r) (db_payments db))"
  proof (cases ?old)
    case None
    then show ?thesis unfolding c(1) wsE fold_append rows(1) by simp
  next
    case (Some old)
    then show ?thesis
      unfolding c(1) wsE fold_append rows(1) by (simp add: overwritten_def [abs_def] own [OF Some])
  qed
  ultimately show thesis by (intro that [OF c(3,2) _ _ rows(3,2)])
qed

lemma filter_mset_all: "\<forall>x\<in>set xs. P x \<Longrightarrow> filter_mset P (mset xs) = mset xs"
  by (metis filter_True mset_filter)

lemma filter_mset_none: "\<forall>x\<in>set xs. \<not> P x \<Longrightarrow> filter_mset P (mset xs) = {#}"
  by (metis filter_False mset_filter mset_zero_iff)

lemma mset_map_split: "mset (map f (filter P xs)) + mset (map f (filter (\<lambda>x. \<not> P x) xs)) = mset (map f xs)"
  by (induction xs) auto

lemma own_id: "store_inv s \<Longrightarrow> get i s = Some p \<Longrightarrow> pay_id p = i"
  using in_memory.gt_id by blast

text \<open>The saved payment is there afterwards, and every other one stays.\<close>

lemma saved_holds:
  assumes "engine_ok eng" "store_inv s" "represents db s" "savable s p"
    and "sql_save_with_events eng p es (db, w) = (Inr (), (db', w'))"
  shows "holds db' p"
proof -
  obtain rows where e: "db_attempts db' = db_attempts db @ rows" "\<forall>r\<in>set rows. arw_payment_id r = pay_id p"
    "map attempt_to_domain rows = map rounded
       (filter (\<lambda>a. attempt_marker a \<notin> attempt_marker ` set (old_attempts (get (pay_id p) s))) (pay_attempts p))"
    "db_refunds db' = db_refunds db @ map refund_row
       (filter (\<lambda>f. rfd_id f \<notin> rfd_id ` set (old_refunds (get (pay_id p) s))) (pay_refunds p))"
    "db_payments db' = (if get (pay_id p) s = None then db_payments db @ [payment_row p]
       else map (\<lambda>r. if prw_id r = pay_id p then overwritten p r else r) (db_payments db))"
    by (rule save_effect [OF assms(1,3,5) own_id [OF assms(2)]])
  let ?A = "image_mset attempt_to_domain (filter_mset (\<lambda>a. arw_payment_id a = pay_id p) (mset (db_attempts db)))"
  let ?R = "image_mset refund_to_domain (filter_mset (\<lambda>a. rrw_payment_id a = pay_id p) (mset (db_refunds db)))"
  have new_a: "image_mset attempt_to_domain (filter_mset (\<lambda>a. arw_payment_id a = pay_id p) (mset (db_attempts db'))) =
      ?A + mset (map attempt_to_domain rows)"
    using e(1,2) filter_mset_all [of rows "\<lambda>a. arw_payment_id a = pay_id p"] by simp
  have mine: "\<forall>f\<in>set (pay_refunds p). rfd_payment_id f = pay_id p" using assms(4) by (simp add: savable_def)
  have new_r: "image_mset refund_to_domain (filter_mset (\<lambda>a. rrw_payment_id a = pay_id p) (mset (db_refunds db'))) =
      ?R + mset (filter (\<lambda>f. rfd_id f \<notin> rfd_id ` set (old_refunds (get (pay_id p) s))) (pay_refunds p))"
  proof -
    let ?fs = "filter (\<lambda>f. rfd_id f \<notin> rfd_id ` set (old_refunds (get (pay_id p) s))) (pay_refunds p)"
    have "filter_mset (\<lambda>a. rrw_payment_id a = pay_id p) (mset (map refund_row ?fs)) = mset (map refund_row ?fs)"
      using mine by (intro filter_mset_all) (auto simp: refund_row_def)
    moreover have "image_mset refund_to_domain (mset (map refund_row ?fs)) = mset ?fs"
      by (simp flip: mset_map add: o_def)
    ultimately show ?thesis using e(4) by (simp del: mset_map mset_filter)
  qed
  show ?thesis
  proof (cases "get (pay_id p) s")
    case None
    have "\<forall>r\<in>set (db_payments db). prw_id r \<noteq> pay_id p" using assms(3) None by (auto simp: represents_def)
    then have "\<forall>a\<in>set (db_attempts db). arw_payment_id a \<noteq> pay_id p" "\<forall>a\<in>set (db_refunds db). rrw_payment_id a \<noteq> pay_id p"
      using assms(3) by (fastforce simp: represents_def keys_ok_def list_all_iff)+
    then have "?A = {#}" "?R = {#}" by (simp_all add: filter_mset_none)
    then show ?thesis using e new_a new_r None by (simp add: holds_def old_attempts_def old_refunds_def)
  next
    case (Some old)
    then have h: "holds db old" "pay_id old = pay_id p" "extends old p"
      using assms(3,4) own_id [OF assms(2) Some] by (auto simp: represents_def savable_def)
    have "overwritten p (payment_row old) = payment_row p"
      using h(3) by (simp add: extends_def)
    then have "payment_row p \<in> set (db_payments db')" using h e(5) Some by (force simp: holds_def)
    moreover have "?A + mset (map attempt_to_domain rows) = mset (map rounded (pay_attempts p))"
      using h e(3) mset_map_split [of rounded "\<lambda>a. attempt_marker a \<in> attempt_marker ` set (pay_attempts old)" "pay_attempts p"] Some
      by (simp add: holds_def extends_def old_attempts_def del: mset_map)
    moreover have "?R + mset (filter (\<lambda>f. rfd_id f \<notin> rfd_id ` set (old_refunds (get (pay_id p) s))) (pay_refunds p)) = mset (pay_refunds p)"
      using h mset_map_split [of "\<lambda>x. x" "\<lambda>f. rfd_id f \<in> rfd_id ` set (pay_refunds old)" "pay_refunds p"] Some
      by (simp add: holds_def extends_def old_refunds_def)
    ultimately show ?thesis using new_a new_r by (simp add: holds_def)
  qed
qed

lemma others_hold:
  assumes "engine_ok eng" "store_inv s" "represents db s" "savable s p"
    and "sql_save_with_events eng p es (db, w) = (Inr (), (db', w'))"
    and "get i s = Some q" "i \<noteq> pay_id p"
  shows "holds db' q"
proof -
  obtain rows where e: "db_attempts db' = db_attempts db @ rows" "\<forall>r\<in>set rows. arw_payment_id r = pay_id p"
    "db_refunds db' = db_refunds db @ map refund_row
       (filter (\<lambda>f. rfd_id f \<notin> rfd_id ` set (old_refunds (get (pay_id p) s))) (pay_refunds p))"
    "db_payments db' = (if get (pay_id p) s = None then db_payments db @ [payment_row p]
       else map (\<lambda>r. if prw_id r = pay_id p then overwritten p r else r) (db_payments db))"
    by (rule save_effect [OF assms(1,3,5) own_id [OF assms(2)]])
  have q: "holds db q" "pay_id q \<noteq> pay_id p"
    using assms(3,6,7) own_id [OF assms(2,6)] by (auto simp: represents_def)
  have "payment_row q \<in> set (db_payments db')" using q e(4) by (force simp: holds_def)
  moreover have "filter_mset (\<lambda>a. arw_payment_id a = pay_id q) (mset rows) = {#}"
    using e(2) q(2) by (intro filter_mset_none) auto
  moreover have "filter_mset (\<lambda>a. rrw_payment_id a = pay_id q) (mset (map refund_row
      (filter (\<lambda>f. rfd_id f \<notin> rfd_id ` set (old_refunds (get (pay_id p) s))) (pay_refunds p)))) = {#}"
    using q(2) assms(4) by (intro filter_mset_none) (auto simp: refund_row_def savable_def)
  ultimately show ?thesis using q(1) e(1,3) by (simp add: holds_def del: mset_map mset_filter)
qed

lemma represents_ids:
  assumes "store_inv s" "represents db s"
  shows "orw_id ` set (db_outbox db) = known_events s"
proof -
  have "orw_id ` set (map unpublished (db_outbox db)) = orw_id ` set (map (event_row \<circ> snd) (sto_events s))"
    using assms(2) by (simp add: represents_def)
  moreover have "evt_id (snd x) = fst x" if "x \<in> set (sto_events s)" for x
    using assms(1) that by (auto simp: store_inv_def)
  ultimately show ?thesis by (simp add: image_image known_events_def)
qed

text \<open>Appending events to the table is appending them to the outbox of the store.\<close>

lemma events_appended:
  assumes "store_inv s" "represents db s" "keys_ok db'" "db_outbox db' = db_outbox db @ map event_row es"
  shows "map unpublished (db_outbox db') = map (event_row \<circ> snd) (sto_events (append_events es s))"
    "sto_published (append_events es s) = orw_id ` {r \<in> set (db_outbox db'). orw_published_at r \<noteq> None}"
proof -
  have "distinct (map orw_id (db_outbox db) @ map evt_id es)"
    using assms(3,4) by (simp add: keys_ok_def o_def)
  then have "distinct (map evt_id es)" "fst ` set (sto_events s) \<inter> evt_id ` set es = {}"
    using represents_ids [OF assms(1,2)] by (auto simp: known_events_def)
  then have "sto_events (append_events es s) = sto_events s @ map (\<lambda>e. (evt_id e, e)) es"
    by (simp add: append_events_def fold_update_new)
  then show "map unpublished (db_outbox db') = map (event_row \<circ> snd) (sto_events (append_events es s))"
    using assms(2,4) by (simp add: represents_def o_def)
  have "sto_published (append_events es s) = sto_published s" by (simp add: append_events_def)
  moreover have "{r \<in> set (map event_row es). orw_published_at r \<noteq> None} = {}" by (auto simp: event_row_def)
  ultimately show "sto_published (append_events es s) = orw_id ` {r \<in> set (db_outbox db'). orw_published_at r \<noteq> None}"
    using assms(2,4) by (auto simp: represents_def)
qed

lemma save_represents:
  assumes "engine_ok eng" "store_inv s" "represents db s" "savable s p"
    and run: "sql_save_with_events eng p es (db, w) = (Inr (), (db', w'))"
  shows "represents db' (save_with_events p es s)"
proof -
  obtain rows where e: "keys_ok db'" "columns_ok db'" "db_outbox db' = db_outbox db @ map event_row es"
    "db_payments db' = (if get (pay_id p) s = None then db_payments db @ [payment_row p]
       else map (\<lambda>r. if prw_id r = pay_id p then overwritten p r else r) (db_payments db))"
    by (rule save_effect [OF assms(1,3) run own_id [OF assms(2)]])
  have "holds db' q" if "get i (save p s) = Some q" for i q
    using that saved_holds [OF assms(1-4) run] others_hold [OF assms(1-4) run] by (auto split: if_splits)
  moreover have "get (prw_id x) (save p s) \<noteq> None" if "x \<in> set (db_payments db')" for x
    using that e(4) assms(3) by (auto simp: represents_def split: if_splits)
  moreover note ev = events_appended [OF assms(2,3) e(1,3)]
  have "sto_events (append_events es (save p s)) = sto_events (append_events es s)"
    "sto_published (append_events es (save p s)) = sto_published (append_events es s)"
    by (simp_all add: append_events_def save_def)
  ultimately show ?thesis using e(1,2) ev by (simp add: represents_def save_with_events_eq)
qed

text \<open>
  C14. Refinement: a save through PostgreSQL either raises and leaves the database exactly as
  it was, or commits a database that represents what the in-memory store would hold after
  the same save with the same events. (Payments are represented up to the order of their
  attempts and refunds and the rounding of latencies.) This covers a first save and a later
  one, which writes only the changed columns and the attempts and refunds that are new.
\<close>

theorem sql_save_refines:
  assumes "engine_ok eng" "store_inv s" "represents db s" "savable s p"
    and "sql_save_with_events eng p es (db, w) = (r, (db', w'))"
  shows "case r of Inl e \<Rightarrow> db' = db | Inr _ \<Rightarrow> represents db' (save_with_events p es s)"
proof (cases r)
  case (Inl e)
  then show ?thesis
    using assms(5) by (auto simp: sql_save_with_events_def commit_def Let_def split: prod.splits sum.splits if_splits)
next
  case (Inr u)
  then show ?thesis using save_represents [OF assms(1-4)] assms(5) by simp
qed

subsection \<open>Reading what was saved\<close>

lemma represents_rows:
  assumes "store_inv s" "represents db s"
  shows "mset (db_payments db) = mset (map (payment_row \<circ> snd) (sto_payments s))"
proof -
  have d: "dict_ok (sto_payments s)" using assms(1) by (simp add: store_inv_def)
  have own: "pay_id (snd x) = fst x" "get (fst x) s = Some (snd x)" if "x \<in> set (sto_payments s)" for x
  proof -
    show g: "get (fst x) s = Some (snd x)" using that d by (simp add: get_def)
    show "pay_id (snd x) = fst x" using own_id [OF assms(1) g] .
  qed
  have "map (prw_id \<circ> (payment_row \<circ> snd)) (sto_payments s) = map fst (sto_payments s)"
    using own(1) by simp
  then have "distinct (map (payment_row \<circ> snd) (sto_payments s))" using d by (metis distinct_map map_map)
  moreover have "distinct (db_payments db)" using assms(2) by (auto simp: represents_def keys_ok_def distinct_map)
  moreover have "set (db_payments db) = set (map (payment_row \<circ> snd) (sto_payments s))"
  proof (intro equalityI subsetI)
    fix r assume r: "r \<in> set (db_payments db)"
    then obtain p where p: "get (prw_id r) s = Some p" using assms(2) by (fastforce simp: represents_def)
    then have "payment_row p \<in> set (db_payments db)" "pay_id p = prw_id r"
      using assms(2) own_id [OF assms(1) p] by (auto simp: represents_def holds_def)
    then have "r = payment_row p" using r assms(2) by (auto simp: represents_def keys_ok_def distinct_map inj_on_def)
    moreover have "(prw_id r, p) \<in> set (sto_payments s)" using p by (simp add: get_def map_of_SomeD)
    ultimately show "r \<in> set (map (payment_row \<circ> snd) (sto_payments s))" by force
  next
    fix r assume "r \<in> set (map (payment_row \<circ> snd) (sto_payments s))"
    then show "r \<in> set (db_payments db)" using own(2) assms(2) by (auto simp: represents_def holds_def)
  qed
  ultimately show ?thesis by (metis set_eq_iff_mset_eq_distinct)
qed

lemma all_loaded:
  assumes "engine_ok eng" "\<forall>p\<in>set ps. holds db p"
  obtains qs where "all_or_error (map (to_domain eng db) (map payment_row ps)) = Inr qs" "list_all2 stored_as ps qs"
  using assms(2)
proof (induction ps arbitrary: thesis)
  case (Cons p ps)
  obtain q where q: "to_domain eng db (payment_row p) = Inr q" "stored_as p q"
    using to_domain_holds [OF assms(1)] Cons.prems(2) by auto
  obtain qs where qs: "all_or_error (map (to_domain eng db) (map payment_row ps)) = Inr qs" "list_all2 stored_as ps qs"
    using Cons.IH Cons.prems(2) by auto
  show ?case by (rule Cons.prems(1) [of "q # qs"]) (use q qs in auto)
qed simp

lemma list_filter_row:
  "list_filter m st a b p \<longleftrightarrow>
     (case m of None \<Rightarrow> True | Some x \<Rightarrow> prw_merchant_id (payment_row p) = x) \<and>
     (case st of None \<Rightarrow> True | Some v \<Rightarrow> prw_status (payment_row p) = v) \<and>
     (case a of None \<Rightarrow> True | Some t \<Rightarrow> t \<le> prw_created_at (payment_row p)) \<and>
     (case b of None \<Rightarrow> True | Some t \<Rightarrow> prw_created_at (payment_row p) \<le> t)"
  by (simp add: list_filter_def split: option.splits)

lemma mset_map_ex: "mset xs = mset (map f ys) \<Longrightarrow> \<exists>zs. xs = map f zs \<and> mset zs = mset ys"
proof (induction xs arbitrary: ys)
  case (Cons x xs)
  have "x \<in># mset (map f ys)" using Cons.prems by (metis list.set_intros(1) set_mset_mset)
  then obtain y where y: "y \<in> set ys" "x = f y" by auto
  then have "mset (map f ys) = add_mset (f y) (mset (map f (remove1 y ys)))"
    by (metis image_mset_add_mset insert_DiffM mset_map mset_remove1 set_mset_mset)
  then have "mset xs = mset (map f (remove1 y ys))" using Cons.prems y by simp
  then obtain zs where "xs = map f zs" "mset zs = mset (remove1 y ys)" using Cons.IH by blast
  then show ?case using y by (intro exI [of _ "y # zs"]) simp
qed simp

lemma sql_get_refines:
  assumes "engine_ok eng" "store_inv s" "represents db s"
  shows "\<exists>q. sql_get eng i db = Inr q \<and> rel_option stored_as (get i s) q"
proof (cases "get i s")
  case None
  then have "find_row i db = Inr None" using find_row_represents [OF assms(3), of i] by simp
  then show ?thesis using None by (simp add: sql_get_def loaded_def)
next
  case (Some p)
  then have "keys_ok db" "holds db p" "pay_id p = i" using assms(3) own_id [OF assms(2) Some] by (auto simp: represents_def)
  then show ?thesis using sql_get_holds [OF assms(1)] Some by (metis option.rel_intros(2))
qed

lemma sql_get_key_refines:
  assumes "engine_ok eng" "store_inv s" "represents db s"
  shows "\<exists>q. sql_get_by_idempotency eng m k db = Inr q \<and> rel_option stored_as (get_by_idempotency m k s) q"
proof (cases "get_by_idempotency m k s")
  case None
  have "\<not> (prw_merchant_id r = m \<and> prw_idempotency_key r = k)" if "r \<in> set (db_payments db)" for r
  proof
    assume mk: "prw_merchant_id r = m \<and> prw_idempotency_key r = k"
    have "r \<in># mset (map (payment_row \<circ> snd) (sto_payments s))"
      using that represents_rows [OF assms(2,3)] by (metis in_multiset_in_set)
    then obtain j p where p: "(j, p) \<in> set (sto_payments s)" "r = payment_row p" by auto
    then have "get j s = Some p" using assms(2) by (simp add: get_def store_inv_def)
    then show False using in_memory.gt_id [OF assms(2)] None mk p(2) by fastforce
  qed
  then have "sql_get_by_idempotency eng m k db = Inr None"
    using scalar_none [of "db_payments db"] by (simp add: sql_get_by_idempotency_def loaded_def)
  then show ?thesis using None by simp
next
  case (Some p)
  then have p: "key_of p = (m, k)" "get (pay_id p) s = Some p" using in_memory.gk_key [OF assms(2)] by auto
  then have "keys_ok db" "holds db p" using assms(3) by (auto simp: represents_def)
  then show ?thesis
    using sql_get_key_holds [OF assms(1)] Some p(1) by (metis key_of_def option.rel_intros(2) prod.inject)
qed

lemma sql_list_refines:
  assumes "engine_ok eng" "store_inv s" "represents db s"
  shows "\<exists>ps qs. sql_list eng fm fs fa fb db = Inr qs \<and> mset ps = mset (list_payments fm fs fa fb s) \<and>
       list_all2 stored_as ps qs \<and> sorted (map pay_created_at ps)"
proof -
  let ?L = "sort_key prw_created_at (scan_payments eng (db_payments db))" and ?P = "list_filter fm fs fa fb"
  have "mset ?L = mset (map payment_row (map snd (sto_payments s)))"
    using assms(1) represents_rows [OF assms(2,3)] by (simp add: engine_ok_def multiset.map_comp)
  then obtain ps where ps: "?L = map payment_row ps" "mset ps = mset (map snd (sto_payments s))"
    using mset_map_ex by blast
  have "holds db p" if p: "p \<in> set ps" for p
  proof -
    have "p \<in> snd ` set (sto_payments s)" using p ps(2) by (metis image_set set_mset_mset)
    then obtain i where "get i s = Some p" using assms(2) by (auto simp: get_def store_inv_def)
    then show ?thesis using assms(3) by (auto simp: represents_def)
  qed
  then obtain qs where qs: "all_or_error (map (to_domain eng db) (map payment_row (filter ?P ps))) = Inr qs"
    "list_all2 stored_as (filter ?P ps) qs"
    using all_loaded [OF assms(1), of "filter ?P ps" db] by auto
  have "sql_list eng fm fs fa fb db = Inr qs"
    unfolding sql_list_def ps(1) filter_map o_def list_filter_row [symmetric] by (rule qs(1))
  moreover have "mset (filter ?P ps) = mset (list_payments fm fs fa fb s)"
    using ps(2) by (simp add: list_payments_def)
  moreover have "sorted (map pay_created_at (filter ?P ps))"
  proof -
    have "sorted (map prw_created_at ?L)" by simp
    then have "sorted (map pay_created_at ps)" unfolding ps(1) by (simp add: o_def)
    then show ?thesis by (rule sorted_filter)
  qed
  ultimately show ?thesis using qs(2) by blast
qed

text \<open>
  C15. Reading from a database that represents a store: \<open>get\<close> and \<open>get_by_idempotency\<close> find
  exactly the payments the store has, and \<open>list\<close> returns exactly the payments that pass the
  filters, each once, ordered by creation time. Latencies are rounded and the attempts and
  refunds come in the order the engine chooses.
\<close>

theorem sql_reads_refine:
  assumes "engine_ok eng" "store_inv s" "represents db s"
  shows "(\<exists>q. sql_get eng i db = Inr q \<and> rel_option stored_as (get i s) q) \<and>
    (\<exists>q. sql_get_by_idempotency eng m k db = Inr q \<and> rel_option stored_as (get_by_idempotency m k s) q) \<and>
    (\<exists>ps qs. sql_list eng fm fs fa fb db = Inr qs \<and> mset ps = mset (list_payments fm fs fa fb s) \<and>
       list_all2 stored_as ps qs \<and> sorted (map pay_created_at ps))"
  using sql_get_refines [OF assms] sql_get_key_refines [OF assms] sql_list_refines [OF assms] by simp

lemma map_filter_zip:
  "map f rs = map g xs \<Longrightarrow> (\<And>r x. (r, x) \<in> set (zip rs xs) \<Longrightarrow> P r \<longleftrightarrow> Q x) \<Longrightarrow> map f (filter P rs) = map g (filter Q xs)"
proof (induction rs arbitrary: xs)
  case (Cons r rs)
  then obtain x xs' where xs: "xs = x # xs'" by (cases xs) auto
  have "map f (filter P rs) = map g (filter Q xs')" by (rule Cons.IH) (use Cons.prems xs in auto)
  moreover have "P r \<longleftrightarrow> Q x" using Cons.prems(2) [of r x] xs by simp
  ultimately show ?case using Cons.prems(1) xs by simp
qed simp

text \<open>The unpublished rows are those of the pending events, in the order of their insertion.\<close>

lemma unpublished_rows:
  assumes "store_inv s" "represents db s"
  shows "filter (\<lambda>r. orw_published_at r = None) (db_outbox db) = map event_row (pending s)"
proof -
  let ?rs = "db_outbox db" and ?xs = "sto_events s"
  have u: "map unpublished ?rs = map (event_row \<circ> snd) ?xs"
    and pub: "sto_published s = orw_id ` {r \<in> set ?rs. orw_published_at r \<noteq> None}"
    and d: "distinct (map orw_id ?rs)"
    using assms(2) by (auto simp: represents_def keys_ok_def)
  have "orw_published_at r = None \<longleftrightarrow> fst x \<notin> sto_published s" if rx: "(r, x) \<in> set (zip ?rs ?xs)" for r x
  proof -
    have x: "unpublished r = event_row (snd x)" "r \<in> set ?rs" "x \<in> set ?xs"
      using rx u by (auto simp: set_zip in_set_conv_nth dest: map_eq_imp_length_eq) (metis comp_apply length_map nth_map)
    then have "orw_id r = evt_id (snd x)" by (metis event_row_simps(1,2))
    moreover have "evt_id (snd x) = fst x" using assms(1) x(3) by (auto simp: store_inv_def)
    ultimately have id: "fst x = orw_id r" by simp
    have "r' = r" if "r' \<in> set ?rs" "orw_id r' = orw_id r" for r'
      using d x(2) that by (auto simp: distinct_map inj_on_def)
    then have "orw_id r \<in> orw_id ` {r \<in> set ?rs. orw_published_at r \<noteq> None} \<longleftrightarrow> orw_published_at r \<noteq> None"
      using x(2) by (metis (mono_tags, lifting) image_iff mem_Collect_eq)
    then show ?thesis unfolding id pub by blast
  qed
  then have "map unpublished (filter (\<lambda>r. orw_published_at r = None) ?rs) =
      map (event_row \<circ> snd) (filter (\<lambda>x. fst x \<notin> sto_published s) ?xs)"
    by (rule map_filter_zip [OF u])
  moreover have "map unpublished (filter (\<lambda>r. orw_published_at r = None) ?rs) = filter (\<lambda>r. orw_published_at r = None) ?rs"
    by (rule map_idI) (auto simp: unpublished_def)
  ultimately show ?thesis by (simp add: pending_def split_def)
qed

lemma mark_represents:
  assumes "represents db s" "store_inv s"
  shows "commit [SetPublished i t] db = (Inr (), apply_write (SetPublished i t) db) \<and>
    represents (apply_write (SetPublished i t) db) (mark_published i s)"
proof -
  define f where "f r = (if orw_id r = i then r\<lparr>orw_published_at := Some t\<rparr> else r)" for r :: OutboxEventRow
  have f: "orw_id (f r) = orw_id r" "unpublished (f r) = unpublished r" "outbox_row_ok (f r) = outbox_row_ok r" for r
    by (simp_all add: unpublished_def outbox_row_ok_def f_def)
  let ?db = "db\<lparr>db_outbox := map f (db_outbox db)\<rparr>"
  have db: "apply_write (SetPublished i t) db = ?db" by (simp add: f_def [abs_def])
  have ok: "keys_ok ?db" "columns_ok ?db"
    using assms(1) by (simp_all add: represents_def keys_ok_def columns_ok_def list_all_iff o_def f)
  have g: "get j (mark_published i s) = get j s" "sto_events (mark_published i s) = sto_events s" for j
    by (simp_all add: get_def mark_published_def)
  have "{r \<in> set (db_outbox ?db). orw_published_at r \<noteq> None} =
      f ` {r \<in> set (db_outbox db). orw_published_at r \<noteq> None \<or> orw_id r = i}" by (auto simp: f_def)
  then have "orw_id ` {r \<in> set (db_outbox ?db). orw_published_at r \<noteq> None} =
      orw_id ` {r \<in> set (db_outbox db). orw_published_at r \<noteq> None \<or> orw_id r = i}"
    by (simp only: image_image f(1))
  also have "\<dots> = orw_id ` {r \<in> set (db_outbox db). orw_published_at r \<noteq> None} \<union> (orw_id ` set (db_outbox db) \<inter> {i})"
    by auto
  also have "\<dots> = sto_published (mark_published i s)"
    using assms(1) represents_ids [OF assms(2,1)] by (auto simp: represents_def mark_published_def known_events_def)
  finally have pub: "sto_published (mark_published i s) = orw_id ` {r \<in> set (db_outbox ?db). orw_published_at r \<noteq> None}" ..
  have "represents ?db (mark_published i s)"
    unfolding represents_def pub using assms(1) ok g by (simp add: represents_def holds_def o_def f)
  then show ?thesis using ok unfolding commit_def by (simp add: db Let_def del: apply_write.simps)
qed

lemma sql_unsent_rows:
  assumes "engine_ok eng" "store_inv s" "represents db s"
  shows "\<exists>es. mset es = mset (pending s) \<and> sorted (map evt_occurred_at es) \<and> sql_unsent eng limit db = Inr (take limit es)"
proof -
  let ?L = "sort_key orw_created_at (scan_events eng (filter (\<lambda>r. orw_published_at r = None) (db_outbox db)))"
  have "mset ?L = mset (map event_row (pending s))"
    using assms(1) unpublished_rows [OF assms(2,3)] by (simp add: engine_ok_def)
  then obtain es where es: "?L = map event_row es" "mset es = mset (pending s)" using mset_map_ex by blast
  have "sorted (map orw_created_at ?L)" by simp
  then have "sorted (map evt_occurred_at es)" unfolding es(1) by (simp add: o_def)
  moreover have "sql_unsent eng limit db = Inr (take limit es)"
    using all_or_error_Inr [of "\<lambda>e. e" "take limit es"] by (simp add: sql_unsent_def es(1) take_map o_def)
  ultimately show ?thesis using es(2) by blast
qed

text \<open>
  The outbox in PostgreSQL: marking an event succeeds and is marking it in the store;
  \<open>unsent\<close> returns pending events only, as many as the limit allows, oldest first; and when
  the pending events carry increasing timestamps it returns exactly what the store returns.
  (The timestamps are the only order the table keeps: events stamped in the same
  microsecond may come out in any order.)
\<close>

theorem sql_outbox_refines:
  assumes "engine_ok eng" "store_inv s" "represents db s"
  shows "(\<exists>db' w'. sql_mark_published i (db, w) = (Inr (), (db', w')) \<and> represents db' (mark_published i s)) \<and>
    (\<exists>es. sql_unsent eng limit db = Inr es \<and> set es \<subseteq> set (pending s) \<and> length es = min limit (length (pending s)) \<and>
       sorted (map evt_occurred_at es)) \<and>
    (sorted_wrt (<) (map evt_occurred_at (pending s)) \<longrightarrow> sql_unsent eng limit db = Inr (unsent (int limit) s))"
proof -
  obtain es where es: "mset es = mset (pending s)" "sorted (map evt_occurred_at es)" "sql_unsent eng limit db = Inr (take limit es)"
    using sql_unsent_rows [OF assms] by blast
  have "set (take limit es) \<subseteq> set (pending s)" using es(1) set_take_subset [of limit es] by (metis set_mset_mset)
  moreover have "length es = length (pending s)" using es(1) by (metis size_mset)
  moreover have "es = pending s" if inc: "sorted_wrt (<) (map evt_occurred_at (pending s))"
  proof -
    have inj: "inj_on evt_occurred_at (set (pending s))"
      using inc by (metis distinct_map strict_sorted_iff)
    have "sorted (map evt_occurred_at (pending s))" using inc by (simp add: strict_sorted_iff)
    then show ?thesis
      using sort_key_inj_key_eq [OF _ inj es(2)] sort_key_inj_key_eq [OF refl inj] es(1) by metis
  qed
  moreover have "sorted (map evt_occurred_at (take limit es))" using es(2) by (simp add: take_map [symmetric] sorted_wrt_take)
  moreover have "take limit (pending s) = unsent (int limit) s" by (simp add: in_memory_outbox.uns_pend)
  moreover have "\<exists>db' w'. sql_mark_published i (db, w) = (Inr (), (db', w')) \<and> represents db' (mark_published i s)"
    using mark_represents [OF assms(3,2), of i "fst (utcnow w)"]
    by (simp add: sql_mark_published_def case_prod_beta del: apply_write.simps)
  ultimately show ?thesis using es(3) by (simp add: min.commute)
qed

subsection \<open>Evaluations\<close>

text \<open>An engine that returns rows in the order of their insertion.\<close>

definition heap_order :: engine where
  "heap_order = \<lparr>scan_payments = (\<lambda>rs. rs), scan_attempts = (\<lambda>rs. rs), scan_refunds = (\<lambda>rs. rs), scan_events = (\<lambda>rs. rs)\<rparr>"

lemma heap_order_ok: "engine_ok heap_order"
  by (simp add: engine_ok_def heap_order_def)

lemma empty_represents: "represents empty_database new_InMemoryPaymentStore"
  by (simp add: represents_def keys_ok_def columns_ok_def empty_database_def new_InMemoryPaymentStore_def get_def)

lemmas sample_payment_eval = sample_payment_def new_Payment_def uuid4_def utcnow_def sample_world_def

lemma sample_saved:
  "fst (sql_save_with_events heap_order sample_payment [] (empty_database, sample_world)) = Inr ()"
  by (simp add: sql_save_with_events_def save_writes_def find_row_def empty_database_def commit_def columns_ok_def keys_ok_def
      payment_row_ok_def varchar_def varchar_null_def int4_def payment_row_def sample_payment_eval)

theorem sql_save_refines_witness:
  "\<exists>db' w'. sql_save_with_events heap_order sample_payment [] (empty_database, sample_world) = (Inr (), (db', w')) \<and>
     represents db' (save_with_events sample_payment [] new_InMemoryPaymentStore)"
proof -
  obtain db' w' where run: "sql_save_with_events heap_order sample_payment [] (empty_database, sample_world) = (Inr (), (db', w'))"
    using sample_saved by (metis prod.collapse)
  have "savable new_InMemoryPaymentStore sample_payment"
    by (simp add: savable_def get_def new_InMemoryPaymentStore_def sample_payment_eval)
  from sql_save_refines [OF heap_order_ok new_store_inv empty_represents this run] run show ?thesis by simp
qed

text \<open>The database after the sample payment and one event were saved.\<close>

definition sample_events :: "EventEnvelope list" where
  "sample_events = [fst (new_EventEnvelope PAYMENT_SUCCEEDED ''m'' (Some 0) [] None sample_world)]"

definition saved_database :: database where
  "saved_database = fst (snd (sql_save_with_events heap_order sample_payment sample_events (empty_database, sample_world)))"

definition saved_store :: InMemoryPaymentStore where
  "saved_store = save_with_events sample_payment sample_events new_InMemoryPaymentStore"

lemma saved_represents: "represents saved_database saved_store" "store_inv saved_store"
proof -
  have "fst (sql_save_with_events heap_order sample_payment sample_events (empty_database, sample_world)) = Inr ()"
    by (simp add: sql_save_with_events_def save_writes_def find_row_def empty_database_def commit_def columns_ok_def keys_ok_def
        payment_row_ok_def varchar_def varchar_null_def int4_def payment_row_def sample_payment_eval sample_events_def
        new_EventEnvelope_def event_row_def outbox_row_ok_def)
  then have run: "sql_save_with_events heap_order sample_payment sample_events (empty_database, sample_world) =
      (Inr (), (saved_database, snd (snd (sql_save_with_events heap_order sample_payment sample_events (empty_database, sample_world)))))"
    by (simp add: saved_database_def prod_eq_iff)
  have "savable new_InMemoryPaymentStore sample_payment"
    by (simp add: savable_def get_def new_InMemoryPaymentStore_def sample_payment_eval)
  from save_represents [OF heap_order_ok new_store_inv empty_represents this run]
  show "represents saved_database saved_store" by (simp add: saved_store_def)
  have "can_save new_InMemoryPaymentStore sample_payment"
    by (simp add: can_save_def new_InMemoryPaymentStore_def get_def get_by_idempotency_def)
  then show "store_inv saved_store"
    using in_memory.sv_invar [OF new_store_inv] append_inv by (simp add: saved_store_def save_with_events_eq)
qed

theorem sql_reads_refine_witness: "\<exists>q. sql_get heap_order 0 saved_database = Inr (Some q) \<and> stored_as sample_payment q"
proof -
  have "get 0 saved_store = Some sample_payment"
    by (simp add: saved_store_def save_with_events_eq sample_payment_eval)
  then show ?thesis
    using conjunct1 [OF sql_reads_refine [OF heap_order_ok saved_represents(2,1), of 0]] by (auto simp: option_rel_Some1)
qed

theorem sql_outbox_refines_witness: "sql_unsent heap_order 100 saved_database = Inr sample_events"
proof -
  have "pending saved_store = sample_events" "unsent 100 saved_store = sample_events"
    by (simp_all add: saved_store_def save_with_events_eq save_def append_events_def new_InMemoryPaymentStore_def sample_events_def
        new_EventEnvelope_def uuid4_def utcnow_def sample_world_def pending_def unsent_def py_prefix_def)
  then show ?thesis
    using sql_outbox_refines [OF heap_order_ok saved_represents(2,1), of 0 sample_world 100]
    by (simp add: sample_events_def)
qed

end
