(* ===== verification/Sql_Service.thy ===== *)
theory Sql_Service
  imports Sql_Repository Payments
begin

text \<open>
  The payment service over the PostgreSQL repository, with claims kept in the process: the
  collaborators as the runtime wires them for this profile, and what becomes of a charge
  that the database refuses to record.
\<close>

text \<open>The repository draws identifiers and timestamps of its own.\<close>

record sql_backend =
  sqb_db :: database
  sqb_world :: world
  sqb_idempotency :: MemoryIdempotencyCoordinator

definition on_db :: "(database \<times> world \<Rightarrow> unit res \<times> database \<times> world) \<Rightarrow> sql_backend \<Rightarrow> unit res \<times> sql_backend" where
  "on_db f b = (let (r, db, w) = f (sqb_db b, sqb_world b) in (r, b\<lparr>sqb_db := db, sqb_world := w\<rparr>))"

definition sql_ops :: "engine \<Rightarrow> sql_backend backend_ops" where
  "sql_ops eng =
     \<lparr>be_acquire = (\<lambda>m k fp b. let (r, c) = acquire m k fp (sqb_idempotency b) in (r, b\<lparr>sqb_idempotency := c\<rparr>)),
      be_complete = (\<lambda>m k fp pid b. let (r, c) = complete m k fp pid (sqb_idempotency b) in (r, b\<lparr>sqb_idempotency := c\<rparr>)),
      be_abort = (\<lambda>m k fp b. let (r, c) = abort m k fp (sqb_idempotency b) in (r, b\<lparr>sqb_idempotency := c\<rparr>)),
      be_get = (\<lambda>i b. (sql_get eng i (sqb_db b), b)),
      be_get_by_idempotency = (\<lambda>m k b. (sql_get_by_idempotency eng m k (sqb_db b), b)),
      be_list = (\<lambda>m v after before b. (sql_list eng m v after before (sqb_db b), b)),
      be_save = (\<lambda>p. on_db (sql_save eng p)),
      be_save_with_events = Some (\<lambda>p es. on_db (sql_save_with_events eng p es)),
      be_append = Some (\<lambda>es. on_db (\<lambda>(db, w). let (r, db1) = sql_append es db in (r, db1, w))),
      be_outbox_is_store = True\<rparr>"

subsection \<open>A payment the database cannot hold\<close>

text \<open>Payments and claims are as they were; events of circuits may have been appended.\<close>

definition payments_kept :: "PaymentRow list \<Rightarrow> MemoryIdempotencyCoordinator \<Rightarrow> sql_backend \<Rightarrow> world \<Rightarrow> bool" where
  "payments_kept rows c b w \<longleftrightarrow> db_payments (sqb_db b) = rows \<and> sqb_idempotency b = c"

lemma sql_frame_axioms:
  assumes "payment_provider ops"
  shows "attempt_frame ops (sql_ops eng) (payments_kept rows c)"
proof (intro attempt_frame.intro attempt_frame_axioms.intro assms)
  show "payments_kept rows c b w \<Longrightarrow> world_le w w' \<Longrightarrow> payments_kept rows c b w'" for b w w'
    by (simp add: payments_kept_def)
  fix b w app and e :: EventEnvelope and w'
  assume k: "payments_kept rows c b w" and app: "be_append (sql_ops eng) = Some app"
  have "db_payments (snd (sql_append [e] db)) = db_payments db" for db
    by (simp add: sql_append_def commit_def Let_def)
  then show "payments_kept rows c (snd (app [e] b)) w'"
    using k app by (auto simp: sql_ops_def on_db_def payments_kept_def case_prod_beta)
qed

interpretation sql_frame: attempt_frame mock_ops "sql_ops eng" "payments_kept rows c" for eng rows c
  by (rule sql_frame_axioms [OF mock.payment_provider_axioms])

text \<open>A payment the columns cannot hold and whose row is not there yet is refused.\<close>

lemma oversized_refused:
  assumes "\<not> int4 (pay_amount p)" "pay_id p \<notin> prw_id ` set (db_payments db)"
  shows "\<exists>w1. sql_save_with_events eng p es (db, w) = (Inl (OtherException ''DBAPIError''), (db, w1))"
proof -
  have found: "find_row (pay_id p) db = Inr None"
    unfolding find_row_def by (rule scalar_none) (use assms(2) in force)
  obtain rows where rows: "fold apply_write (fst (attempt_writes (pay_id p) (pay_attempts p) w)) =
      (\<lambda>db. db\<lparr>db_attempts := db_attempts db @ rows\<rparr>)"
    by (rule fold_attempts)
  let ?m = "if pay_merchant_id p \<in> set (map mrw_id (db_merchants db)) then []
    else [InsertMerchant \<lparr>mrw_id = pay_merchant_id p, mrw_created_at = pay_created_at p\<rparr>]"
  let ?ws = "?m @ [InsertPayment (payment_row p)] @ fst (attempt_writes (pay_id p) (pay_attempts p) w) @
    map (InsertRefund \<circ> refund_row) (pay_refunds p) @ map (InsertEvent \<circ> event_row) es"
  have "fst (save_writes eng p es db w) = Inr ?ws"
    by (simp add: save_writes_def found Let_def case_prod_beta)
  moreover have "db_payments (fold apply_write ?ws db) = db_payments db @ [payment_row p]"
    unfolding fold_append rows by simp
  then have "\<not> columns_ok (fold apply_write ?ws db)"
    using assms(1) by (simp add: columns_ok_def payment_row_ok_def payment_row_def)
  ultimately show ?thesis
    unfolding sql_save_with_events_def commit_def by (cases "save_writes eng p es db w") (simp add: Let_def)
qed

text \<open>Settling such a payment raises and keeps payments and claims.\<close>

lemma settle_refused:
  assumes "\<not> int4 (pay_amount p)" "pay_id p \<notin> prw_id ` set rows" "payments_kept rows c (svc_backend (fst st)) (snd st)"
  obtains st' where "settle (sql_ops eng) data fp p final st = (Inl (OtherException ''DBAPIError''), st')"
    "payments_kept rows c (svc_backend (fst st')) (snd st')"
proof -
  obtain es w1 where ev: "creation_events p final (snd st) = (es, w1)" by (metis prod.collapse)
  have ne: "es \<noteq> []" using ev by (auto simp: creation_events_def Let_def case_prod_beta)
  let ?b = "svc_backend (fst st)"
  obtain w2 where "sql_save_with_events eng p es (sqb_db ?b, sqb_world ?b) = (Inl (OtherException ''DBAPIError''), (sqb_db ?b, w2))"
    using oversized_refused [OF assms(1)] assms(2,3) by (fastforce simp: payments_kept_def)
  then have "save_payment (sql_ops eng) p es (fst st, w1) =
      (Inl (OtherException ''DBAPIError''), ((fst st)\<lparr>svc_backend := ?b\<lparr>sqb_world := w2\<rparr>\<rparr>, w1))"
    using ne by (simp add: save_payment_def sql_ops_def on_backend_def on_db_def Let_def)
  then have "settle (sql_ops eng) data fp p final st =
      (Inl (OtherException ''DBAPIError''), ((fst st)\<lparr>svc_backend := ?b\<lparr>sqb_world := w2\<rparr>\<rparr>, w1))"
    by (simp add: settle_def ev)
  from that [OF this] assms(3) show thesis by (simp add: payments_kept_def)
qed

lemma candidates_refused:
  assumes "payment_provider ops" "\<not> int4 (pay_amount pay)" "pay_id pay \<notin> prw_id ` set rows"
    and "payments_kept rows c (svc_backend (fst st)) (snd st)"
    and "try_candidates ops (sql_ops eng) data fp ps le pay st = (r, le', pay', st')"
  shows "r \<noteq> Inr True \<and> pay_amount pay' = pay_amount pay \<and> pay_id pay' = pay_id pay \<and>
    payments_kept rows c (svc_backend (fst st')) (snd st')"
  using assms(2-5)
proof (induction ps arbitrary: le pay st)
  case (Cons p ps)
  obtain q pay1 st1 where at: "attempt_provider ops (sql_ops eng) pay p data st = (q, pay1, st1)" by (metis prod.collapse)
  have k1: "payments_kept rows c (svc_backend (fst st1)) (snd st1)"
    using attempt_frame.attempt_provider_J [OF sql_frame_axioms [OF assms(1)] Cons.prems(3)] at by (metis snd_conv)
  have same: "pay_amount pay1 = pay_amount pay" "pay_id pay1 = pay_id pay" using attempt_provider_payment [OF at] by auto
  show ?case
  proof (cases q)
    case (Inr v)
    let ?p = "pay1\<lparr>pay_status := SUCCEEDED, pay_reference := Some (res_reference v), pay_provider := Some (prv_name p)\<rparr>"
    obtain st2 where "settle (sql_ops eng) data fp ?p PAYMENT_SUCCEEDED st1 = (Inl (OtherException ''DBAPIError''), st2)"
      "payments_kept rows c (svc_backend (fst st2)) (snd st2)"
      by (rule settle_refused [of ?p rows c st1]) (use Cons.prems(1,2) k1 same in simp_all)
    then show ?thesis using Cons.prems(4) at Inr same by (auto simp: Let_def)
  next
    case (Inl e)
    then show ?thesis
      using Cons.IH [of pay1 st1] Cons.prems(1,2,4) at k1 same by (auto simp: Let_def split: if_splits)
  qed
qed auto

text \<open>The body of \<open>create\<close> under the claim raises, keeps the payments and still holds the claim.\<close>

lemma claimed_refused:
  assumes "payment_provider ops" "\<not> int4 (inp_amount data)" "uuid_at w (tick w) \<notin> prw_id ` set rows"
    and "sql_get_by_idempotency eng (inp_merchant_id data) (inp_idempotency_key data) (sqb_db (svc_backend s)) = Inr None"
    and "payments_kept rows c (svc_backend s) w"
  obtains e st' where "create_claimed ops (sql_ops eng) data fp (s, w) = ((Inl e, True), st')"
    "payments_kept rows c (svc_backend (fst st')) (snd st')"
proof -
  obtain pay w2 where np: "new_Payment (inp_merchant_id data) (inp_amount data) (inp_currency data)
      (inp_payment_method_type data) (inp_idempotency_key data) fp w = (pay, w2)" by (metis prod.collapse)
  have pay: "pay_amount pay = inp_amount data" "pay_id pay = uuid_at w (tick w)"
    using np by (auto simp: new_Payment_def uuid4_def utcnow_def Let_def)
  obtain h w3 where hp: "healthy_providers ops (svc_providers s) w2 = (h, w3)" by (metis prod.collapse)
  have find: "on_backend (be_get_by_idempotency (sql_ops eng) (inp_merchant_id data) (inp_idempotency_key data)) (s, w) = (Inr None, (s, w))"
    using assms(4) by (simp add: on_backend_def sql_ops_def)
  have k: "payments_kept rows c (svc_backend s) w'" for w' using assms(5) by (simp add: payments_kept_def)
  note unf = create_claimed_def find np hp
  show thesis
  proof (cases h)
    case (Inl e)
    then show ?thesis using that [of e "(s, w3)"] k by (simp add: unf)
  next
    case (Inr healthy)
    obtain ch router where ch: "choose_provider healthy (svc_router s) = (ch, router)" by (metis prod.collapse)
    show ?thesis
    proof (cases ch)
      case (Inl e)
      then show ?thesis using that [of e "(s\<lparr>svc_router := router\<rparr>, w3)"] k Inr ch by (simp add: unf)
    next
      case chosen: (Inr p)
      let ?st = "(s\<lparr>svc_router := router\<rparr>, w3)" and ?ps = "p # filter (\<lambda>q. prv_object q \<noteq> prv_object p) healthy"
      obtain r le pay1 st4 where tc: "try_candidates ops (sql_ops eng) data fp ?ps None pay ?st = (r, le, pay1, st4)"
        by (metis prod.collapse)
      have kst: "payments_kept rows c (svc_backend (fst ?st)) (snd ?st)" using k by simp
      have t: "r \<noteq> Inr True" "pay_amount pay1 = inp_amount data" "pay_id pay1 = uuid_at w (tick w)"
        "payments_kept rows c (svc_backend (fst st4)) (snd st4)"
        using candidates_refused [OF assms(1) _ _ kst tc] pay assms(2,3) by auto
      obtain st5 where se: "settle (sql_ops eng) data fp (pay1\<lparr>pay_status := FAILED\<rparr>) PAYMENT_FAILED st4 =
          (Inl (OtherException ''DBAPIError''), st5)" "payments_kept rows c (svc_backend (fst st5)) (snd st5)"
        by (rule settle_refused [of "pay1\<lparr>pay_status := FAILED\<rparr>" rows c st4]) (use t assms(2,3) in simp_all)
      show ?thesis
      proof (cases r)
        case (Inl e)
        then show ?thesis using that [of e st4] t(4) Inr chosen ch tc by (simp add: unf)
      next
        case (Inr ok)
        then have "r = Inr False" using t(1) by (cases ok) auto
        then show ?thesis using that [OF _ se(2)] \<open>h = Inr healthy\<close> chosen ch tc se(1) by (simp add: unf)
      qed
    qed
  qed
qed


subsection \<open>Concurrent first payments\<close>

fun inserted_merchants :: "db_write list \<Rightarrow> MerchantRow list" where
  "inserted_merchants [] = []"
| "inserted_merchants (InsertMerchant r # ws) = r # inserted_merchants ws"
| "inserted_merchants (_ # ws) = inserted_merchants ws"

lemma fold_merchants: "db_merchants (fold apply_write ws db) = db_merchants db @ inserted_merchants ws"
  by (induction ws arbitrary: db rule: inserted_merchants.induct) simp_all

lemma inserted_merchants_append: "inserted_merchants (xs @ ys) = inserted_merchants xs @ inserted_merchants ys"
  by (induction xs rule: inserted_merchants.induct) simp_all

lemma new_merchant_inserted:
  assumes "save_writes eng p es db w = (Inr ws, w')" "pay_merchant_id p \<notin> mrw_id ` set (db_merchants db)"
  shows "pay_merchant_id p \<in> mrw_id ` set (inserted_merchants ws)"
  using assms by (auto simp: save_writes_def Let_def case_prod_beta inserted_merchants_append split: sum.splits)


subsection \<open>Evaluations\<close>

definition empty_sql_backend :: sql_backend where
  "empty_sql_backend = \<lparr>sqb_db = empty_database, sqb_world = sample_world, sqb_idempotency = new_MemoryIdempotencyCoordinator\<rparr>"

definition sql_service :: "sql_backend PaymentService" where
  "sql_service = \<lparr>svc_providers = fleet, svc_backend = empty_sql_backend, svc_router = sample_router ''round_robin'',
     svc_retry_policy = default_RetryPolicy, svc_metrics = None, svc_provider_concurrency_limit = 0,
     svc_semaphores = Map.empty, svc_circuits = Map.empty, svc_refund_locks = {}\<rparr>"



end
