(* ===== verification/Rate_Limit.thy ===== *)
theory Rate_Limit
  imports Prelude
begin

text \<open>
  Rate limiting (\<open>rate_limit.py\<close>): the in-memory token bucket. A call to \<open>consume\<close>
  holds the limiter's lock throughout, so a call is one step; what a sequence of calls of
  one merchant may obtain is proved for every limiter that keeps the bucket contract.
\<close>

record RateLimitDecision =
  rld_allowed :: bool
  rld_limit :: int
  rld_remaining :: int
  rld_retry_after_seconds :: int

record InMemoryTokenBucketLimiter =
  lim_capacity :: int
  lim_refill_per_second :: real
  lim_buckets :: "string \<rightharpoonup> real \<times> real"

definition new_InMemoryTokenBucketLimiter :: "int \<Rightarrow> real \<Rightarrow> InMemoryTokenBucketLimiter res" where
  "new_InMemoryTokenBucketLimiter capacity refill =
     (if capacity < 1 \<or> refill \<le> 0
      then Inl (ValueError ''Token bucket capacity and refill must be positive'')
      else Inr \<lparr>lim_capacity = capacity, lim_refill_per_second = refill, lim_buckets = Map.empty\<rparr>)"

definition refilled :: "string \<Rightarrow> real \<Rightarrow> InMemoryTokenBucketLimiter \<Rightarrow> real" where
  "refilled merchant_id now l =
     (let (tokens, updated) = (case lim_buckets l merchant_id of
                                 Some b \<Rightarrow> b | None \<Rightarrow> (of_int (lim_capacity l), now))
      in min (of_int (lim_capacity l)) (tokens + max 0 (now - updated) * lim_refill_per_second l))"

text \<open>\<open>consume\<close> after its clock reading, and the whole method.\<close>

definition consume_at ::
  "string \<Rightarrow> real \<Rightarrow> InMemoryTokenBucketLimiter \<Rightarrow> RateLimitDecision \<times> InMemoryTokenBucketLimiter" where
  "consume_at merchant_id now l =
     (let tokens = refilled merchant_id now l;
          (tokens1, decision) =
            (if 1 \<le> tokens
             then (tokens - 1,
                   \<lparr>rld_allowed = True, rld_limit = lim_capacity l, rld_remaining = floor (tokens - 1),
                    rld_retry_after_seconds = 0\<rparr>)
             else (tokens,
                   \<lparr>rld_allowed = False, rld_limit = lim_capacity l, rld_remaining = 0,
                    rld_retry_after_seconds = max 1 (ceiling ((1 - tokens) / lim_refill_per_second l))\<rparr>))
      in (decision, l\<lparr>lim_buckets := (lim_buckets l)(merchant_id \<mapsto> (tokens1, now))\<rparr>))"

definition consume_token ::
  "string \<Rightarrow> InMemoryTokenBucketLimiter \<Rightarrow> world \<Rightarrow> RateLimitDecision \<times> InMemoryTokenBucketLimiter \<times> world" where
  "consume_token merchant_id l w =
     (let (now, w1) = monotonic w; (decision, l1) = consume_at merchant_id now l in (decision, l1, w1))"

text \<open>Calls one after the other, each at its clock reading.\<close>

fun run_calls :: "(string \<Rightarrow> real \<Rightarrow> 'l \<Rightarrow> RateLimitDecision \<times> 'l) \<Rightarrow> (string \<times> real) list \<Rightarrow> 'l \<Rightarrow>
  (string \<times> RateLimitDecision) list \<times> 'l" where
  "run_calls con [] l = ([], l)"
| "run_calls con ((m, t) # cs) l =
     (let (d, l1) = con m t l; (ds, l2) = run_calls con cs l1 in ((m, d) # ds, l2))"

definition allowed_calls :: "string \<Rightarrow> (string \<times> RateLimitDecision) list \<Rightarrow> nat" where
  "allowed_calls m ds = length (filter (\<lambda>(m', d). m' = m \<and> rld_allowed d) ds)"

subsection \<open>Bucket invariant\<close>

text \<open>
  Every bucket holds between zero and \<open>capacity\<close> tokens and was last written at a clock
  reading that is not in the future.
\<close>

definition limiter_inv :: "real \<Rightarrow> InMemoryTokenBucketLimiter \<Rightarrow> bool" where
  "limiter_inv now l \<longleftrightarrow>
     1 \<le> lim_capacity l \<and> 0 < lim_refill_per_second l \<and>
     (\<forall>m tokens updated. lim_buckets l m = Some (tokens, updated) \<longrightarrow>
        0 \<le> tokens \<and> tokens \<le> of_int (lim_capacity l) \<and> updated \<le> now)"

lemma refilled_bounds:
  assumes "limiter_inv now0 l"
  shows "0 \<le> refilled m now l \<and> refilled m now l \<le> of_int (lim_capacity l)"
  using assms by (auto simp: limiter_inv_def refilled_def Let_def split: option.splits prod.splits)

lemma consume_at_cases:
  "consume_at m t l =
     (if 1 \<le> refilled m t l
      then (\<lparr>rld_allowed = True, rld_limit = lim_capacity l, rld_remaining = floor (refilled m t l - 1),
             rld_retry_after_seconds = 0\<rparr>,
            l\<lparr>lim_buckets := (lim_buckets l)(m \<mapsto> (refilled m t l - 1, t))\<rparr>)
      else (\<lparr>rld_allowed = False, rld_limit = lim_capacity l, rld_remaining = 0,
             rld_retry_after_seconds = max 1 (ceiling ((1 - refilled m t l) / lim_refill_per_second l))\<rparr>,
            l\<lparr>lim_buckets := (lim_buckets l)(m \<mapsto> (refilled m t l, t))\<rparr>))"
  by (simp add: consume_at_def Let_def)

lemma consume_at_inv:
  assumes "limiter_inv now l" "now \<le> t"
  shows "limiter_inv t (snd (consume_at m t l))"
  using assms refilled_bounds [OF assms(1), of m t]
  by (fastforce simp: limiter_inv_def consume_at_cases)

subsection \<open>The contract of a limiter\<close>

text \<open>
  A limiter with a budget per merchant: the budget lies between zero and the capacity, it
  grows with time no faster than the refill rate, an allowed call spends one unit, a
  refused call spends nothing and happens only below one unit, and the calls of one
  merchant never touch another's budget. From this follows what a merchant can obtain in
  any window of time.
\<close>

locale token_bucket =
  fixes con :: "string \<Rightarrow> real \<Rightarrow> 'l \<Rightarrow> RateLimitDecision \<times> 'l"
    and budget :: "string \<Rightarrow> real \<Rightarrow> 'l \<Rightarrow> real"
    and invar :: "real \<Rightarrow> 'l \<Rightarrow> bool"
    and cap rate :: real
  assumes invar_con: "invar now l \<Longrightarrow> now \<le> t \<Longrightarrow> con m t l = (d, l') \<Longrightarrow> invar t l'"
    and budget_range: "invar now l \<Longrightarrow> 0 \<le> budget m t l \<and> budget m t l \<le> cap"
    and budget_grows: "invar now l \<Longrightarrow> now \<le> s \<Longrightarrow> s \<le> t \<Longrightarrow> budget m t l \<le> budget m s l + (t - s) * rate"
    and spends: "invar now l \<Longrightarrow> now \<le> t \<Longrightarrow> con m t l = (d, l') \<Longrightarrow>
      budget m t l' = budget m t l - (if rld_allowed d then 1 else 0)"
    and refuses: "invar now l \<Longrightarrow> now \<le> t \<Longrightarrow> con m t l = (d, l') \<Longrightarrow> rld_allowed d \<longleftrightarrow> 1 \<le> budget m t l"
    and isolated: "con m t l = (d, l') \<Longrightarrow> m' \<noteq> m \<Longrightarrow> budget m' s l' = budget m' s l"
begin

lemma run_bound:
  assumes "invar now l" "now \<le> t0" "sorted (map snd cs)" "\<forall>(m', t)\<in>set cs. t0 \<le> t \<and> t \<le> T" "t0 \<le> T"
    and "run_calls con cs l = (ds, l')"
  shows "real (allowed_calls m ds) + budget m T l' \<le> budget m t0 l + (T - t0) * rate \<and> 0 \<le> budget m T l'"
  using assms
proof (induction cs arbitrary: l now t0 ds)
  case Nil
  then show ?case using budget_grows [of now l t0 T m] budget_range [of now l m T] by (auto simp: allowed_calls_def)
next
  case (Cons c cs)
  obtain m' t where c: "c = (m', t)" by (cases c)
  obtain d l1 where d: "con m' t l = (d, l1)" by fastforce
  obtain ds1 where ds1: "run_calls con cs l1 = (ds1, l')" "ds = (m', d) # ds1"
    using Cons.prems(6) c d by (auto split: prod.splits)
  have t: "t0 \<le> t" "t \<le> T" "now \<le> t" using Cons.prems(2,4) c by auto
  have "\<forall>(m'', u)\<in>set cs. t \<le> u \<and> u \<le> T" using Cons.prems(3,4) c by fastforce
  then have IH: "real (allowed_calls m ds1) + budget m T l' \<le> budget m t l1 + (T - t) * rate \<and> 0 \<le> budget m T l'"
    using Cons.IH [OF invar_con [OF Cons.prems(1) t(3) d] order_refl] Cons.prems(3) c t(2) ds1(1) by auto
  have grow: "budget m t l \<le> budget m t0 l + (t - t0) * rate"
    using budget_grows [OF Cons.prems(1,2) t(1)] .
  have "budget m t l1 = budget m t l - (if m' = m \<and> rld_allowed d then 1 else 0)"
    using spends [OF Cons.prems(1) t(3) d] isolated [OF d, of m t] by (cases "m' = m") auto
  then show ?case
    using IH grow ds1(2) by (auto simp: allowed_calls_def algebra_simps)
qed

lemma rate_bound:
  assumes "invar now l" "now \<le> t0" "sorted (map snd cs)" "\<forall>(m', t)\<in>set cs. t0 \<le> t \<and> t \<le> T" "t0 \<le> T"
    and "run_calls con cs l = (ds, l')"
  shows "real (allowed_calls m ds) \<le> cap + (T - t0) * rate"
  using run_bound [OF assms, of m] budget_range [OF assms(1), of m t0] by linarith

lemma others_keep_budget:
  "run_calls con cs l = (ds, l') \<Longrightarrow> m \<notin> fst ` set cs \<Longrightarrow> budget m s l' = budget m s l"
proof (induction cs arbitrary: l ds)
  case (Cons c cs)
  obtain m' t where c: "c = (m', t)" by (cases c)
  obtain d l1 where d: "con m' t l = (d, l1)" by fastforce
  then obtain ds1 where "run_calls con cs l1 = (ds1, l')" using Cons.prems(1) c by (auto split: prod.splits)
  then show ?case using Cons.IH Cons.prems(2) c isolated [OF d, of m s] by auto
qed simp

end

lemma refilled_after:
  "refilled m' s (l\<lparr>lim_buckets := (lim_buckets l)(m \<mapsto> (k, t))\<rparr>) =
     (if m' = m then min (of_int (lim_capacity l)) (k + max 0 (s - t) * lim_refill_per_second l)
      else refilled m' s l)"
  by (simp add: refilled_def Let_def split: option.splits)

lemma refilled_grows:
  assumes "limiter_inv now l" "now \<le> s" "s \<le> t"
  shows "refilled m t l \<le> refilled m s l + (t - s) * lim_refill_per_second l"
proof (cases "lim_buckets l m")
  case None
  then show ?thesis using assms by (simp add: refilled_def limiter_inv_def)
next
  case (Some b)
  obtain k u where b: "b = (k, u)" by (cases b)
  have "u \<le> now" "0 < lim_refill_per_second l" using assms(1) Some b unfolding limiter_inv_def by blast+
  then have u: "u \<le> s" "0 < lim_refill_per_second l" using assms(2) by auto
  have "(t - u) * lim_refill_per_second l = (s - u) * lim_refill_per_second l + (t - s) * lim_refill_per_second l"
    by (simp add: algebra_simps)
  moreover have "0 \<le> (t - s) * lim_refill_per_second l" using assms(3) u(2) by simp
  ultimately have "min (of_int (lim_capacity l)) (k + (t - u) * lim_refill_per_second l) \<le>
      min (of_int (lim_capacity l)) (k + (s - u) * lim_refill_per_second l) + (t - s) * lim_refill_per_second l"
    by linarith
  then show ?thesis using Some b u assms(3) by (simp add: refilled_def)
qed

text \<open>The in-memory limiter keeps the contract, for its capacity and refill rate.\<close>

interpretation bucket: token_bucket consume_at refilled
    "\<lambda>now l. limiter_inv now l \<and> lim_capacity l = c \<and> lim_refill_per_second l = f" "of_int c" f for c f
proof unfold_locales
  fix now t s :: real and l l' :: InMemoryTokenBucketLimiter and m m' d
  let ?I = "\<lambda>now l. limiter_inv now l \<and> lim_capacity l = c \<and> lim_refill_per_second l = f"
  show "?I t l'" if "?I now l" "now \<le> t" "consume_at m t l = (d, l')"
    using consume_at_inv [of now l t m] that by (auto simp: consume_at_cases split: if_splits)
  show "0 \<le> refilled m t l \<and> refilled m t l \<le> of_int c" if "?I now l"
    using refilled_bounds that by blast
  show "refilled m t l \<le> refilled m s l + (t - s) * f" if "?I now l" "now \<le> s" "s \<le> t"
    using refilled_grows that by blast
  show "refilled m t l' = refilled m t l - (if rld_allowed d then 1 else 0)"
    if "?I now l" "now \<le> t" "consume_at m t l = (d, l')"
    using that refilled_bounds [of now l m t] by (auto simp: consume_at_cases refilled_after split: if_splits)
  show "rld_allowed d \<longleftrightarrow> 1 \<le> refilled m t l" if "?I now l" "now \<le> t" "consume_at m t l = (d, l')"
    using that by (auto simp: consume_at_cases split: if_splits)
  show "refilled m' s l' = refilled m' s l" if "consume_at m t l = (d, l')" "m' \<noteq> m"
    using that by (auto simp: consume_at_cases refilled_after split: if_splits)
qed

subsection \<open>What the limiter guarantees\<close>

lemma new_limiter_inv: "new_InMemoryTokenBucketLimiter c f = Inr l \<Longrightarrow> limiter_inv now l"
  by (auto simp: new_InMemoryTokenBucketLimiter_def limiter_inv_def split: if_splits)

text \<open>
  C33. In any window of time a merchant is allowed at most \<open>capacity\<close> calls plus what the
  refill rate grants for the length of the window, however many calls it and the other
  merchants make and however they interleave.
\<close>

theorem limiter_rate_bound:
  assumes "limiter_inv now l" "now \<le> t0" "sorted (map snd calls)"
    and "\<forall>(m', t)\<in>set calls. t0 \<le> t \<and> t \<le> t0 + window" "0 \<le> window"
    and "run_calls consume_at calls l = (ds, l')"
  shows "real (allowed_calls m ds) \<le> of_int (lim_capacity l) + window * lim_refill_per_second l"
  using bucket.rate_bound [of now l "lim_capacity l" "lim_refill_per_second l" t0 calls "t0 + window" ds l' m] assms
  by simp

definition sample_limiter :: InMemoryTokenBucketLimiter where
  "sample_limiter = \<lparr>lim_capacity = 2, lim_refill_per_second = 1 / 10, lim_buckets = Map.empty\<rparr>"

lemma sample_limiter_inv: "limiter_inv now sample_limiter"
  by (simp add: sample_limiter_def limiter_inv_def)

theorem limiter_rate_bound_witness:
  "real (allowed_calls ''m'' (fst (run_calls consume_at [(''m'', 0), (''m'', 1), (''n'', 1), (''m'', 2), (''m'', 5)] sample_limiter))) \<le> 5 / 2"
proof -
  let ?cs = "[(''m'', 0), (''m'', 1), (''n'', 1), (''m'', 2), (''m'', 5)] :: (string \<times> real) list"
  obtain ds l' where run: "run_calls consume_at ?cs sample_limiter = (ds, l')" by fastforce
  from limiter_rate_bound [OF sample_limiter_inv order_refl [of 0] _ _ _ run, of 5 "''m''"]
  show ?thesis unfolding run by (simp add: sample_limiter_def)
qed

text \<open>
  The \<open>Retry-After\<close> of a refusal is honest: it is a positive number of seconds, and
  once that much time has passed a call of the merchant is allowed, whatever the other
  merchants did meanwhile.
\<close>

theorem retry_after_honoured:
  assumes "limiter_inv now l" "now \<le> t" "consume_at m t l = (d, l1)" "\<not> rld_allowed d"
    and "run_calls consume_at calls l1 = (ds, l2)" "m \<notin> fst ` set calls"
    and "t + of_int (rld_retry_after_seconds d) \<le> t'"
  shows "1 \<le> rld_retry_after_seconds d \<and> rld_allowed (fst (consume_at m t' l2))"
proof -
  let ?k = "refilled m t l" and ?f = "lim_refill_per_second l" and ?c = "real_of_int (lim_capacity l)"
  have lt: "\<not> 1 \<le> ?k" and l1: "l1 = l\<lparr>lim_buckets := (lim_buckets l)(m \<mapsto> (?k, t))\<rparr>"
    and ra: "rld_retry_after_seconds d = max 1 (ceiling ((1 - ?k) / ?f))"
    using assms(3,4) by (auto simp: consume_at_cases split: if_splits)
  have f: "0 < ?f" and c: "1 \<le> ?c" using assms(1) by (auto simp: limiter_inv_def)
  have "(1 - ?k) / ?f \<le> of_int (rld_retry_after_seconds d)" unfolding ra by linarith
  then have "(1 - ?k) / ?f \<le> t' - t" using assms(7) by linarith
  then have "1 - ?k \<le> (t' - t) * ?f" using f by (simp add: divide_le_eq)
  moreover have "(t' - t) * ?f \<le> max 0 (t' - t) * ?f" using f by (simp add: mult_right_mono)
  ultimately have "1 \<le> refilled m t' l1" using c by (simp add: l1 refilled_after)
  then have "1 \<le> refilled m t' l2" using bucket.others_keep_budget [OF assms(5,6), of t'] by simp
  then show ?thesis using ra by (simp add: consume_at_cases)
qed

theorem retry_after_honoured_witness:
  "let l = snd (run_calls consume_at [(''m'', 0), (''m'', 0)] sample_limiter); d = fst (consume_at ''m'' 0 l)
   in \<not> rld_allowed d \<and> 1 \<le> rld_retry_after_seconds d \<and>
      rld_allowed (fst (consume_at ''m'' 10 (snd (run_calls consume_at [(''n'', 3)] (snd (consume_at ''m'' 0 l))))))"
proof -
  define l where "l = snd (run_calls consume_at [(''m'', 0), (''m'', 0)] sample_limiter)"
  define d where "d = fst (consume_at ''m'' 0 l)"
  have c0: "limiter_inv 0 (snd (consume_at ''m'' 0 sample_limiter))"
    by (rule consume_at_inv [OF sample_limiter_inv order_refl])
  have inv: "limiter_inv 0 l"
    using consume_at_inv [OF c0, of 0 "''m''"] by (simp add: l_def Let_def case_prod_beta)
  have d: "\<not> rld_allowed d" "rld_retry_after_seconds d = 10"
    by (simp_all add: d_def l_def consume_at_def refilled_def sample_limiter_def)
  have "1 \<le> rld_retry_after_seconds d \<and>
      rld_allowed (fst (consume_at ''m'' 10 (snd (run_calls consume_at [(''n'', 3)] (snd (consume_at ''m'' 0 l))))))"
    by (rule retry_after_honoured [OF inv order_refl, of "''m''" d "snd (consume_at ''m'' 0 l)" "[(''n'', 3)]"
          "fst (run_calls consume_at [(''n'', 3)] (snd (consume_at ''m'' 0 l)))"])
      (use d in \<open>simp_all add: d_def del: run_calls.simps\<close>)
  with d show ?thesis by (simp add: Let_def l_def d_def del: run_calls.simps)
qed

text \<open>Two limiters that agree on one merchant.\<close>

definition agree_on :: "string \<Rightarrow> InMemoryTokenBucketLimiter \<Rightarrow> InMemoryTokenBucketLimiter \<Rightarrow> bool" where
  "agree_on m l l' \<longleftrightarrow> lim_capacity l' = lim_capacity l \<and> lim_refill_per_second l' = lim_refill_per_second l \<and>
     lim_buckets l' m = lim_buckets l m"

lemma agree_on_consume:
  assumes "agree_on m l l'"
  shows "fst (consume_at m t l') = fst (consume_at m t l)" "agree_on m (snd (consume_at m t l)) (snd (consume_at m t l'))"
proof -
  have "refilled m t l' = refilled m t l" using assms by (simp add: agree_on_def refilled_def split: option.splits)
  then show "fst (consume_at m t l') = fst (consume_at m t l)"
    "agree_on m (snd (consume_at m t l)) (snd (consume_at m t l'))"
    using assms by (auto simp: consume_at_cases agree_on_def)
qed

lemma agree_on_others: "m' \<noteq> m \<Longrightarrow> agree_on m l0 l \<Longrightarrow> agree_on m l0 (snd (consume_at m' t l))"
  by (auto simp: consume_at_cases agree_on_def)

lemma isolation_aux:
  "agree_on m l0 l \<Longrightarrow>
   filter (\<lambda>(m', d). m' = m) (fst (run_calls consume_at calls l)) =
   fst (run_calls consume_at (filter (\<lambda>(m', t). m' = m) calls) l0)"
proof (induction calls arbitrary: l l0)
  case (Cons c cs)
  obtain m' t where c: "c = (m', t)" by (cases c)
  show ?case
  proof (cases "m' = m")
    case True
    then show ?thesis
      using Cons.IH [OF agree_on_consume(2) [OF Cons.prems, of t]] agree_on_consume(1) [OF Cons.prems, of t] c
      by (simp add: Let_def case_prod_beta)
  next
    case False
    then show ?thesis
      using Cons.IH [OF agree_on_others [OF False Cons.prems, of t]] c by (simp add: Let_def case_prod_beta)
  qed
qed simp

text \<open>
  Merchants do not interfere: the decisions a merchant gets in any interleaving are
  those it would get if it were alone.
\<close>

lemma merchant_isolation:
  "filter (\<lambda>(m', d). m' = m) (fst (run_calls consume_at calls l)) =
   fst (run_calls consume_at (filter (\<lambda>(m', t). m' = m) calls) l)"
  by (rule isolation_aux) (simp add: agree_on_def)

end
