(* ===== verification/Redis.thy ===== *)
theory Redis
  imports Idempotency Rate_Limit Fingerprint
begin

text \<open>
  The Redis profile (\<open>RedisIdempotencyCoordinator\<close> and \<open>RedisTokenBucketLimiter\<close>): the two
  Lua scripts, which the server runs atomically, and the client code around them. The server
  is a parameter: the commands the scripts and the client use, with what the Redis
  documentation says of them as \<open>redis_laws\<close>.
\<close>

subsection \<open>The server\<close>

text \<open>
  A round trip may succeed, fail before the command reached the server, or lose its reply.
\<close>

datatype link = Up | Refused exn | ReplyLost exn

text \<open>
  The value of a field: a text, or the decimal text of a number a script wrote, from which
  \<open>tonumber\<close> reads the number back.
\<close>

datatype field = Text string | Num real

fun tonumber :: "field \<Rightarrow> real option" where
  "tonumber (Num x) = Some x"
| "tonumber (Text s) = None"

record 'r redis =
  rd_hget :: "string \<Rightarrow> string \<Rightarrow> 'r \<Rightarrow> field option"
  rd_hset :: "string \<Rightarrow> (string, field) dict \<Rightarrow> 'r \<Rightarrow> 'r"
  rd_expire :: "string \<Rightarrow> int \<Rightarrow> 'r \<Rightarrow> 'r"
  rd_delete :: "string \<Rightarrow> 'r \<Rightarrow> 'r"
  rd_time :: "'r \<Rightarrow> real"
  rd_deadline :: "string \<Rightarrow> 'r \<Rightarrow> real option"
  rd_link :: "'r \<Rightarrow> link \<times> 'r"

definition redis_call :: "'r redis \<Rightarrow> ('r \<Rightarrow> 'a \<times> 'r) \<Rightarrow> 'r \<Rightarrow> 'a res \<times> 'r" where
  "redis_call R f r =
     (case rd_link R r of
        (Up, r1) \<Rightarrow> (let (v, r2) = f r1 in (Inr v, r2))
      | (Refused e, r1) \<Rightarrow> (Inl e, r1)
      | (ReplyLost e, r1) \<Rightarrow> (Inl e, snd (f r1)))"

text \<open>
  Documented behaviour: \<open>HSET\<close> writes its fields and keeps the others and the expiry, \<open>DEL\<close>
  removes the hash, \<open>EXPIRE\<close> sets a deadline and changes no field; a command changes no other
  key and takes no time.
\<close>

definition redis_laws :: "'r redis \<Rightarrow> bool" where
  "redis_laws R \<longleftrightarrow>
     (\<forall>k k' f fvs r. rd_hget R k f (rd_hset R k' fvs r) =
        (if k = k' then (case map_of fvs f of Some v \<Rightarrow> Some v | None \<Rightarrow> rd_hget R k f r) else rd_hget R k f r)) \<and>
     (\<forall>k k' f r. rd_hget R k f (rd_delete R k' r) = (if k = k' then None else rd_hget R k f r)) \<and>
     (\<forall>k k' f n r. 0 < n \<longrightarrow> rd_hget R k f (rd_expire R k' n r) = rd_hget R k f r) \<and>
     (\<forall>k k' n r. rd_deadline R k (rd_expire R k' n r) =
        (if k = k' then Some (rd_time R r + of_int n) else rd_deadline R k r)) \<and>
     (\<forall>k k' fvs r. rd_deadline R k (rd_hset R k' fvs r) = rd_deadline R k r) \<and>
     (\<forall>k fvs n r. rd_time R (rd_hset R k fvs r) = rd_time R r \<and> rd_time R (rd_expire R k n r) = rd_time R r \<and>
        rd_time R (rd_delete R k r) = rd_time R r)"

text \<open>Time passes: a hash stays as it is, or is gone once its deadline is over.\<close>

definition passes :: "'r redis \<Rightarrow> 'r \<Rightarrow> 'r \<Rightarrow> bool" where
  "passes R r r' \<longleftrightarrow> rd_time R r \<le> rd_time R r' \<and>
     (\<forall>k. rd_deadline R k r' = rd_deadline R k r \<and>
        ((\<forall>f. rd_hget R k f r' = rd_hget R k f r) \<or>
         (\<forall>f. rd_hget R k f r' = None) \<and> (\<exists>d. rd_deadline R k r = Some d \<and> d \<le> rd_time R r')))"

subsection \<open>Idempotency\<close>

text \<open>\<open>sha\<close> is the hexadecimal SHA-256 digest of the text's encoding.\<close>

definition idempotency_key :: "(string \<Rightarrow> string) \<Rightarrow> string \<Rightarrow> string \<Rightarrow> string" where
  "idempotency_key sha merchant_id key = ''pyswitch:idempotency:'' @ sha (merchant_id @ [CHR 0x00] @ key)"

text \<open>\<open>_CLAIM_SCRIPT\<close>: a status and, for a completed claim, the field \<open>payment_id\<close>.\<close>

definition claim_script :: "'r redis \<Rightarrow> string \<Rightarrow> string \<Rightarrow> int \<Rightarrow> 'r \<Rightarrow> (string \<times> field option) \<times> 'r" where
  "claim_script R key fingerprint ttl r =
     (case rd_hget R key ''status'' r of
        None \<Rightarrow>
          ((''CLAIMED'', Some (Text '''')),
           rd_expire R key ttl (rd_hset R key [(''status'', Text ''PROCESSING''), (''fingerprint'', Text fingerprint)] r))
      | Some status \<Rightarrow>
          if rd_hget R key ''fingerprint'' r \<noteq> Some (Text fingerprint) then ((''CONFLICT'', Some (Text '''')), r)
          else if status = Text ''COMPLETED'' then ((''COMPLETED'', rd_hget R key ''payment_id'' r), r)
          else ((''PROCESSING'', Some (Text '''')), r))"

record RedisIdempotencyCoordinator =
  rdc_processing_ttl_seconds :: int
  rdc_poll_seconds :: real

fun field_uuid :: "field \<Rightarrow> uuid option" where
  "field_uuid (Text s) = parse_uuid s"
| "field_uuid (Num x) = None"

text \<open>
  One round of the loop of \<open>acquire\<close>; \<open>None\<close> means that it sleeps \<open>poll_seconds\<close> and tries
  again. Every \<open>Exception\<close> becomes \<open>IdempotencyUnavailable\<close>.
\<close>

definition unavailable :: "exn \<Rightarrow> exn" where
  "unavailable e = (if is_Exception e then IdempotencyUnavailable ''Redis idempotency is unavailable'' else e)"

definition redis_acquire ::
  "(string \<Rightarrow> string) \<Rightarrow> 'r redis \<Rightarrow> RedisIdempotencyCoordinator \<Rightarrow> string \<Rightarrow> string \<Rightarrow> string \<Rightarrow> 'r \<Rightarrow>
   IdempotencyDecision option res \<times> 'r" where
  "redis_acquire sha R c merchant_id key fingerprint r =
     (case redis_call R (claim_script R (idempotency_key sha merchant_id key) fingerprint (rdc_processing_ttl_seconds c)) r of
        (Inl e, r1) \<Rightarrow> (Inl (unavailable e), r1)
      | (Inr (status, value), r1) \<Rightarrow>
          if status = ''CLAIMED'' then (Inr (Some \<lparr>dec_status = CLAIMED, dec_payment_id = None\<rparr>), r1)
          else if status = ''CONFLICT'' then (Inr (Some \<lparr>dec_status = CONFLICT, dec_payment_id = None\<rparr>), r1)
          else if status = ''COMPLETED''
          then (case Option.bind value field_uuid of
                  Some u \<Rightarrow> (Inr (Some \<lparr>dec_status = COMPLETED, dec_payment_id = Some u\<rparr>), r1)
                | None \<Rightarrow> (Inl (IdempotencyUnavailable ''Redis idempotency is unavailable''), r1))
          else (Inr None, r1))"

definition redis_complete ::
  "(string \<Rightarrow> string) \<Rightarrow> 'r redis \<Rightarrow> RedisIdempotencyCoordinator \<Rightarrow> string \<Rightarrow> string \<Rightarrow> string \<Rightarrow> uuid \<Rightarrow> 'r \<Rightarrow>
   unit res \<times> 'r" where
  "redis_complete sha R c merchant_id key fingerprint payment_id r =
     (let k = idempotency_key sha merchant_id key;
          (x, r2) = then_do
            (redis_call R (\<lambda>r. ((), rd_hset R k [(''status'', Text ''COMPLETED''), (''fingerprint'', Text fingerprint),
                                                  (''payment_id'', Text (str_uuid payment_id))] r)) r)
            (\<lambda>_. redis_call R (\<lambda>r. ((), rd_expire R k (rdc_processing_ttl_seconds c) r)))
      in (map_sum unavailable id x, r2))"

definition redis_abort ::
  "(string \<Rightarrow> string) \<Rightarrow> 'r redis \<Rightarrow> string \<Rightarrow> string \<Rightarrow> string \<Rightarrow> 'r \<Rightarrow> unit res \<times> 'r" where
  "redis_abort sha R merchant_id key fingerprint r =
     (let k = idempotency_key sha merchant_id key;
          (x, r2) = then_do (redis_call R (\<lambda>r. (rd_hget R k ''fingerprint'' r, r)) r)
            (\<lambda>current r1. if current = Some (Text fingerprint) then redis_call R (\<lambda>r. ((), rd_delete R k r)) r1
                          else (Inr (), r1))
      in (map_sum unavailable id x, r2))"

subsection \<open>Rate limiting\<close>

record RedisTokenBucketLimiter =
  rdl_capacity :: int
  rdl_refill_per_second :: real

definition rate_key :: "(string \<Rightarrow> string) \<Rightarrow> string \<Rightarrow> string" where
  "rate_key sha merchant_id = ''pyswitch:rate:'' @ sha merchant_id"

text \<open>The tokens the script finds after refilling the bucket.\<close>

definition script_tokens :: "'r redis \<Rightarrow> string \<Rightarrow> real \<Rightarrow> real \<Rightarrow> 'r \<Rightarrow> real" where
  "script_tokens R key capacity refill r =
     (let seconds = rd_time R r;
          tokens = (case Option.bind (rd_hget R key ''tokens'' r) tonumber of None \<Rightarrow> capacity | Some t \<Rightarrow> t);
          updated = (case Option.bind (rd_hget R key ''updated'' r) tonumber of None \<Rightarrow> seconds | Some u \<Rightarrow> u)
      in min capacity (tokens + max 0 (seconds - updated) * refill))"

text \<open>\<open>_SCRIPT\<close> returns whether the call is allowed, the tokens left and the time to wait.\<close>

definition bucket_script :: "'r redis \<Rightarrow> string \<Rightarrow> real \<Rightarrow> real \<Rightarrow> 'r \<Rightarrow> (int \<times> int \<times> int) \<times> 'r" where
  "bucket_script R key capacity refill r =
     (let seconds = rd_time R r;
          tokens1 = script_tokens R key capacity refill r;
          (tokens, allowed, retry) =
            (if 1 \<le> tokens1 then (tokens1 - 1, 1, 0) else (tokens1, 0, \<lceil>(1 - tokens1) / refill\<rceil>));
          r1 = rd_hset R key [(''tokens'', Num tokens), (''updated'', Num seconds)] r;
          r2 = rd_expire R key \<lceil>capacity / refill * 2\<rceil> r1
      in ((allowed, \<lfloor>tokens\<rfloor>, retry), r2))"

definition redis_consume ::
  "(string \<Rightarrow> string) \<Rightarrow> 'r redis \<Rightarrow> RedisTokenBucketLimiter \<Rightarrow> string \<Rightarrow> 'r \<Rightarrow> RateLimitDecision res \<times> 'r" where
  "redis_consume sha R l merchant_id r =
     (case redis_call R (bucket_script R (rate_key sha merchant_id) (of_int (rdl_capacity l)) (rdl_refill_per_second l)) r of
        (Inl e, r1) \<Rightarrow>
          (Inl (if is_Exception e then RateLimitUnavailable ''Redis rate limiting is unavailable'' else e), r1)
      | (Inr (allowed, remaining, retry), r1) \<Rightarrow>
          (Inr \<lparr>rld_allowed = (allowed \<noteq> 0), rld_limit = rdl_capacity l, rld_remaining = remaining,
                rld_retry_after_seconds = retry\<rparr>, r1))"

subsection \<open>Claims\<close>

text \<open>
  The keys under which claims are filed: different for different claims, if the hash has no
  collision and the client's key contains no NUL (which an HTTP header cannot).
\<close>

lemma idempotency_key_inj:
  assumes "inj sha" "CHR 0x00 \<notin> set k" "CHR 0x00 \<notin> set k'" "idempotency_key sha m k = idempotency_key sha m' k'"
  shows "m = m' \<and> k = k'"
proof -
  have e: "m @ [CHR 0x00] @ k = m' @ [CHR 0x00] @ k'" using assms(1,4) by (simp add: idempotency_key_def inj_eq)
  have "takeWhile (\<lambda>c. c \<noteq> CHR 0x00) (rev (m @ [CHR 0x00] @ k)) = rev k" if "CHR 0x00 \<notin> set k" for m k :: string
    using that by (simp, subst takeWhile_append2) auto
  then have "rev k = rev k'" using assms(2,3) e by metis
  then show ?thesis using e by simp
qed

text \<open>The claims as a client sees them.\<close>

definition redis_view :: "(string \<Rightarrow> string) \<Rightarrow> 'r redis \<Rightarrow> 'r \<Rightarrow> string \<Rightarrow> string \<Rightarrow> (field option \<times> field option) option" where
  "redis_view sha R r m k =
     (case rd_hget R (idempotency_key sha m k) ''status'' r of
        None \<Rightarrow> None
      | Some status \<Rightarrow> Some (rd_hget R (idempotency_key sha m k) ''fingerprint'' r,
                             if status = Text ''COMPLETED'' then rd_hget R (idempotency_key sha m k) ''payment_id'' r else None))"

lemma redis_lawsD:
  assumes "redis_laws R"
  shows "rd_hget R k f (rd_hset R k' fvs r) =
        (if k = k' then (case map_of fvs f of Some v \<Rightarrow> Some v | None \<Rightarrow> rd_hget R k f r) else rd_hget R k f r)"
    "rd_hget R k f (rd_delete R k' r) = (if k = k' then None else rd_hget R k f r)"
    "0 < n \<Longrightarrow> rd_hget R k f (rd_expire R k' n r) = rd_hget R k f r"
    "rd_deadline R k (rd_expire R k' n r) = (if k = k' then Some (rd_time R r + of_int n) else rd_deadline R k r)"
    "rd_deadline R k (rd_hset R k' fvs r) = rd_deadline R k r"
    "rd_time R (rd_hset R k fvs r) = rd_time R r" "rd_time R (rd_expire R k n r) = rd_time R r"
    "rd_time R (rd_delete R k r) = rd_time R r"
  using assms by (simp_all add: redis_laws_def)

text \<open>A server whose link is up.\<close>

definition reachable_now :: "'r redis \<Rightarrow> 'r \<Rightarrow> bool" where
  "reachable_now R r \<longleftrightarrow> rd_link R r = (Up, r)"

lemma redis_call_up [simp]: "reachable_now R r \<Longrightarrow> redis_call R f r = (Inr (fst (f r)), snd (f r))"
  by (simp add: redis_call_def reachable_now_def case_prod_beta)

lemma redis_acquire_up:
  assumes "redis_laws R" "reachable_now R r" "0 < rdc_processing_ttl_seconds c"
  shows "redis_view sha R r m k = None \<Longrightarrow>
      fst (redis_acquire sha R c m k fp r) = Inr (Some \<lparr>dec_status = CLAIMED, dec_payment_id = None\<rparr>) \<and>
      redis_view sha R (snd (redis_acquire sha R c m k fp r)) m k = Some (Some (Text fp), None)"
    "redis_view sha R r m k = Some (fp', pid) \<Longrightarrow> fp' \<noteq> Some (Text fp) \<Longrightarrow>
      redis_acquire sha R c m k fp r = (Inr (Some \<lparr>dec_status = CONFLICT, dec_payment_id = None\<rparr>), r)"
    "redis_view sha R r m k = Some (Some (Text fp), Some (Text (str_uuid u))) \<Longrightarrow> u < 2 ^ 128 \<Longrightarrow>
      redis_acquire sha R c m k fp r = (Inr (Some \<lparr>dec_status = COMPLETED, dec_payment_id = Some u\<rparr>), r)"
    "rd_hget R (idempotency_key sha m k) ''status'' r = Some (Text ''PROCESSING'') \<Longrightarrow>
      rd_hget R (idempotency_key sha m k) ''fingerprint'' r = Some (Text fp) \<Longrightarrow>
      redis_acquire sha R c m k fp r = (Inr None, r)"
  using assms
  by (auto simp: redis_acquire_def claim_script_def redis_view_def redis_lawsD parse_str_uuid split: option.splits if_splits)

lemma redis_complete_up:
  assumes "redis_laws R" "\<forall>r. reachable_now R r" "0 < rdc_processing_ttl_seconds c"
  shows "fst (redis_complete sha R c m k fp u r) = Inr ()"
    "redis_view sha R (snd (redis_complete sha R c m k fp u r)) m k = Some (Some (Text fp), Some (Text (str_uuid u)))"
  using assms by (simp_all add: redis_complete_def redis_view_def redis_lawsD Let_def)

lemma redis_abort_up:
  assumes "redis_laws R" "\<forall>r. reachable_now R r" "rd_hget R (idempotency_key sha m k) ''fingerprint'' r = Some (Text fp)"
  shows "fst (redis_abort sha R m k fp r) = Inr ()" "redis_view sha R (snd (redis_abort sha R m k fp r)) m k = None"
  using assms by (simp_all add: redis_abort_def redis_view_def redis_lawsD Let_def)

text \<open>
  The life of a claim in Redis, while the server answers and no key expires: the first
  request claims the key; until the claim is resolved the same request polls and a different
  one conflicts; once completed, the same request is answered with the payment; once
  aborted, the key is free.
\<close>

theorem redis_claim_lifecycle:
  assumes "redis_laws R" "\<forall>r. reachable_now R r" "0 < rdc_processing_ttl_seconds c" "u < 2 ^ 128"
    and "redis_view sha R r m k = None" "redis_acquire sha R c m k fp r = (x, r1)"
  shows "x = Inr (Some \<lparr>dec_status = CLAIMED, dec_payment_id = None\<rparr>) \<and>
    redis_acquire sha R c m k fp r1 = (Inr None, r1) \<and>
    (fp' \<noteq> fp \<longrightarrow> redis_acquire sha R c m k fp' r1 = (Inr (Some \<lparr>dec_status = CONFLICT, dec_payment_id = None\<rparr>), r1)) \<and>
    (\<exists>r2. redis_complete sha R c m k fp u r1 = (Inr (), r2) \<and>
       redis_acquire sha R c m k fp r2 = (Inr (Some \<lparr>dec_status = COMPLETED, dec_payment_id = Some u\<rparr>), r2)) \<and>
    (\<exists>r2. redis_abort sha R m k fp r1 = (Inr (), r2) \<and> redis_view sha R r2 m k = None)"
proof -
  note up = assms(2) [rule_format]
  have v: "x = Inr (Some \<lparr>dec_status = CLAIMED, dec_payment_id = None\<rparr>)" "redis_view sha R r1 m k = Some (Some (Text fp), None)"
    using redis_acquire_up(1) [OF assms(1) up assms(3,5)] assms(6) by (metis fst_conv snd_conv)+
  have h: "rd_hget R (idempotency_key sha m k) ''status'' r1 = Some (Text ''PROCESSING'')"
    "rd_hget R (idempotency_key sha m k) ''fingerprint'' r1 = Some (Text fp)"
    using assms(1,3,5,6) up
    by (auto simp: redis_acquire_def claim_script_def redis_view_def redis_lawsD split: option.splits)
  note c = redis_complete_up [OF assms(1-3), of sha m k fp u r1] and a = redis_abort_up [OF assms(1,2) h(2)]
  show ?thesis
    using v(1) redis_acquire_up(4) [OF assms(1) up assms(3) h] redis_acquire_up(2) [OF assms(1) up assms(3) v(2)]
      redis_acquire_up(3) [OF assms(1) up assms(3) c(2) assms(4)] c(1) a
    by (metis prod.collapse field.inject(1) option.inject)
qed

text \<open>
  C23. A claim that expires is not exclusive. A request that holds its claim for longer than
  \<open>processing_ttl_seconds\<close> loses it silently: the same request claims the key again while the
  first one is still being processed; both may then complete it, and the last one to do so
  decides which payment later requests are given. If instead the first one aborts, it deletes
  the result the second one recorded.
\<close>

theorem redis_expired_claim:
  assumes "redis_laws R" "\<forall>r. reachable_now R r" "0 < rdc_processing_ttl_seconds c" "u < 2 ^ 128" "v < 2 ^ 128"
    and "redis_view sha R r0 m k = None" "redis_acquire sha R c m k fp r0 = (x1, r1)"
    and "passes R r1 r2" "redis_view sha R r2 m k = None" "redis_acquire sha R c m k fp r2 = (x2, r3)"
    and "redis_complete sha R c m k fp v r3 = (y2, r4)" "redis_complete sha R c m k fp u r4 = (y1, r5)"
  shows "x1 = Inr (Some \<lparr>dec_status = CLAIMED, dec_payment_id = None\<rparr>) \<and> x2 = x1 \<and> y2 = Inr () \<and> y1 = Inr () \<and>
    redis_acquire sha R c m k fp r4 = (Inr (Some \<lparr>dec_status = COMPLETED, dec_payment_id = Some v\<rparr>), r4) \<and>
    redis_acquire sha R c m k fp r5 = (Inr (Some \<lparr>dec_status = COMPLETED, dec_payment_id = Some u\<rparr>), r5) \<and>
    (\<exists>r6. redis_abort sha R m k fp r4 = (Inr (), r6) \<and> redis_view sha R r6 m k = None)"
proof -
  note up = assms(2) [rule_format]
  have x: "x1 = Inr (Some \<lparr>dec_status = CLAIMED, dec_payment_id = None\<rparr>)" "x2 = x1"
    using redis_acquire_up(1) [OF assms(1) up assms(3)] assms(6,7,9,10) by (metis fst_conv)+
  note c4 = redis_complete_up [OF assms(1-3), of sha m k fp v r3, unfolded assms(11) fst_conv snd_conv]
  note c5 = redis_complete_up [OF assms(1-3), of sha m k fp u r4, unfolded assms(12) fst_conv snd_conv]
  have "rd_hget R (idempotency_key sha m k) ''fingerprint'' r4 = Some (Text fp)"
    using c4(2) by (auto simp: redis_view_def split: option.splits if_splits)
  from redis_abort_up [OF assms(1,2) this] have "\<exists>r6. redis_abort sha R m k fp r4 = (Inr (), r6) \<and> redis_view sha R r6 m k = None"
    by (metis prod.collapse)
  then show ?thesis
    using x c4(1) c5(1) redis_acquire_up(3) [OF assms(1) up assms(3) c4(2) assms(5)]
      redis_acquire_up(3) [OF assms(1) up assms(3) c5(2) assms(4)] by simp
qed

subsection \<open>The two token buckets\<close>

text \<open>
  A bucket in Redis and one in memory: they hold the same, or the one in Redis is gone and
  the one in memory has had the time to fill up.
\<close>

definition bucket_agrees ::
  "(string \<Rightarrow> string) \<Rightarrow> 'r redis \<Rightarrow> 'r \<Rightarrow> InMemoryTokenBucketLimiter \<Rightarrow> string \<Rightarrow> bool" where
  "bucket_agrees sha R r l m \<longleftrightarrow>
     (case lim_buckets l m of
        None \<Rightarrow> (\<forall>f. rd_hget R (rate_key sha m) f r = None)
      | Some (tokens, updated) \<Rightarrow>
          0 \<le> tokens \<and> updated \<le> rd_time R r \<and>
          (rd_hget R (rate_key sha m) ''tokens'' r = Some (Num tokens) \<and>
           rd_hget R (rate_key sha m) ''updated'' r = Some (Num updated) \<and>
           rd_deadline R (rate_key sha m) r = Some (updated + of_int \<lceil>of_int (lim_capacity l) / lim_refill_per_second l * 2\<rceil>) \<or>
           (\<forall>f. rd_hget R (rate_key sha m) f r = None) \<and>
           of_int (lim_capacity l) / lim_refill_per_second l \<le> rd_time R r - updated))"

definition agrees ::
  "(string \<Rightarrow> string) \<Rightarrow> 'r redis \<Rightarrow> RedisTokenBucketLimiter \<Rightarrow> 'r \<Rightarrow> InMemoryTokenBucketLimiter \<Rightarrow> bool" where
  "agrees sha R rl r l \<longleftrightarrow>
     rdl_capacity rl = lim_capacity l \<and> rdl_refill_per_second rl = lim_refill_per_second l \<and>
     1 \<le> lim_capacity l \<and> 0 < lim_refill_per_second l \<and> (\<forall>m. bucket_agrees sha R r l m)"

lemma full_after:
  assumes "0 < refill" "0 \<le> tokens" "capacity / refill \<le> t"
  shows "min capacity (tokens + t * refill) = (capacity :: real)"
proof -
  have "capacity \<le> t * refill" using assms(1,3) by (simp add: pos_divide_le_eq)
  then show ?thesis using assms(2) by simp
qed

text \<open>Expiry is not observable: a bucket is kept for twice the time it takes to fill.\<close>

lemma agrees_passes:
  assumes "agrees sha R rl r l" "passes R r r'"
  shows "agrees sha R rl r' l"
proof -
  have "bucket_agrees sha R r' l m" for m
  proof -
    let ?k = "rate_key sha m" and ?fill = "of_int (lim_capacity l) / lim_refill_per_second l"
    have b: "bucket_agrees sha R r l m" and pos: "0 < ?fill" using assms(1) by (simp_all add: agrees_def)
    have t: "rd_time R r \<le> rd_time R r'" and dl: "rd_deadline R ?k r' = rd_deadline R ?k r"
      and f: "(\<forall>f. rd_hget R ?k f r' = rd_hget R ?k f r) \<or>
         (\<forall>f. rd_hget R ?k f r' = None) \<and> (\<exists>d. rd_deadline R ?k r = Some d \<and> d \<le> rd_time R r')"
      using assms(2) by (auto simp: passes_def)
    have c: "?fill \<le> of_int \<lceil>?fill * 2\<rceil>" 
    proof -
      have "a \<le> a * 2" if "0 < a" for a :: real using that by simp
      from this [OF pos] have "?fill \<le> ?fill * 2" .
      then show ?thesis using le_of_int_ceiling [of "?fill * 2"] by (rule order_trans)
    qed
    show ?thesis
    proof (cases "lim_buckets l m")
      case None
      then show ?thesis using b f by (auto simp: bucket_agrees_def)
    next
      case (Some tu)
      then obtain tokens updated where tu: "lim_buckets l m = Some (tokens, updated)" by (cases tu) auto
      from f show ?thesis
      proof
        assume "\<forall>f. rd_hget R ?k f r' = rd_hget R ?k f r"
        then show ?thesis using b tu t dl by (auto simp: bucket_agrees_def)
      next
        assume gone: "(\<forall>f. rd_hget R ?k f r' = None) \<and> (\<exists>d. rd_deadline R ?k r = Some d \<and> d \<le> rd_time R r')"
        then have "?fill \<le> rd_time R r' - updated" using b tu t c by (auto simp: bucket_agrees_def)
        then show ?thesis using gone b tu t by (auto simp: bucket_agrees_def)
      qed
    qed
  qed
  then show ?thesis using assms(1) by (simp add: agrees_def)
qed

text \<open>The tokens both limiters count with at the time of a call.\<close>

lemma refill_agrees:
  assumes "agrees sha R rl r l"
  shows "script_tokens R (rate_key sha m) (of_int (lim_capacity l)) (lim_refill_per_second l) r = refilled m (rd_time R r) l \<and>
    0 \<le> refilled m (rd_time R r) l"
proof (cases "lim_buckets l m")
  case None
  then show ?thesis
    using assms by (auto simp: agrees_def bucket_agrees_def refilled_def script_tokens_def Let_def dest: spec [of _ m])
next
  case (Some tu)
  then obtain tokens updated where tu: "lim_buckets l m = Some (tokens, updated)" by (cases tu) auto
  have b: "bucket_agrees sha R r l m" "0 < lim_refill_per_second l" "1 \<le> lim_capacity l" using assms by (simp_all add: agrees_def)
  then have t: "0 \<le> tokens" "updated \<le> rd_time R r" using tu by (simp_all add: bucket_agrees_def)
  have "0 \<le> tokens + (rd_time R r - updated) * lim_refill_per_second l" using t b(2) by simp
  moreover have "min (of_int (lim_capacity l)) (tokens + (rd_time R r - updated) * lim_refill_per_second l) = of_int (lim_capacity l)"
    if "of_int (lim_capacity l) / lim_refill_per_second l \<le> rd_time R r - updated"
    using full_after [OF b(2) t(1) that] .
  ultimately show ?thesis
    using b t tu by (auto simp: bucket_agrees_def refilled_def script_tokens_def Let_def)
qed

lemma script_agrees:
  assumes "redis_laws R" "inj sha" "agrees sha R rl r l" "reachable_now R r"
    and "redis_consume sha R rl m r = (x, r')" "consume_at m (rd_time R r) l = (d, l')"
  shows "x = Inr d \<and> agrees sha R rl r' l' \<and> rd_time R r' = rd_time R r"
proof -
  let ?k = "rate_key sha m" and ?now = "rd_time R r" and ?cap = "of_int (lim_capacity l) :: real" and ?ref = "lim_refill_per_second l"
  let ?t1 = "refilled m ?now l"
  let ?t = "if 1 \<le> ?t1 then ?t1 - 1 else ?t1" and ?ttl = "\<lceil>?cap / ?ref * 2\<rceil>"
  have a: "rdl_capacity rl = lim_capacity l" "rdl_refill_per_second rl = ?ref" "1 \<le> lim_capacity l" "0 < ?ref"
    using assms(3) by (simp_all add: agrees_def)
  note rf = refill_agrees [OF assms(3), of m]
  have ttl: "0 < ?ttl" using a by simp
  have r': "r' = rd_expire R ?k ?ttl (rd_hset R ?k [(''tokens'', Num ?t), (''updated'', Num ?now)] r)"
    using assms(4,5) a(1,2) rf by (cases "1 \<le> ?t1") (auto simp: redis_consume_def bucket_script_def Let_def)
  have retry: "max 1 \<lceil>(1 - ?t1) / ?ref\<rceil> = \<lceil>(1 - ?t1) / ?ref\<rceil>" if "\<not> 1 \<le> ?t1" using that a(4) by simp
  have low: "\<lfloor>?t1\<rfloor> = 0" if "\<not> 1 \<le> ?t1" using that rf by linarith
  have x: "x = Inr d"
    using assms(4-6) a(1,2) rf retry low
    by (cases "1 \<le> ?t1") (auto simp: redis_consume_def bucket_script_def consume_at_def Let_def)
  have l': "l' = l\<lparr>lim_buckets := (lim_buckets l)(m \<mapsto> (?t, ?now))\<rparr>"
    using assms(6) by (cases "1 \<le> ?t1") (auto simp: consume_at_def Let_def)
  have time: "rd_time R r' = ?now" by (simp add: r' redis_lawsD [OF assms(1)])
  have key: "rate_key sha m' = ?k \<longleftrightarrow> m' = m" for m' using assms(2) by (auto simp: rate_key_def inj_eq)
  have "bucket_agrees sha R r' l' m'" for m'
  proof (cases "m' = m")
    case True
    then show ?thesis using rf ttl by (simp add: bucket_agrees_def l' r' redis_lawsD [OF assms(1)])
  next
    case False
    then have b: "bucket_agrees sha R r l m'" and k: "rate_key sha m' \<noteq> ?k" using assms(3) key by (auto simp: agrees_def)
    have "rd_hget R (rate_key sha m') f r' = rd_hget R (rate_key sha m') f r" for f
      unfolding r' redis_lawsD(3) [OF assms(1) ttl] using k by (simp add: redis_lawsD(1) [OF assms(1)])
    moreover have "rd_deadline R (rate_key sha m') r' = rd_deadline R (rate_key sha m') r"
      unfolding r' using k by (simp add: redis_lawsD(4,5) [OF assms(1)])
    moreover have "lim_buckets l' m' = lim_buckets l m'" "lim_capacity l' = lim_capacity l"
      "lim_refill_per_second l' = lim_refill_per_second l"
      using False by (simp_all add: l')
    ultimately show ?thesis using b time by (auto simp: bucket_agrees_def split: option.splits)
  qed
  then show ?thesis using x time a by (simp add: agrees_def l')
qed

text \<open>The calls of all workers that share the server, in the order it serves them.\<close>

inductive redis_run ::
  "(string \<Rightarrow> string) \<Rightarrow> 'r redis \<Rightarrow> RedisTokenBucketLimiter \<Rightarrow> 'r \<Rightarrow> (string \<times> real \<times> RateLimitDecision) list \<Rightarrow> bool"
  for sha R rl where
  idle: "redis_run sha R rl r []"
| served: "passes R r r1 \<Longrightarrow> redis_consume sha R rl m r1 = (Inr d, r2) \<Longrightarrow> redis_run sha R rl r2 cs \<Longrightarrow>
    redis_run sha R rl r ((m, rd_time R r1, d) # cs)"

lemma run_agrees:
  assumes "redis_run sha R rl r cs" "redis_laws R" "inj sha" "\<forall>r. reachable_now R r" "agrees sha R rl r l"
  shows "map (\<lambda>(m, t, d). (m, d)) cs = fst (run_calls consume_at (map (\<lambda>(m, t, d). (m, t)) cs) l)"
  using assms(1,5)
proof (induction arbitrary: l rule: redis_run.induct)
  case (served r r1 m d r2 cs)
  obtain d' l' where c: "consume_at m (rd_time R r1) l = (d', l')" by (metis prod.collapse)
  have "agrees sha R rl r1 l" by (rule agrees_passes [OF served.prems served.hyps(1)])
  from script_agrees [OF assms(2,3) this _ served.hyps(2) c] assms(4) have "d = d'" "agrees sha R rl r2 l'" by auto
  then show ?case using served.IH c by (simp add: case_prod_beta)
qed simp

text \<open>
  C24. The Redis limiter makes the decisions of the in-memory limiter: for any sequence of
  calls, by however many workers, starting with no buckets, the decisions are those a single
  in-memory limiter makes at the same clock readings, although Redis drops buckets that have
  not been used for a while.
\<close>

theorem redis_limiter_equivalent:
  assumes "redis_laws R" "inj sha" "\<forall>r. reachable_now R r" "\<forall>m f. rd_hget R (rate_key sha m) f r = None"
    and "new_InMemoryTokenBucketLimiter capacity refill = Inr l"
    and "redis_run sha R \<lparr>rdl_capacity = capacity, rdl_refill_per_second = refill\<rparr> r cs"
  shows "map (\<lambda>(m, t, d). (m, d)) cs = fst (run_calls consume_at (map (\<lambda>(m, t, d). (m, t)) cs) l)"
proof (rule run_agrees [OF assms(6,1,2,3)])
  show "agrees sha R \<lparr>rdl_capacity = capacity, rdl_refill_per_second = refill\<rparr> r l"
    using assms(4,5) by (auto simp: agrees_def bucket_agrees_def new_InMemoryTokenBucketLimiter_def split: if_splits)
qed

subsection \<open>Evaluations\<close>

text \<open>Hashes with deadlines and a clock, as the commands are documented.\<close>

record hash_server =
  hsv_hashes :: "string \<Rightarrow> string \<rightharpoonup> field"
  hsv_deadlines :: "string \<rightharpoonup> real"
  hsv_time :: real

definition hash_redis :: "hash_server redis" where
  "hash_redis =
     \<lparr>rd_hget = (\<lambda>k f r. hsv_hashes r k f),
      rd_hset = (\<lambda>k fvs r. r\<lparr>hsv_hashes := (hsv_hashes r)(k := hsv_hashes r k ++ map_of fvs)\<rparr>),
      rd_expire = (\<lambda>k n r. r\<lparr>hsv_deadlines := (hsv_deadlines r)(k \<mapsto> hsv_time r + of_int n)\<rparr>),
      rd_delete = (\<lambda>k r. r\<lparr>hsv_hashes := (hsv_hashes r)(k := Map.empty)\<rparr>),
      rd_time = hsv_time, rd_deadline = (\<lambda>k r. hsv_deadlines r k), rd_link = (\<lambda>r. (Up, r))\<rparr>"

definition empty_server :: "real \<Rightarrow> hash_server" where
  "empty_server t = \<lparr>hsv_hashes = (\<lambda>_. Map.empty), hsv_deadlines = Map.empty, hsv_time = t\<rparr>"

lemma hash_redis_laws: "redis_laws hash_redis" "\<forall>r. reachable_now hash_redis r"
  by (auto simp: redis_laws_def reachable_now_def hash_redis_def map_add_def split: option.splits)

definition default_coordinator :: RedisIdempotencyCoordinator where
  "default_coordinator = \<lparr>rdc_processing_ttl_seconds = 90, rdc_poll_seconds = 1 / 20\<rparr>"

lemma empty_server_view: "redis_view sha hash_redis (empty_server t) m k = None"
  by (simp add: redis_view_def hash_redis_def empty_server_def)

theorem redis_claim_lifecycle_witness:
  "\<exists>r1. redis_acquire (\<lambda>t. t) hash_redis default_coordinator ''m'' ''k'' ''fp'' (empty_server 0) =
       (Inr (Some \<lparr>dec_status = CLAIMED, dec_payment_id = None\<rparr>), r1) \<and>
     redis_acquire (\<lambda>t. t) hash_redis default_coordinator ''m'' ''k'' ''fp'' r1 = (Inr None, r1)"
proof -
  obtain x r1 where a: "redis_acquire (\<lambda>t. t) hash_redis default_coordinator ''m'' ''k'' ''fp'' (empty_server 0) = (x, r1)"
    by (metis prod.collapse)
  have "0 < rdc_processing_ttl_seconds default_coordinator" "(0 :: nat) < 2 ^ 128" by (simp_all add: default_coordinator_def)
  from redis_claim_lifecycle [OF hash_redis_laws this empty_server_view a] a show ?thesis by simp
qed

text \<open>Ninety seconds after the claim its hash is gone.\<close>

theorem redis_expired_claim_witness:
  "\<exists>r1 r2 r3. redis_acquire (\<lambda>t. t) hash_redis default_coordinator ''m'' ''k'' ''fp'' (empty_server 0) =
       (Inr (Some \<lparr>dec_status = CLAIMED, dec_payment_id = None\<rparr>), r1) \<and> passes hash_redis r1 r2 \<and>
     redis_acquire (\<lambda>t. t) hash_redis default_coordinator ''m'' ''k'' ''fp'' r2 =
       (Inr (Some \<lparr>dec_status = CLAIMED, dec_payment_id = None\<rparr>), r3)"
proof -
  let ?A = "redis_acquire (\<lambda>t. t) hash_redis default_coordinator ''m'' ''k'' ''fp''"
  let ?C = "redis_complete (\<lambda>t. t) hash_redis default_coordinator ''m'' ''k'' ''fp''"
  obtain x1 r1 where a1: "?A (empty_server 0) = (x1, r1)" by (metis prod.collapse)
  let ?r2 = "r1\<lparr>hsv_hashes := (\<lambda>_. Map.empty), hsv_time := 100\<rparr>"
  have r1: "hsv_time r1 = 0" "\<And>k. k \<noteq> idempotency_key (\<lambda>t. t) ''m'' ''k'' \<Longrightarrow> hsv_hashes r1 k = Map.empty"
    "hsv_deadlines r1 (idempotency_key (\<lambda>t. t) ''m'' ''k'') = Some 90"
    using a1 by (auto simp: redis_acquire_def claim_script_def redis_call_def hash_redis_def empty_server_def default_coordinator_def)
  have p: "passes hash_redis r1 ?r2"
    unfolding passes_def
  proof (intro conjI allI)
    show "rd_time hash_redis r1 \<le> rd_time hash_redis ?r2" using r1(1) by (simp add: hash_redis_def)
    fix k
    show "rd_deadline hash_redis k ?r2 = rd_deadline hash_redis k r1" by (simp add: hash_redis_def)
    show "(\<forall>f. rd_hget hash_redis k f ?r2 = rd_hget hash_redis k f r1) \<or>
        (\<forall>f. rd_hget hash_redis k f ?r2 = None) \<and> (\<exists>d. rd_deadline hash_redis k r1 = Some d \<and> d \<le> rd_time hash_redis ?r2)"
      using r1(2,3) by (cases "k = idempotency_key (\<lambda>t. t) ''m'' ''k''") (simp_all add: hash_redis_def)
  qed
  have v2: "redis_view (\<lambda>t. t) hash_redis ?r2 ''m'' ''k'' = None" by (simp add: redis_view_def hash_redis_def)
  obtain x2 r3 where a2: "?A ?r2 = (x2, r3)" by (metis prod.collapse)
  obtain y2 r4 where c2: "?C 2 r3 = (y2, r4)" by (metis prod.collapse)
  obtain y1 r5 where c1: "?C 1 r4 = (y1, r5)" by (metis prod.collapse)
  have ttl: "0 < rdc_processing_ttl_seconds default_coordinator" "(1 :: nat) < 2 ^ 128" "(2 :: nat) < 2 ^ 128"
    by (simp_all add: default_coordinator_def)
  have "x1 = Inr (Some \<lparr>dec_status = CLAIMED, dec_payment_id = None\<rparr>)" "x2 = x1"
    using redis_expired_claim [OF hash_redis_laws ttl empty_server_view a1 p v2 a2 c2 c1] by simp_all
  then show ?thesis using a1 a2 p by blast
qed

theorem redis_limiter_equivalent_witness:
  "\<exists>d r2. redis_consume (\<lambda>t. t) hash_redis \<lparr>rdl_capacity = 60, rdl_refill_per_second = 1\<rparr> ''m'' (empty_server 5) = (Inr d, r2) \<and>
     d = fst (consume_at ''m'' 5 (projr (new_InMemoryTokenBucketLimiter 60 1)))"
proof -
  let ?rl = "\<lparr>rdl_capacity = 60, rdl_refill_per_second = 1\<rparr>"
  obtain l where l: "new_InMemoryTokenBucketLimiter 60 1 = Inr l" by (simp add: new_InMemoryTokenBucketLimiter_def)
  obtain d r2 where c: "redis_consume (\<lambda>t. t) hash_redis ?rl ''m'' (empty_server 5) = (Inr d, r2)"
    using hash_redis_laws(2) by (auto simp: redis_consume_def case_prod_beta)
  have p: "passes hash_redis (empty_server 5) (empty_server 5)" by (simp add: passes_def)
  have "redis_run (\<lambda>t. t) hash_redis ?rl (empty_server 5) [(''m'', rd_time hash_redis (empty_server 5), d)]"
    by (rule redis_run.served [OF p c redis_run.idle])
  from redis_limiter_equivalent [OF hash_redis_laws(1) _ hash_redis_laws(2) _ l this] c l show ?thesis
    by (simp add: hash_redis_def empty_server_def case_prod_beta)
qed

end
