(* ===== verification/Metrics.thy ===== *)
theory Metrics
  imports Service
begin

text \<open>
  The metrics of \<open>observability.py\<close>: what \<open>Metrics.__init__\<close> declares, and what the client library
  demands of a call, that its metric is declared, of the right kind, and given a value for
  every label. The class promises \<^emph>\<open>bounded enum/provider labels only\<close>: the values a label may
  take are a finite set.
\<close>

subsection \<open>The registry\<close>

datatype metric_kind = Counter | Gauge | Histogram

record metric =
  mtc_attribute :: string
  mtc_kind :: metric_kind
  mtc_name :: string
  mtc_labels :: "string list"

definition metric_of :: "string \<Rightarrow> metric_kind \<Rightarrow> string list \<Rightarrow> metric" where
  "metric_of name kind labels =
     \<lparr>mtc_attribute = name, mtc_kind = kind, mtc_name = ''pyswitch_'' @ name, mtc_labels = labels\<rparr>"

definition declared_metrics :: "metric list" where
  "declared_metrics =
     [metric_of ''payments_total'' Counter [''status''],
      metric_of ''provider_requests_total'' Counter [''provider'', ''result''],
      metric_of ''provider_failures_total'' Counter [''provider'', ''error_code''],
      metric_of ''provider_latency_seconds'' Histogram [''provider''],
      metric_of ''provider_p95_latency_seconds'' Gauge [''provider''],
      metric_of ''provider_inflight'' Gauge [''provider''],
      metric_of ''provider_timeouts_total'' Counter [''provider''],
      metric_of ''provider_last_success_timestamp'' Gauge [''provider''],
      metric_of ''provider_last_failure_timestamp'' Gauge [''provider''],
      metric_of ''provider_circuit_state'' Gauge [''provider'', ''state''],
      metric_of ''provider_circuit_transitions_total'' Counter [''provider'', ''from_state'', ''to_state''],
      metric_of ''retries_total'' Counter [''provider''],
      metric_of ''idempotency_hits_total'' Counter [],
      metric_of ''rate_limit_rejections_total'' Counter []]"

definition declared :: "string \<Rightarrow> metric option" where
  "declared name = find (\<lambda>m. mtc_attribute m = name) declared_metrics"

lemma metric_names_distinct: "distinct (map mtc_name declared_metrics)" "distinct (map mtc_attribute declared_metrics)"
  by (simp_all add: declared_metrics_def metric_of_def)

lemma declared_simps [simp]:
  "declared ''payments_total'' = Some (metric_of ''payments_total'' Counter [''status''])"
  "declared ''provider_requests_total'' = Some (metric_of ''provider_requests_total'' Counter [''provider'', ''result''])"
  "declared ''provider_failures_total'' = Some (metric_of ''provider_failures_total'' Counter [''provider'', ''error_code''])"
  "declared ''provider_latency_seconds'' = Some (metric_of ''provider_latency_seconds'' Histogram [''provider''])"
  "declared ''provider_p95_latency_seconds'' = Some (metric_of ''provider_p95_latency_seconds'' Gauge [''provider''])"
  "declared ''provider_inflight'' = Some (metric_of ''provider_inflight'' Gauge [''provider''])"
  "declared ''provider_timeouts_total'' = Some (metric_of ''provider_timeouts_total'' Counter [''provider''])"
  "declared ''provider_last_success_timestamp'' = Some (metric_of ''provider_last_success_timestamp'' Gauge [''provider''])"
  "declared ''provider_last_failure_timestamp'' = Some (metric_of ''provider_last_failure_timestamp'' Gauge [''provider''])"
  "declared ''provider_circuit_state'' = Some (metric_of ''provider_circuit_state'' Gauge [''provider'', ''state''])"
  "declared ''provider_circuit_transitions_total'' =
     Some (metric_of ''provider_circuit_transitions_total'' Counter [''provider'', ''from_state'', ''to_state''])"
  "declared ''retries_total'' = Some (metric_of ''retries_total'' Counter [''provider''])"
  "declared ''idempotency_hits_total'' = Some (metric_of ''idempotency_hits_total'' Counter [])"
  "declared ''rate_limit_rejections_total'' = Some (metric_of ''rate_limit_rejections_total'' Counter [])"
  by (simp_all add: declared_def declared_metrics_def metric_of_def)

lemma metric_of_fields [simp]: "mtc_kind (metric_of n k ls) = k" "mtc_labels (metric_of n k ls) = ls"
  by (simp_all add: metric_of_def)

subsection \<open>Calls\<close>

definition circuit_states :: "string set" where
  "circuit_states = {''CLOSED'', ''OPEN'', ''HALF_OPEN''}"

definition bounded_codes :: "string set" where
  "bounded_codes = {''PROVIDER_TIMEOUT'', ''PROVIDER_UNAVAILABLE'', ''PAYMENT_DECLINED'', ''HTTP_502'', ''HTTP_503'', ''other''}"

definition label_values :: "string set \<Rightarrow> string \<Rightarrow> string set" where
  "label_values providers label =
     (if label = ''provider'' then providers
      else if label = ''status'' then {''PENDING'', ''PROCESSING'', ''SUCCEEDED'', ''FAILED'', ''REFUNDED''}
      else if label = ''result'' then {''success'', ''error''}
      else if label = ''error_code'' then bounded_codes
      else if label \<in> {''state'', ''from_state'', ''to_state''} then circuit_states
      else {})"

fun call_kind :: "metric_call \<Rightarrow> metric_kind" where
  "call_kind (Inc n ls) = Counter"
| "call_kind (GaugeSet n ls x) = Gauge"
| "call_kind (Observe n ls x) = Histogram"

fun call_name :: "metric_call \<Rightarrow> string" where
  "call_name (Inc n ls) = n"
| "call_name (GaugeSet n ls x) = n"
| "call_name (Observe n ls x) = n"

fun call_labels :: "metric_call \<Rightarrow> string list" where
  "call_labels (Inc n ls) = ls"
| "call_labels (GaugeSet n ls x) = ls"
| "call_labels (Observe n ls x) = ls"

definition call_ok :: "string set \<Rightarrow> metric_call \<Rightarrow> bool" where
  "call_ok providers c \<longleftrightarrow>
     (case declared (call_name c) of
        None \<Rightarrow> False
      | Some m \<Rightarrow> mtc_kind m = call_kind c \<and> list_all2 (\<lambda>l v. v \<in> label_values providers l) (mtc_labels m) (call_labels c))"

lemma circuit_state_bounded [simp]: "circuit_state_value x \<in> circuit_states"
  by (cases x) (simp_all add: circuit_states_def)

lemma circuit_states_named [simp]: "''CLOSED'' \<in> circuit_states" "''OPEN'' \<in> circuit_states" "''HALF_OPEN'' \<in> circuit_states"
  by (simp_all add: circuit_states_def)

lemma status_bounded [simp]: "status_value x \<in> label_values P ''status''"
  by (cases x) (simp_all add: label_values_def)

lemma label_values_simps [simp]:
  "label_values P ''provider'' = P" "label_values P ''result'' = {''success'', ''error''}"
  "label_values P ''error_code'' = bounded_codes" "label_values P ''state'' = circuit_states"
  "label_values P ''from_state'' = circuit_states" "label_values P ''to_state'' = circuit_states"
  by (simp_all add: label_values_def)

lemma label_values_finite: "finite P \<Longrightarrow> finite (label_values P l)"
  by (simp add: label_values_def bounded_codes_def circuit_states_def)

lemma call_ok_simps [simp]:
  "call_ok P (Inc ''payments_total'' [status_value status])"
  "call_ok P (Inc ''provider_requests_total'' [n, ''success'']) \<longleftrightarrow> n \<in> P"
  "call_ok P (Inc ''provider_requests_total'' [n, ''error'']) \<longleftrightarrow> n \<in> P"
  "call_ok P (Inc ''provider_failures_total'' [n, c]) \<longleftrightarrow> n \<in> P \<and> c \<in> bounded_codes"
  "call_ok P (Observe ''provider_latency_seconds'' [n] x) \<longleftrightarrow> n \<in> P"
  "call_ok P (GaugeSet ''provider_p95_latency_seconds'' [n] x) \<longleftrightarrow> n \<in> P"
  "call_ok P (GaugeSet ''provider_inflight'' [n] x) \<longleftrightarrow> n \<in> P"
  "call_ok P (Inc ''provider_timeouts_total'' [n]) \<longleftrightarrow> n \<in> P"
  "call_ok P (GaugeSet ''provider_last_success_timestamp'' [n] x) \<longleftrightarrow> n \<in> P"
  "call_ok P (GaugeSet ''provider_last_failure_timestamp'' [n] x) \<longleftrightarrow> n \<in> P"
  "call_ok P (GaugeSet ''provider_circuit_state'' [n, s] x) \<longleftrightarrow> n \<in> P \<and> s \<in> circuit_states"
  "call_ok P (Inc ''provider_circuit_transitions_total'' [n, a, b]) \<longleftrightarrow> n \<in> P \<and> a \<in> circuit_states \<and> b \<in> circuit_states"
  "call_ok P (Inc ''retries_total'' [n]) \<longleftrightarrow> n \<in> P"
  "call_ok P (Inc ''idempotency_hits_total'' [])"
  "call_ok P (Inc ''rate_limit_rejections_total'' [])"
  by (simp_all add: call_ok_def)

subsection \<open>Growth\<close>

text \<open>The calls made so far and some more, all of them proper.\<close>

definition grown :: "string set \<Rightarrow> metric_call list option \<Rightarrow> metric_call list option \<Rightarrow> bool" where
  "grown P ms ms' \<longleftrightarrow>
     (case ms of None \<Rightarrow> ms' = None | Some calls \<Rightarrow> \<exists>added. ms' = Some (calls @ added) \<and> list_all (call_ok P) added)"

lemma grown_refl [simp, intro]: "grown P ms ms"
  by (auto simp: grown_def split: option.split)

lemma grown_trans: "grown P a b \<Longrightarrow> grown P b c \<Longrightarrow> grown P a c"
  by (auto simp: grown_def split: option.splits)

lemma grown_emit [simp]: "grown P ms (svc_metrics s) \<Longrightarrow> call_ok P c \<Longrightarrow> grown P ms (svc_metrics (emit c s))"
  by (auto simp: grown_def emit_def split: option.splits)

lemma grown_circuit [simp]:
  "grown P ms (svc_metrics s) \<Longrightarrow> n \<in> P \<Longrightarrow> grown P ms (svc_metrics (set_circuit_metric n s))"
  by (auto simp: set_circuit_metric_def circuit_states_def split: option.split)

lemma grown_inflight [simp]:
  "grown P ms (svc_metrics s) \<Longrightarrow> n \<in> P \<Longrightarrow> grown P ms (svc_metrics (set_inflight_metric n s))"
  by (simp add: set_inflight_metric_def Let_def)

lemma grown_failure [simp]:
  "grown P ms (svc_metrics s) \<Longrightarrow> n \<in> P \<Longrightarrow> grown P ms (svc_metrics (record_provider_failure_metrics n c l s))"
  by (simp add: record_provider_failure_metrics_def Let_def bounded_codes_def)

end
