(* ===== verification/Service_Frame.thy ===== *)
theory Service_Frame
  imports Payments Metrics
begin

text \<open>
  What no method of the payment service touches, and what it may raise. The configuration
  of a service (its providers, strategy, weights, retry policy, semaphores and the set of
  its circuits) changes only through the administration endpoints; an exception a method
  raises is one of its own or one that a collaborator raised; and every metric call it makes
  is on a declared metric, with labels from a finite set. All three are proved in one pass
  over the service, for every collaborator.
\<close>

subsection \<open>Configuration\<close>

definition same_routing :: "ProviderRouter \<Rightarrow> ProviderRouter \<Rightarrow> bool" where
  "same_routing r r' \<longleftrightarrow> rtr_strategy r' = rtr_strategy r \<and> rtr_composite_weights r' = rtr_composite_weights r"

definition same_config :: "'b PaymentService \<Rightarrow> 'b PaymentService \<Rightarrow> bool" where
  "same_config s s' \<longleftrightarrow>
     svc_providers s' = svc_providers s \<and> same_routing (svc_router s) (svc_router s') \<and>
     svc_retry_policy s' = svc_retry_policy s \<and> svc_semaphores s' = svc_semaphores s \<and>
     dom (svc_circuits s') = dom (svc_circuits s) \<and> svc_refund_locks s \<subseteq> svc_refund_locks s' \<and>
     grown (dom (svc_circuits s)) (svc_metrics s) (svc_metrics s')"

lemma same_routing_refl [simp, intro]: "same_routing r r"
  by (simp add: same_routing_def)

lemma metric_locks [simp]:
  "svc_refund_locks (set_circuit_metric n s) = svc_refund_locks s"
  "svc_refund_locks (set_inflight_metric n s) = svc_refund_locks s"
  "svc_refund_locks (record_provider_failure_metrics n c l s) = svc_refund_locks s"
  by (simp_all add: set_circuit_metric_def set_inflight_metric_def record_provider_failure_metrics_def Let_def
      split: option.splits)

lemma same_config_refl [simp, intro]: "same_config s s"
  by (simp add: same_config_def)

lemma same_config_trans [trans]: "same_config a b \<Longrightarrow> same_config b c \<Longrightarrow> same_config a c"
  using grown_trans by (auto simp: same_config_def same_routing_def)

lemma same_circuits: "same_config a b \<Longrightarrow> n \<in> dom (svc_circuits a) \<longleftrightarrow> n \<in> dom (svc_circuits b)"
  by (simp add: same_config_def)

lemma stats_for_routing [simp]:
  "rtr_strategy (snd (stats_for p r)) = rtr_strategy r"
  "rtr_composite_weights (snd (stats_for p r)) = rtr_composite_weights r"
  using same_view_fields [OF stats_for_same [of r p]] by simp_all

lemma request_routing [simp]:
  "same_routing r (start_request p r)" "same_routing r (fst (finish_request p ok l c r w))"
  by (simp_all add: same_routing_def start_request_def finish_request_def Let_def case_prod_beta)

lemma keyed_routing:
  assumes "\<And>p r. rtr_strategy (snd (f p r)) = rtr_strategy r \<and> rtr_composite_weights (snd (f p r)) = rtr_composite_weights r"
  shows "rtr_strategy (snd (keyed f ps r)) = rtr_strategy r \<and> rtr_composite_weights (snd (keyed f ps r)) = rtr_composite_weights r"
  using assms by (induction ps arbitrary: r) (auto simp: Let_def case_prod_beta)

lemma candidates_routing:
  "rtr_strategy (snd (candidates_from i ps r)) = rtr_strategy r \<and>
   rtr_composite_weights (snd (candidates_from i ps r)) = rtr_composite_weights r"
  by (induction ps arbitrary: i r) (auto simp: Let_def case_prod_beta)

lemma weighted_routing:
  "rtr_strategy (snd (weighted_loop ps acc r)) = rtr_strategy r \<and>
   rtr_composite_weights (snd (weighted_loop ps acc r)) = rtr_composite_weights r"
proof (induction ps arbitrary: acc r)
  case Nil
  then show ?case by (cases acc) simp
next
  case (Cons p ps)
  have "rtr_strategy (snd (weight p r)) = rtr_strategy r" "rtr_composite_weights (snd (weight p r)) = rtr_composite_weights r"
    by (simp_all add: weight_def case_prod_beta)
  then show ?case using Cons.IH by (cases acc) (simp add: Let_def case_prod_beta)
qed

lemma choose_provider_routing: "same_routing r (snd (choose_provider ps r))"
proof -
  have keys: "rtr_strategy (snd (latency_key qs p x)) = rtr_strategy x \<and> rtr_composite_weights (snd (latency_key qs p x)) = rtr_composite_weights x"
    "rtr_strategy (snd (success_key qs p x)) = rtr_strategy x \<and> rtr_composite_weights (snd (success_key qs p x)) = rtr_composite_weights x"
    for qs p x by (simp_all add: latency_key_def success_key_def case_prod_beta)
  note kr = keyed_routing [of "latency_key ps", OF keys(1)] keyed_routing [of "success_key ps", OF keys(2)]
  show ?thesis
    using kr candidates_routing [of 0 ps r] weighted_routing [of ps "(0, hd ps, NegInf)" r]
    by (auto simp: same_routing_def choose_provider_def round_robin_def weighted_round_robin_def Let_def case_prod_beta
        split: sum.splits)
qed

lemma choose_provider_error: "fst (choose_provider ps r) = Inl e \<Longrightarrow> \<exists>m. e = LookupError m"
proof -
  assume e: "fst (choose_provider ps r) = Inl e"
  have "select_composite cs w = Inl x \<Longrightarrow> \<exists>m. x = LookupError m" for cs w x by (cases cs) auto
  then show ?thesis using e by (auto simp: choose_provider_def Let_def case_prod_beta split: if_splits sum.splits)
qed

subsection \<open>One pass over the service\<close>

text \<open>
  \<open>fine st x\<close>: the step from \<open>st\<close> to the result and state \<open>x\<close> kept the configuration and
  raised, if anything, an exception in \<open>Q\<close>. (A retry policy without attempts raises an
  error of its own.)
\<close>

locale service_frame =
  fixes ops :: provider_ops and be :: "'b backend_ops" and Q :: "exn \<Rightarrow> bool"
  assumes own: "Q (ProviderError c m)" "Q (KeyError m)" "Q (LookupError m)" "Q (IdempotencyConflict m)"
      "Q (IdempotencyUnavailable m)" "Q (RefundError c m)"
    and provider_raises: "fst (op_create_payment ops p i a cur t w) = Inl e \<Longrightarrow> Q e"
      "fst (op_refund_payment ops p i a w) = Inl e \<Longrightarrow> Q e" "fst (op_health_check ops p w) = Inl e \<Longrightarrow> Q e"
    and claim_raises: "fst (be_acquire be mer k fp b) = Inl e \<Longrightarrow> Q e" "fst (be_complete be mer k fp u b) = Inl e \<Longrightarrow> Q e"
      "fst (be_abort be mer k fp b) = Inl e \<Longrightarrow> Q e"
    and store_raises: "fst (be_get be u b) = Inl e \<Longrightarrow> Q e" "fst (be_get_by_idempotency be mer k b) = Inl e \<Longrightarrow> Q e"
      "fst (be_save be pay b) = Inl e \<Longrightarrow> Q e"
      "be_save_with_events be = Some saver \<Longrightarrow> fst (saver pay evs b) = Inl e \<Longrightarrow> Q e"
      "be_append be = Some app \<Longrightarrow> fst (app evs b) = Inl e \<Longrightarrow> Q e"
begin

definition fine :: "'b svc \<Rightarrow> 'a res \<times> 'b svc \<Rightarrow> bool" where
  "fine st x \<longleftrightarrow> same_config (fst st) (fst (snd x)) \<and>
     (0 < max_attempts (svc_retry_policy (fst st)) \<longrightarrow> (\<forall>e. fst x = Inl e \<longrightarrow> Q e))"

lemma fineI [intro]: "same_config (fst st) (fst (snd x)) \<Longrightarrow> (\<And>e. fst x = Inl e \<Longrightarrow> Q e) \<Longrightarrow> fine st x"
  by (simp add: fine_def)

lemma fine_trans:
  assumes "same_config (fst st) (fst st1)" "fine st1 x"
  shows "fine st x"
  using assms same_config_trans [OF assms(1)] by (auto simp: fine_def) (simp add: same_config_def)

lemma fine_then:
  assumes "fine st x" "\<And>v st1. x = (Inr v, st1) \<Longrightarrow> fine st1 (f v st1)"
  shows "fine st (then_do x f)"
proof (cases "fst x")
  case (Inl e)
  then have "then_do x f = (Inl e, snd x)" by (metis prod.collapse then_do_simps(1))
  then show ?thesis using assms(1) Inl by (simp add: fine_def)
next
  case (Inr v)
  then have "x = (Inr v, snd x)" by (metis prod.collapse)
  then show ?thesis using assms(2) [of v "snd x"] assms(1) fine_trans [of st "snd x"] by (metis fine_def then_do_simps(2))
qed

lemma fine_value [intro]: "same_config (fst st) (fst st1) \<Longrightarrow> fine st (Inr v, st1)"
  by (simp add: fine_def)

lemma fine_raise: "same_config (fst st) (fst st1) \<Longrightarrow> Q e \<Longrightarrow> fine st (Inl e, st1)"
  by (simp add: fine_def)

lemma fine_backend: "(\<And>e. fst (f (svc_backend (fst st))) = Inl e \<Longrightarrow> Q e) \<Longrightarrow> fine st (on_backend f st)"
  by (auto simp: fine_def on_backend_def case_prod_beta same_config_def)

lemma fine_transition:
  assumes "n \<in> dom (svc_circuits (fst st))"
  shows "fine st (record_circuit_transition be n a c st)"
proof -
  obtain s w where st: "st = (s, w)" by (cases st)
  show ?thesis
  proof (cases "be_append be")
    case None
    then show ?thesis using assms by (simp add: st record_circuit_transition_def Let_def case_prod_beta same_config_def fine_value)
  next
    case (Some app)
    have "fine (s1, w1) (on_backend (app es) (s1, w1))" for es s1 w1
      using store_raises(5) [OF Some] by (intro fine_backend) auto
    then show ?thesis
      using assms by (auto simp: st record_circuit_transition_def Let_def case_prod_beta Some same_config_def domIff
          intro!: fine_trans [of "(s, w)" "(emit x s, y)" for x y])
  qed
qed

lemma fine_step: "fine st (step_circuit be n f st)"
proof (cases "svc_circuits (fst st) n")
  case None
  then show ?thesis using own(2) by (auto simp: step_circuit_def intro: fine_raise)
next
  case (Some cb)
  define s1 where "s1 = set_circuit_metric n ((fst st)\<lparr>svc_circuits := (svc_circuits (fst st))(n \<mapsto> fst (snd (f cb (snd st))))\<rparr>)"
  have c: "same_config (fst st) s1" using Some by (simp add: s1_def same_config_def insert_absorb domIff)
  then have "n \<in> dom (svc_circuits s1)" using Some by (simp add: same_config_def domIff)
  then show ?thesis
    using Some c
    by (auto simp: step_circuit_def Let_def case_prod_beta simp flip: s1_def
        intro!: fine_trans [of st "(s1, snd (snd (f cb (snd st))))"] fine_then fine_transition)
qed

lemma fine_circuit_ops:
  "fine st (allow_provider be p st)" "fine st (record_provider_success be p st)" "fine st (record_provider_failure be p st)"
  by (simp_all add: allow_provider_def record_provider_success_def record_provider_failure_def fine_step)

lemma finish_call_config:
  "prv_name p \<in> dom (svc_circuits (fst st)) \<Longrightarrow> same_config (fst st) (fst (snd (finish_call p ok c t st)))"
  using request_routing(2) by (auto simp: finish_call_def Let_def case_prod_beta same_config_def)

lemma fine_call: "fine st (call_provider ops p pay d st)"
  using own(2) provider_raises(1) by (auto simp: call_provider_def Let_def case_prod_beta intro!: fineI split: option.splits)

end

context service_frame
begin

abbreviation afine :: "'b attempt_state \<Rightarrow> 'a res \<times> 'b attempt_state \<Rightarrow> bool" where
  "afine ast x \<equiv> fine (fst ast) (fst x, fst (snd x))"

lemma fine_cong: "fine st (r, st1) \<Longrightarrow> same_config (fst st1) (fst st2) \<Longrightarrow> fine st (r, st2)"
  using same_config_trans by (fastforce simp: fine_def)

lemma fine_same: "fine st (r, st1) \<Longrightarrow> same_config (fst st) (fst st1)"
  by (simp add: fine_def)

lemma on_provider_error_fine:
  assumes "Q error" "prv_name p \<in> dom (svc_circuits (fst st))"
  shows "afine (st, as) (on_provider_error be p error t (st, as))"
proof -
  define x where "x = finish_call p False (Some (exn_code error)) t st"
  have c: "same_config (fst st) (fst (snd x))" unfolding x_def by (rule finish_call_config [OF assms(2)])
  obtain r s2 w2 where f: "record_provider_failure be p (snd x) = (r, s2, w2)" by (metis prod_cases3)
  have g: "fine (snd x) (r, s2, w2)" using fine_circuit_ops(3) [of "snd x" p] f by simp
  show ?thesis
  proof (cases r)
    case (Inl e)
    then have "on_provider_error be p error t (st, as) = (Inl e, (s2, w2), as)"
      using f by (simp add: on_provider_error_def case_prod_beta flip: x_def)
    then show ?thesis using fine_trans [OF c g] Inl by (simp add: fine_def)
  next
    case (Inr v)
    have k: "same_config (fst st) s2" using same_config_trans [OF c] g by (simp add: fine_def)
    have d: "prv_name p \<in> dom (svc_circuits s2)" using k assms(2) same_circuits by blast
    have m: "fst (on_provider_error be p error t (st, as)) = Inl error"
      "same_config s2 (fst (fst (snd (on_provider_error be p error t (st, as)))))"
      using f Inr d by (simp_all add: on_provider_error_def Let_def case_prod_beta same_config_def flip: x_def)
    then show ?thesis using same_config_trans [OF k m(2)] assms by (simp add: fine_def)
  qed
qed

lemma on_other_error_fine:
  assumes "Q error" "prv_name p \<in> dom (svc_circuits (fst st))"
  shows "afine (st, as) (on_other_error p error t (st, as))"
proof -
  define x where "x = finish_call p False (Some ''INTERNAL_ERROR'') t st"
  have c: "same_config (fst st) (fst (snd x))" unfolding x_def by (rule finish_call_config [OF assms(2)])
  have "prv_name p \<in> dom (svc_circuits (fst (snd x)))" using c assms(2) same_circuits by blast
  then have "same_config (fst (snd x)) (fst (fst (snd (on_other_error p error t (st, as)))))"
    by (simp add: on_other_error_def Let_def case_prod_beta same_config_def flip: x_def)
  from same_config_trans [OF c this] show ?thesis
    using assms(1) by (simp add: on_other_error_def Let_def case_prod_beta fine_def)
qed

lemma on_provider_success_fine:
  assumes "prv_name p \<in> dom (svc_circuits (fst st))"
  shows "afine (st, as) (on_provider_success be p result t (st, as))"
proof -
  obtain r st1 where f: "record_provider_success be p st = (r, st1)" by (metis prod.collapse)
  have g: "fine st (r, st1)" using fine_circuit_ops(2) [of st p] f by simp
  show ?thesis
  proof (cases r)
    case (Inl e)
    then show ?thesis using g f by (simp add: on_provider_success_def fine_def)
  next
    case (Inr v)
    have d: "prv_name p \<in> dom (svc_circuits (fst st1))" using fine_same [OF g] assms same_circuits by blast
    define x where "x = finish_call p True None t st1"
    have c: "same_config (fst st1) (fst (snd x))" unfolding x_def by (rule finish_call_config [OF d])
    have "prv_name p \<in> dom (svc_circuits (fst (snd x)))" using c d same_circuits by blast
    then have "same_config (fst (snd x)) (fst (fst (snd (on_provider_success be p result t (st, as)))))"
      "\<exists>x. fst (on_provider_success be p result t (st, as)) = Inr x"
      using f Inr by (simp_all add: on_provider_success_def Let_def case_prod_beta same_config_def flip: x_def)
    then have m: "same_config (fst st1) (fst (fst (snd (on_provider_success be p result t (st, as)))))"
      "\<exists>x. fst (on_provider_success be p result t (st, as)) = Inr x"
      using same_config_trans [OF c] by blast+
    then show ?thesis using same_config_trans [OF fine_same [OF g] m(1)] by (auto simp: fine_def)
  qed
qed

lemma operation_fine: "afine (st, as) (operation ops be p pay d (st, as))"
proof -
  obtain r s1 w1 where a: "allow_provider be p st = (r, s1, w1)" by (metis prod_cases3)
  have g: "fine st (r, s1, w1)" using fine_circuit_ops(1) [of st p] a by simp
  define st2 where "st2 = (set_inflight_metric (prv_name p) (s1\<lparr>svc_router := start_request p (svc_router s1)\<rparr>), snd (perf_counter w1))"
  define t where "t = fst (perf_counter w1)"
  have known: "prv_name p \<in> dom (svc_circuits (fst st))" if "r = Inr v" for v
    using a that by (auto simp: allow_provider_def step_circuit_def split: option.splits)
  obtain q st3 where cp: "call_provider ops p pay d st2 = (q, st3)" by (metis prod.collapse)
  have f3: "fine st2 (q, st3)" using fine_call [of st2 p pay d] cp by simp
  have q3: "Q e" if "q = Inl e" for e
    using that cp provider_raises(1) own(2) by (auto simp: call_provider_def Let_def case_prod_beta split: option.splits)
  show ?thesis
  proof (cases r)
    case (Inl e)
    then show ?thesis using g a by (simp add: operation_def fine_def)
  next
    case (Inr ok)
    show ?thesis
    proof (cases ok)
      case False
      then show ?thesis using g a Inr own(1) by (simp add: operation_def fine_def)
    next
      case True
      have "prv_name p \<in> dom (svc_circuits s1)" using known [OF Inr] fine_same [OF g] same_circuits by force
      then have "same_config s1 (fst st2)" by (simp add: st2_def same_config_def)
      then have c2: "same_config (fst st) (fst st2)" using fine_same [OF g] same_config_trans by force
      note c3 = same_config_trans [OF c2 fine_same [OF f3]]
      have in3: "prv_name p \<in> dom (svc_circuits (fst st3))" using known [OF Inr] c3 same_circuits by blast
      have op: "operation ops be p pay d (st, as) = (case q of
          Inr result \<Rightarrow> on_provider_success be p result t (st3, as)
        | Inl error \<Rightarrow> if is_ProviderError error then on_provider_error be p error t (st3, as)
            else if is_Exception error then on_other_error p error t (st3, as) else (Inl error, (st3, as)))"
        using a Inr True cp by (simp add: operation_def Let_def case_prod_beta st2_def t_def split: sum.splits)
      have "afine (st3, as) (operation ops be p pay d (st, as))"
        using q3 on_provider_success_fine [OF in3] on_provider_error_fine [OF _ in3] on_other_error_fine [OF _ in3]
        unfolding op by (auto split: sum.splits intro!: fine_raise)
      then show ?thesis using fine_trans [OF c3] by simp
    qed
  qed
qed

lemma backoff_service: "fst (fst (backoff pol attempt_draw attempt_sleep k ast)) = fst (fst ast)"
  by (simp add: backoff_def delay_for_def attempt_draw_def attempt_sleep_def Let_def case_prod_beta)

lemma retry_loop_fine:
  assumes "n = 0 \<Longrightarrow> \<exists>e. le = Some e \<and> Q e"
  shows "afine ast (retry_loop (operation ops be p pay d) pol attempt_draw attempt_sleep n k le ast)"
  using assms
proof (induction n arbitrary: k le ast)
  case 0
  then show ?case by (auto intro!: fine_raise)
next
  case (Suc n)
  obtain st as where ast: "ast = (st, as)" by (cases ast)
  obtain r st1 as1 where o: "operation ops be p pay d ast = (r, st1, as1)" by (metis prod_cases3)
  have f: "fine st (r, st1)" using operation_fine [of st as p pay d] o ast by simp
  show ?case
  proof (cases "\<exists>e. r = Inl e \<and> is_ProviderError e \<and> is_retryable e \<and> int k \<noteq> max_attempts pol - 1")
    case False
    then show ?thesis using f o by (auto simp: ast fine_def split: sum.splits)
  next
    case True
    then obtain e where e: "r = Inl e" "is_ProviderError e" by blast
    let ?b = "backoff pol attempt_draw attempt_sleep k (st1, as1)"
    have "Q e" using e(2) own(1) by (cases e) auto
    then have IH: "afine ?b (retry_loop (operation ops be p pay d) pol attempt_draw attempt_sleep n (k + 1) (Some e) ?b)"
      by (intro Suc.IH) simp
    have "same_config (fst st) (fst (fst ?b))" using fine_same [OF f] by (simp add: backoff_service)
    from fine_trans [OF this IH] show ?thesis using o e True by (auto simp: ast)
  qed
qed

lemma attempt_provider_fine:
  assumes "attempt_provider ops be pay p d st = (r, pay1, st1)"
  shows "fine st (r, st1)"
proof -
  let ?pol = "svc_retry_policy (fst st)"
  let ?x = "run_with_retry (operation ops be p pay d) ?pol attempt_draw attempt_sleep (st, [])"
  have x: "fine st (fst ?x, fst (snd ?x))"
  proof (cases "0 < max_attempts ?pol")
    case True
    then show ?thesis using retry_loop_fine [of "nat (max_attempts ?pol)" None "(st, [])"] by (simp add: run_with_retry_def)
  next
    case False
    then show ?thesis by (simp add: run_with_retry_def fine_def)
  qed
  have "(\<exists>e. fst ?x = Inl e \<and> r = Inl e) \<or> (\<exists>v u. fst ?x = Inr v \<and> r = Inr u)" "st1 = fst (snd ?x)"
    using assms by (auto simp: attempt_provider_def case_prod_beta split: prod.splits sum.splits if_splits)
  then show ?thesis using x by (auto simp: fine_def)
qed

end

context service_frame
begin

lemma save_payment_fine: "fine st (save_payment be pay es st)"
proof -
  have sep: "fine st (then_do (on_backend (be_save be pay) st)
      (\<lambda>_ st1. case be_append be of
         Some app \<Rightarrow> if es \<noteq> [] then on_backend (app es) st1 else (Inr (), st1) | None \<Rightarrow> (Inr (), st1)))"
    using store_raises(3,5) by (intro fine_then fine_backend) (auto split: option.splits intro!: fine_backend)
  have "fine st (on_backend (saver pay es) st)" if "be_save_with_events be = Some saver" for saver
    using store_raises(4) [OF that] by (intro fine_backend) auto
  then show ?thesis using sep unfolding save_payment_def Let_def by (auto split: option.splits)
qed

lemma settle_fine: "fine st (settle be d fp pay final st)"
proof -
  define x where "x = creation_events pay final (snd st)"
  have "fine (fst st, snd x) (then_do (save_payment be pay (fst x) (fst st, snd x))
      (\<lambda>_ st1. then_do (on_backend (be_complete be (inp_merchant_id d) (inp_idempotency_key d) fp (pay_id pay)) st1)
        (\<lambda>_ (s2, w2). (Inr (), (emit (Inc ''payments_total'' [status_value (pay_status pay)]) s2, w2)))))"
    by (intro fine_then save_payment_fine fine_backend claim_raises(2)) (auto simp: same_config_def)
  then show ?thesis
    using fine_trans [of st "(fst st, snd x)"] by (simp add: settle_def Let_def case_prod_beta flip: x_def)
qed

lemma try_candidates_fine:
  assumes "try_candidates ops be d fp ps le pay st = (r, le1, pay1, st1)" "\<forall>e. le = Some e \<longrightarrow> is_ProviderError e"
  shows "fine st (r, st1) \<and> (\<forall>e. le1 = Some e \<longrightarrow> is_ProviderError e)"
  using assms
proof (induction ps arbitrary: le pay st)
  case Nil
  then show ?case by (auto simp: fine_def)
next
  case (Cons p ps)
  obtain x pay2 st2 where a: "attempt_provider ops be pay p d st = (x, pay2, st2)" by (metis prod_cases3)
  have f: "fine st (x, st2)" by (rule attempt_provider_fine [OF a])
  define payS where "payS = (\<lambda>result :: ProviderPaymentResult. pay2\<lparr>pay_status := SUCCEEDED, pay_reference := Some (res_reference result),
    pay_provider := Some (prv_name p)\<rparr>)"
  define y where "y = (case x of Inl e \<Rightarrow> (Inl e, pay2, st2)
    | Inr result \<Rightarrow> (fst (settle be d fp (payS result) PAYMENT_SUCCEEDED st2), payS result,
                      snd (settle be d fp (payS result) PAYMENT_SUCCEEDED st2)))"
  obtain q pay3 st3 where y: "y = (q, pay3, st3)" by (metis prod_cases3)
  have fq: "fine st (q, st3)"
  proof (cases x)
    case (Inl e)
    then show ?thesis using f y by (auto simp: y_def fine_def)
  next
    case (Inr result)
    have "fine st2 (settle be d fp (payS result) PAYMENT_SUCCEEDED st2)" by (rule settle_fine)
    from fine_trans [OF fine_same [OF f] this] show ?thesis using y Inr by (auto simp: y_def)
  qed
  have step: "try_candidates ops be d fp (p # ps) le pay st = (case q of
      Inr _ \<Rightarrow> (Inr True, le, pay3, st3)
    | Inl e \<Rightarrow> if \<not> is_ProviderError e then (Inl e, le, pay3, st3)
               else if exn_code e \<notin> failover_codes then (Inr False, Some e, pay3, st3)
               else try_candidates ops be d fp ps (Some e) pay3 st3)"
    using a y by (auto simp: Let_def y_def payS_def case_prod_beta split: sum.splits)
  show ?case
  proof (cases "\<exists>e. q = Inl e \<and> is_ProviderError e \<and> exn_code e \<in> failover_codes")
    case True
    then obtain e where e: "q = Inl e" "is_ProviderError e" "exn_code e \<in> failover_codes" by blast
    have "fine st3 (r, st1) \<and> (\<forall>e. le1 = Some e \<longrightarrow> is_ProviderError e)"
      using Cons.prems(1) e unfolding step by (intro Cons.IH [of "Some e" pay3]) simp_all
    then show ?thesis using fine_trans [OF fine_same [OF fq]] by blast
  next
    case False
    then show ?thesis
      using Cons.prems fq unfolding step by (auto simp: fine_def split: sum.splits if_splits)
  qed
qed

lemma healthy_providers_raises: "fst (healthy_providers ops ps w) = Inl e \<Longrightarrow> Q e"
proof (induction ps arbitrary: w)
  case (Cons p ps)
  obtain r w1 where h: "op_health_check ops p w = (r, w1)" by (metis prod.collapse)
  obtain q w2 where t: "healthy_providers ops ps w1 = (q, w2)" by (metis prod.collapse)
  show ?case
    using Cons h t provider_raises(3) [of p w] Cons.IH [of w1] by (cases r; cases q) auto
qed simp

lemma create_claimed_fine:
  assumes "create_claimed ops be d fp st = ((r, c), st1)"
  shows "fine st (r, st1)"
proof -
  obtain g s1 w1 where g: "on_backend (be_get_by_idempotency be (inp_merchant_id d) (inp_idempotency_key d)) st = (g, s1, w1)"
    by (metis prod_cases3)
  have fg: "fine st (g, s1, w1)"
    using fine_backend [of "be_get_by_idempotency be (inp_merchant_id d) (inp_idempotency_key d)" st] store_raises(2) g
    by auto
  note c1 = fine_same [OF fg]
  consider (raise) e where "g = Inl e" | (known) p where "g = Inr (Some p)" | (new) "g = Inr None"
    by (cases g) (auto intro: option.exhaust)
  then show ?thesis
  proof cases
    case raise
    then show ?thesis using assms g fg by (auto simp: create_claimed_def fine_def)
  next
    case (known p)
    obtain q st2 where k: "on_backend (be_complete be (inp_merchant_id d) (inp_idempotency_key d) fp (pay_id p)) (s1, w1) = (q, st2)"
      by (metis prod.collapse)
    have fk: "fine (s1, w1) (q, st2)"
      using fine_backend [of "be_complete be (inp_merchant_id d) (inp_idempotency_key d) fp (pay_id p)" "(s1, w1)"]
        claim_raises(2) k by auto
    show ?thesis
      using assms g known k fg fk own(4) fine_trans [of st "(s1, w1)" "(q, st2)"] c1
      by (auto simp: create_claimed_def fine_def split: if_splits sum.splits)
  next
    case new
    obtain pay0 w2 where np: "new_Payment (inp_merchant_id d) (inp_amount d) (inp_currency d)
      (inp_payment_method_type d) (inp_idempotency_key d) fp w1 = (pay0, w2)" by (metis prod.collapse)
    obtain h w3 where h: "healthy_providers ops (svc_providers s1) w2 = (h, w3)" by (metis prod.collapse)
    show ?thesis
    proof (cases h)
      case (Inl e)
      then have "Q e" using healthy_providers_raises [of "svc_providers s1" w2] h by simp
      then show ?thesis using assms g new h Inl c1
        by (auto simp: create_claimed_def np fine_def)
    next
      case (Inr healthy)
      obtain cp router where ch: "choose_provider healthy (svc_router s1) = (cp, router)" by (metis prod.collapse)
      have rt: "same_routing (svc_router s1) router" using choose_provider_routing [of "svc_router s1" healthy] ch by simp
      have c2: "same_config (fst st) (s1\<lparr>svc_router := router\<rparr>)"
        using same_config_trans [OF c1, of "s1\<lparr>svc_router := router\<rparr>"] rt by (simp add: same_config_def)
      show ?thesis
      proof (cases cp)
        case (Inl e)
        then have "Q e" using choose_provider_error [of healthy "svc_router s1" e] ch own(3) by auto
        then show ?thesis using assms g new h Inr ch Inl c2
          by (auto simp: create_claimed_def np fine_def)
      next
        case ch_ok: (Inr p)
        obtain t le pay st4 where t: "try_candidates ops be d fp (p # filter (\<lambda>q. prv_object q \<noteq> prv_object p) healthy) None
            pay0 (s1\<lparr>svc_router := router\<rparr>, w3) = (t, le, pay, st4)" by (metis prod_cases4)
        have ft: "fine (s1\<lparr>svc_router := router\<rparr>, w3) (t, st4)" "\<forall>e. le = Some e \<longrightarrow> is_ProviderError e"
          using try_candidates_fine [OF t] by auto
        have f4: "fine st (t, st4)" by (rule fine_trans [OF _ ft(1)]) (simp add: c2)
        define z where "z = settle be d fp (pay\<lparr>pay_status := FAILED\<rparr>) PAYMENT_FAILED st4"
        have fz: "fine st z" unfolding z_def by (rule fine_trans [OF fine_same [OF f4] settle_fine])
        have le: "Q (case le of Some e \<Rightarrow> e | None \<Rightarrow> ProviderError ''PROVIDER_UNAVAILABLE'' ''No provider completed the payment'')"
          using ft(2) own(1) by (auto split: option.splits) (metis exn.collapse(1))
        note eqs = create_claimed_def g new h Inr ch ch_ok t Let_def
        obtain zr z5 where z: "settle be d fp (pay\<lparr>pay_status := FAILED\<rparr>) PAYMENT_FAILED st4 = (zr, z5)" by (metis prod.collapse)
        show ?thesis
        proof (cases t)
          case Inl
          then show ?thesis using assms f4 by (auto simp: eqs np fine_def simp del: try_candidates.simps)
        next
          case (Inr ok)
          then show ?thesis
            using assms f4 fz le z by (cases ok; cases zr) (auto simp: eqs np z_def fine_def simp del: try_candidates.simps)
        qed
      qed
    qed
  qed
qed

lemma create_fine:
  assumes "create sha ops be d st = (r, st1)"
  shows "same_config (fst st) (fst st1) \<and>
    (0 < max_attempts (svc_retry_policy (fst st)) \<longrightarrow> (\<forall>e. r = Some (Inl e) \<longrightarrow> Q e))"
proof -
  define fp where "fp = request_fingerprint sha d"
  obtain a st2 where a: "on_backend (be_acquire be (inp_merchant_id d) (inp_idempotency_key d) fp) st = (a, st2)"
    by (metis prod.collapse)
  have fa: "fine st (a, st2)"
    using fine_backend [of "be_acquire be (inp_merchant_id d) (inp_idempotency_key d) fp" st] claim_raises(1) a by auto
  consider (raise) e where "a = Inl e" | (wait) ev where "a = Inr (AwaitEvent ev)"
    | (conflict) dd where "a = Inr (Decided dd)" "dec_status dd = CONFLICT"
    | (completed) dd where "a = Inr (Decided dd)" "dec_status dd = COMPLETED"
    | (claimed) dd where "a = Inr (Decided dd)" "dec_status dd = CLAIMED"
    by (cases a rule: sum.exhaust [case_product acquire_result.exhaust [of "projr a"]])
      (auto, metis IdempotencyStatus.exhaust)
  then show ?thesis
  proof cases
    case raise
    then show ?thesis using assms a fa by (auto simp: create_def fine_def simp flip: fp_def)
  next
    case wait
    then show ?thesis using assms a fa by (auto simp: create_def fine_def simp flip: fp_def)
  next
    case conflict
    then show ?thesis using assms a fa own(4) by (auto simp: create_def fine_def simp flip: fp_def)
  next
    case (completed dd)
    define st3 where "st3 = (emit (Inc ''idempotency_hits_total'' []) (fst st2), snd st2)"
    define g where "g = (case dec_payment_id dd of None \<Rightarrow> (Inr None, st3) | Some pid \<Rightarrow> on_backend (be_get be pid) st3)"
    have c3: "same_config (fst st) (fst st3)"
      using same_config_trans [OF fine_same [OF fa], of "fst st3"] by (simp add: st3_def same_config_def)
    have "fine st3 g" using store_raises(1) by (auto simp: g_def split: option.splits intro!: fine_backend)
    then have fg: "fine st g" by (rule fine_trans [OF c3])
    have "create sha ops be d st = (case fst g of
        Inl e \<Rightarrow> (Some (Inl e), snd g)
      | Inr None \<Rightarrow> (Some (Inl (IdempotencyUnavailable ''Idempotency result is missing its authoritative payment'')), snd g)
      | Inr (Some existing) \<Rightarrow> (Some (Inr existing), snd g))"
      using a completed by (simp add: create_def Let_def case_prod_beta st3_def g_def flip: fp_def split: sum.splits option.splits)
    then show ?thesis using assms fg own(5) by (auto simp: fine_def split: sum.splits option.splits)
  next
    case (claimed dd)
    obtain q c st3 where cc: "create_claimed ops be d fp st2 = ((q, c), st3)" by (metis prod.collapse)
    have f3: "fine st (q, st3)" by (rule fine_trans [OF fine_same [OF fa] create_claimed_fine [OF cc]])
    obtain x st4 where x: "on_backend (be_abort be (inp_merchant_id d) (inp_idempotency_key d) fp) st3 = (x, st4)"
      by (metis prod.collapse)
    have fx: "fine st (x, st4)"
      using fine_trans [OF fine_same [OF f3] fine_backend [of "be_abort be (inp_merchant_id d) (inp_idempotency_key d) fp" st3]]
        claim_raises(3) x by auto
    have "create sha ops be d st = (if c then (case x of
          Inl e \<Rightarrow> if is_Exception e then (Some q, st4) else (Some (Inl e), st4) | Inr _ \<Rightarrow> (Some q, st4))
        else (Some q, st3))"
      using a claimed cc x by (simp add: create_def Let_def flip: fp_def split: sum.splits)
    then show ?thesis using assms f3 fx by (auto simp: fine_def split: if_splits sum.splits)
  qed
qed

end

context service_frame
begin

lemma refund_fine: "fine st (refund ops be i amount st)"
proof -
  define st0 where "st0 = ((fst st)\<lparr>svc_refund_locks := insert (str_uuid i) (svc_refund_locks (fst st))\<rparr>, snd st)"
  have c0: "same_config (fst st) (fst st0)" by (auto simp: st0_def same_config_def)
  have called: "fine (s, w) (let (r, w1) = op_refund_payment ops p u n w in (r, (s, w1)))" for s w p u n
    using provider_raises(2) by (auto simp: case_prod_beta fine_def)
  have body: "fine (s, w) (then_do (let (r, w1) = op_refund_payment ops p u n w in (r, (s, w1)))
      (\<lambda>result (s1, w1). let (rf, w2) = new_Refund pid n (Some (res_reference result)) w1; paid = f rf; (ev, w3) = g paid w2
         in then_do (save_payment be paid [ev] (s1, w3)) (\<lambda>_ st2. (Inr rf, st2))))" for s w p u n pid f g
  proof (rule fine_then [OF called])
    fix result and st1 :: "'b svc"
    obtain s1 w1 where st1: "st1 = (s1, w1)" by (cases st1)
    define rf where "rf = new_Refund pid n (Some (res_reference result)) w1"
    define ev where "ev = g (f (fst rf)) (snd rf)"
    have "fine (s1, snd ev) (then_do (save_payment be (f (fst rf)) [fst ev] (s1, snd ev)) (\<lambda>_ st2. (Inr (fst rf), st2)))"
      by (intro fine_then save_payment_fine) auto
    then show "fine st1 (case st1 of (s1, w1) \<Rightarrow>
        let (rf, w2) = new_Refund pid n (Some (res_reference result)) w1; paid = f rf; (ev, w3) = g paid w2
        in then_do (save_payment be paid [ev] (s1, w3)) (\<lambda>_ st2. (Inr rf, st2)))"
      using fine_trans [of "(s1, w1)" "(s1, snd ev)"] by (simp add: st1 Let_def case_prod_beta flip: rf_def) (simp flip: ev_def)
  qed
  have "fine st0 (refund ops be i amount st)"
    unfolding refund_def st0_def [symmetric]
    using own(6) body store_raises(1)
    by (intro fine_then fine_backend) (auto simp: Let_def split: option.splits intro!: fine_raise)
  then show ?thesis by (rule fine_trans [OF c0])
qed

end

subsection \<open>Every collaborator, and the in-memory ones\<close>

interpretation every: service_frame ops be "\<lambda>_. True" for ops be
  by unfold_locales simp_all

text \<open>The exceptions for which the application registers a handler, leaving out those of the limiter.\<close>

fun service_error :: "exn \<Rightarrow> bool" where
  "service_error (ProviderError _ _) = True"
| "service_error (IdempotencyConflict _) = True"
| "service_error (IdempotencyUnavailable _) = True"
| "service_error (RefundError _ _) = True"
| "service_error (LookupError _) = True"
| "service_error (KeyError _) = True"
| "service_error _ = False"

lemma memory_claim_errors:
  "fst (acquire m k fp c) = Inl e \<Longrightarrow> service_error e"
  "fst (complete m k fp i c) = Inl e \<Longrightarrow> service_error e"
  "fst (abort m k fp c) = Inl e \<Longrightarrow> service_error e"
  by (auto simp: acquire_def complete_def abort_def set_event_def Let_def split: option.splits if_splits)

interpretation memory_mock: service_frame mock_ops "memory_ops sep" service_error for sep
proof unfold_locales
  fix p i a cur t w e
  show "fst (op_create_payment mock_ops p i a cur t w) = Inl e \<Longrightarrow> service_error e"
    using mock_error_codes [of p i a cur t w e] by (cases e) (auto simp: mock_ops_def prod_eq_iff)
qed (auto simp: mock_ops_def mock_refund_payment_def mock_health_check_def case_prod_beta memory_ops_def Let_def
    dest: memory_claim_errors)

end
