(* ===== verification/Refunds.thy ===== *)
theory Refunds
  imports Service_Frame
begin

text \<open>
  Concurrent refunds. The method \<open>refund\<close> waits for the lock of its payment, reads the
  payment, checks the amount and then waits for the provider; other refunds and creations
  run in the meantime. The method is split at its call of the provider, and tasks that are
  before, between and after the two halves are the states of a step relation. The lock is
  what makes every interleaving behave like refunds that run one after the other.
\<close>

subsection \<open>The two halves of a refund\<close>

definition refund_begin ::
  "'b backend_ops \<Rightarrow> uuid \<Rightarrow> int option \<Rightarrow> 'b svc \<Rightarrow> (Payment \<times> provider \<times> int) res \<times> 'b svc" where
  "refund_begin be payment_id amount st =
     then_do (on_backend (be_get be payment_id)
                ((fst st)\<lparr>svc_refund_locks := insert (str_uuid payment_id) (svc_refund_locks (fst st))\<rparr>, snd st))
       (\<lambda>found (s, w).
          case found of
            None \<Rightarrow> (Inl (RefundError ''VALIDATION_ERROR'' ''Payment not found''), (s, w))
          | Some payment \<Rightarrow>
              if pay_status payment \<noteq> SUCCEEDED \<and> pay_status payment \<noteq> REFUNDED
              then (Inl (RefundError ''VALIDATION_ERROR'' ''Only a successful payment can be refunded''), (s, w))
              else let remaining = pay_amount payment - pay_refunded_amount payment;
                       refund_amount = (case amount of None \<Rightarrow> remaining | Some a \<Rightarrow> a)
                   in if refund_amount \<le> 0 \<or> refund_amount > remaining
                      then (Inl (RefundError ''VALIDATION_ERROR'' ''Refund amount exceeds the remaining refundable amount''), (s, w))
                      else (case find (\<lambda>p. Some (prv_name p) = pay_provider payment) (svc_providers s) of
                              None \<Rightarrow> (Inl (RefundError ''PROVIDER_UNAVAILABLE'' ''Original payment provider is unavailable''), (s, w))
                            | Some p \<Rightarrow> (Inr (payment, p, refund_amount), (s, w))))"

definition refund_finish ::
  "provider_ops \<Rightarrow> 'b backend_ops \<Rightarrow> Payment \<Rightarrow> provider \<Rightarrow> int \<Rightarrow> 'b svc \<Rightarrow> Refund res \<times> 'b svc" where
  "refund_finish ops be payment p refund_amount st =
     then_do (let (r, w1) = op_refund_payment ops p (str_uuid (pay_id payment)) refund_amount (snd st)
              in (r, (fst st, w1)))
       (\<lambda>result (s1, w1).
          let (rf, w2) = new_Refund (pay_id payment) refund_amount (Some (res_reference result)) w1;
              paid_back = pay_refunded_amount payment + refund_amount;
              payment1 = payment\<lparr>pay_refunded_amount := paid_back,
                                 pay_refunds := pay_refunds payment @ [rf],
                                 pay_status := (if paid_back = pay_amount payment then REFUNDED
                                                else pay_status payment)\<rparr>;
              (ev, w3) = payment_event payment1 PAYMENT_REFUNDED None w2
          in then_do (save_payment be payment1 [ev] (s1, w3)) (\<lambda>_ st2. (Inr rf, st2)))"

lemma refund_split:
  "refund ops be i amount st = then_do (refund_begin be i amount st) (\<lambda>(payment, p, n) st1. refund_finish ops be payment p n st1)"
proof -
  obtain r s w where g: "on_backend (be_get be i)
      ((fst st)\<lparr>svc_refund_locks := insert (str_uuid i) (svc_refund_locks (fst st))\<rparr>, snd st) = (r, s, w)"
    by (metis prod_cases3)
  show ?thesis
    by (cases r) (auto simp: refund_def refund_begin_def refund_finish_def g Let_def split: option.splits)
qed

text \<open>The lock table with an entry for the payment: the dictionary entry \<open>setdefault\<close> makes.\<close>

definition with_lock :: "uuid \<Rightarrow> 'b PaymentService \<Rightarrow> 'b PaymentService" where
  "with_lock i s = s\<lparr>svc_refund_locks := insert (str_uuid i) (svc_refund_locks s)\<rparr>"

lemma refund_begin_memory:
  "refund_begin (memory_ops sep) i amount (s, w) =
     (case get i (mbk_store (svc_backend s)) of
        None \<Rightarrow> (Inl (RefundError ''VALIDATION_ERROR'' ''Payment not found''), (with_lock i s, w))
      | Some p \<Rightarrow> (case refundable (svc_providers s) p amount of
                     Inl e \<Rightarrow> (Inl e, (with_lock i s, w))
                   | Inr (q, n) \<Rightarrow> (Inr (p, q, n), (with_lock i s, w))))"
  by (auto simp: refund_begin_def on_backend_def refundable_def with_lock_def Let_def split: option.splits)

lemma with_lock_held: "str_uuid i \<in> svc_refund_locks s \<Longrightarrow> with_lock i s = s"
  by (simp add: with_lock_def insert_absorb)

lemma with_lock_fields [simp]:
  "svc_backend (with_lock i s) = svc_backend s" "svc_providers (with_lock i s) = svc_providers s"
  "svc_refund_locks (with_lock i s) = insert (str_uuid i) (svc_refund_locks s)"
  by (simp_all add: with_lock_def)

subsection \<open>Tasks and their steps\<close>

text \<open>
  A task waits for the lock of its payment, or holds it with what the first half found while
  its provider is called, or has been answered. \<open>ptl_held\<close> are the payments whose lock is taken.
\<close>

datatype phase =
    Waiting uuid "int option"
  | Holding uuid "int option" Payment provider int
  | Answered "Refund res"

record portal =
  ptl_service :: "memory_backend PaymentService"
  ptl_world :: world
  ptl_held :: "uuid set"
  ptl_tasks :: "nat \<rightharpoonup> phase"

definition set_service :: "memory_backend svc \<Rightarrow> portal \<Rightarrow> portal" where
  "set_service st y = y\<lparr>ptl_service := fst st, ptl_world := snd st\<rparr>"

definition set_task :: "nat \<Rightarrow> phase \<Rightarrow> portal \<Rightarrow> portal" where
  "set_task t ph y = y\<lparr>ptl_tasks := (ptl_tasks y)(t \<mapsto> ph)\<rparr>"

inductive portal_step :: "(string \<Rightarrow> string) \<Rightarrow> provider_ops \<Rightarrow> bool \<Rightarrow> portal \<Rightarrow> portal \<Rightarrow> bool"
  for sha ops sep where
  requested: "ptl_tasks y t = None \<Longrightarrow> portal_step sha ops sep y (set_task t (Waiting i amount) y)"
| refused: "ptl_tasks y t = Some (Waiting i amount) \<Longrightarrow> i \<notin> ptl_held y \<Longrightarrow>
    refund_begin (memory_ops sep) i amount (ptl_service y, ptl_world y) = (Inl e, st) \<Longrightarrow>
    portal_step sha ops sep y (set_task t (Answered (Inl e)) (set_service st y))"
| entered: "ptl_tasks y t = Some (Waiting i amount) \<Longrightarrow> i \<notin> ptl_held y \<Longrightarrow>
    refund_begin (memory_ops sep) i amount (ptl_service y, ptl_world y) = (Inr (p, q, n), st) \<Longrightarrow>
    portal_step sha ops sep y
      ((set_task t (Holding i amount p q n) (set_service st y))\<lparr>ptl_held := insert i (ptl_held y)\<rparr>)"
| finished: "ptl_tasks y t = Some (Holding i amount p q n) \<Longrightarrow>
    refund_finish ops (memory_ops sep) p q n (ptl_service y, ptl_world y) = (r, st) \<Longrightarrow>
    portal_step sha ops sep y ((set_task t (Answered r) (set_service st y))\<lparr>ptl_held := ptl_held y - {i}\<rparr>)"
| created: "create sha ops (memory_ops sep) data (ptl_service y, ptl_world y) = (Some r, st) \<Longrightarrow>
    portal_step sha ops sep y (set_service st y)"

inductive portal_run :: "(string \<Rightarrow> string) \<Rightarrow> provider_ops \<Rightarrow> bool \<Rightarrow> portal \<Rightarrow> portal \<Rightarrow> bool"
  for sha ops sep y0 where
  start: "portal_run sha ops sep y0 y0"
| more: "portal_run sha ops sep y0 y \<Longrightarrow> portal_step sha ops sep y z \<Longrightarrow> portal_run sha ops sep y0 z"

inductive_cases portal_stepE: "portal_step sha ops sep y z"

lemma portal_fields [simp]:
  "ptl_service (set_task t ph y) = ptl_service y" "ptl_world (set_task t ph y) = ptl_world y"
  "ptl_held (set_task t ph y) = ptl_held y" "ptl_tasks (set_task t ph y) = (ptl_tasks y)(t \<mapsto> ph)"
  "ptl_service (set_service st y) = fst st" "ptl_world (set_service st y) = snd st"
  "ptl_held (set_service st y) = ptl_held y" "ptl_tasks (set_service st y) = ptl_tasks y"
  by (simp_all add: set_task_def set_service_def)

subsection \<open>The lock keeps its payment\<close>

text \<open>
  A holder has its lock alone, and what it read is still what the store has, so that its
  checks still hold when the provider answers.
\<close>

definition still_valid :: "portal \<Rightarrow> uuid \<Rightarrow> int option \<Rightarrow> Payment \<Rightarrow> provider \<Rightarrow> int \<Rightarrow> bool" where
  "still_valid y i amount p q n \<longleftrightarrow>
     i \<in> ptl_held y \<and> str_uuid i \<in> svc_refund_locks (ptl_service y) \<and>
     get i (mbk_store (svc_backend (ptl_service y))) = Some p \<and>
     refundable (svc_providers (ptl_service y)) p amount = Inr (q, n)"

definition holds :: "portal \<Rightarrow> nat \<Rightarrow> uuid \<Rightarrow> bool" where
  "holds y t i \<longleftrightarrow> (\<exists>amount p q n. ptl_tasks y t = Some (Holding i amount p q n))"

definition portal_inv :: "portal \<Rightarrow> bool" where
  "portal_inv y \<longleftrightarrow>
     service_inv (svc_backend (ptl_service y)) (ptl_world y) \<and>
     (\<forall>t i amount p q n. ptl_tasks y t = Some (Holding i amount p q n) \<longrightarrow> still_valid y i amount p q n) \<and>
     (\<forall>t t' i. holds y t i \<longrightarrow> holds y t' i \<longrightarrow> t = t') \<and> (\<forall>i\<in>ptl_held y. \<exists>t. holds y t i)"

lemma portal_invD:
  assumes "portal_inv y"
  shows "service_inv (svc_backend (ptl_service y)) (ptl_world y)"
    "ptl_tasks y t = Some (Holding i amount p q n) \<Longrightarrow> still_valid y i amount p q n"
    "holds y t i \<Longrightarrow> holds y t' i \<Longrightarrow> t = t'" "i \<in> ptl_held y \<Longrightarrow> \<exists>t. holds y t i"
  using assms unfolding portal_inv_def by blast+

lemma finish_is_refund:
  assumes "still_valid y i amount p q n"
  shows "refund ops (memory_ops sep) i amount (ptl_service y, ptl_world y) =
    refund_finish ops (memory_ops sep) p q n (ptl_service y, ptl_world y)"
  using assms by (simp add: still_valid_def refund_split refund_begin_memory with_lock_held)

text \<open>A creation leaves every recorded payment alone.\<close>

lemma created_keeps:
  assumes "service_inv b w" "service_inv b' w'" "spec_create data fp (ledger b) r (ledger b')" "get i (mbk_store b) = Some p"
  shows "get i (mbk_store b') = Some p"
proof -
  have st: "store_inv (mbk_store b)" "store_inv (mbk_store b')"
    using assms(1,2) by (auto simp: service_inv_def stores_ok_def)
  have p: "pay_id p = i" "ledger b (key_of p) = Some p"
    using in_memory.gt_id [OF st(1), of i p] assms(4) by (auto simp: ledger_def key_of_def)
  have "ledger b' (key_of p) = Some p" using assms(3) p(2) by (auto simp: spec_create_simps)
  then show ?thesis using in_memory.gk_key [OF st(2), of "fst (key_of p)" "snd (key_of p)" p] p(1) by (auto simp: ledger_def)
qed

text \<open>A holder other than those of \<open>i\<close> is not disturbed by a change of \<open>i\<close>.\<close>

lemma still_valid_step:
  assumes "still_valid y j amount p q n" "same_config (ptl_service y) (ptl_service z)" "j \<in> ptl_held z"
    and "get j (mbk_store (svc_backend (ptl_service z))) = get j (mbk_store (svc_backend (ptl_service y)))"
  shows "still_valid z j amount p q n"
  using assms by (auto simp: still_valid_def same_config_def)

lemma with_lock_config [simp]: "same_config s (with_lock i s)"
  by (auto simp: same_config_def with_lock_def)

lemma refund_begin_state:
  "refund_begin (memory_ops sep) i amount (s, w) = (r, st) \<Longrightarrow> st = (with_lock i s, w)"
  by (auto simp: refund_begin_memory split: option.splits sum.splits)

lemma portal_inv_other:
  assumes inv: "portal_inv y"
    and tasks: "\<And>t i a p q n. ptl_tasks z t = Some (Holding i a p q n) \<longleftrightarrow> ptl_tasks y t = Some (Holding i a p q n)"
    and held: "ptl_held z = ptl_held y" and cfg: "same_config (ptl_service y) (ptl_service z)"
    and svc: "service_inv (svc_backend (ptl_service z)) (ptl_world z)"
    and keep: "\<And>i p. get i (mbk_store (svc_backend (ptl_service y))) = Some p \<Longrightarrow> get i (mbk_store (svc_backend (ptl_service z))) = Some p"
  shows "portal_inv z"
proof -
  have h: "holds z t i \<longleftrightarrow> holds y t i" for t i by (simp add: holds_def tasks)
  have "still_valid z i a p q n" if "ptl_tasks z t = Some (Holding i a p q n)" for t i a p q n
  proof -
    have v: "still_valid y i a p q n" using portal_invD(2) [OF inv] that by (simp add: tasks)
    then show ?thesis using keep [of i p] by (intro still_valid_step [OF v cfg]) (simp_all add: held still_valid_def)
  qed
  then show ?thesis unfolding portal_inv_def h held using svc portal_invD(3,4) [OF inv] by blast
qed

lemma entered_inv:
  assumes inv: "portal_inv y" and t: "ptl_tasks y t = Some (Waiting i amount)" "i \<notin> ptl_held y"
    and b: "refund_begin (memory_ops sep) i amount (ptl_service y, ptl_world y) = (Inr (p, q, n), st)"
  shows "portal_inv ((set_task t (Holding i amount p q n) (set_service st y))\<lparr>ptl_held := insert i (ptl_held y)\<rparr>)" (is "portal_inv ?z")
proof -
  have st: "st = (with_lock i (ptl_service y), ptl_world y)" by (rule refund_begin_state [OF b])
  have pq: "get i (mbk_store (svc_backend (ptl_service y))) = Some p" "refundable (svc_providers (ptl_service y)) p amount = Inr (q, n)"
    using b by (auto simp: refund_begin_memory split: option.splits sum.splits)
  have old: "still_valid ?z j a p' q' n'" if "ptl_tasks y t' = Some (Holding j a p' q' n')" for t' j a p' q' n'
    by (rule still_valid_step [OF portal_invD(2) [OF inv that]])
      (use portal_invD(2) [OF inv that] in \<open>simp_all add: st still_valid_def\<close>)
  have new: "still_valid ?z i amount p q n" using pq by (simp add: still_valid_def st)
  have h: "holds ?z t' j \<longleftrightarrow> (if t' = t then j = i else holds y t' j)" for t' j by (auto simp: holds_def)
  have free: "\<not> holds y t' i" for t' using portal_invD(2) [OF inv] t(2) by (auto simp: holds_def still_valid_def)
  have "service_inv (svc_backend (ptl_service ?z)) (ptl_world ?z)" using portal_invD(1) [OF inv] by (simp add: st)
  moreover have "\<forall>t' j a p' q' n'. ptl_tasks ?z t' = Some (Holding j a p' q' n') \<longrightarrow> still_valid ?z j a p' q' n'"
    using old new by (auto split: if_splits)
  moreover have "\<forall>t1 t2 j. holds ?z t1 j \<longrightarrow> holds ?z t2 j \<longrightarrow> t1 = t2"
    using portal_invD(3) [OF inv] free by (auto simp: h split: if_splits)
  moreover have "\<forall>j\<in>ptl_held ?z. \<exists>t'. holds ?z t' j"
  proof
    fix j assume j: "j \<in> ptl_held ?z"
    show "\<exists>t'. holds ?z t' j"
    proof (cases "j = i")
      case True
      then show ?thesis by (intro exI [of _ t]) (simp add: h)
    next
      case False
      then obtain t' where t': "holds y t' j" using portal_invD(4) [OF inv, of j] j by auto
      then have "t' \<noteq> t" using t(1) by (auto simp: holds_def)
      then show ?thesis using t' by (intro exI [of _ t']) (simp add: h)
    qed
  qed
  ultimately show ?thesis unfolding portal_inv_def by blast
qed

lemma finished_inv:
  assumes P: "payment_provider ops" and inv: "portal_inv y" and t: "ptl_tasks y t = Some (Holding i amount p q n)"
    and f: "refund_finish ops (memory_ops sep) p q n (ptl_service y, ptl_world y) = (r, st)"
  shows "portal_inv ((set_task t (Answered r) (set_service st y))\<lparr>ptl_held := ptl_held y - {i}\<rparr>)" (is "portal_inv ?z")
proof -
  note v = portal_invD(2) [OF inv t]
  obtain s' w' where st: "st = (s', w')" by (cases st)
  have rf: "refund ops (memory_ops sep) i amount (ptl_service y, ptl_world y) = (r, s', w')"
    using finish_is_refund [OF v, of ops sep] f st by simp
  note eff = refund_effect [OF P portal_invD(1) [OF inv] rf]
  have cfg: "same_config (ptl_service y) s'"
    using every.refund_fine [of "(ptl_service y, ptl_world y)" ops "memory_ops sep" i amount] rf by (simp add: every.fine_def)
  have keep: "get j (mbk_store (svc_backend s')) = get j (mbk_store (svc_backend (ptl_service y)))" if "j \<noteq> i" for j
    using eff that by (cases r) (auto simp: refund_post_def)
  have h: "holds ?z t' j \<longleftrightarrow> t' \<noteq> t \<and> holds y t' j" for t' j by (auto simp: holds_def)
  have ti: "holds y t i" using t by (auto simp: holds_def)
  have "still_valid ?z j a p' q' n'" if "ptl_tasks ?z t' = Some (Holding j a p' q' n')" for t' j a p' q' n'
  proof -
    have o: "ptl_tasks y t' = Some (Holding j a p' q' n')" "t' \<noteq> t" using that by (auto split: if_splits)
    have "holds y t' j" using o(1) by (auto simp: holds_def)
    then have ji: "j \<noteq> i" using portal_invD(3) [OF inv ti] o(2) by blast
    note v' = portal_invD(2) [OF inv o(1)]
    show ?thesis by (rule still_valid_step [OF v']) (use v' ji cfg keep in \<open>auto simp: st still_valid_def\<close>)
  qed
  moreover have "service_inv (svc_backend (ptl_service ?z)) (ptl_world ?z)" using eff by (simp add: st)
  moreover have "\<forall>t1 t2 j. holds ?z t1 j \<longrightarrow> holds ?z t2 j \<longrightarrow> t1 = t2"
    unfolding h using portal_invD(3) [OF inv] by blast
  moreover have "\<forall>j\<in>ptl_held ?z. \<exists>t'. holds ?z t' j"
  proof
    fix j assume j: "j \<in> ptl_held ?z"
    then obtain t' where "holds y t' j" using portal_invD(4) [OF inv, of j] by auto
    moreover have "t' \<noteq> t" using calculation j t by (auto simp: holds_def)
    ultimately show "\<exists>t'. holds ?z t' j" unfolding h by blast
  qed
  ultimately show ?thesis unfolding portal_inv_def by blast
qed

lemma created_inv:
  assumes P: "payment_provider ops" and inv: "portal_inv y"
    and c: "create sha ops (memory_ops sep) data (ptl_service y, ptl_world y) = (Some r, st)"
  shows "portal_inv (set_service st y)"
proof -
  obtain s' w' where st: "st = (s', w')" by (cases st)
  have post: "service_inv (svc_backend s') w'" "spec_create data (request_fingerprint sha data) (ledger (svc_backend (ptl_service y))) r (ledger (svc_backend s'))"
    using create_memory [OF P portal_invD(1) [OF inv], of sha sep data] c by (auto simp: create_post_def st)
  have cfg: "same_config (ptl_service y) s'" using every.create_fine [OF c] by (simp add: st)
  show ?thesis
    by (rule portal_inv_other [OF inv]) (use post cfg created_keeps [OF portal_invD(1) [OF inv] post] in \<open>simp_all add: st\<close>)
qed

lemma portal_step_inv:
  assumes P: "payment_provider ops" and inv: "portal_inv y" and step: "portal_step sha ops sep y z"
  shows "portal_inv z"
  using step
proof cases
  case (requested t i amount)
  show ?thesis unfolding requested
    by (rule portal_inv_other [OF inv]) (use requested portal_invD(1) [OF inv] in auto)
next
  case (refused t i amount e st)
  have st: "st = (with_lock i (ptl_service y), ptl_world y)" by (rule refund_begin_state [OF refused(4)])
  show ?thesis unfolding refused(1) st
    by (rule portal_inv_other [OF inv]) (use refused portal_invD(1) [OF inv] in auto)
next
  case (entered t i amount p q n st)
  show ?thesis unfolding entered(1) by (rule entered_inv [OF inv entered(2-4)])
next
  case (finished t i amount p q n r st)
  show ?thesis unfolding finished(1) by (rule finished_inv [OF P inv finished(2,3)])
next
  case (created data r st)
  show ?thesis unfolding created(1) by (rule created_inv [OF P inv created(2)])
qed

lemma portal_run_inv:
  assumes "payment_provider ops"
  shows "portal_run sha ops sep y0 y \<Longrightarrow> portal_inv y0 \<Longrightarrow> portal_inv y"
  by (induction rule: portal_run.induct) (simp_all add: portal_step_inv [OF assms])

subsection \<open>The properties\<close>

definition fresh_portal :: "memory_backend PaymentService \<Rightarrow> world \<Rightarrow> portal" where
  "fresh_portal s w = \<lparr>ptl_service = s, ptl_world = w, ptl_held = {}, ptl_tasks = Map.empty\<rparr>"

lemma fresh_inv: "service_inv (svc_backend s) w \<Longrightarrow> portal_inv (fresh_portal s w)"
  by (simp add: portal_inv_def fresh_portal_def holds_def)

definition task_answered :: "portal \<Rightarrow> nat \<Rightarrow> bool" where
  "task_answered y t \<longleftrightarrow> (\<exists>r. ptl_tasks y t = Some (Answered r))"

definition request_of :: "phase \<Rightarrow> (uuid \<times> int option) option" where
  "request_of ph = (case ph of Waiting i a \<Rightarrow> Some (i, a) | Holding i a p q n \<Rightarrow> Some (i, a) | Answered r \<Rightarrow> None)"

lemma answer_is_atomic:
  assumes "portal_inv y" "portal_step sha ops sep y z" "\<not> task_answered y t" "ptl_tasks z t = Some (Answered r)"
  shows "\<exists>ph i amount. ptl_tasks y t = Some ph \<and> request_of ph = Some (i, amount) \<and>
    refund ops (memory_ops sep) i amount (ptl_service y, ptl_world y) = (r, ptl_service z, ptl_world z)"
  using assms(2)
proof cases
  case (requested t' i amount)
  then show ?thesis using assms(3,4) by (auto simp: task_answered_def split: if_splits)
next
  case (refused t' i amount e st)
  then have t: "t' = t" "r = Inl e" using assms(3,4) by (auto simp: task_answered_def split: if_splits)
  have "refund ops (memory_ops sep) i amount (ptl_service y, ptl_world y) = (Inl e, st)"
    using refused(4) by (simp add: refund_split)
  then show ?thesis using refused t by (simp add: request_of_def)
next
  case (entered t' i amount p q n st)
  then show ?thesis using assms(3,4) by (auto simp: task_answered_def split: if_splits)
next
  case (finished t' i amount p q n r' st)
  then have t: "t' = t" "r' = r" using assms(3,4) by (auto simp: task_answered_def split: if_splits)
  have "refund ops (memory_ops sep) i amount (ptl_service y, ptl_world y) = (r, st)"
    using finish_is_refund [OF portal_invD(2) [OF assms(1) finished(2)], of ops sep] finished(3) t by simp
  then show ?thesis using finished t by (simp add: request_of_def)
next
  case (created data r' st)
  then show ?thesis using assms(3,4) by (auto simp: task_answered_def)
qed

text \<open>
  C11. Concurrent refunds behave as if each ran alone: in every interleaving of refunds and
  creations on a consistent service, whatever the providers do, the step that answers a
  refund has exactly the result and the effect that the whole method \<open>refund\<close> would have if
  it ran without interruption in the state before that step. (The order of the answers is
  the order of the equivalent sequential run.)
\<close>

theorem refunds_linearizable:
  assumes "payment_provider ops" "service_inv (svc_backend s) w"
    and "portal_run sha ops sep (fresh_portal s w) y" "portal_step sha ops sep y z"
    and "\<not> task_answered y t" "ptl_tasks z t = Some (Answered r)"
  shows "\<exists>ph i amount. ptl_tasks y t = Some ph \<and> request_of ph = Some (i, amount) \<and>
    refund ops (memory_ops sep) i amount (ptl_service y, ptl_world y) = (r, ptl_service z, ptl_world z)"
  by (rule answer_is_atomic [OF portal_run_inv [OF assms(1,3) fresh_inv [OF assms(2)]] assms(4-6)])

text \<open>
  C12. No interleaving refunds too much: in every reachable state the refunds of each
  payment are positive, add up to its refunded amount and never exceed its amount, also
  while further refunds of it are under way; and a refund that is under way still fits.
\<close>

theorem refunds_never_exceed:
  assumes "payment_provider ops" "service_inv (svc_backend s) w" "portal_run sha ops sep (fresh_portal s w) y"
  shows "(\<forall>i p. get i (mbk_store (svc_backend (ptl_service y))) = Some p \<longrightarrow>
      pay_refunded_amount p = sum_list (map rfd_amount (pay_refunds p)) \<and> (\<forall>r\<in>set (pay_refunds p). 0 < rfd_amount r) \<and>
      (pay_refunds p \<noteq> [] \<longrightarrow> pay_refunded_amount p \<le> pay_amount p)) \<and>
    (\<forall>t i amount p q n. ptl_tasks y t = Some (Holding i amount p q n) \<longrightarrow>
      get i (mbk_store (svc_backend (ptl_service y))) = Some p \<and> 0 < n \<and> pay_refunded_amount p + n \<le> pay_amount p)"
proof -
  have inv: "portal_inv y" by (rule portal_run_inv [OF assms(1,3) fresh_inv [OF assms(2)]])
  have "ledger_ok p" if "get i (mbk_store (svc_backend (ptl_service y))) = Some p" for i p
    using portal_invD(1) [OF inv] that by (auto simp: service_inv_def payments_ok_def)
  moreover have "get i (mbk_store (svc_backend (ptl_service y))) = Some p \<and> 0 < n \<and> pay_refunded_amount p + n \<le> pay_amount p"
    if "ptl_tasks y t = Some (Holding i amount p q n)" for t i amount p q n
    using portal_invD(2) [OF inv that] by (auto simp: still_valid_def refundable_def Let_def split: if_splits option.splits)
  ultimately show ?thesis unfolding ledger_ok_def by blast
qed

lemma portal_run_trans: "portal_run sha ops sep y z \<Longrightarrow> portal_run sha ops sep x y \<Longrightarrow> portal_run sha ops sep x z"
  by (induction rule: portal_run.induct) (auto intro: portal_run.intros)

lemma holder_answers:
  assumes "ptl_tasks y t = Some (Holding i amount p q n)"
  obtains z where "portal_step sha ops sep y z" "task_answered z t" "ptl_held z = ptl_held y - {i}"
    "\<And>t'. t' \<noteq> t \<Longrightarrow> ptl_tasks z t' = ptl_tasks y t'"
proof -
  obtain r st where f: "refund_finish ops (memory_ops sep) p q n (ptl_service y, ptl_world y) = (r, st)" by (metis prod.collapse)
  show thesis by (rule that [OF portal_step.finished [OF assms f]]) (simp_all add: task_answered_def)
qed

lemma free_waiter_answers:
  assumes t: "ptl_tasks y t = Some (Waiting i amount)" "i \<notin> ptl_held y"
  shows "\<exists>z. portal_run sha ops sep y z \<and> task_answered z t"
proof -
  obtain x st where b: "refund_begin (memory_ops sep) i amount (ptl_service y, ptl_world y) = (x, st)" by (metis prod.collapse)
  show ?thesis
  proof (cases x)
    case (Inl e)
    have "portal_step sha ops sep y (set_task t (Answered (Inl e)) (set_service st y))"
      by (rule portal_step.refused [OF t]) (use b Inl in simp)
    then show ?thesis
      by (intro exI [of _ "set_task t (Answered (Inl e)) (set_service st y)"])
        (auto simp: task_answered_def intro: portal_run.intros)
  next
    case (Inr v)
    obtain p q n where v: "v = (p, q, n)" by (metis prod_cases3)
    let ?y = "(set_task t (Holding i amount p q n) (set_service st y))\<lparr>ptl_held := insert i (ptl_held y)\<rparr>"
    have s1: "portal_step sha ops sep y ?y" by (rule portal_step.entered [OF t]) (use b Inr v in simp)
    have "ptl_tasks ?y t = Some (Holding i amount p q n)" by simp
    then obtain z where "portal_step sha ops sep ?y z" "task_answered z t" by (rule holder_answers)
    then show ?thesis using s1 by (meson portal_run.intros)
  qed
qed

text \<open>
  C13. Concurrent refunds do not deadlock: in every reachable state, each refund that was
  requested and not answered can still be answered, if need be after the one that holds
  the lock of its payment.
\<close>

theorem refunds_progress:
  assumes "payment_provider ops" "service_inv (svc_backend s) w" "portal_run sha ops sep (fresh_portal s w) y"
    and "ptl_tasks y t \<noteq> None"
  shows "\<exists>z. portal_run sha ops sep y z \<and> task_answered z t"
proof -
  have inv: "portal_inv y" by (rule portal_run_inv [OF assms(1,3) fresh_inv [OF assms(2)]])
  obtain ph where ph: "ptl_tasks y t = Some ph" using assms(4) by blast
  show ?thesis
  proof (cases ph)
    case (Answered r)
    then show ?thesis using ph by (intro exI [of _ y]) (simp add: task_answered_def portal_run.start)
  next
    case (Holding i amount p q n)
    then obtain z where "portal_step sha ops sep y z" "task_answered z t" using ph holder_answers by metis
    then show ?thesis by (meson portal_run.intros)
  next
    case (Waiting i amount)
    show ?thesis
    proof (cases "i \<in> ptl_held y")
      case False
      then show ?thesis using free_waiter_answers ph Waiting by blast
    next
      case True
      then obtain t' where "holds y t' i" using portal_invD(4) [OF inv] by blast
      then obtain a p q n where h: "ptl_tasks y t' = Some (Holding i a p q n)" by (auto simp: holds_def)
      then obtain z where z: "portal_step sha ops sep y z" "ptl_held z = ptl_held y - {i}"
        "\<And>u. u \<noteq> t' \<Longrightarrow> ptl_tasks z u = ptl_tasks y u" by (rule holder_answers) blast
      have "t \<noteq> t'" using h ph Waiting by auto
      then have "ptl_tasks z t = Some (Waiting i amount)" "i \<notin> ptl_held z" using z ph Waiting by auto
      then obtain z' where "portal_run sha ops sep z z'" "task_answered z' t" using free_waiter_answers by blast
      then show ?thesis using z(1) portal_run_trans [of sha ops sep z z' y] by (meson portal_run.intros)
    qed
  qed
qed

subsection \<open>Evaluations\<close>

text \<open>Two refunds of 60 of the payment of 100 that \<open>paid_service\<close> has; the first one enters, the second one waits.\<close>

lemma paid_refundable: "\<exists>q. refundable (svc_providers paid_service) paid_payment (Some 60) = Inr (q, 60)"
proof -
  have "svc_providers sample_service = fleet"
    by (simp add: sample_service_def new_PaymentService_def new_ProviderRouter_def ROUTING_STRATEGIES_def new_CircuitBreaker_def
        set_provider_concurrency_def Let_def stripe_def adyen_def MockStripeProvider_def MockAdyenProvider_def
        new_MockProvider_def default_ProviderConfig_def)
  then show ?thesis
    by (simp add: refundable_def paid_service_def stripe_def MockStripeProvider_def new_MockProvider_def)
qed

definition two_refunds :: "provider \<Rightarrow> portal" where
  "two_refunds q = set_task 2 (Waiting 0 (Some 60))
     ((set_task 1 (Holding 0 (Some 60) paid_payment q 60) (set_service (with_lock 0 paid_service, later_world)
        (set_task 1 (Waiting 0 (Some 60)) (fresh_portal paid_service later_world))))\<lparr>ptl_held := {0}\<rparr>)"

lemma two_refunds_run:
  obtains q where "portal_run sha ops sep (fresh_portal paid_service later_world) (two_refunds q)"
    "ptl_tasks (two_refunds q) 1 = Some (Holding 0 (Some 60) paid_payment q 60)"
    "ptl_tasks (two_refunds q) 2 = Some (Waiting 0 (Some 60))"
proof -
  let ?y0 = "fresh_portal paid_service later_world"
  let ?y1 = "set_task 1 (Waiting 0 (Some 60)) ?y0"
  obtain q where q: "refundable (svc_providers paid_service) paid_payment (Some 60) = Inr (q, 60)" using paid_refundable by blast
  let ?st = "(with_lock 0 paid_service, later_world)"
  let ?y2 = "(set_task 1 (Holding 0 (Some 60) paid_payment q 60) (set_service ?st ?y1))\<lparr>ptl_held := insert 0 (ptl_held ?y1)\<rparr>"
  have b: "refund_begin (memory_ops sep) 0 (Some 60) (ptl_service ?y1, ptl_world ?y1) = (Inr (paid_payment, q, 60), ?st)"
    using q by (simp add: fresh_portal_def refund_begin_memory paid_service_def paid_ledger(2))
  have 1: "portal_step sha ops sep ?y0 ?y1" by (rule portal_step.requested) (simp add: fresh_portal_def)
  have 2: "portal_step sha ops sep ?y1 ?y2" by (rule portal_step.entered [OF _ _ b]) (simp_all add: fresh_portal_def)
  have eq: "two_refunds q = set_task 2 (Waiting 0 (Some 60)) ?y2" by (simp add: two_refunds_def fresh_portal_def)
  have 3: "portal_step sha ops sep ?y2 (two_refunds q)" unfolding eq by (rule portal_step.requested) (simp add: fresh_portal_def)
  have "portal_run sha ops sep ?y0 (two_refunds q)" using 1 2 3 by (blast intro: portal_run.intros)
  then show thesis by (rule that) (simp_all add: eq)
qed

theorem refunds_linearizable_witness:
  "\<exists>y (z :: portal) r. portal_run (\<lambda>t. t) mock_ops False (fresh_portal paid_service later_world) y \<and>
     ptl_tasks y 2 = Some (Waiting 0 (Some 60)) \<and>
     refund mock_ops (memory_ops False) 0 (Some 60) (ptl_service y, ptl_world y) = (r, ptl_service z, ptl_world z) \<and>
     ptl_tasks z 1 = Some (Answered r)"
proof -
  obtain q where q: "portal_run (\<lambda>t. t) mock_ops False (fresh_portal paid_service later_world) (two_refunds q)"
    "ptl_tasks (two_refunds q) 1 = Some (Holding 0 (Some 60) paid_payment q 60)"
    "ptl_tasks (two_refunds q) 2 = Some (Waiting 0 (Some 60))" by (rule two_refunds_run)
  obtain z where z: "portal_step (\<lambda>t. t) mock_ops False (two_refunds q) z" "task_answered z 1" using holder_answers [OF q(2)] by blast
  obtain r where r: "ptl_tasks z 1 = Some (Answered r)" using z(2) by (auto simp: task_answered_def)
  have "\<not> task_answered (two_refunds q) 1" using q(2) by (simp add: task_answered_def)
  from refunds_linearizable [OF mock.payment_provider_axioms paid_inv q(1) z(1) this r] q(2)
  have f: "refund mock_ops (memory_ops False) 0 (Some 60) (ptl_service (two_refunds q), ptl_world (two_refunds q)) =
      (r, ptl_service z, ptl_world z)" by (auto simp: request_of_def)
  show ?thesis
    by (rule exI [of _ "two_refunds q"], rule exI [of _ z], rule exI [of _ r]) (intro conjI q(1,3) f r)
qed

theorem refunds_never_exceed_witness:
  "\<exists>y q. portal_run (\<lambda>t. t) mock_ops False (fresh_portal paid_service later_world) y \<and>
     ptl_tasks y 1 = Some (Holding 0 (Some 60) paid_payment q 60) \<and> pay_refunded_amount paid_payment + 60 \<le> pay_amount paid_payment"
proof -
  obtain q where q: "portal_run (\<lambda>t. t) mock_ops False (fresh_portal paid_service later_world) (two_refunds q)"
    "ptl_tasks (two_refunds q) 1 = Some (Holding 0 (Some 60) paid_payment q 60)" by (rule two_refunds_run)
  then show ?thesis using refunds_never_exceed [OF mock.payment_provider_axioms paid_inv q(1)] by blast
qed

theorem refunds_progress_witness:
  "\<exists>y z. portal_run (\<lambda>t. t) mock_ops False (fresh_portal paid_service later_world) y \<and> ptl_tasks y 2 = Some (Waiting 0 (Some 60)) \<and>
     portal_run (\<lambda>t. t) mock_ops False y z \<and> task_answered z 2"
proof -
  obtain q where q: "portal_run (\<lambda>t. t) mock_ops False (fresh_portal paid_service later_world) (two_refunds q)"
    "ptl_tasks (two_refunds q) 2 = Some (Waiting 0 (Some 60))" by (rule two_refunds_run) blast
  then have "ptl_tasks (two_refunds q) 2 \<noteq> None" by simp
  from refunds_progress [OF mock.payment_provider_axioms paid_inv q(1) this] q show ?thesis by blast
qed

end
