(* ===== verification/Migrations.thy ===== *)
theory Migrations
  imports Sql_Repository Config
begin

text \<open>
  The schema of the database, twice: as the migration creates it
  (\<open>migrations/versions/0001_initial.py\<close>) and as the mapped classes declare it
  (\<open>db/models.py\<close>), both as data. A schema says which rows its tables accept; the migrated
  schema accepts exactly the databases that satisfy the constraints under which the
  repository is proved. \<open>migrations/env.py\<close> contributes the address it connects to.
\<close>

subsection \<open>Schemas\<close>

datatype sql_type = VARCHAR nat | INTEGER | TIMESTAMPTZ | UUID | JSONB

record column =
  col_name :: string
  col_type :: "sql_type option"
  col_primary :: bool
  col_references :: "(string \<times> string) option"
  col_nullable :: bool
  col_server_default :: "string option"

record table =
  tbl_name :: string
  tbl_columns :: "column list"
  tbl_uniques :: "(string \<times> string list) list"

record schema =
  sch_tables :: "table list"
  sch_indexes :: "(string \<times> string \<times> string list) list"

text \<open>
  A column as its constructor makes it, and the options of the constructor. A column with a
  foreign key and no type of its own has the type of the column it references.
\<close>

definition sa_column :: "string \<Rightarrow> sql_type option \<Rightarrow> column" where
  "sa_column name type =
     \<lparr>col_name = name, col_type = type, col_primary = False, col_references = None, col_nullable = True,
      col_server_default = None\<rparr>"

definition primary_key :: "column \<Rightarrow> column" where
  "primary_key c = c\<lparr>col_primary := True, col_nullable := False\<rparr>"

definition not_null :: "column \<Rightarrow> column" where
  "not_null c = c\<lparr>col_nullable := False\<rparr>"

definition foreign_key :: "string \<Rightarrow> string \<Rightarrow> column \<Rightarrow> column" where
  "foreign_key t k c = c\<lparr>col_references := Some (t, k)\<rparr>"

definition server_default :: "string \<Rightarrow> column \<Rightarrow> column" where
  "server_default v c = c\<lparr>col_server_default := Some v\<rparr>"

lemmas column_defs = sa_column_def primary_key_def not_null_def foreign_key_def server_default_def

definition find_table :: "string \<Rightarrow> schema \<Rightarrow> table option" where
  "find_table n s = find (\<lambda>t. tbl_name t = n) (sch_tables s)"

definition find_column :: "string \<Rightarrow> table \<Rightarrow> column option" where
  "find_column n t = find (\<lambda>c. col_name c = n) (tbl_columns t)"

definition resolve_column :: "schema \<Rightarrow> column \<Rightarrow> column" where
  "resolve_column s c =
     (case (col_type c, col_references c) of
        (None, Some (t, k)) \<Rightarrow>
          c\<lparr>col_type := Option.bind (Option.bind (find_table t s) (find_column k)) col_type\<rparr>
      | _ \<Rightarrow> c)"

definition resolve :: "schema \<Rightarrow> schema" where
  "resolve s = s\<lparr>sch_tables := map (\<lambda>t. t\<lparr>tbl_columns := map (resolve_column s) (tbl_columns t)\<rparr>) (sch_tables s)\<rparr>"

subsection \<open>The migration\<close>

datatype ddl =
    CreateTable table
  | CreateIndex string string "string list"
  | DropTable string
  | DropIndex string string

text \<open>The tables, in the order of the calls of \<open>op.create_table\<close>.\<close>

definition merchants_table :: table where
  "merchants_table =
     \<lparr>tbl_name = ''merchants'',
      tbl_columns =
        [primary_key (sa_column ''id'' (Some (VARCHAR 100))), not_null (sa_column ''created_at'' (Some TIMESTAMPTZ))],
      tbl_uniques = []\<rparr>"

definition payments_table :: table where
  "payments_table =
     \<lparr>tbl_name = ''payments'',
      tbl_columns =
        [primary_key (sa_column ''id'' (Some UUID)),
         not_null (foreign_key ''merchants'' ''id'' (sa_column ''merchant_id'' (Some (VARCHAR 100)))),
         not_null (sa_column ''amount'' (Some INTEGER)), not_null (sa_column ''currency'' (Some (VARCHAR 3))),
         not_null (sa_column ''status'' (Some (VARCHAR 20))),
         not_null (sa_column ''payment_method_type'' (Some (VARCHAR 30))),
         not_null (sa_column ''idempotency_key'' (Some (VARCHAR 255))),
         not_null (sa_column ''request_fingerprint'' (Some (VARCHAR 64))),
         sa_column ''provider'' (Some (VARCHAR 50)), sa_column ''provider_reference'' (Some (VARCHAR 255)),
         server_default ''0'' (not_null (sa_column ''refunded_amount'' (Some INTEGER))),
         not_null (sa_column ''created_at'' (Some TIMESTAMPTZ)), not_null (sa_column ''updated_at'' (Some TIMESTAMPTZ))],
      tbl_uniques = [(''uq_payments_merchant_idempotency'', [''merchant_id'', ''idempotency_key''])]\<rparr>"

definition payment_attempts_table :: table where
  "payment_attempts_table =
     \<lparr>tbl_name = ''payment_attempts'',
      tbl_columns =
        [primary_key (sa_column ''id'' (Some UUID)),
         not_null (foreign_key ''payments'' ''id'' (sa_column ''payment_id'' (Some UUID))),
         not_null (sa_column ''provider'' (Some (VARCHAR 50))), not_null (sa_column ''attempt_number'' (Some INTEGER)),
         not_null (sa_column ''result'' (Some (VARCHAR 30))), sa_column ''error_code'' (Some (VARCHAR 50)),
         not_null (sa_column ''latency_ms'' (Some INTEGER)), not_null (sa_column ''created_at'' (Some TIMESTAMPTZ))],
      tbl_uniques = []\<rparr>"

definition refunds_table :: table where
  "refunds_table =
     \<lparr>tbl_name = ''refunds'',
      tbl_columns =
        [primary_key (sa_column ''id'' (Some UUID)),
         not_null (foreign_key ''payments'' ''id'' (sa_column ''payment_id'' (Some UUID))),
         not_null (sa_column ''amount'' (Some INTEGER)), sa_column ''provider_reference'' (Some (VARCHAR 255)),
         not_null (sa_column ''created_at'' (Some TIMESTAMPTZ))],
      tbl_uniques = []\<rparr>"

definition outbox_events_table :: table where
  "outbox_events_table =
     \<lparr>tbl_name = ''outbox_events'',
      tbl_columns =
        [primary_key (sa_column ''id'' (Some UUID)), not_null (sa_column ''event_type'' (Some (VARCHAR 100))),
         not_null (sa_column ''merchant_id'' (Some (VARCHAR 100))), sa_column ''aggregate_id'' (Some UUID),
         sa_column ''provider'' (Some (VARCHAR 50)),
         server_default ''1'' (not_null (sa_column ''version'' (Some INTEGER))),
         not_null (sa_column ''payload'' (Some JSONB)), not_null (sa_column ''created_at'' (Some TIMESTAMPTZ)),
         sa_column ''published_at'' (Some TIMESTAMPTZ)],
      tbl_uniques = []\<rparr>"

definition upgrade :: "ddl list" where
  "upgrade =
     [CreateTable merchants_table,
      CreateTable payments_table,
      CreateIndex ''ix_payments_merchant_created'' ''payments'' [''merchant_id'', ''created_at''],
      CreateTable payment_attempts_table,
      CreateIndex ''ix_payment_attempts_payment'' ''payment_attempts'' [''payment_id''],
      CreateTable refunds_table,
      CreateTable outbox_events_table]"

definition downgrade :: "ddl list" where
  "downgrade =
     [DropTable ''outbox_events'', DropTable ''refunds'',
      DropIndex ''ix_payment_attempts_payment'' ''payment_attempts'', DropTable ''payment_attempts'',
      DropIndex ''ix_payments_merchant_created'' ''payments'', DropTable ''payments'', DropTable ''merchants'']"

text \<open>
  What the statements do. A table needs a new name and the columns its foreign keys
  reference; a table that another one references is not dropped; indexes go with their
  table.
\<close>

definition references_to :: "string \<Rightarrow> table \<Rightarrow> bool" where
  "references_to n t \<longleftrightarrow> list_ex (\<lambda>c. map_option fst (col_references c) = Some n) (tbl_columns t)"

definition key_exists :: "schema \<Rightarrow> column \<Rightarrow> bool" where
  "key_exists s c =
     (case col_references c of
        None \<Rightarrow> True
      | Some (t, k) \<Rightarrow> Option.bind (find_table t s) (find_column k) \<noteq> None)"

fun execute :: "ddl \<Rightarrow> schema \<Rightarrow> schema res" where
  "execute (CreateTable t) s =
     (if find_table (tbl_name t) s \<noteq> None \<or> \<not> list_all (key_exists s) (tbl_columns t)
      then Inl (OtherException ''ProgrammingError'')
      else Inr (s\<lparr>sch_tables := sch_tables s @ [t]\<rparr>))"
| "execute (CreateIndex i n cols) s =
     (case find_table n s of
        None \<Rightarrow> Inl (OtherException ''ProgrammingError'')
      | Some t \<Rightarrow>
          if i \<in> fst ` set (sch_indexes s) \<or> \<not> list_all (\<lambda>c. find_column c t \<noteq> None) cols
          then Inl (OtherException ''ProgrammingError'')
          else Inr (s\<lparr>sch_indexes := sch_indexes s @ [(i, n, cols)]\<rparr>))"
| "execute (DropTable n) s =
     (if find_table n s = None \<or> list_ex (\<lambda>t. tbl_name t \<noteq> n \<and> references_to n t) (sch_tables s)
      then Inl (OtherException ''ProgrammingError'')
      else Inr (s\<lparr>sch_tables := filter (\<lambda>t. tbl_name t \<noteq> n) (sch_tables s),
                  sch_indexes := filter (\<lambda>(i, t, cols). t \<noteq> n) (sch_indexes s)\<rparr>))"
| "execute (DropIndex i n) s =
     (if i \<notin> fst ` set (sch_indexes s) then Inl (OtherException ''ProgrammingError'')
      else Inr (s\<lparr>sch_indexes := filter (\<lambda>(j, t, cols). j \<noteq> i) (sch_indexes s)\<rparr>))"

text \<open>\<open>context.run_migrations\<close> inside \<open>context.begin_transaction\<close>.\<close>

fun run_ddl :: "ddl list \<Rightarrow> schema \<Rightarrow> schema res" where
  "run_ddl [] s = Inr s"
| "run_ddl (d # ds) s = res_bind (execute d s) (run_ddl ds)"

definition do_run_migrations :: "ddl list \<Rightarrow> schema \<Rightarrow> unit res \<times> schema" where
  "do_run_migrations ds s = (case run_ddl ds s of Inl e \<Rightarrow> (Inl e, s) | Inr s1 \<Rightarrow> (Inr (), s1))"

definition empty_schema :: schema where
  "empty_schema = \<lparr>sch_tables = [], sch_indexes = []\<rparr>"


subsection \<open>The mapped classes\<close>

text \<open>
  \<open>Base.metadata\<close>. Defaults of the mapped classes are applied by Python, so no column has a
  default of the server.
\<close>

definition metadata :: schema where
  "metadata =
     \<lparr>sch_tables =
        [\<lparr>tbl_name = ''merchants'',
          tbl_columns =
            [primary_key (sa_column ''id'' (Some (VARCHAR 100))), not_null (sa_column ''created_at'' (Some TIMESTAMPTZ))],
          tbl_uniques = []\<rparr>,
         \<lparr>tbl_name = ''payments'',
          tbl_columns =
            [primary_key (sa_column ''id'' (Some UUID)),
             not_null (foreign_key ''merchants'' ''id'' (sa_column ''merchant_id'' None)),
             not_null (sa_column ''amount'' (Some INTEGER)), not_null (sa_column ''currency'' (Some (VARCHAR 3))),
             not_null (sa_column ''status'' (Some (VARCHAR 20))),
             not_null (sa_column ''payment_method_type'' (Some (VARCHAR 30))),
             not_null (sa_column ''idempotency_key'' (Some (VARCHAR 255))),
             not_null (sa_column ''request_fingerprint'' (Some (VARCHAR 64))),
             sa_column ''provider'' (Some (VARCHAR 50)), sa_column ''provider_reference'' (Some (VARCHAR 255)),
             not_null (sa_column ''refunded_amount'' (Some INTEGER)),
             not_null (sa_column ''created_at'' (Some TIMESTAMPTZ)), not_null (sa_column ''updated_at'' (Some TIMESTAMPTZ))],
          tbl_uniques = [(''uq_payments_merchant_idempotency'', [''merchant_id'', ''idempotency_key''])]\<rparr>,
         \<lparr>tbl_name = ''payment_attempts'',
          tbl_columns =
            [primary_key (sa_column ''id'' (Some UUID)),
             not_null (foreign_key ''payments'' ''id'' (sa_column ''payment_id'' None)),
             not_null (sa_column ''provider'' (Some (VARCHAR 50))), not_null (sa_column ''attempt_number'' (Some INTEGER)),
             not_null (sa_column ''result'' (Some (VARCHAR 30))), sa_column ''error_code'' (Some (VARCHAR 50)),
             not_null (sa_column ''latency_ms'' (Some INTEGER)), not_null (sa_column ''created_at'' (Some TIMESTAMPTZ))],
          tbl_uniques = []\<rparr>,
         \<lparr>tbl_name = ''refunds'',
          tbl_columns =
            [primary_key (sa_column ''id'' (Some UUID)),
             not_null (foreign_key ''payments'' ''id'' (sa_column ''payment_id'' None)),
             not_null (sa_column ''amount'' (Some INTEGER)), sa_column ''provider_reference'' (Some (VARCHAR 255)),
             not_null (sa_column ''created_at'' (Some TIMESTAMPTZ))],
          tbl_uniques = []\<rparr>,
         \<lparr>tbl_name = ''outbox_events'',
          tbl_columns =
            [primary_key (sa_column ''id'' (Some UUID)), not_null (sa_column ''event_type'' (Some (VARCHAR 100))),
             not_null (sa_column ''merchant_id'' (Some (VARCHAR 100))), sa_column ''aggregate_id'' (Some UUID),
             sa_column ''provider'' (Some (VARCHAR 50)), not_null (sa_column ''version'' (Some INTEGER)),
             not_null (sa_column ''payload'' (Some JSONB)), not_null (sa_column ''created_at'' (Some TIMESTAMPTZ)),
             sa_column ''published_at'' (Some TIMESTAMPTZ)],
          tbl_uniques = []\<rparr>],
      sch_indexes =
        [(''ix_payments_merchant_created'', ''payments'', [''merchant_id'', ''created_at'']),
         (''ix_payment_attempts_payment'', ''payment_attempts'', [''payment_id''])]\<rparr>"

definition forget_defaults :: "schema \<Rightarrow> schema" where
  "forget_defaults s =
     s\<lparr>sch_tables := map (\<lambda>t. t\<lparr>tbl_columns := map (\<lambda>c. c\<lparr>col_server_default := None\<rparr>) (tbl_columns t)\<rparr>) (sch_tables s)\<rparr>"

subsection \<open>The rows a schema accepts\<close>

datatype sql_value =
    VNull
  | VText string
  | VInt int
  | VTime datetime
  | VUuid uuid
  | VJson "(string, json) dict"

type_synonym row = "(string \<times> sql_value) list"

fun fits :: "sql_type \<Rightarrow> sql_value \<Rightarrow> bool" where
  "fits (VARCHAR n) (VText s) = varchar n s"
| "fits INTEGER (VInt i) = int4 i"
| "fits TIMESTAMPTZ (VTime t) = True"
| "fits UUID (VUuid u) = True"
| "fits JSONB (VJson d) = True"
| "fits _ _ = False"

definition cell_ok :: "column \<Rightarrow> sql_value option \<Rightarrow> bool" where
  "cell_ok c v =
     (case v of
        None \<Rightarrow> False
      | Some VNull \<Rightarrow> col_nullable c
      | Some x \<Rightarrow> (case col_type c of None \<Rightarrow> False | Some t \<Rightarrow> fits t x))"

definition project :: "string list \<Rightarrow> row \<Rightarrow> sql_value option list" where
  "project cols r = map (map_of r) cols"

text \<open>Rows with a null in a unique key are not compared.\<close>

definition unique_in :: "string list \<Rightarrow> row list \<Rightarrow> bool" where
  "unique_in cols rows \<longleftrightarrow> distinct (filter (\<lambda>vs. Some VNull \<notin> set vs) (map (project cols) rows))"

definition reference_ok :: "(string \<Rightarrow> row list) \<Rightarrow> row list \<Rightarrow> column \<Rightarrow> bool" where
  "reference_ok db rows c =
     (case col_references c of
        None \<Rightarrow> True
      | Some (t, k) \<Rightarrow>
          list_all (\<lambda>r. map_of r (col_name c) = Some VNull \<or>
                        map_of r (col_name c) \<in> (\<lambda>q. map_of q k) ` set (db t)) rows)"

definition table_accepts :: "(string \<Rightarrow> row list) \<Rightarrow> table \<Rightarrow> bool" where
  "table_accepts db t \<longleftrightarrow>
     list_all (\<lambda>r. list_all (\<lambda>c. cell_ok c (map_of r (col_name c))) (tbl_columns t)) (db (tbl_name t)) \<and>
     unique_in (map col_name (filter col_primary (tbl_columns t))) (db (tbl_name t)) \<and>
     list_all (\<lambda>(n, cols). unique_in cols (db (tbl_name t))) (tbl_uniques t) \<and>
     list_all (reference_ok db (db (tbl_name t))) (tbl_columns t)"

definition accepts :: "schema \<Rightarrow> (string \<Rightarrow> row list) \<Rightarrow> bool" where
  "accepts s db \<longleftrightarrow> list_all (table_accepts db) (sch_tables s)"

subsection \<open>The rows of the mapped classes\<close>

definition nullable :: "('a \<Rightarrow> sql_value) \<Rightarrow> 'a option \<Rightarrow> sql_value" where
  "nullable f v = (case v of None \<Rightarrow> VNull | Some x \<Rightarrow> f x)"

definition merchant_cells :: "MerchantRow \<Rightarrow> row" where
  "merchant_cells r = [(''id'', VText (mrw_id r)), (''created_at'', VTime (mrw_created_at r))]"

definition payment_cells :: "PaymentRow \<Rightarrow> row" where
  "payment_cells r =
     [(''id'', VUuid (prw_id r)), (''merchant_id'', VText (prw_merchant_id r)), (''amount'', VInt (prw_amount r)),
      (''currency'', VText (prw_currency r)), (''status'', VText (prw_status r)),
      (''payment_method_type'', VText (prw_payment_method_type r)),
      (''idempotency_key'', VText (prw_idempotency_key r)),
      (''request_fingerprint'', VText (prw_request_fingerprint r)),
      (''provider'', nullable VText (prw_provider r)),
      (''provider_reference'', nullable VText (prw_provider_reference r)),
      (''refunded_amount'', VInt (prw_refunded_amount r)), (''created_at'', VTime (prw_created_at r)),
      (''updated_at'', VTime (prw_updated_at r))]"

definition attempt_cells :: "PaymentAttemptRow \<Rightarrow> row" where
  "attempt_cells r =
     [(''id'', VUuid (arw_id r)), (''payment_id'', VUuid (arw_payment_id r)), (''provider'', VText (arw_provider r)),
      (''attempt_number'', VInt (arw_attempt_number r)), (''result'', VText (arw_result r)),
      (''error_code'', nullable VText (arw_error_code r)), (''latency_ms'', VInt (arw_latency_ms r)),
      (''created_at'', VTime (arw_created_at r))]"

definition refund_cells :: "RefundRow \<Rightarrow> row" where
  "refund_cells r =
     [(''id'', VUuid (rrw_id r)), (''payment_id'', VUuid (rrw_payment_id r)), (''amount'', VInt (rrw_amount r)),
      (''provider_reference'', nullable VText (rrw_provider_reference r)), (''created_at'', VTime (rrw_created_at r))]"

definition outbox_cells :: "OutboxEventRow \<Rightarrow> row" where
  "outbox_cells r =
     [(''id'', VUuid (orw_id r)), (''event_type'', VText (orw_event_type r)),
      (''merchant_id'', VText (orw_merchant_id r)), (''aggregate_id'', nullable VUuid (orw_aggregate_id r)),
      (''provider'', nullable VText (orw_provider r)), (''version'', VInt (orw_version r)),
      (''payload'', VJson (orw_payload r)), (''created_at'', VTime (orw_created_at r)),
      (''published_at'', nullable VTime (orw_published_at r))]"

definition stored_rows :: "database \<Rightarrow> string \<Rightarrow> row list" where
  "stored_rows db n =
     (if n = ''merchants'' then map merchant_cells (db_merchants db)
      else if n = ''payments'' then map payment_cells (db_payments db)
      else if n = ''payment_attempts'' then map attempt_cells (db_attempts db)
      else if n = ''refunds'' then map refund_cells (db_refunds db)
      else if n = ''outbox_events'' then map outbox_cells (db_outbox db)
      else [])"

subsection \<open>The migrated schema\<close>

lemmas cells_defs = merchant_cells_def payment_cells_def attempt_cells_def refund_cells_def outbox_cells_def

definition migrated :: schema where
  "migrated =
     \<lparr>sch_tables = [merchants_table, payments_table, payment_attempts_table, refunds_table, outbox_events_table],
      sch_indexes =
        [(''ix_payments_merchant_created'', ''payments'', [''merchant_id'', ''created_at'']),
         (''ix_payment_attempts_payment'', ''payment_attempts'', [''payment_id''])]\<rparr>"

lemmas table_defs = merchants_table_def payments_table_def payment_attempts_table_def refunds_table_def
  outbox_events_table_def

lemma table_names [simp]:
  "tbl_name merchants_table = ''merchants''" "tbl_name payments_table = ''payments''"
  "tbl_name payment_attempts_table = ''payment_attempts''" "tbl_name refunds_table = ''refunds''"
  "tbl_name outbox_events_table = ''outbox_events''"
  by (simp_all add: table_defs)

lemma table_references [simp]:
  "filter (\<lambda>c. col_references c \<noteq> None) (tbl_columns merchants_table) = []"
  "filter (\<lambda>c. col_references c \<noteq> None) (tbl_columns payments_table) =
     [not_null (foreign_key ''merchants'' ''id'' (sa_column ''merchant_id'' (Some (VARCHAR 100))))]"
  "filter (\<lambda>c. col_references c \<noteq> None) (tbl_columns payment_attempts_table) =
     [not_null (foreign_key ''payments'' ''id'' (sa_column ''payment_id'' (Some UUID)))]"
  "filter (\<lambda>c. col_references c \<noteq> None) (tbl_columns refunds_table) =
     [not_null (foreign_key ''payments'' ''id'' (sa_column ''payment_id'' (Some UUID)))]"
  "filter (\<lambda>c. col_references c \<noteq> None) (tbl_columns outbox_events_table) = []"
  by (simp_all add: table_defs column_defs)

lemma table_keys [simp]:
  "map col_name (filter col_primary (tbl_columns merchants_table)) = [''id'']"
  "map col_name (filter col_primary (tbl_columns payments_table)) = [''id'']"
  "map col_name (filter col_primary (tbl_columns payment_attempts_table)) = [''id'']"
  "map col_name (filter col_primary (tbl_columns refunds_table)) = [''id'']"
  "map col_name (filter col_primary (tbl_columns outbox_events_table)) = [''id'']"
  "tbl_uniques merchants_table = []"
  "tbl_uniques payments_table = [(''uq_payments_merchant_idempotency'', [''merchant_id'', ''idempotency_key''])]"
  "tbl_uniques payment_attempts_table = []" "tbl_uniques refunds_table = []" "tbl_uniques outbox_events_table = []"
  by (simp_all add: table_defs column_defs)

lemma list_all_filtered: "(\<And>c. \<not> Q c \<Longrightarrow> P c) \<Longrightarrow> list_all P cs \<longleftrightarrow> list_all P (filter Q cs)"
  by (induction cs) auto

lemma keys_exist:
  "list_all (key_exists s) (tbl_columns t) \<longleftrightarrow> list_all (key_exists s) (filter (\<lambda>c. col_references c \<noteq> None) (tbl_columns t))"
  by (rule list_all_filtered) (simp add: key_exists_def split: option.split)

lemma referenced_columns [simp]:
  "find_column ''id'' merchants_table \<noteq> None" "find_column ''id'' payments_table \<noteq> None"
  "find_column ''merchant_id'' payments_table \<noteq> None" "find_column ''created_at'' payments_table \<noteq> None"
  "find_column ''payment_id'' payment_attempts_table \<noteq> None"
  by (simp_all add: find_column_def table_defs column_defs)

lemma foreign_exists [simp]:
  "key_exists s (not_null (foreign_key n k c)) \<longleftrightarrow> Option.bind (find_table n s) (find_column k) \<noteq> None"
  by (simp add: key_exists_def column_defs)

lemma run_upgrade: "run_ddl upgrade empty_schema = Inr migrated"
  unfolding upgrade_def run_ddl.simps execute.simps keys_exist
  by (simp add: migrated_def empty_schema_def find_table_def res_bind_def del: not_None_eq)

lemma migrated_is_metadata: "forget_defaults migrated = resolve metadata"
  by (simp add: migrated_def table_defs column_defs find_table_def find_column_def
      forget_defaults_def resolve_def resolve_column_def metadata_def)

lemma run_downgrade: "run_ddl downgrade migrated = Inr empty_schema"
  by (simp add: migrated_def downgrade_def empty_schema_def find_table_def res_bind_def references_to_def)
     (simp add: table_defs column_defs)

lemma distinct_map_cong: "(\<And>x y. g x = g y \<longleftrightarrow> h x = h y) \<Longrightarrow> distinct (map g xs) = distinct (map h xs)"
  by (induction xs) auto

lemma unique_in_rows:
  assumes "\<And>x. Some VNull \<notin> set (project cols (f x))" "\<And>x y. project cols (f x) = project cols (f y) \<longleftrightarrow> h x = h y"
  shows "unique_in cols (map f xs) \<longleftrightarrow> distinct (map h xs)"
proof -
  have "filter (\<lambda>vs. Some VNull \<notin> set vs) (map (project cols) (map f xs)) = map (\<lambda>x. project cols (f x)) xs"
    using assms(1) by (induction xs) auto
  then show ?thesis using distinct_map_cong [of "\<lambda>x. project cols (f x)" h xs] assms(2) by (simp add: unique_in_def)
qed

lemma reference_rows:
  assumes "col_references c = Some (t, k)" "db t = map g ys" "\<And>x. map_of (f x) (col_name c) = Some (F (p x))" "\<And>y. map_of (g y) k = Some (F (q y))"
    and "inj F" "\<And>u. F u \<noteq> VNull"
  shows "reference_ok db (map f xs) c \<longleftrightarrow> list_all (\<lambda>x. p x \<in> set (map q ys)) xs"
  using assms(2-) by (auto simp: reference_ok_def assms(1) list_all_iff inj_eq image_iff)

lemma unique_keys:
  "unique_in [''id''] (map merchant_cells ms) \<longleftrightarrow> distinct (map mrw_id ms)"
  "unique_in [''id''] (map payment_cells ps) \<longleftrightarrow> distinct (map prw_id ps)"
  "unique_in [''id''] (map attempt_cells as) \<longleftrightarrow> distinct (map arw_id as)"
  "unique_in [''id''] (map refund_cells rs) \<longleftrightarrow> distinct (map rrw_id rs)"
  "unique_in [''id''] (map outbox_cells es) \<longleftrightarrow> distinct (map orw_id es)"
  "unique_in [''merchant_id'', ''idempotency_key''] (map payment_cells ps) \<longleftrightarrow>
     distinct (map (\<lambda>r. (prw_merchant_id r, prw_idempotency_key r)) ps)"
  by (rule unique_in_rows; simp add: project_def cells_defs)+

lemma cell_cases:
  "cell_ok c (Some (VText s)) \<longleftrightarrow> (case col_type c of None \<Rightarrow> False | Some t \<Rightarrow> fits t (VText s))"
  "cell_ok c (Some (VInt i)) \<longleftrightarrow> (case col_type c of None \<Rightarrow> False | Some t \<Rightarrow> fits t (VInt i))"
  "cell_ok c (Some (VTime d)) \<longleftrightarrow> (case col_type c of None \<Rightarrow> False | Some t \<Rightarrow> fits t (VTime d))"
  "cell_ok c (Some (VUuid u)) \<longleftrightarrow> (case col_type c of None \<Rightarrow> False | Some t \<Rightarrow> fits t (VUuid u))"
  "cell_ok c (Some (VJson j)) \<longleftrightarrow> (case col_type c of None \<Rightarrow> False | Some t \<Rightarrow> fits t (VJson j))"
  "cell_ok c (Some (nullable VText v)) \<longleftrightarrow>
     (case v of None \<Rightarrow> col_nullable c | Some x \<Rightarrow> (case col_type c of None \<Rightarrow> False | Some t \<Rightarrow> fits t (VText x)))"
  "cell_ok c (Some (nullable VUuid w)) \<longleftrightarrow>
     (case w of None \<Rightarrow> col_nullable c | Some x \<Rightarrow> (case col_type c of None \<Rightarrow> False | Some t \<Rightarrow> fits t (VUuid x)))"
  "cell_ok c (Some (nullable VTime y)) \<longleftrightarrow>
     (case y of None \<Rightarrow> col_nullable c | Some x \<Rightarrow> (case col_type c of None \<Rightarrow> False | Some t \<Rightarrow> fits t (VTime x)))"
  by (auto simp: cell_ok_def nullable_def split: option.splits sql_value.splits)

lemma table_accepts_keys:
  "table_accepts db t \<longleftrightarrow>
     list_all (\<lambda>r. list_all (\<lambda>c. cell_ok c (map_of r (col_name c))) (tbl_columns t)) (db (tbl_name t)) \<and>
     unique_in (map col_name (filter col_primary (tbl_columns t))) (db (tbl_name t)) \<and>
     list_all (\<lambda>(n, cols). unique_in cols (db (tbl_name t))) (tbl_uniques t) \<and>
     list_all (reference_ok db (db (tbl_name t))) (filter (\<lambda>c. col_references c \<noteq> None) (tbl_columns t))"
proof -
  have "list_all (reference_ok db rows) cs \<longleftrightarrow> list_all (reference_ok db rows) (filter (\<lambda>c. col_references c \<noteq> None) cs)" for rows cs
    by (rule list_all_filtered) (simp add: reference_ok_def split: option.split)
  then show ?thesis unfolding table_accepts_def by simp
qed

lemma rows_of:
  "stored_rows db ''merchants'' = map merchant_cells (db_merchants db)"
  "stored_rows db ''payments'' = map payment_cells (db_payments db)"
  "stored_rows db ''payment_attempts'' = map attempt_cells (db_attempts db)"
  "stored_rows db ''refunds'' = map refund_cells (db_refunds db)"
  "stored_rows db ''outbox_events'' = map outbox_cells (db_outbox db)"
  by (simp_all add: stored_rows_def)

lemma references_of:
  "reference_ok (stored_rows db) (map payment_cells ps)
      (not_null (foreign_key ''merchants'' ''id'' (sa_column ''merchant_id'' (Some (VARCHAR 100))))) \<longleftrightarrow>
    list_all (\<lambda>r. prw_merchant_id r \<in> set (map mrw_id (db_merchants db))) ps" (is "?thesis1")
  "reference_ok (stored_rows db) (map attempt_cells as)
      (not_null (foreign_key ''payments'' ''id'' (sa_column ''payment_id'' (Some UUID)))) \<longleftrightarrow>
    list_all (\<lambda>r. arw_payment_id r \<in> set (map prw_id (db_payments db))) as" (is "?thesis2")
  "reference_ok (stored_rows db) (map refund_cells rs)
      (not_null (foreign_key ''payments'' ''id'' (sa_column ''payment_id'' (Some UUID)))) \<longleftrightarrow>
    list_all (\<lambda>r. rrw_payment_id r \<in> set (map prw_id (db_payments db))) rs" (is "?thesis3")
proof -
  note refs = column_defs rows_of cells_defs inj_def
  show "?thesis1" by (rule reference_rows [where F = VText]) (auto simp: refs)
  show "?thesis2" by (rule reference_rows [where F = VUuid]) (auto simp: refs)
  show "?thesis3" by (rule reference_rows [where F = VUuid]) (auto simp: refs)
qed

lemma merchant_cells_ok:
  "list_all (\<lambda>c. cell_ok c (map_of (merchant_cells r) (col_name c))) (tbl_columns merchants_table) \<longleftrightarrow> varchar 100 (mrw_id r)"
  by (simp add: merchants_table_def column_defs merchant_cells_def cell_cases)

lemma payment_cells_ok:
  "list_all (\<lambda>c. cell_ok c (map_of (payment_cells r) (col_name c))) (tbl_columns payments_table) \<longleftrightarrow>
     varchar 100 (prw_merchant_id r) \<and> payment_row_ok r"
  by (simp add: payments_table_def column_defs payment_cells_def cell_cases payment_row_ok_def varchar_null_def
      cong: option.case_cong split: option.split)

lemma attempt_cells_ok:
  "list_all (\<lambda>c. cell_ok c (map_of (attempt_cells r) (col_name c))) (tbl_columns payment_attempts_table) \<longleftrightarrow> attempt_row_ok r"
  by (simp add: payment_attempts_table_def column_defs attempt_cells_def cell_cases attempt_row_ok_def varchar_null_def
      split: option.split)

lemma refund_cells_ok:
  "list_all (\<lambda>c. cell_ok c (map_of (refund_cells r) (col_name c))) (tbl_columns refunds_table) \<longleftrightarrow> refund_row_ok r"
  by (simp add: refunds_table_def column_defs refund_cells_def cell_cases refund_row_ok_def varchar_null_def
      split: option.split)

lemma outbox_cells_ok:
  "list_all (\<lambda>c. cell_ok c (map_of (outbox_cells r) (col_name c))) (tbl_columns outbox_events_table) \<longleftrightarrow> outbox_row_ok r"
  by (simp add: outbox_events_table_def column_defs outbox_cells_def cell_cases outbox_row_ok_def varchar_null_def
      split: option.split)

text \<open>
  C35. The migration, run on an empty database, succeeds and makes the tables, columns,
  constraints and indexes that the mapped classes declare, up to two defaults of the server.
  The rows this schema accepts are exactly the databases whose columns and keys satisfy the
  constraints under which the repository commits. Running the downgrade takes all of it back.
\<close>

theorem migration_correct:
  "do_run_migrations upgrade empty_schema = (Inr (), migrated) \<and>
   forget_defaults migrated = resolve metadata \<and>
   (accepts migrated (stored_rows db) \<longleftrightarrow> columns_ok db \<and> keys_ok db) \<and>
   do_run_migrations downgrade migrated = (Inr (), empty_schema)"
proof -
  have "accepts migrated (stored_rows db) \<longleftrightarrow> columns_ok db \<and> keys_ok db"
    unfolding accepts_def migrated_def schema.simps list.pred_inject table_accepts_keys table_names table_keys
      table_references rows_of list.pred_map comp_def unique_keys references_of
      merchant_cells_ok payment_cells_ok attempt_cells_ok refund_cells_ok outbox_cells_ok columns_ok_def keys_ok_def
    by (auto simp: list_all_iff unique_keys)
  then show ?thesis
    by (simp add: do_run_migrations_def run_upgrade migrated_is_metadata run_downgrade)
qed

subsection \<open>The address of the database\<close>

text \<open>
  \<open>migrations/env.py\<close> puts the normalised address into Alembic's configuration, whose parser
  expands percent signs when the option is read (two of them stand for one, \<open>%(\<close> begins a
  reference to another option, which \<open>refer\<close> expands), so every percent sign is doubled first.
\<close>

definition escape_percent :: "string \<Rightarrow> string" where
  "escape_percent s = concat (map (\<lambda>c. if c = CHR ''%'' then ''%%'' else [c]) s)"

definition sqlalchemy_url :: "environ \<Rightarrow> string option" where
  "sqlalchemy_url env =
     (let database_url = normalize_database_url (getenv env ''PYSWITCH_DATABASE_URL'' [])
      in if database_url \<noteq> [] then Some (escape_percent database_url) else None)"

fun interpolate :: "(string \<Rightarrow> string res) \<Rightarrow> string \<Rightarrow> string res" where
  "interpolate refer (c # d # cs) =
     (if c \<noteq> CHR ''%'' then map_sum id ((#) c) (interpolate refer (d # cs))
      else if d = CHR ''%'' then map_sum id ((#) d) (interpolate refer cs)
      else if d = CHR ''('' then refer cs
      else Inl (OtherException ''InterpolationSyntaxError''))"
| "interpolate refer [c] =
     (if c = CHR ''%'' then Inl (OtherException ''InterpolationSyntaxError'') else Inr [c])"
| "interpolate refer [] = Inr []"

lemma interpolate_plain: "c \<noteq> CHR ''%'' \<Longrightarrow> interpolate refer (c # cs) = map_sum id ((#) c) (interpolate refer cs)"
  by (cases cs) simp_all

lemma interpolate_escaped: "interpolate refer (escape_percent s) = Inr s"
  by (induction s) (auto simp: escape_percent_def interpolate_plain)

lemma sqlalchemy_url_read:
  "sqlalchemy_url env = Some u \<Longrightarrow>
   interpolate refer u = Inr (normalize_database_url (getenv env ''PYSWITCH_DATABASE_URL'' []))"
  by (auto simp: sqlalchemy_url_def Let_def interpolate_escaped split: if_splits)

end
