(* ===== verification/Redaction.thy ===== *)
theory Redaction
  imports Config Json
begin

text \<open>
  What the evidence scripts write down of an address with credentials:
  \<open>_safe_database_url\<close> of \<open>scripts/query_benchmark.py\<close> and \<open>_safe_bootstrap\<close> of
  \<open>scripts/kafka_consumer_evidence.py\<close>, with the part of \<open>urllib.parse\<close> they use. The check of
  an IPv6 literal between brackets (\<open>ipaddress\<close>) is a parameter.
\<close>

subsection \<open>\<open>urllib.parse\<close>\<close>

definition char_lower :: "char \<Rightarrow> char" where
  "char_lower c =
     (let n = of_char c :: nat
      in if 65 \<le> n \<and> n \<le> 90 \<or> 192 \<le> n \<and> n \<le> 222 \<and> n \<noteq> 215 then char_of (n + 32) else c)"

text \<open>\<open>s.partition(c)\<close>: what is before the first \<open>c\<close>, whether there is one, what follows it.\<close>

definition partition_at :: "char \<Rightarrow> string \<Rightarrow> string \<times> bool \<times> string" where
  "partition_at c s = (takeWhile ((\<noteq>) c) s, c \<in> set s, tl (dropWhile ((\<noteq>) c) s))"

text \<open>\<open>s.rpartition(c)[2]\<close>: what follows the last \<open>c\<close>.\<close>

definition after_last :: "char \<Rightarrow> string \<Rightarrow> string" where
  "after_last c s = rev (takeWhile ((\<noteq>) c) (rev s))"

definition scheme_char :: "char \<Rightarrow> bool" where
  "scheme_char c \<longleftrightarrow>
     c \<in> set ''abcdefghijklmnopqrstuvwxyzABCDEFGHIJKLMNOPQRSTUVWXYZ0123456789+-.''"

definition ascii_letter :: "char \<Rightarrow> bool" where
  "ascii_letter c \<longleftrightarrow> c \<in> set ''abcdefghijklmnopqrstuvwxyzABCDEFGHIJKLMNOPQRSTUVWXYZ''"

record SplitResult =
  url_scheme :: string
  url_netloc :: string
  url_path :: string
  url_query :: string
  url_fragment :: string

definition unsafe_char :: "char \<Rightarrow> bool" where
  "unsafe_char c \<longleftrightarrow> c \<in> {CHR 0x09, CHR 0x0A, CHR 0x0D}"

definition url_clean :: "string \<Rightarrow> string" where
  "url_clean url = filter (\<lambda>c. \<not> unsafe_char c) (dropWhile (\<lambda>c. (of_char c :: nat) \<le> 32) url)"

definition split_scheme :: "string \<Rightarrow> string \<times> string" where
  "split_scheme url =
     (let (before, found, rest) = partition_at CHR '':'' url
      in if found \<and> before \<noteq> [] \<and> ascii_letter (hd before) \<and> list_all scheme_char before
         then (map char_lower before, rest) else ([], url))"

definition netloc_end :: "char \<Rightarrow> bool" where
  "netloc_end c \<longleftrightarrow> c \<in> set ''/?#''"

definition urlsplit :: "(string \<Rightarrow> unit res) \<Rightarrow> string \<Rightarrow> SplitResult res" where
  "urlsplit check_bracketed_host url =
     (let (scheme, url1) = split_scheme (url_clean url);
          (netloc, url2) =
            (if take 2 url1 = ''//''
             then (takeWhile (\<lambda>c. \<not> netloc_end c) (drop 2 url1), dropWhile (\<lambda>c. \<not> netloc_end c) (drop 2 url1))
             else ([], url1));
          opened = CHR ''['' \<in> set netloc; closed = CHR '']'' \<in> set netloc
      in if opened \<noteq> closed then Inl (ValueError ''Invalid IPv6 URL'')
         else res_bind
                (if opened
                 then check_bracketed_host (fst (partition_at CHR '']'' (snd (snd (partition_at CHR ''['' netloc)))))
                 else Inr ())
                (\<lambda>_. let (url3, _, fragment) = partition_at CHR ''#'' url2;
                         (path, _, query) = partition_at CHR ''?'' url3
                     in Inr \<lparr>url_scheme = scheme, url_netloc = netloc, url_path = path, url_query = query,
                             url_fragment = fragment\<rparr>))"

definition hostinfo :: "string \<Rightarrow> string \<times> string" where
  "hostinfo netloc =
     (let info = after_last CHR ''@'' netloc;
          (_, bracket, inside) = partition_at CHR ''['' info
      in if bracket
         then (let (host, _, rest) = partition_at CHR '']'' inside in (host, snd (snd (partition_at CHR '':'' rest))))
         else (let (host, _, port) = partition_at CHR '':'' info in (host, port)))"

definition hostname :: "SplitResult \<Rightarrow> string option" where
  "hostname p =
     (let host = fst (hostinfo (url_netloc p));
          (name, percent, zone) = partition_at CHR ''%'' host
      in if host = [] then None
         else Some (map char_lower name @ (if percent then CHR ''%'' # zone else [])))"

definition port_value :: "string \<Rightarrow> nat" where
  "port_value s = foldl (\<lambda>v c. 10 * v + digit_value c) 0 s"

definition port :: "SplitResult \<Rightarrow> nat option res" where
  "port p =
     (let s = snd (hostinfo (url_netloc p))
      in if s = [] then Inr None
         else if \<not> list_all is_digit s then Inl (ValueError (''Port could not be cast to integer value as '' @ repr_str s))
         else if port_value s > 65535 then Inl (ValueError ''Port out of range 0-65535'')
         else Inr (Some (port_value s)))"

text \<open>\<open>urlunsplit((scheme, netloc, path, "", ""))\<close> for a network location that is not empty.\<close>

definition urlunsplit :: "string \<Rightarrow> string \<Rightarrow> string \<Rightarrow> string" where
  "urlunsplit scheme netloc path =
     (let url = ''//'' @ netloc @ (if path \<noteq> [] \<and> hd path \<noteq> CHR ''/'' then CHR ''/'' # path else path)
      in if scheme \<noteq> [] then scheme @ '':'' @ url else url)"

subsection \<open>The two scripts\<close>

definition with_port :: "SplitResult \<Rightarrow> string \<Rightarrow> string res" where
  "with_port p host =
     res_bind (port p)
       (\<lambda>n. Inr (urlunsplit (url_scheme p)
                   (case n of None \<Rightarrow> host | Some k \<Rightarrow> if k = 0 then host else host @ '':'' @ decimal k) (url_path p)))"

definition safe_database_url :: "(string \<Rightarrow> unit res) \<Rightarrow> string \<Rightarrow> string res" where
  "safe_database_url check_bracketed_host database_url =
     res_bind (urlsplit check_bracketed_host database_url)
       (\<lambda>parsed. case hostname parsed of None \<Rightarrow> Inr ''<redacted>'' | Some host \<Rightarrow> with_port parsed host)"

fun contains :: "string \<Rightarrow> string \<Rightarrow> bool" where
  "contains p [] \<longleftrightarrow> p = []"
| "contains p (c # cs) \<longleftrightarrow> starts_with p (c # cs) \<or> contains p cs"

definition safe_bootstrap :: "(string \<Rightarrow> unit res) \<Rightarrow> string \<Rightarrow> string res" where
  "safe_bootstrap check_bracketed_host bootstrap_servers =
     (if \<not> contains ''://'' bootstrap_servers then Inr bootstrap_servers
      else res_bind (urlsplit check_bracketed_host bootstrap_servers)
             (\<lambda>parsed. with_port parsed (case hostname parsed of None \<Rightarrow> ''<redacted>'' | Some host \<Rightarrow> host)))"

subsection \<open>Credentials do not reach the result\<close>

lemma takeWhile_until [simp]: "c \<notin> set a \<Longrightarrow> takeWhile ((\<noteq>) c) (a @ c # b) = a" "c \<notin> set a \<Longrightarrow> takeWhile ((\<noteq>) c) a = a"
  and dropWhile_until [simp]: "c \<notin> set a \<Longrightarrow> dropWhile ((\<noteq>) c) (a @ c # b) = c # b" "c \<notin> set a \<Longrightarrow> dropWhile ((\<noteq>) c) a = []"
  by (induction a) auto

lemma partition_simps [simp]:
  "c \<notin> set a \<Longrightarrow> partition_at c (a @ c # b) = (a, True, b)"
  "c \<notin> set a \<Longrightarrow> partition_at c a = (a, False, [])"
  by (simp_all add: partition_at_def)

lemma after_last_append: "after_last c (a @ c # b) = after_last c b"
proof (cases "c \<in> set b")
  case True
  then show ?thesis by (simp add: after_last_def takeWhile_append1)
qed (simp add: after_last_def)

lemma scheme_chars: "scheme_char c \<Longrightarrow> c \<noteq> CHR '':'' \<and> \<not> unsafe_char c" "ascii_letter c \<Longrightarrow> \<not> (of_char c :: nat) \<le> 32"
  by (auto simp: scheme_char_def unsafe_char_def ascii_letter_def)

definition is_scheme :: "string \<Rightarrow> bool" where
  "is_scheme s \<longleftrightarrow> s \<noteq> [] \<and> ascii_letter (hd s) \<and> list_all scheme_char s"

lemma clean_scheme:
  assumes "is_scheme s"
  shows "split_scheme (url_clean (s @ CHR '':'' # x)) = (map char_lower s, filter (\<lambda>c. \<not> unsafe_char c) x)"
proof -
  have "dropWhile (\<lambda>c. (of_char c :: nat) \<le> 32) (s @ CHR '':'' # x) = s @ CHR '':'' # x"
    using assms scheme_chars(2) by (cases s) (auto simp: is_scheme_def)
  moreover have "filter (\<lambda>c. \<not> unsafe_char c) s = s" "CHR '':'' \<notin> set s"
    using assms scheme_chars(1) by (auto simp: is_scheme_def list_all_iff filter_id_conv)
  moreover have "\<not> unsafe_char CHR '':''" by (simp add: unsafe_char_def)
  ultimately show ?thesis using assms by (simp add: split_scheme_def url_clean_def is_scheme_def)
qed

definition plain_userinfo :: "string \<Rightarrow> bool" where
  "plain_userinfo u \<longleftrightarrow> list_all (\<lambda>c. c \<notin> set ''/?#[]'') u"

definition query_or_fragment :: "string \<Rightarrow> bool" where
  "query_or_fragment q \<longleftrightarrow> q = [] \<or> hd q \<in> {CHR ''?'', CHR ''#''}"

text \<open>What the scripts read of a parsed address.\<close>

definition address_view :: "SplitResult \<Rightarrow> string \<times> (string \<times> string) \<times> string" where
  "address_view p = (url_scheme p, hostinfo (url_netloc p), url_path p)"

lemma hidden_netloc:
  assumes "plain_userinfo u" "query_or_fragment q" "n = takeWhile (\<lambda>c. \<not> netloc_end c) r"
  shows "takeWhile (\<lambda>c. \<not> netloc_end c) (u @ CHR ''@'' # r @ q) = u @ CHR ''@'' # n"
    and "dropWhile (\<lambda>c. \<not> netloc_end c) (u @ CHR ''@'' # r @ q) = dropWhile (\<lambda>c. \<not> netloc_end c) r @ q"
proof -
  have u: "\<forall>c\<in>set u. \<not> netloc_end c" "\<not> netloc_end CHR ''@''"
    using assms(1) by (auto simp: plain_userinfo_def netloc_end_def list_all_iff)
  have q: "takeWhile (\<lambda>c. \<not> netloc_end c) q = []" "dropWhile (\<lambda>c. \<not> netloc_end c) q = q"
    using assms(2) by (cases q; auto simp: query_or_fragment_def netloc_end_def)+
  have "takeWhile (\<lambda>c. \<not> netloc_end c) (r @ q) = n \<and>
    dropWhile (\<lambda>c. \<not> netloc_end c) (r @ q) = dropWhile (\<lambda>c. \<not> netloc_end c) r @ q"
    unfolding assms(3) using q by (induction r) auto
  then show "takeWhile (\<lambda>c. \<not> netloc_end c) (u @ CHR ''@'' # r @ q) = u @ CHR ''@'' # n"
    "dropWhile (\<lambda>c. \<not> netloc_end c) (u @ CHR ''@'' # r @ q) = dropWhile (\<lambda>c. \<not> netloc_end c) r @ q"
    using u by (simp_all add: takeWhile_append2 dropWhile_append2)
qed

lemma hidden_path:
  assumes "query_or_fragment q" "CHR ''?'' \<notin> set d" "CHR ''#'' \<notin> set d"
  shows "fst (partition_at CHR ''?'' (fst (partition_at CHR ''#'' (d @ q)))) = d"
proof (cases q)
  case Nil
  then show ?thesis using assms by simp
next
  case (Cons c cs)
  then consider "c = CHR ''#''" | "c = CHR ''?''" using assms(1) by (auto simp: query_or_fragment_def)
  then show ?thesis
  proof cases
    case 1
    then show ?thesis using assms Cons by simp
  next
    case 2
    have "fst (partition_at CHR ''#'' (d @ q)) = d @ CHR ''?'' # takeWhile ((\<noteq>) CHR ''#'') cs"
      unfolding partition_at_def Cons 2 fst_conv using assms(3) by (induction d) auto
    then show ?thesis using assms by simp
  qed
qed

lemma urlsplit_view:
  assumes "split_scheme (url_clean x) = (scheme, ''//'' @ y)"
  shows "map_sum id address_view (urlsplit chk x) =
    (let netloc = takeWhile (\<lambda>c. \<not> netloc_end c) y; rest = dropWhile (\<lambda>c. \<not> netloc_end c) y;
         opened = CHR ''['' \<in> set netloc
     in if opened \<noteq> (CHR '']'' \<in> set netloc) then Inl (ValueError ''Invalid IPv6 URL'')
        else res_bind (if opened then chk (fst (partition_at CHR '']'' (snd (snd (partition_at CHR ''['' netloc))))) else Inr ())
               (\<lambda>_. Inr (scheme, hostinfo netloc, fst (partition_at CHR ''?'' (fst (partition_at CHR ''#'' rest))))))"
proof -
  have "take 2 (''//'' @ y) = ''//''" "drop 2 (''//'' @ y) = y" by simp_all
  then show ?thesis
    unfolding urlsplit_def assms by (simp add: Let_def case_prod_beta res_bind_def address_view_def split: sum.split)
qed

lemma urlsplit_hides:
  assumes "is_scheme s" "plain_userinfo u" "query_or_fragment q" "CHR ''?'' \<notin> set r" "CHR ''#'' \<notin> set r"
  shows "map_sum id address_view (urlsplit chk (s @ ''://'' @ u @ ''@'' @ r @ q)) =
    map_sum id address_view (urlsplit chk (s @ ''://'' @ r))"
proof -
  let ?f = "filter (\<lambda>c. \<not> unsafe_char c)"
  define u1 r1 q1 where d: "u1 = ?f u" "r1 = ?f r" "q1 = ?f q"
  have u1: "plain_userinfo u1"
    using assms(2) unfolding d plain_userinfo_def by (induction u) auto
  have q1: "query_or_fragment q1"
    using assms(3) by (cases q) (auto simp: d query_or_fragment_def unsafe_char_def)
  have r1: "CHR ''?'' \<notin> set r1" "CHR ''#'' \<notin> set r1"
    using assms(4,5) by (simp_all add: d)
  have k: "\<not> unsafe_char CHR ''/''" "\<not> unsafe_char CHR ''@''" by (simp_all add: unsafe_char_def)
  have s1: "split_scheme (url_clean (s @ ''://'' @ u @ ''@'' @ r @ q)) = (map char_lower s, ''//'' @ u1 @ CHR ''@'' # r1 @ q1)"
    "split_scheme (url_clean (s @ ''://'' @ r)) = (map char_lower s, ''//'' @ r1)"
    using clean_scheme [OF assms(1), of "''//'' @ u @ ''@'' @ r @ q"] clean_scheme [OF assms(1), of "''//'' @ r"] k
    by (simp_all add: d)
  define n where "n = takeWhile (\<lambda>c. \<not> netloc_end c) r1"
  define p where "p = dropWhile (\<lambda>c. \<not> netloc_end c) r1"
  have p: "CHR ''?'' \<notin> set p" "CHR ''#'' \<notin> set p" using r1 set_dropWhileD by (fastforce simp: p_def)+
  have b: "CHR ''['' \<notin> set u1" "CHR '']'' \<notin> set u1" using u1 by (auto simp: plain_userinfo_def list_all_iff)
  have br: "snd (snd (partition_at CHR ''['' (u1 @ CHR ''@'' # n))) = snd (snd (partition_at CHR ''['' n))"
    unfolding partition_at_def using b(1) by (induction u1) auto
  note hn = hidden_netloc [OF u1 q1 n_def]
  have path: "fst (partition_at CHR ''?'' (fst (partition_at CHR ''#'' (p @ q1)))) = p"
    "fst (partition_at CHR ''?'' (fst (partition_at CHR ''#'' p))) = p"
    using hidden_path [OF q1 p] hidden_path [of "[]", OF _ p] by (simp_all add: query_or_fragment_def)
  have h: "hostinfo (u1 @ CHR ''@'' # n) = hostinfo n" by (simp only: hostinfo_def after_last_append)
  have m: "(CHR ''['' \<in> set (u1 @ CHR ''@'' # n)) = (CHR ''['' \<in> set n)" "(CHR '']'' \<in> set (u1 @ CHR ''@'' # n)) = (CHR '']'' \<in> set n)"
    using b by simp_all
  show ?thesis
    unfolding urlsplit_view [OF s1(1)] urlsplit_view [OF s1(2)] hn Let_def n_def [symmetric] p_def [symmetric] h m br path
    by (rule refl)
qed

text \<open>Both scripts read an address through \<open>address_view\<close> only.\<close>

lemma view_determines:
  assumes "address_view p = address_view p'"
  shows "hostname p = hostname p'" "with_port p = with_port p'"
proof -
  have "url_scheme p = url_scheme p'" "hostinfo (url_netloc p) = hostinfo (url_netloc p')" "url_path p = url_path p'"
    using assms by (simp_all add: address_view_def)
  then show "hostname p = hostname p'" "with_port p = with_port p'" by (simp_all add: hostname_def with_port_def port_def fun_eq_iff)
qed

lemma view_determines': "address_view p = address_view q \<Longrightarrow> hostname p = hostname q \<and> with_port p = with_port q"
  using view_determines by blast

lemma from_view:
  assumes "map_sum id address_view x = map_sum id address_view y"
    "\<And>p q. address_view p = address_view q \<Longrightarrow> f p = f q"
  shows "res_bind x f = res_bind y f"
proof (cases x)
  case (Inl e)
  then show ?thesis using assms(1) by (cases y) auto
next
  case (Inr p)
  then obtain q where "y = Inr q" "address_view p = address_view q" using assms(1) by (cases y) auto
  then show ?thesis using assms(2) [of p q] Inr by simp
qed

lemma contains_append: "contains p b \<Longrightarrow> contains p (a @ b)"
  by (induction a) auto



text \<open>
  A password with a slash, which SQLAlchemy accepts, is not part of the authority of the
  address for \<open>urlsplit\<close>, and is written to the evidence.
\<close>

lemma slash_in_password_leaks:
  "safe_database_url chk ''pg://u:12/secret@db/pay'' = Inr ''pg://u:12/secret@db/pay''"
proof -
  have "urlsplit chk ''pg://u:12/secret@db/pay'' =
    Inr \<lparr>url_scheme = ''pg'', url_netloc = ''u:12'', url_path = ''/secret@db/pay'', url_query = [], url_fragment = []\<rparr>"
    by (simp add: urlsplit_def split_scheme_def url_clean_def unsafe_char_def partition_at_def scheme_char_def
        ascii_letter_def netloc_end_def char_lower_def)
  then show ?thesis
    by (simp add: safe_database_url_def hostname_def hostinfo_def after_last_def partition_at_def with_port_def port_def
        port_value_def is_digit_def digit_value_def urlunsplit_def char_lower_def decimal.simps hex_digit_def)
qed

end
