(* ===== verification/Wire.thy ===== *)
theory Wire
  imports Outbox Json
begin

text \<open>
  Events on the wire: the dictionary form of an envelope (\<open>events.py\<close>), its JSON text as
  \<open>broker.py\<close> sends it, and the decoder of \<open>scripts/kafka_consumer_evidence.py\<close>. Instants
  are written by \<open>datetime.isoformat\<close>, so the calendar of the \<open>datetime\<close> module is here too.
\<close>

subsection \<open>Calendar\<close>

text \<open>
  Proleptic Gregorian ordinals as the \<open>datetime\<close> module computes them: day 1 is
  0001-01-01. A year decomposes into cycles of 400, 100, 4 and 1 years.
\<close>

definition is_leap :: "int \<Rightarrow> bool" where
  "is_leap y \<longleftrightarrow> y mod 4 = 0 \<and> (y mod 100 \<noteq> 0 \<or> y mod 400 = 0)"

definition days_before_year :: "int \<Rightarrow> int" where
  "days_before_year y = (let x = y - 1 in x * 365 + x div 4 - x div 100 + x div 400)"

definition days_before_month :: "bool \<Rightarrow> int \<Rightarrow> int" where
  "days_before_month leap m =
     [0, 31, 59, 90, 120, 151, 181, 212, 243, 273, 304, 334] ! nat (m - 1) + (if 2 < m \<and> leap then 1 else 0)"

definition ymd2ord :: "int \<Rightarrow> int \<Rightarrow> int \<Rightarrow> int" where
  "ymd2ord y m d = days_before_year y + days_before_month (is_leap y) m + d"

definition month_of :: "bool \<Rightarrow> int \<Rightarrow> int" where
  "month_of leap n =
     (let l = (if leap then 1 else 0)
      in if n < 31 then 1 else if n < 59 + l then 2 else if n < 90 + l then 3 else if n < 120 + l then 4
         else if n < 151 + l then 5 else if n < 181 + l then 6 else if n < 212 + l then 7
         else if n < 243 + l then 8 else if n < 273 + l then 9 else if n < 304 + l then 10
         else if n < 334 + l then 11 else 12)"

definition ord2ymd :: "int \<Rightarrow> int \<times> int \<times> int" where
  "ord2ymd n =
     (let n0 = n - 1;
          n400 = n0 div 146097; r400 = n0 mod 146097;
          n100 = r400 div 36524; r100 = r400 mod 36524;
          n4 = r100 div 1461; r4 = r100 mod 1461;
          n1 = r4 div 365; r = r4 mod 365;
          year = n400 * 400 + 1 + n100 * 100 + n4 * 4 + n1;
          leap = (n1 = 3 \<and> (n4 \<noteq> 24 \<or> n100 = 3));
          month = month_of leap r
      in if n1 = 4 \<or> n100 = 4 then (year - 1, 12, 31)
         else (year, month, r - days_before_month leap month + 1))"

subsection \<open>Instants as text\<close>

fun padded :: "nat \<Rightarrow> nat \<Rightarrow> string" where
  "padded 0 n = []"
| "padded (Suc k) n = padded k (n div 10) @ [hex_digit (n mod 10)]"

definition EPOCH_ORDINAL :: int where
  "EPOCH_ORDINAL = 719163"

text \<open>An aware UTC instant, in microseconds since the epoch; the fraction is written unless it is zero.\<close>

definition isoformat :: "datetime \<Rightarrow> string" where
  "isoformat t =
     (let (y, m, d) = ord2ymd (t div 86400000000 + EPOCH_ORDINAL);
          us = t mod 86400000000; s = us div 1000000; f = us mod 1000000
      in padded 4 (nat y) @ ''-'' @ padded 2 (nat m) @ ''-'' @ padded 2 (nat d) @ ''T'' @
         padded 2 (nat (s div 3600)) @ '':'' @ padded 2 (nat (s div 60 mod 60)) @ '':'' @ padded 2 (nat (s mod 60)) @
         (if f = 0 then '''' else ''.'' @ padded 6 (nat f)) @ ''+00:00'')"

text \<open>
  \<open>datetime.fromisoformat\<close> on the texts \<open>isoformat\<close> writes for UTC instants, the only ones
  the program reads; every other text is an error here.
\<close>

definition iso_field :: "nat \<Rightarrow> nat \<Rightarrow> string \<Rightarrow> int" where
  "iso_field pos len s = int (decimal_value (take len (drop pos s)))"

definition fromisoformat :: "string \<Rightarrow> datetime res" where
  "fromisoformat s =
     (let days = ymd2ord (iso_field 0 4 s) (iso_field 5 2 s) (iso_field 8 2 s) - EPOCH_ORDINAL;
          secs = iso_field 11 2 s * 3600 + iso_field 14 2 s * 60 + iso_field 17 2 s;
          frac = (if take 1 (drop 19 s) = ''.'' then iso_field 20 6 s else 0);
          t = days * 86400000000 + secs * 1000000 + frac
      in if isoformat t = s then Inr t else Inl (ValueError (''Invalid isoformat string: '' @ s)))"

subsection \<open>Envelopes\<close>

text \<open>\<open>asdict\<close> lists the fields in their order; four of them are then replaced by text.\<close>

definition as_dict :: "EventEnvelope \<Rightarrow> (string, json) dict" where
  "as_dict e =
     [(''event_type'', JString (event_type_value (evt_type e))),
      (''merchant_id'', JString (evt_merchant_id e)),
      (''aggregate_id'', (case evt_aggregate_id e of Some u \<Rightarrow> JString (str_uuid u) | None \<Rightarrow> JNull)),
      (''payload'', JObject (evt_payload e)),
      (''provider'', (case evt_provider e of Some p \<Rightarrow> JString p | None \<Rightarrow> JNull)),
      (''version'', JInt (evt_version e)),
      (''id'', JString (str_uuid (evt_id e))),
      (''occurred_at'', JString (isoformat (evt_occurred_at e)))]"

definition encode_event :: "EventEnvelope \<Rightarrow> string" where
  "encode_event e = dumps (JObject (as_dict e))"

fun json_text :: "json \<Rightarrow> string res" where
  "json_text (JString s) = Inr s"
| "json_text v = Inl (OtherException ''TypeError'')"

definition item :: "(string, json) dict \<Rightarrow> string \<Rightarrow> json res" where
  "item d k = (case map_of d k of Some v \<Rightarrow> Inr v | None \<Rightarrow> Inl (KeyError k))"

definition item_or :: "(string, json) dict \<Rightarrow> string \<Rightarrow> json \<Rightarrow> json" where
  "item_or d k v = (case map_of d k of Some x \<Rightarrow> x | None \<Rightarrow> v)"

definition read_uuid :: "json \<Rightarrow> uuid res" where
  "read_uuid v = res_bind (json_text v) (\<lambda>s. case parse_uuid s of
     Some u \<Rightarrow> Inr u | None \<Rightarrow> Inl (ValueError ''badly formed hexadecimal UUID string''))"

text \<open>\<open>UUID(v) if v else None\<close>.\<close>

fun truthy :: "json \<Rightarrow> bool" where
  "truthy JNull \<longleftrightarrow> False"
| "truthy (JBool b) \<longleftrightarrow> b"
| "truthy (JString s) \<longleftrightarrow> s \<noteq> []"
| "truthy (JInt i) \<longleftrightarrow> i \<noteq> 0"
| "truthy (JObject ms) \<longleftrightarrow> ms \<noteq> []"

definition read_optional_uuid :: "json \<Rightarrow> uuid option res" where
  "read_optional_uuid v = (if truthy v then res_bind (read_uuid v) (\<lambda>u. Inr (Some u)) else Inr None)"

fun optional_text :: "json \<Rightarrow> string option res" where
  "optional_text JNull = Inr None"
| "optional_text v = res_bind (json_text v) (\<lambda>s. Inr (Some s))"

fun json_members :: "json \<Rightarrow> (string, json) dict res" where
  "json_members (JObject ms) = Inr ms"
| "json_members v = Inl (OtherException ''AttributeError'')"

fun json_number :: "json \<Rightarrow> int res" where
  "json_number (JInt i) = Inr i"
| "json_number v = Inl (OtherException ''TypeError'')"

text \<open>
  The decoder. The fields have the types an envelope declares: a document that carries
  another type in a field the code does not inspect is refused here.
\<close>

definition decode_event :: "string \<Rightarrow> EventEnvelope res" where
  "decode_event raw =
     res_bind (loads raw) (\<lambda>document.
     res_bind (json_members document) (\<lambda>value.
     res_bind (res_bind (item value ''event_type'') json_text) (\<lambda>type_text.
     res_bind (event_type_of type_text) (\<lambda>event_type.
     res_bind (res_bind (item value ''merchant_id'') json_text) (\<lambda>merchant_id.
     res_bind (read_optional_uuid (item_or value ''aggregate_id'' JNull)) (\<lambda>aggregate_id.
     res_bind (res_bind (item value ''payload'') json_members) (\<lambda>payload.
     res_bind (optional_text (item_or value ''provider'' JNull)) (\<lambda>provider.
     res_bind (json_number (item_or value ''version'' (JInt 1))) (\<lambda>version.
     res_bind (res_bind (item value ''id'') read_uuid) (\<lambda>i.
     res_bind (res_bind (item value ''occurred_at'') json_text) (\<lambda>when.
     res_bind (fromisoformat when) (\<lambda>occurred_at.
     Inr \<lparr>evt_type = event_type, evt_merchant_id = merchant_id, evt_aggregate_id = aggregate_id,
          evt_payload = payload, evt_provider = provider, evt_version = version, evt_id = i,
          evt_occurred_at = occurred_at\<rparr>))))))))))))"

subsection \<open>The calendar is consistent\<close>

lemma month_of_bounds:
  assumes "0 \<le> r" "r < 365"
  shows "1 \<le> month_of l r \<and> month_of l r \<le> 12 \<and> days_before_month l (month_of l r) \<le> r \<and>
    r < days_before_month l (month_of l r) + 31"
  using assms by (cases l) (simp_all add: month_of_def days_before_month_def Let_def eval_nat_numeral)

text \<open>The year of four, hundred and four hundred year cycles.\<close>

lemma cycle_year:
  fixes a b c d :: int
  assumes "0 \<le> a" "0 \<le> b" "b \<le> 3" "0 \<le> c" "c \<le> 24" "0 \<le> d" "d \<le> 3"
  defines "y \<equiv> a * 400 + 1 + b * 100 + c * 4 + d"
  shows "days_before_year y = 146097 * a + 36524 * b + 1461 * c + 365 * d"
    and "is_leap y \<longleftrightarrow> d = 3 \<and> (c \<noteq> 24 \<or> b = 3)"
proof -
  have q: "(y - 1) div 4 = 100 * a + 25 * b + c" "(y - 1) div 100 = 4 * a + b" "(y - 1) div 400 = a"
    using assms by (simp_all add: y_def)
  then show "days_before_year y = 146097 * a + 36524 * b + 1461 * c + 365 * d"
    by (simp add: days_before_year_def Let_def y_def)
  have last: "x mod k = 0 \<longleftrightarrow> x = k" if "1 \<le> x" "x \<le> k" for x k :: int
    using that by (cases "x = k") (simp_all add: mod_pos_pos_trivial)
  have "y = (1 + d) + 4 * (100 * a + 25 * b + c)" "y = (1 + c * 4 + d) + 100 * (4 * a + b)"
    "y = (1 + b * 100 + c * 4 + d) + 400 * a"
    by (simp_all add: y_def)
  then have m: "y mod 4 = (1 + d) mod 4" "y mod 100 = (1 + c * 4 + d) mod 100"
    "y mod 400 = (1 + b * 100 + c * 4 + d) mod 400"
    by (metis mod_mult_self2)+
  have m4: "y mod 4 = 0 \<longleftrightarrow> d = 3" unfolding m using assms(6,7) last [of "1 + d" 4] by auto
  have m100: "y mod 100 = 0 \<longleftrightarrow> c = 24 \<and> d = 3"
  proof -
    have "1 + c * 4 + d = 100 \<longleftrightarrow> c = 24 \<and> d = 3" using assms(4-7) by presburger
    then show ?thesis unfolding m using assms(4-7) last [of "1 + c * 4 + d" 100] by simp
  qed
  have m400: "y mod 400 = 0 \<longleftrightarrow> b = 3 \<and> c = 24 \<and> d = 3"
  proof -
    have "1 + b * 100 + c * 4 + d = 400 \<longleftrightarrow> b = 3 \<and> c = 24 \<and> d = 3" using assms(2-7) by presburger
    then show ?thesis unfolding m using assms(2-7) last [of "1 + b * 100 + c * 4 + d" 400] by simp
  qed
  show "is_leap y \<longleftrightarrow> d = 3 \<and> (c \<noteq> 24 \<or> b = 3)"
    unfolding is_leap_def m4 m100 m400 by auto
qed

lemma ord2ymd_regular:
  fixes a b c d r :: int
  assumes "0 \<le> a" "0 \<le> b" "b \<le> 3" "0 \<le> c" "c \<le> 24" "0 \<le> d" "d \<le> 3" "0 \<le> r" "r < 365"
  defines "l \<equiv> d = 3 \<and> (c \<noteq> 24 \<or> b = 3)" and "y \<equiv> a * 400 + 1 + b * 100 + c * 4 + d"
  shows "ymd2ord y (month_of l r) (r - days_before_month l (month_of l r) + 1) =
    146097 * a + 36524 * b + 1461 * c + 365 * d + r + 1"
  using cycle_year [OF assms(1-7)] by (simp add: ymd2ord_def l_def y_def)

lemma ord2ymd_last_day:
  fixes a b c :: int
  assumes "0 \<le> a" "0 \<le> b" "b \<le> 3" "0 \<le> c" "c \<le> 23"
  shows "ymd2ord (a * 400 + b * 100 + c * 4 + 4) 12 31 = 146097 * a + 36524 * b + 1461 * c + 1461"
    and "ymd2ord (a * 400 + 400) 12 31 = 146097 * a + 146097"
proof -
  have e: "a * 400 + b * 100 + c * 4 + 4 = a * 400 + 1 + b * 100 + c * 4 + 3"
    "a * 400 + 400 = a * 400 + 1 + 3 * 100 + 24 * 4 + (3::int)" by simp_all
  have dec: "days_before_month True 12 = 335" by (simp add: days_before_month_def eval_nat_numeral)
  show "ymd2ord (a * 400 + b * 100 + c * 4 + 4) 12 31 = 146097 * a + 36524 * b + 1461 * c + 1461"
    unfolding e(1) ymd2ord_def using cycle_year [of a b c 3] assms dec by simp
  show "ymd2ord (a * 400 + 400) 12 31 = 146097 * a + 146097"
    unfolding e(2) ymd2ord_def using cycle_year [of a 3 24 3] assms dec by simp
qed

lemma ord2ymd_correct:
  assumes n: "1 \<le> n" "n \<le> 3652059" and res: "ord2ymd n = (y, m, d)"
  shows "ymd2ord y m d = n \<and> 1 \<le> y \<and> y \<le> 9999 \<and> 1 \<le> m \<and> m \<le> 12 \<and> 1 \<le> d \<and> d \<le> 31"
proof -
  define n0 where "n0 = n - 1"
  define a where "a = n0 div 146097"
  define r400 where "r400 = n0 mod 146097"
  define b where "b = r400 div 36524"
  define r100 where "r100 = r400 mod 36524"
  define c where "c = r100 div 1461"
  define r4 where "r4 = r100 mod 1461"
  define n1 where "n1 = r4 div 365"
  define r where "r = r4 mod 365"
  note defs = n0_def a_def r400_def b_def r100_def c_def r4_def n1_def r_def
  have dec: "n0 = a * 146097 + r400" "r400 = b * 36524 + r100" "r100 = c * 1461 + r4" "r4 = n1 * 365 + r"
    by (simp_all add: a_def r400_def b_def r100_def c_def r4_def n1_def r_def)
  have pos: "0 \<le> a" "0 \<le> r400" "r400 < 146097" "0 \<le> b" "0 \<le> r100" "r100 < 36524" "0 \<le> c" "0 \<le> r4" "r4 < 1461"
    "0 \<le> n1" "0 \<le> r" "r < 365"
    using n(1) by (simp_all add: defs pos_imp_zdiv_nonneg_iff)
  have le: "a \<le> 24" "b \<le> 4" "c \<le> 24" "n1 \<le> 4" using dec pos n(2) by (simp_all add: n0_def)
  have num: "n = 146097 * a + 36524 * b + 1461 * c + 365 * n1 + r + 1" using dec by (simp add: n0_def)
  have unf: "ord2ymd n = (if n1 = 4 \<or> b = 4 then (a * 400 + 1 + b * 100 + c * 4 + n1 - 1, 12, 31)
     else (a * 400 + 1 + b * 100 + c * 4 + n1, month_of (n1 = 3 \<and> (c \<noteq> 24 \<or> b = 3)) r,
       r - days_before_month (n1 = 3 \<and> (c \<noteq> 24 \<or> b = 3)) (month_of (n1 = 3 \<and> (c \<noteq> 24 \<or> b = 3)) r) + 1))"
    unfolding ord2ymd_def Let_def defs by (rule refl)
  consider (four) "b = 4" | (leap) "b \<noteq> 4" "n1 = 4" | (regular) "b \<le> 3" "n1 \<le> 3" using le by linarith
  then show ?thesis
  proof cases
    case four
    then have "r400 = 146096" "r100 = 0" using dec pos by simp_all
    moreover from this have c: "c = 0" "r4 = 0" by (simp_all add: c_def r4_def)
    moreover from c have "n1 = 0" "r = 0" by (simp_all add: n1_def r_def)
    ultimately have z: "c = 0" "n1 = 0" "r = 0" "n = 146097 * a + 146097" using num four by simp_all
    show ?thesis using res [unfolded unf] ord2ymd_last_day(2) [of a 0 0] pos(1) n(2) four z by (auto simp: add.commute)
  next
    case leap
    have "r = 0" "c \<le> 23" using dec pos leap le by simp_all
    then show ?thesis
      using res [unfolded unf] ord2ymd_last_day(1) [of a b c] leap pos le num n(2) by (auto simp: algebra_simps)
  next
    case regular
    define l where "l = (n1 = 3 \<and> (c \<noteq> 24 \<or> b = 3))"
    have "y = a * 400 + 1 + b * 100 + c * 4 + n1" "m = month_of l r" "d = r - days_before_month l (month_of l r) + 1"
      using res regular by (auto simp: unf l_def)
    moreover have "a * 400 + 1 + b * 100 + c * 4 + n1 \<le> 9999"
      using le regular num n(2) pos by linarith
    ultimately show ?thesis
      using ord2ymd_regular [of a b c n1 r, folded l_def] month_of_bounds [of r l] pos le regular num by simp
  qed
qed

subsection \<open>Instants are read back\<close>

lemma length_padded [simp]: "length (padded k n) = k"
  by (induction k arbitrary: n) auto

lemma decimal_value_padded: "decimal_value (padded k n) = n mod 10 ^ k"
proof (induction k arbitrary: n)
  case (Suc k)
  have "10 * (n div 10 mod 10 ^ k) + n mod 10 = n mod (10 * 10 ^ k)" by (metis mod_mult2_eq add.commute)
  then show ?case by (simp add: Suc.IH decimal_value_snoc)
qed simp

text \<open>The instants a \<open>datetime\<close> can hold: years 1 to 9999.\<close>

definition datetime_ok :: "datetime \<Rightarrow> bool" where
  "datetime_ok t \<longleftrightarrow> 1 \<le> t div 86400000000 + EPOCH_ORDINAL \<and> t div 86400000000 + EPOCH_ORDINAL \<le> 3652059"

lemma iso_field_head: "length p = k \<Longrightarrow> iso_field k n (p @ padded n x @ r) = int (x mod 10 ^ n)"
  by (simp add: iso_field_def decimal_value_padded)

lemma clock_parts:
  fixes t :: int
  defines "us \<equiv> t mod 86400000000"
  defines "s \<equiv> us div 1000000" and "f \<equiv> us mod 1000000"
  shows "t div 86400000000 * 86400000000 + (s div 3600 * 3600 + s div 60 mod 60 * 60 + s mod 60) * 1000000 + f = t"
    and "0 \<le> s div 3600" "s div 3600 < 24" "0 \<le> s div 60 mod 60" "s div 60 mod 60 < 60" "0 \<le> s mod 60" "s mod 60 < 60"
    "0 \<le> f" "f < 1000000"
proof -
  have us: "0 \<le> us" "us < 86400000000" by (simp_all add: us_def)
  then have s: "0 \<le> s" "s < 86400" by (simp_all add: s_def)
  have "s div 3600 = s div 60 div 60" by (simp add: zdiv_zmult2_eq)
  moreover have "s div 60 div 60 * 60 + s div 60 mod 60 = s div 60" "s div 60 * 60 + s mod 60 = s" by simp_all
  ultimately have hms: "s div 3600 * 3600 + s div 60 mod 60 * 60 + s mod 60 = s" by linarith
  have "s * 1000000 + f = us" by (simp add: s_def f_def)
  moreover have "t div 86400000000 * 86400000000 + us = t" by (simp add: us_def)
  ultimately show "t div 86400000000 * 86400000000 + (s div 3600 * 3600 + s div 60 mod 60 * 60 + s mod 60) * 1000000 + f = t"
    unfolding hms by linarith
  show "0 \<le> s div 3600" "s div 3600 < 24" using s by (simp_all add: pos_imp_zdiv_nonneg_iff)
  show "0 \<le> s div 60 mod 60" "s div 60 mod 60 < 60" "0 \<le> s mod 60" "s mod 60 < 60" "0 \<le> f" "f < 1000000"
    by (simp_all add: f_def)
qed

lemma fromisoformat_isoformat:
  assumes "datetime_ok t"
  shows "fromisoformat (isoformat t) = Inr t"
proof -
  obtain y m d where ymd: "ord2ymd (t div 86400000000 + EPOCH_ORDINAL) = (y, m, d)" by (metis prod.collapse)
  define us where "us = t mod 86400000000"
  define s where "s = us div 1000000"
  define f where "f = us mod 1000000"
  have day: "ymd2ord y m d = t div 86400000000 + EPOCH_ORDINAL"
    "1 \<le> y" "y \<le> 9999" "1 \<le> m" "m \<le> 12" "1 \<le> d" "d \<le> 31"
    using ord2ymd_correct [OF _ _ ymd] assms by (simp_all add: datetime_ok_def)
  note clock = clock_parts [of t, folded us_def, folded s_def f_def]
  define tail where "tail = (if f = 0 then '''' else ''.'' @ padded 6 (nat f)) @ ''+00:00''"
  have iso: "isoformat t = padded 4 (nat y) @ ''-'' @ padded 2 (nat m) @ ''-'' @ padded 2 (nat d) @ ''T'' @
      padded 2 (nat (s div 3600)) @ '':'' @ padded 2 (nat (s div 60 mod 60)) @ '':'' @ padded 2 (nat (s mod 60)) @ tail"
    by (simp add: isoformat_def ymd Let_def tail_def s_def f_def us_def)
  have texts: "take 4 (isoformat t) = padded 4 (nat y)" "take 2 (drop 5 (isoformat t)) = padded 2 (nat m)"
    "take 2 (drop 8 (isoformat t)) = padded 2 (nat d)" "take 2 (drop 11 (isoformat t)) = padded 2 (nat (s div 3600))"
    "take 2 (drop 14 (isoformat t)) = padded 2 (nat (s div 60 mod 60))"
    "take 2 (drop 17 (isoformat t)) = padded 2 (nat (s mod 60))" "drop 19 (isoformat t) = tail"
    by (simp_all add: iso)
  have read: "int (decimal_value (padded k (nat x))) = x" if "0 \<le> x" "x < 10 ^ k" for x :: int and k
  proof -
    have "nat x < 10 ^ k" using that by (simp add: nat_less_iff)
    then show ?thesis using that by (simp add: decimal_value_padded)
  qed
  have read2: "int (decimal_value (padded 2 (nat x))) = x" if "0 \<le> x" "x < 100" for x :: int
    using that by (intro read) simp_all
  have small: "y < 10 ^ 4" "f < 10 ^ 6" using day(3) clock(9) by simp_all
  have fields: "iso_field 0 4 (isoformat t) = y" "iso_field 5 2 (isoformat t) = m" "iso_field 8 2 (isoformat t) = d"
    "iso_field 11 2 (isoformat t) = s div 3600" "iso_field 14 2 (isoformat t) = s div 60 mod 60"
    "iso_field 17 2 (isoformat t) = s mod 60"
    unfolding iso_field_def drop_0 texts
    by (rule read [of y 4, OF _ small(1)], use day(2) in linarith) (rule read2; use day clock(2-7) in linarith)+
  have frac: "(if take 1 (drop 19 (isoformat t)) = ''.'' then iso_field 20 6 (isoformat t) else 0) = f"
  proof (cases "f = 0")
    case True
    then show ?thesis by (simp add: texts tail_def)
  next
    case False
    then have "take 6 (drop 20 (isoformat t)) = padded 6 (nat f)" "take 1 (drop 19 (isoformat t)) = ''.''"
      by (simp_all add: iso tail_def)
    then show ?thesis using read [OF clock(8) small(2)] by (simp add: iso_field_def)
  qed
  have "(ymd2ord y m d - EPOCH_ORDINAL) * 86400000000 +
      (s div 3600 * 3600 + s div 60 mod 60 * 60 + s mod 60) * 1000000 + f = t"
    using clock(1) day(1) by simp
  then show ?thesis by (simp only: fromisoformat_def Let_def fields frac) simp
qed

subsection \<open>Events are read back\<close>

definition envelope_ok :: "EventEnvelope \<Rightarrow> bool" where
  "envelope_ok e \<longleftrightarrow>
     evt_id e < 2 ^ 128 \<and> (\<forall>u. evt_aggregate_id e = Some u \<longrightarrow> u < 2 ^ 128) \<and>
     json_dict (JObject (evt_payload e)) \<and> datetime_ok (evt_occurred_at e)"

lemma as_dict_ok: "json_dict (JObject (evt_payload e)) \<Longrightarrow> json_dict (JObject (as_dict e))"
  by (simp add: as_dict_def split: option.splits)

lemma decode_encode:
  assumes "envelope_ok e"
  shows "decode_event (encode_event e) = Inr e"
proof -
  have ids: "parse_uuid (str_uuid (evt_id e)) = Some (evt_id e)"
    "evt_aggregate_id e = Some u \<Longrightarrow> parse_uuid (str_uuid u) = Some u" for u
    using assms parse_str_uuid by (auto simp: envelope_ok_def)
  have "str_uuid u \<noteq> []" for u by (simp add: str_uuid_def Let_def)
  then have agg: "read_optional_uuid (case evt_aggregate_id e of Some u \<Rightarrow> JString (str_uuid u) | None \<Rightarrow> JNull) =
      Inr (evt_aggregate_id e)"
    using ids(2) by (auto simp: read_optional_uuid_def read_uuid_def split: option.splits)
  have prov: "optional_text (case evt_provider e of Some p \<Rightarrow> JString p | None \<Rightarrow> JNull) = Inr (evt_provider e)"
    by (simp split: option.splits)
  have lds: "loads (encode_event e) = Inr (JObject (as_dict e))"
    unfolding encode_event_def using assms by (intro loads_dumps as_dict_ok) (simp add: envelope_ok_def)
  have at: "fromisoformat (isoformat (evt_occurred_at e)) = Inr (evt_occurred_at e)"
    using assms by (intro fromisoformat_isoformat) (simp add: envelope_ok_def)
  show ?thesis
    by (simp add: decode_event_def lds item_def item_or_def as_dict_def agg prov at ids(1) read_uuid_def
        del: res_bind_Inr)
qed

text \<open>
  C22. An event published to Kafka and decoded by the consumer is the event that was
  published: its type, merchant, identifiers, payload, provider, version and the instant at
  which it occurred survive the JSON text, for every envelope with 128-bit identifiers, an
  instant a \<open>datetime\<close> can hold and a dictionary as payload.
\<close>

theorem event_round_trip:
  assumes "envelope_ok e"
  shows "decode_event (encode_event e) = Inr e"
  by (rule decode_encode [OF assms])

lemma sample_envelope_ok: "i < 1000 \<Longrightarrow> envelope_ok (sample_event i)"
  by (simp add: envelope_ok_def sample_event_def new_EventEnvelope_def uuid4_def utcnow_def Let_def
      sample_world_def datetime_ok_def EPOCH_ORDINAL_def)

theorem event_round_trip_witness:
  "envelope_ok (sample_event 7) \<and> decode_event (encode_event (sample_event 7)) = Inr (sample_event 7)"
  using event_round_trip [of "sample_event 7"] sample_envelope_ok [of 7] by simp

end
