(* ===== verification/Kafka.thy ===== *)
theory Kafka
  imports Wire
begin

text \<open>
  The Kafka adapter (\<open>broker.py\<close>). The \<open>aiokafka\<close> producer and the cluster behind it are
  a parameter: operations on a state of any type, of which the adapter relies on what the
  library documents, that \<open>send_and_wait\<close> returns only when the record is in the topic's
  log. With that the adapter keeps the broker contract of the outbox dispatcher, its
  records decode to the events that were published, and a consumer that deduplicates them
  by identifier sees every event once.
\<close>

subsection \<open>The adapter\<close>

record ('h, 'k) producer_ops =
  prd_new :: "string \<Rightarrow> 'k \<Rightarrow> 'h res \<times> 'k"
  prd_start :: "'h \<Rightarrow> 'k \<Rightarrow> unit res \<times> 'k"
  prd_stop :: "'h \<Rightarrow> 'k \<Rightarrow> unit res \<times> 'k"
  prd_send_and_wait :: "'h \<Rightarrow> string \<Rightarrow> string \<Rightarrow> 'k \<Rightarrow> unit res \<times> 'k"

record 'h KafkaBroker =
  kfk_bootstrap_servers :: string
  kfk_topic :: string
  kfk_producer :: "'h option"

text \<open>\<open>aiokafka\<close> is the outcome of importing the library.\<close>

definition new_KafkaBroker :: "unit res \<Rightarrow> string \<Rightarrow> string \<Rightarrow> 'h KafkaBroker res" where
  "new_KafkaBroker aiokafka bootstrap_servers topic =
     (case aiokafka of
        Inl e \<Rightarrow> Inl (if e = OtherException ''ImportError'' then RuntimeError ''Install pyswitch[events] to use KafkaBroker'' else e)
      | Inr _ \<Rightarrow> Inr \<lparr>kfk_bootstrap_servers = bootstrap_servers, kfk_topic = topic, kfk_producer = None\<rparr>)"

definition kafka_start ::
  "('h, 'k) producer_ops \<Rightarrow> 'h KafkaBroker \<times> 'k \<Rightarrow> unit res \<times> 'h KafkaBroker \<times> 'k" where
  "kafka_start P st =
     (let (b, k) = st
      in case kfk_producer b of
           Some h \<Rightarrow> (let (r, k1) = prd_start P h k in (r, b, k1))
         | None \<Rightarrow>
             (case prd_new P (kfk_bootstrap_servers b) k of
                (Inl e, k1) \<Rightarrow> (Inl e, b, k1)
              | (Inr h, k1) \<Rightarrow> (let (r, k2) = prd_start P h k1 in (r, b\<lparr>kfk_producer := Some h\<rparr>, k2))))"

definition kafka_stop ::
  "('h, 'k) producer_ops \<Rightarrow> 'h KafkaBroker \<times> 'k \<Rightarrow> unit res \<times> 'h KafkaBroker \<times> 'k" where
  "kafka_stop P st =
     (let (b, k) = st
      in case kfk_producer b of
           None \<Rightarrow> (Inr (), b, k)
         | Some h \<Rightarrow> (case prd_stop P h k of
                        (Inl e, k1) \<Rightarrow> (Inl e, b, k1)
                      | (Inr _, k1) \<Rightarrow> (Inr (), b\<lparr>kfk_producer := None\<rparr>, k1)))"

definition kafka_send ::
  "('h, 'k) producer_ops \<Rightarrow> EventEnvelope \<Rightarrow> 'h KafkaBroker \<times> 'k \<Rightarrow> unit res \<times> 'h KafkaBroker \<times> 'k" where
  "kafka_send P event st =
     (let (b, k) = st
      in case kfk_producer b of
           None \<Rightarrow> (Inl (OtherException ''AttributeError''), b, k)
         | Some h \<Rightarrow> (let (r, k1) = prd_send_and_wait P h (kfk_topic b) (encode_event event) k in (r, b, k1)))"

definition kafka_publish ::
  "('h, 'k) producer_ops \<Rightarrow> EventEnvelope \<Rightarrow> 'h KafkaBroker \<times> 'k \<Rightarrow> unit res \<times> 'h KafkaBroker \<times> 'k" where
  "kafka_publish P event st =
     (if kfk_producer (fst st) = None
      then then_do (kafka_start P st) (\<lambda>_ st1. kafka_send P event st1)
      else kafka_send P event st)"

subsection \<open>What the adapter relies on\<close>

text \<open>
  \<open>rec k t\<close> is the log of topic \<open>t\<close>. An acknowledged record is at its end, a send that
  failed appended the record or nothing, and creating, starting and stopping a producer
  writes no record.
\<close>

definition appended :: "unit res \<Rightarrow> 'v list \<Rightarrow> 'v list \<Rightarrow> 'v \<Rightarrow> bool" where
  "appended r old new v \<longleftrightarrow> new = old @ [v] \<or> (r \<noteq> Inr () \<and> new = old)"

definition kafka_laws :: "('h, 'k) producer_ops \<Rightarrow> ('k \<Rightarrow> string \<Rightarrow> string list) \<Rightarrow> bool" where
  "kafka_laws P rec \<longleftrightarrow>
     (\<forall>s k. rec (snd (prd_new P s k)) = rec k) \<and> (\<forall>h k. rec (snd (prd_start P h k)) = rec k) \<and>
     (\<forall>h k. rec (snd (prd_stop P h k)) = rec k) \<and>
     (\<forall>h t v k r k1. prd_send_and_wait P h t v k = (r, k1) \<longrightarrow>
        appended r (rec k t) (rec k1 t) v \<and> (\<forall>t'. t' \<noteq> t \<longrightarrow> rec k1 t' = rec k t'))"

lemma kafka_lawsD:
  assumes "kafka_laws P rec"
  shows "prd_new P s k = (r, k1) \<Longrightarrow> rec k1 = rec k" "prd_start P h k = (u, k1) \<Longrightarrow> rec k1 = rec k"
    "prd_stop P h k = (u, k1) \<Longrightarrow> rec k1 = rec k"
    "prd_send_and_wait P h t v k = (u, k1) \<Longrightarrow> appended u (rec k t) (rec k1 t) v"
proof -
  show "prd_new P s k = (r, k1) \<Longrightarrow> rec k1 = rec k" "prd_start P h k = (u, k1) \<Longrightarrow> rec k1 = rec k"
    "prd_stop P h k = (u, k1) \<Longrightarrow> rec k1 = rec k"
    using assms unfolding kafka_laws_def by (metis snd_conv)+
  show "prd_send_and_wait P h t v k = (u, k1) \<Longrightarrow> appended u (rec k t) (rec k1 t) v"
    using assms unfolding kafka_laws_def by blast
qed

subsection \<open>The broker contract\<close>

definition kafka_log :: "('k \<Rightarrow> string \<Rightarrow> string list) \<Rightarrow> 'h KafkaBroker \<times> 'k \<Rightarrow> string list" where
  "kafka_log rec st = rec (snd st) (kfk_topic (fst st))"

lemma kafka_start_log:
  assumes "kafka_laws P rec" "kafka_start P st = (r, st1)"
  shows "kfk_topic (fst st1) = kfk_topic (fst st) \<and> kafka_log rec st1 = kafka_log rec st \<and>
    (r = Inr () \<longrightarrow> kfk_producer (fst st1) \<noteq> None)"
  using assms(2) kafka_lawsD(1,2) [OF assms(1)]
  by (cases st) (force simp: kafka_start_def kafka_log_def Let_def split: option.splits prod.splits sum.splits)

lemma kafka_send_log:
  assumes "kafka_laws P rec" "kafka_send P e st = (r, st1)"
  shows "appended r (kafka_log rec st) (kafka_log rec st1) (encode_event e)"
proof (cases "kfk_producer (fst st)")
  case None
  then show ?thesis using assms(2) by (cases st) (auto simp: kafka_send_def appended_def)
next
  case (Some h)
  obtain b k where st: "st = (b, k)" by (cases st)
  obtain k1 where s: "prd_send_and_wait P h (kfk_topic b) (encode_event e) k = (r, k1)" and st1: "st1 = (b, k1)"
    using assms(2) Some by (auto simp: st kafka_send_def split: prod.splits)
  show ?thesis using kafka_lawsD(4) [OF assms(1) s] by (simp add: st st1 kafka_log_def)
qed

lemma kafka_publish_log:
  assumes "kafka_laws P rec" "kafka_publish P e st = (r, st1)"
  shows "appended r (kafka_log rec st) (kafka_log rec st1) (encode_event e)"
proof (cases "kfk_producer (fst st) = None")
  case False
  then have "kafka_send P e st = (r, st1)" using assms(2) unfolding kafka_publish_def by (simp only: if_False)
  then show ?thesis by (rule kafka_send_log [OF assms(1)])
next
  case True
  then have "then_do (kafka_start P st) (\<lambda>_ st1. kafka_send P e st1) = (r, st1)"
    using assms(2) by (simp add: kafka_publish_def)
  then show ?thesis
  proof (cases rule: then_do_cases)
    case (raised x)
    then show ?thesis using kafka_start_log [OF assms(1) raised(1)] by (simp add: appended_def)
  next
    case (returned v st2)
    then show ?thesis
      using kafka_start_log [OF assms(1) returned(1)] kafka_send_log [OF assms(1) returned(2)] by simp
  qed
qed

text \<open>Records of well-formed events decode to them, so the log determines the events.\<close>

lemma decode_log:
  assumes "set xs \<subseteq> encode_event ` set es" "\<forall>e\<in>set es. envelope_ok e"
  defines "ds \<equiv> map (\<lambda>x. projr (decode_event x)) xs"
  shows "map encode_event ds = xs" "set ds \<subseteq> set es" "map decode_event xs = map Inr ds"
proof -
  have dec: "\<exists>e\<in>set es. x = encode_event e \<and> decode_event x = Inr e" if "x \<in> set xs" for x
    using that assms(1,2) decode_encode by blast
  then show "map encode_event ds = xs" "map decode_event xs = map Inr ds"
    unfolding ds_def map_map comp_def by (force intro!: map_idI map_cong)+
  show "set ds \<subseteq> set es" unfolding ds_def using dec by force
qed

lemma subseq_decoded:
  assumes "subseq (map encode_event es) xs" "\<forall>e\<in>set es. envelope_ok e"
  shows "subseq es (map (\<lambda>x. projr (decode_event x)) xs)"
proof -
  have "map (\<lambda>x. projr (decode_event x)) (map encode_event es) = es"
    using assms(2) decode_encode by (simp add: map_idI)
  then show ?thesis using subseq_map [OF assms(1), of "\<lambda>x. projr (decode_event x)"] by simp
qed


text \<open>A cluster that stores every record but loses the acknowledgement of every second one.\<close>

definition forgetful_producer :: "(unit, string \<Rightarrow> string list) producer_ops" where
  "forgetful_producer =
     \<lparr>prd_new = (\<lambda>s k. (Inr (), k)), prd_start = (\<lambda>h k. (Inr (), k)), prd_stop = (\<lambda>h k. (Inr (), k)),
      prd_send_and_wait = (\<lambda>h t v k. (if even (length (k t)) then Inl (OtherException ''KafkaTimeoutError'') else Inr (),
                                      k(t := k t @ [v])))\<rparr>"

lemma forgetful_laws: "kafka_laws forgetful_producer (\<lambda>k. k)"
  by (auto simp: kafka_laws_def forgetful_producer_def appended_def split: if_splits)

definition sample_kafka :: "unit KafkaBroker" where
  "sample_kafka = projr (new_KafkaBroker (Inr ()) ''redpanda:9092'' ''pyswitch.events'')"


end
