(* ===== verification/Runtime.thy ===== *)
theory Runtime
  imports Kafka Config Redis
begin

text \<open>
  Composition of the profiles (\<open>runtime.py\<close>): which store, coordinator, limiter and broker
  the settings select, what raises when a profile cannot be built, and the life cycle of
  the dispatcher, the Kafka producer and the external resources. The optional libraries
  and the servers behind them are parameters.
\<close>

subsection \<open>The parts a profile selects\<close>

text \<open>
  Importing a library and creating its client, from an address: the SQLAlchemy session
  factory with its engine, the Redis client, the Kafka library.
\<close>

record ('m, 'c) libraries =
  lib_session_factory :: "string \<Rightarrow> 'm res"
  lib_redis_from_url :: "string \<Rightarrow> 'c res"
  lib_aiokafka :: "unit res"

datatype 'm repository = MemoryRepository InMemoryPaymentStore | SqlRepository 'm

datatype 'c coordinator = MemoryCoordinator MemoryIdempotencyCoordinator | RedisCoordinator 'c RedisIdempotencyCoordinator

text \<open>
  The limiters. A refill rate may be any float: with an infinite rate or \<open>nan\<close> the
  in-memory limiter is still constructed, but its arithmetic is outside the model.
\<close>

datatype 'c limiter =
    MemoryLimiter InMemoryTokenBucketLimiter
  | NonFiniteLimiter int float_value
  | RedisLimiter 'c int float_value

datatype 'h broker = MemoryBroker InMemoryBroker | KafkaEvents "'h KafkaBroker"

datatype ('m, 'c) resource = EngineResource 'm | ClientResource 'c

record ('m, 'c, 'h) Runtime =
  rtm_settings :: Settings
  rtm_store :: "'m repository"
  rtm_idempotency :: "'c coordinator"
  rtm_rate_limiter :: "'c limiter"
  rtm_broker :: "'h broker"
  rtm_dispatcher :: OutboxDispatcher
  rtm_resources :: "('m, 'c) resource list"
  rtm_started :: bool
  rtm_storage_resource :: "'m option"
  rtm_coordination_resource :: "'c option"

subsection \<open>Building\<close>

text \<open>
  \<open>except ImportError\<close> and then \<open>except Exception\<close>, each turned into a
  \<open>RuntimeConfigurationError\<close>, which is a \<open>RuntimeError\<close>.
\<close>

definition configuration_error :: "string \<Rightarrow> string \<Rightarrow> exn \<Rightarrow> exn" where
  "configuration_error missing failed e =
     (if e = OtherException ''ImportError'' then RuntimeError missing
      else if is_Exception e then RuntimeError failed else e)"

definition build_store :: "('m, 'c) libraries \<Rightarrow> Settings \<Rightarrow> ('m repository \<times> 'm option) res" where
  "build_store L s =
     (if set_storage_backend s = ''memory'' then Inr (MemoryRepository new_InMemoryPaymentStore, None)
      else case lib_session_factory L (set_database_url s) of
             Inr maker \<Rightarrow> Inr (SqlRepository maker, Some maker)
           | Inl e \<Rightarrow> Inl (configuration_error
               ''PostgreSQL storage requires the optional db dependencies; install pyswitch[db]''
               ''PostgreSQL storage could not be configured from PYSWITCH_DATABASE_URL'' e))"

text \<open>\<open>refill <= 0\<close> is false for \<open>nan\<close> and for an infinite rate.\<close>

definition build_memory_limiter :: "int \<Rightarrow> float_value \<Rightarrow> 'c limiter res" where
  "build_memory_limiter capacity refill =
     (case refill of
        Val (Fin x) \<Rightarrow> (case new_InMemoryTokenBucketLimiter capacity x of Inl e \<Rightarrow> Inl e | Inr l \<Rightarrow> Inr (MemoryLimiter l))
      | _ \<Rightarrow> if capacity < 1 \<or> refill = Val NegInf
             then Inl (ValueError ''Token bucket capacity and refill must be positive'')
             else Inr (NonFiniteLimiter capacity refill))"

definition build_coordination :: "('m, 'c) libraries \<Rightarrow> Settings \<Rightarrow> ('c coordinator \<times> 'c limiter \<times> 'c option) res" where
  "build_coordination L s =
     (if set_coordination_backend s = ''memory''
      then (case build_memory_limiter (set_rate_limit_capacity s) (set_rate_limit_refill_per_second s) of
              Inl e \<Rightarrow> Inl e
            | Inr l \<Rightarrow> Inr (MemoryCoordinator new_MemoryIdempotencyCoordinator, l, None))
      else case lib_redis_from_url L (set_redis_url s) of
             Inr client \<Rightarrow> Inr (RedisCoordinator client \<lparr>rdc_processing_ttl_seconds = 90, rdc_poll_seconds = 5 / 100\<rparr>,
                               RedisLimiter client (set_rate_limit_capacity s) (set_rate_limit_refill_per_second s),
                               Some client)
           | Inl e \<Rightarrow> Inl (configuration_error
               ''Redis coordination requires the optional redis dependency; install pyswitch[redis]''
               ''Redis coordination could not be configured from PYSWITCH_REDIS_URL'' e))"

definition build_events :: "('m, 'c) libraries \<Rightarrow> Settings \<Rightarrow> 'h broker res" where
  "build_events L s =
     (if set_event_backend s = ''memory'' then Inr (MemoryBroker new_InMemoryBroker)
      else case new_KafkaBroker (lib_aiokafka L) (set_kafka_bootstrap_servers s) (set_kafka_topic s) of
             Inr b \<Rightarrow> Inr (KafkaEvents b)
           | Inl e \<Rightarrow> Inl (configuration_error
               ''Kafka events require the optional events dependency; install pyswitch[events]''
               ''Kafka events could not be configured from PYSWITCH_KAFKA_BOOTSTRAP_SERVERS'' e))"

text \<open>Both stores have an \<open>append\<close> method, so the outbox is always the store.\<close>

definition build_runtime :: "('m, 'c) libraries \<Rightarrow> Settings \<Rightarrow> ('m, 'c, 'h) Runtime res" where
  "build_runtime L s =
     res_bind (build_store L s) (\<lambda>(store, storage_resource).
     res_bind (build_coordination L s) (\<lambda>(idempotency, rate_limiter, coordination_resource).
     res_bind (build_events L s) (\<lambda>broker.
     res_bind (new_OutboxDispatcher (25 / 100) 3 (1 / 10) 1) (\<lambda>dispatcher.
     Inr \<lparr>rtm_settings = s, rtm_store = store, rtm_idempotency = idempotency, rtm_rate_limiter = rate_limiter,
          rtm_broker = broker, rtm_dispatcher = dispatcher,
          rtm_resources = (case storage_resource of None \<Rightarrow> [] | Some m \<Rightarrow> [EngineResource m]) @
                          (case coordination_resource of None \<Rightarrow> [] | Some c \<Rightarrow> [ClientResource c]),
          rtm_started = False, rtm_storage_resource = storage_resource,
          rtm_coordination_resource = coordination_resource\<rparr>))))"

subsection \<open>Life cycle\<close>

text \<open>
  The servers as the runtime reaches them: the Kafka producer, and closing a resource
  (\<open>aclose\<close> of the Redis client, \<open>dispose\<close> of the engine), on a state of any type.
\<close>

type_synonym ('m, 'c, 'h, 'k) rt = "('m, 'c, 'h) Runtime \<times> 'k"

definition start_broker :: "('h, 'k) producer_ops \<Rightarrow> ('m, 'c, 'h, 'k) rt \<Rightarrow> unit res \<times> ('m, 'c, 'h, 'k) rt" where
  "start_broker P st =
     (let (R, k) = st
      in case rtm_broker R of
           MemoryBroker b \<Rightarrow> (Inr (), st)
         | KafkaEvents b \<Rightarrow>
             (case kafka_start P (b, k) of
                (Inr _, b1, k1) \<Rightarrow> (Inr (), R\<lparr>rtm_broker := KafkaEvents b1\<rparr>, k1)
              | (Inl e, b1, k1) \<Rightarrow>
                  (Inl (if is_Exception e
                        then RuntimeError ''Kafka runtime startup failed; check PYSWITCH_KAFKA_BOOTSTRAP_SERVERS'' else e),
                   R\<lparr>rtm_broker := KafkaEvents b1\<rparr>, k1)))"

definition runtime_start :: "('h, 'k) producer_ops \<Rightarrow> ('m, 'c, 'h, 'k) rt \<Rightarrow> unit res \<times> ('m, 'c, 'h, 'k) rt" where
  "runtime_start P st =
     then_do (start_broker P st)
       (\<lambda>_ (R, k). (Inr (), R\<lparr>rtm_dispatcher := start (rtm_dispatcher R), rtm_started := True\<rparr>, k))"

definition stop_broker :: "('h, 'k) producer_ops \<Rightarrow> ('m, 'c, 'h, 'k) rt \<Rightarrow> unit res \<times> ('m, 'c, 'h, 'k) rt" where
  "stop_broker P st =
     (let (R, k) = st
      in case rtm_broker R of
           MemoryBroker b \<Rightarrow> (Inr (), st)
         | KafkaEvents b \<Rightarrow>
             if rtm_started R
             then (let (r, b1, k1) = kafka_stop P (b, k) in (r, R\<lparr>rtm_broker := KafkaEvents b1\<rparr>, k1))
             else (Inr (), st))"

fun close_all :: "('r \<Rightarrow> 'k \<Rightarrow> unit res \<times> 'k) \<Rightarrow> 'r list \<Rightarrow> 'k \<Rightarrow> unit res \<times> 'k" where
  "close_all cls [] k = (Inr (), k)"
| "close_all cls (r # rs) k = then_do (cls r k) (\<lambda>_ k1. close_all cls rs k1)"

definition runtime_close ::
  "('h, 'k) producer_ops \<Rightarrow> (('m, 'c) resource \<Rightarrow> 'k \<Rightarrow> unit res \<times> 'k) \<Rightarrow> ('m, 'c, 'h, 'k) rt \<Rightarrow> unit res \<times> ('m, 'c, 'h, 'k) rt" where
  "runtime_close P cls st =
     then_do (stop_broker P ((fst st)\<lparr>rtm_dispatcher := stop (rtm_dispatcher (fst st))\<rparr>, snd st))
       (\<lambda>_ (R, k). case close_all cls (rtm_resources R) k of
                     (Inl e, k1) \<Rightarrow> (Inl e, R, k1)
                   | (Inr _, k1) \<Rightarrow> (Inr (), R\<lparr>rtm_started := False\<rparr>, k1))"

subsection \<open>Readiness\<close>

fun class_name :: "exn \<Rightarrow> string" where
  "class_name (ProviderError _ _) = ''ProviderError''"
| "class_name (IdempotencyConflict _) = ''IdempotencyConflict''"
| "class_name (IdempotencyUnavailable _) = ''IdempotencyUnavailable''"
| "class_name (RefundError _ _) = ''RefundError''"
| "class_name (BrokerUnavailable _) = ''BrokerUnavailable''"
| "class_name (RateLimitUnavailable _) = ''RateLimitUnavailable''"
| "class_name (LookupError _) = ''LookupError''"
| "class_name (ValueError _) = ''ValueError''"
| "class_name (RuntimeError _) = ''RuntimeError''"
| "class_name (KeyError _) = ''KeyError''"
| "class_name IndexError = ''IndexError''"
| "class_name (OtherException n) = n"
| "class_name CancelledError = ''CancelledError''"

record dependency =
  dep_backend :: string
  dep_status :: string
  dep_error :: "string option"

text \<open>A probe of an external dependency; \<open>None\<close> is the missing resource, whose attribute access raises.\<close>

definition probe :: "string \<Rightarrow> unit res option \<Rightarrow> dependency res" where
  "probe backend outcome =
     (case (case outcome of None \<Rightarrow> Inl (OtherException ''AttributeError'') | Some r \<Rightarrow> r) of
        Inr _ \<Rightarrow> Inr \<lparr>dep_backend = backend, dep_status = ''ready'', dep_error = None\<rparr>
      | Inl e \<Rightarrow> if is_Exception e
                 then Inr \<lparr>dep_backend = backend, dep_status = ''unavailable'', dep_error = Some (class_name e)\<rparr>
                 else Inl e)"

definition readiness ::
  "('m \<Rightarrow> unit res) \<Rightarrow> ('c \<Rightarrow> unit res) \<Rightarrow> ('m, 'c, 'h) Runtime \<Rightarrow> (string, dependency) dict res" where
  "readiness select_one ping R =
     (let s = rtm_settings R; memory = \<lparr>dep_backend = ''memory'', dep_status = ''ready'', dep_error = None\<rparr>
      in res_bind (if set_storage_backend s = ''memory'' then Inr memory
                   else probe ''postgres'' (map_option select_one (rtm_storage_resource R))) (\<lambda>storage.
         res_bind (if set_coordination_backend s = ''memory'' then Inr memory
                   else probe ''redis'' (map_option ping (rtm_coordination_resource R))) (\<lambda>coordination.
         Inr [(''storage'', storage), (''coordination'', coordination),
              (''events'', if set_event_backend s = ''memory'' then memory
                           else \<lparr>dep_backend = ''kafka'',
                                 dep_status = (if rtm_started R then ''ready'' else ''starting''), dep_error = None\<rparr>)])))"

subsection \<open>What is built\<close>

definition limiter_setting_ok :: "int \<Rightarrow> float_value \<Rightarrow> bool" where
  "limiter_setting_ok capacity refill \<longleftrightarrow>
     1 \<le> capacity \<and> (case refill of NaN \<Rightarrow> True | Val x \<Rightarrow> Fin 0 < x)"

lemma build_memory_limiter_cases:
  "case build_memory_limiter c f :: 'c limiter res of
     Inl e \<Rightarrow> \<not> limiter_setting_ok c f \<and> (\<exists>m. e = ValueError m)
   | Inr l \<Rightarrow> limiter_setting_ok c f"
  by (auto simp: build_memory_limiter_def limiter_setting_ok_def new_InMemoryTokenBucketLimiter_def less_pyfloat_def
      less_eq_pyfloat_def split: float_value.splits pyfloat.splits)

definition profile_ok :: "Settings \<Rightarrow> ('m, 'c, 'h) Runtime \<Rightarrow> bool" where
  "profile_ok s R \<longleftrightarrow>
     rtm_settings R = s \<and> \<not> rtm_started R \<and>
     dsp_task (rtm_dispatcher R) = None \<and> 0 < dsp_max_attempts (rtm_dispatcher R) \<and>
     (if set_storage_backend s = ''memory''
      then rtm_store R = MemoryRepository new_InMemoryPaymentStore \<and> rtm_storage_resource R = None
      else \<exists>m. rtm_store R = SqlRepository m \<and> rtm_storage_resource R = Some m) \<and>
     (if set_coordination_backend s = ''memory''
      then rtm_idempotency R = MemoryCoordinator new_MemoryIdempotencyCoordinator \<and> rtm_coordination_resource R = None \<and>
           limiter_setting_ok (set_rate_limit_capacity s) (set_rate_limit_refill_per_second s)
      else \<exists>c i. rtm_idempotency R = RedisCoordinator c i \<and> rtm_coordination_resource R = Some c) \<and>
     (if set_event_backend s = ''memory'' then rtm_broker R = MemoryBroker new_InMemoryBroker
      else \<exists>b. rtm_broker R = KafkaEvents b \<and> kfk_producer b = None \<and> kfk_topic b = set_kafka_topic s) \<and>
     rtm_resources R = (case rtm_storage_resource R of None \<Rightarrow> [] | Some m \<Rightarrow> [EngineResource m]) @
                       (case rtm_coordination_resource R of None \<Rightarrow> [] | Some c \<Rightarrow> [ClientResource c])"

lemma configuration_error_cases:
  "(\<exists>m. configuration_error a b e = RuntimeError m) \<or> \<not> is_Exception (configuration_error a b e)"
  by (simp add: configuration_error_def)

lemma build_store_cases:
  "case build_store L s of
     Inl e \<Rightarrow> set_storage_backend s \<noteq> ''memory'' \<and> ((\<exists>m. e = RuntimeError m) \<or> \<not> is_Exception e)
   | Inr (st, m) \<Rightarrow> if set_storage_backend s = ''memory'' then st = MemoryRepository new_InMemoryPaymentStore \<and> m = None
                   else \<exists>x. st = SqlRepository x \<and> m = Some x"
  using configuration_error_cases by (auto simp: build_store_def split: sum.splits)

lemma build_coordination_cases:
  fixes L :: "('m, 'c) libraries"
  shows "case build_coordination L s of
     Inl e \<Rightarrow> (set_coordination_backend s \<noteq> ''memory'' \<and> ((\<exists>m. e = RuntimeError m) \<or> \<not> is_Exception e)) \<or>
       (set_coordination_backend s = ''memory'' \<and> (\<exists>m. e = ValueError m) \<and>
        \<not> limiter_setting_ok (set_rate_limit_capacity s) (set_rate_limit_refill_per_second s))
   | Inr (i, l, c) \<Rightarrow>
       if set_coordination_backend s = ''memory''
       then i = MemoryCoordinator new_MemoryIdempotencyCoordinator \<and> c = None \<and>
            limiter_setting_ok (set_rate_limit_capacity s) (set_rate_limit_refill_per_second s)
       else \<exists>x j. i = RedisCoordinator x j \<and> c = Some x"
  using configuration_error_cases
    build_memory_limiter_cases [where 'c = 'c, of "set_rate_limit_capacity s" "set_rate_limit_refill_per_second s"]
  by (auto simp: build_coordination_def split: sum.splits)

lemma build_events_cases:
  "case build_events L s :: 'h broker res of
     Inl e \<Rightarrow> set_event_backend s \<noteq> ''memory'' \<and> ((\<exists>m. e = RuntimeError m) \<or> \<not> is_Exception e)
   | Inr b \<Rightarrow> if set_event_backend s = ''memory'' then b = MemoryBroker new_InMemoryBroker
             else \<exists>k. b = KafkaEvents k \<and> kfk_producer k = None \<and> kfk_topic k = set_kafka_topic s"
  using configuration_error_cases by (auto simp: build_events_def new_KafkaBroker_def split: sum.splits)

lemma build_runtime_parts:
  fixes L :: "('m, 'c) libraries" and s :: Settings
  shows "(case build_runtime L s :: ('m, 'c, 'h) Runtime res of
      Inr R \<Rightarrow> profile_ok s R
    | Inl e \<Rightarrow> (\<exists>m. e = RuntimeError m) \<or> \<not> is_Exception e \<or>
        ((\<exists>m. e = ValueError m) \<and> set_coordination_backend s = ''memory'' \<and>
         \<not> limiter_setting_ok (set_rate_limit_capacity s) (set_rate_limit_refill_per_second s))) \<and>
    (set_storage_backend s = ''memory'' \<and> set_coordination_backend s = ''memory'' \<and> set_event_backend s = ''memory'' \<longrightarrow>
      ((\<exists>R :: ('m, 'c, 'h) Runtime. build_runtime L s = Inr R) \<longleftrightarrow>
        limiter_setting_ok (set_rate_limit_capacity s) (set_rate_limit_refill_per_second s)))"
proof -
  note parts = build_store_cases [where L = L and s = s] build_coordination_cases [where L = L and s = s]
    build_events_cases [where L = L and s = s and 'h = 'h]
  note unf = build_runtime_def profile_ok_def new_OutboxDispatcher_def res_bind_def
  show ?thesis
  proof (cases "build_store L s")
    case (Inl e)
    then show ?thesis using parts(1) by (auto simp: unf)
  next
    case store: (Inr x)
    obtain st m where x: "x = (st, m)" by (cases x)
    show ?thesis
    proof (cases "build_coordination L s")
      case (Inl e)
      then show ?thesis using parts(2) store by (auto simp: unf x)
    next
      case coord: (Inr y)
      obtain i l c where y: "y = (i, l, c)" by (cases y)
      show ?thesis
        using parts store coord
        by (cases "build_events L s :: 'h broker res") (auto simp: unf x y split: if_splits)
    qed
  qed
qed


subsection \<open>Starting and closing\<close>

definition broker_producer :: "'h broker \<Rightarrow> 'h option" where
  "broker_producer b = (case b of MemoryBroker _ \<Rightarrow> None | KafkaEvents kb \<Rightarrow> kfk_producer kb)"

definition is_kafka :: "'h broker \<Rightarrow> bool" where
  "is_kafka b = (case b of MemoryBroker _ \<Rightarrow> False | KafkaEvents _ \<Rightarrow> True)"

lemma start_broker_cases:
  assumes "start_broker P (R, k) = (r, R1, k1)"
  shows "\<exists>b. R1 = R\<lparr>rtm_broker := b\<rparr> \<and> is_kafka b = is_kafka (rtm_broker R) \<and>
    (r = Inr () \<and> is_kafka b \<longrightarrow> broker_producer b \<noteq> None) \<and> (\<not> is_kafka b \<longrightarrow> r = Inr ())"
proof (cases "rtm_broker R")
  case (MemoryBroker b)
  then show ?thesis using assms by (intro exI [of _ "MemoryBroker b"]) (auto simp: start_broker_def is_kafka_def)
next
  case (KafkaEvents b)
  obtain q b1 k2 where q: "kafka_start P (b, k) = (q, b1, k2)" by (metis prod_cases3)
  have "q = Inr () \<longrightarrow> kfk_producer b1 \<noteq> None"
    using q by (auto simp: kafka_start_def Let_def split: option.splits prod.splits sum.splits)
  then show ?thesis
    using assms KafkaEvents q
    by (intro exI [of _ "KafkaEvents b1"])
      (auto simp: start_broker_def is_kafka_def broker_producer_def split: sum.splits)
qed

lemma stop_broker_cases:
  assumes "stop_broker P (R, k) = (r, R1, k1)"
  shows "\<exists>b. R1 = R\<lparr>rtm_broker := b\<rparr> \<and> is_kafka b = is_kafka (rtm_broker R) \<and>
    (rtm_started R \<and> r = Inr () \<longrightarrow> broker_producer b = None) \<and>
    (\<not> rtm_started R \<longrightarrow> r = Inr () \<and> b = rtm_broker R \<and> k1 = k)"
proof (cases "rtm_broker R")
  case (MemoryBroker b)
  then show ?thesis using assms by (intro exI [of _ "MemoryBroker b"]) (auto simp: stop_broker_def is_kafka_def broker_producer_def)
next
  case (KafkaEvents b)
  obtain q b1 k2 where q: "kafka_stop P (b, k) = (q, b1, k2)" by (metis prod_cases3)
  have stopped: "q = Inr () \<longrightarrow> kfk_producer b1 = None"
    using q by (auto simp: kafka_stop_def Let_def split: option.splits prod.splits sum.splits)
  show ?thesis
  proof (cases "rtm_started R")
    case True
    then show ?thesis using assms KafkaEvents q stopped
      by (intro exI [of _ "KafkaEvents b1"]) (auto simp: stop_broker_def is_kafka_def broker_producer_def)
  next
    case False
    then show ?thesis using assms KafkaEvents
      by (intro exI [of _ "rtm_broker R"]) (auto simp: stop_broker_def)
  qed
qed

lemma runtime_close_ok:
  assumes "runtime_close P cls (R, k) = (Inr (), R1, k1)"
  shows "\<exists>b k0. R1 = R\<lparr>rtm_dispatcher := stop (rtm_dispatcher R), rtm_broker := b, rtm_started := False\<rparr> \<and>
    close_all cls (rtm_resources R) k0 = (Inr (), k1) \<and>
    (if rtm_started R then broker_producer b = None else b = rtm_broker R \<and> k0 = k)"
proof -
  define S where "S = R\<lparr>rtm_dispatcher := stop (rtm_dispatcher R)\<rparr>"
  have "then_do (stop_broker P (S, k)) (\<lambda>_ (R, k). case close_all cls (rtm_resources R) k of
      (Inl e, k1) \<Rightarrow> (Inl e, R, k1) | (Inr _, k1) \<Rightarrow> (Inr (), R\<lparr>rtm_started := False\<rparr>, k1)) = (Inr (), R1, k1)"
    using assms by (simp add: runtime_close_def S_def)
  then obtain R2 k2 where s: "stop_broker P (S, k) = (Inr (), R2, k2)"
    and c: "(case close_all cls (rtm_resources R2) k2 of
      (Inl e, k1) \<Rightarrow> (Inl e, R2, k1) | (Inr _, k1) \<Rightarrow> (Inr (), R2\<lparr>rtm_started := False\<rparr>, k1)) = (Inr (), R1, k1)"
    by (cases rule: then_do_cases) auto
  obtain b where b: "R2 = S\<lparr>rtm_broker := b\<rparr>" "rtm_started S \<longrightarrow> broker_producer b = None"
    "\<not> rtm_started S \<longrightarrow> b = rtm_broker S \<and> k2 = k"
    using stop_broker_cases [OF s] by blast
  have c2: "close_all cls (rtm_resources R2) k2 = (Inr (), k1) \<and> R1 = R2\<lparr>rtm_started := False\<rparr>"
    using c by (auto split: prod.splits sum.splits)
  show ?thesis
    using b c2 by (intro exI [of _ b] exI [of _ k2]) (auto simp: S_def)
qed


subsection \<open>Evaluations\<close>

definition no_libraries :: "(unit, unit) libraries" where
  "no_libraries = \<lparr>lib_session_factory = (\<lambda>_. Inl (OtherException ''ImportError'')),
     lib_redis_from_url = (\<lambda>_. Inl (OtherException ''ImportError'')), lib_aiokafka = Inr ()\<rparr>"

lemma default_memory: "set_storage_backend default_Settings = ''memory''" "set_coordination_backend default_Settings = ''memory''"
  "set_event_backend default_Settings = ''memory''" "set_rate_limit_capacity default_Settings = 60"
  "set_rate_limit_refill_per_second default_Settings = Val (Fin 1)"
  by (simp_all add: default_Settings_def)

lemma default_limiter_ok: "limiter_setting_ok 60 (Val (Fin 1))"
  by (simp add: limiter_setting_ok_def less_pyfloat_def less_eq_pyfloat_def)


text \<open>A cluster that refuses connections: the producer's \<open>start\<close> fails.\<close>

definition refusing_producer :: "(unit, unit) producer_ops" where
  "refusing_producer =
     \<lparr>prd_new = (\<lambda>s k. (Inr (), k)), prd_start = (\<lambda>h k. (Inl (OtherException ''KafkaConnectionError''), k)),
      prd_stop = (\<lambda>h k. (Inr (), k)), prd_send_and_wait = (\<lambda>h t v k. (Inl (OtherException ''KafkaConnectionError''), k))\<rparr>"

definition kafka_runtime :: "(unit, unit, unit) Runtime" where
  "kafka_runtime = projr (build_runtime no_libraries (default_Settings\<lparr>set_event_backend := ''kafka''\<rparr>))"

lemma kafka_runtime_profile: "profile_ok (default_Settings\<lparr>set_event_backend := ''kafka''\<rparr>) kafka_runtime"
  by (simp add: kafka_runtime_def build_runtime_def profile_ok_def build_store_def build_coordination_def build_events_def
      build_memory_limiter_def new_InMemoryTokenBucketLimiter_def new_OutboxDispatcher_def new_KafkaBroker_def no_libraries_def
      default_memory default_limiter_ok)


end
