(* ===== verification/Api.thy ===== *)
theory Api
  imports Payments Runtime
begin

text \<open>
  The HTTP interface (\<open>api.py\<close>, and the request log of \<open>observability.py\<close>): the request
  models with their constraints, one handler per endpoint with every early return, the
  exception handlers, the middleware that identifies and logs a request, and the
  construction of the application from the environment.

  FastAPI is represented by what the handlers rely on: a request reaches the endpoint of
  its path with its body parsed into the declared types, the admin dependency runs before
  the body is validated, an exception is answered by the handler registered for its class
  or the nearest base class, and one without a handler passes through the middleware.
\<close>

subsection \<open>Request models\<close>

record PaymentMethod =
  pmt_type :: string
  pmt_token :: string

record CreatePaymentRequest =
  cpr_merchant_id :: string
  cpr_amount :: int
  cpr_currency :: string
  cpr_payment_method :: PaymentMethod

definition uppercase_currency :: "string \<Rightarrow> string" where
  "uppercase_currency value = py_upper value"

text \<open>\<open>extra\<close> lists the members of the body that are not fields; they are forbidden.\<close>

definition validate_create :: "string list \<Rightarrow> CreatePaymentRequest \<Rightarrow> CreatePaymentRequest option" where
  "validate_create extra r =
     (if extra = [] \<and> 1 \<le> length (cpr_merchant_id r) \<and> length (cpr_merchant_id r) \<le> 100 \<and> 0 < cpr_amount r \<and>
         length (cpr_currency r) = 3 \<and> 1 \<le> length (pmt_token (cpr_payment_method r))
      then Some (r\<lparr>cpr_currency := uppercase_currency (cpr_currency r)\<rparr>) else None)"

record PaymentResponse =
  prs_id :: uuid
  prs_merchant_id :: string
  prs_amount :: int
  prs_currency :: string
  prs_status :: PaymentStatus
  prs_created_at :: string
  prs_request_id :: string

record ProviderConfigRequest =
  pcr_success_rate :: "float_value option"
  pcr_min_latency_ms :: "int option"
  pcr_max_latency_ms :: "int option"
  pcr_timeout_probability :: "float_value option"
  pcr_server_error_probability :: "float_value option"
  pcr_decline_probability :: "float_value option"
  pcr_max_concurrency :: "int option"

text \<open>\<open>Field(default=None, ge=lo, le=hi)\<close> on a float: infinities and \<open>nan\<close> are out of range.\<close>

definition float_between :: "real \<Rightarrow> real \<Rightarrow> float_value option \<Rightarrow> bool" where
  "float_between lo hi v = (case v of None \<Rightarrow> True | Some (Val (Fin x)) \<Rightarrow> lo \<le> x \<and> x \<le> hi | Some _ \<Rightarrow> False)"

definition int_at_least :: "int \<Rightarrow> int option \<Rightarrow> bool" where
  "int_at_least lo v = (case v of None \<Rightarrow> True | Some n \<Rightarrow> lo \<le> n)"

definition validate_provider_config :: "ProviderConfigRequest \<Rightarrow> bool" where
  "validate_provider_config r \<longleftrightarrow>
     float_between 0 1 (pcr_success_rate r) \<and> int_at_least 0 (pcr_min_latency_ms r) \<and>
     int_at_least 0 (pcr_max_latency_ms r) \<and> float_between 0 1 (pcr_timeout_probability r) \<and>
     float_between 0 1 (pcr_server_error_probability r) \<and> float_between 0 1 (pcr_decline_probability r) \<and>
     int_at_least 0 (pcr_max_concurrency r) \<and> (case pcr_max_concurrency r of None \<Rightarrow> True | Some n \<Rightarrow> n \<le> 1000)"

record RoutingConfigRequest =
  rcr_strategy :: string
  rcr_composite_success_weight :: "float_value option"
  rcr_composite_latency_weight :: "float_value option"
  rcr_composite_load_weight :: "float_value option"
  rcr_composite_recent_failure_weight :: "float_value option"

definition valid_strategy :: "string \<Rightarrow> bool" where
  "valid_strategy value \<longleftrightarrow> value \<in> set ROUTING_STRATEGIES"

definition validate_routing :: "RoutingConfigRequest \<Rightarrow> bool" where
  "validate_routing r \<longleftrightarrow>
     valid_strategy (rcr_strategy r) \<and>
     float_between 0 MAX_COMPOSITE_WEIGHT (rcr_composite_success_weight r) \<and>
     float_between 0 MAX_COMPOSITE_WEIGHT (rcr_composite_latency_weight r) \<and>
     float_between 0 MAX_COMPOSITE_WEIGHT (rcr_composite_load_weight r) \<and>
     float_between 0 MAX_COMPOSITE_WEIGHT (rcr_composite_recent_failure_weight r)"

record RefundRequest =
  rfr_amount :: "int option"

definition validate_refund :: "RefundRequest \<Rightarrow> bool" where
  "validate_refund r \<longleftrightarrow> int_at_least 1 (rfr_amount r)"

record RefundResponse =
  rrs_id :: uuid
  rrs_payment_id :: uuid
  rrs_amount :: int
  rrs_request_id :: string

datatype endpoint =
    Health
  | Ready
  | MetricsEndpoint
  | CreatePayment "string list" CreatePaymentRequest
  | GetPayment uuid
  | ListPayments "string option" "PaymentStatus option" "datetime option" "datetime option"
  | RefundPayment uuid RefundRequest
  | Providers
  | ProviderDetail string
  | ConfigureRouting RoutingConfigRequest
  | ConfigureProvider string ProviderConfigRequest
  | FailProvider string
  | RecoverProvider string

record request =
  req_method :: string
  req_path :: string
  req_endpoint :: endpoint
  req_x_request_id :: "string option"
  req_idempotency_key :: "string option"
  req_x_admin_token :: "string option"

subsection \<open>Responses\<close>

record ProviderStatsBody =
  psb_recent_requests :: int
  psb_total_requests :: int
  psb_successes :: int
  psb_failures :: int
  psb_timeouts :: int
  psb_success_rate :: real
  psb_average_latency_ms :: real
  psb_p95_latency_ms :: real
  psb_inflight :: int
  psb_last_success_at :: "string option"
  psb_last_failure_at :: "string option"

record ProviderBody =
  pvb_name :: string
  pvb_healthy :: bool
  pvb_config :: ProviderConfig
  pvb_circuit_state :: string
  pvb_consecutive_failures :: int
  pvb_stats :: ProviderStatsBody

datatype body =
    ErrorBody string string string
  | StatusBody string
  | ReadyBody string "(string, bool) dict" "(string, dependency) dict"
  | TextBody string
  | PaymentBody PaymentResponse
  | PaymentListBody "PaymentResponse list"
  | RefundBody RefundResponse
  | ProvidersBody "ProviderBody list"
  | ProviderDetailBody ProviderBody
  | RoutingBody string "(string, real) dict option"
  | ProviderConfigBody string ProviderConfig
  | ProviderHealthBody string bool

record response =
  rsp_status :: int
  rsp_headers :: "(string, string) dict"
  rsp_body :: body

definition json_response :: "int \<Rightarrow> (string, string) dict \<Rightarrow> body \<Rightarrow> response" where
  "json_response status headers body = \<lparr>rsp_status = status, rsp_headers = headers, rsp_body = body\<rparr>"

definition error_response :: "int \<Rightarrow> (string, string) dict \<Rightarrow> string \<Rightarrow> string \<Rightarrow> string \<Rightarrow> response" where
  "error_response status headers code message request_id = json_response status headers (ErrorBody code message request_id)"

text \<open>\<open>_provider_config\<close> lists the fields of the configuration; the body carries the record itself.\<close>

definition provider_config :: "provider \<Rightarrow> ProviderConfig" where
  "provider_config p = prv_config p"

definition provider_stats :: "ProviderStats option \<Rightarrow> ProviderStatsBody" where
  "provider_stats stats =
     (case stats of
        None \<Rightarrow> \<lparr>psb_recent_requests = 0, psb_total_requests = 0, psb_successes = 0, psb_failures = 0, psb_timeouts = 0,
                 psb_success_rate = 1, psb_average_latency_ms = 0, psb_p95_latency_ms = 0, psb_inflight = 0,
                 psb_last_success_at = None, psb_last_failure_at = None\<rparr>
      | Some s \<Rightarrow> \<lparr>psb_recent_requests = int (length (pst_recent s)), psb_total_requests = pst_total_requests s,
                   psb_successes = pst_successes s, psb_failures = pst_failures s, psb_timeouts = pst_timeouts s,
                   psb_success_rate = success_rate s, psb_average_latency_ms = average_latency_ms s,
                   psb_p95_latency_ms = p95_latency_ms s, psb_inflight = pst_inflight s,
                   psb_last_success_at = map_option isoformat (pst_last_success_at s),
                   psb_last_failure_at = map_option isoformat (pst_last_failure_at s)\<rparr>)"

definition payment_response :: "Payment \<Rightarrow> string \<Rightarrow> PaymentResponse" where
  "payment_response payment request_id =
     \<lparr>prs_id = pay_id payment, prs_merchant_id = pay_merchant_id payment, prs_amount = pay_amount payment,
      prs_currency = pay_currency payment, prs_status = pay_status payment,
      prs_created_at = isoformat (pay_created_at payment), prs_request_id = request_id\<rparr>"

subsection \<open>The application\<close>

text \<open>
  The collaborators a handler reaches, as operations on states of any type: providers,
  coordinator and store of the service, the limiter, the probes of the runtime, the
  rendering of the metrics.
\<close>

record ('b, 'l, 'm, 'c) externals =
  ext_sha256 :: "string \<Rightarrow> string"
  ext_providers :: provider_ops
  ext_backend :: "'b backend_ops"
  ext_consume :: "string \<Rightarrow> 'l \<Rightarrow> world \<Rightarrow> RateLimitDecision res \<times> 'l \<times> world"
  ext_select_one :: "'m \<Rightarrow> unit res"
  ext_ping :: "'c \<Rightarrow> unit res"
  ext_render :: "metric_call list \<Rightarrow> string"

record ('b, 'l, 'm, 'c, 'h) App =
  app_service :: "'b PaymentService"
  app_settings :: Settings
  app_rate_limiter :: 'l
  app_runtime :: "('m, 'c, 'h) Runtime"

text \<open>
  \<open>mk_backend\<close> and \<open>mk_limiter\<close> are the collaborators as the service and the handlers use
  them, made of the runtime's parts. The runtime's outbox is its store.
\<close>

definition mock_fleet :: "provider list" where
  "mock_fleet = [MockStripeProvider 1 None, MockAdyenProvider 2 None, MockRazorpayProvider 3 None]"

definition create_app ::
  "('m, 'c) libraries \<Rightarrow> ('m repository \<Rightarrow> 'c coordinator \<Rightarrow> 'b) \<Rightarrow> ('c limiter \<Rightarrow> 'l) \<Rightarrow> environ \<Rightarrow>
   ('b, 'l, 'm, 'c, 'h) App res" where
  "create_app L mk_backend mk_limiter env =
     res_bind (from_env env) (\<lambda>settings.
     res_bind (build_runtime L settings) (\<lambda>runtime.
     res_bind (new_PaymentService mock_fleet (mk_backend (rtm_store runtime) (rtm_idempotency runtime)) None 3 30 (Some [])
                 (set_routing_strategy settings) (Some (set_composite_weights_setting settings))
                 (set_provider_concurrency_limit settings)) (\<lambda>service.
     Inr \<lparr>app_service = service, app_settings = settings, app_rate_limiter = mk_limiter (rtm_rate_limiter runtime),
          app_runtime = runtime\<rparr>)))"

text \<open>What a handler leaves: its response or exception, and what it stored in \<open>request.state\<close> for the log.\<close>

datatype http_exn = AdminUnauthorized | RequestValidationError | Raised exn

record outcome =
  out_result :: "http_exn + response"
  out_merchant_id :: "string option"
  out_payment_id :: "string option"

definition plain :: "http_exn + response \<Rightarrow> outcome" where
  "plain r = \<lparr>out_result = r, out_merchant_id = None, out_payment_id = None\<rparr>"

definition raised :: "exn \<Rightarrow> outcome" where
  "raised e = plain (Inl (Raised e))"

definition answer :: "response \<Rightarrow> outcome" where
  "answer r = plain (Inr r)"

definition with_service :: "'b svc \<Rightarrow> ('b, 'l, 'm, 'c, 'h) App \<Rightarrow> ('b, 'l, 'm, 'c, 'h) App \<times> world" where
  "with_service st a = (a\<lparr>app_service := fst st\<rparr>, snd st)"

subsection \<open>Payments\<close>

definition rate_headers :: "RateLimitDecision \<Rightarrow> (string, string) dict" where
  "rate_headers limit = [(''X-RateLimit-Limit'', json_int (rld_limit limit)), (''X-RateLimit-Remaining'', json_int (rld_remaining limit))]"

definition payment_input :: "CreatePaymentRequest \<Rightarrow> string \<Rightarrow> PaymentInput" where
  "payment_input payload key =
     \<lparr>inp_merchant_id = cpr_merchant_id payload, inp_amount = cpr_amount payload, inp_currency = cpr_currency payload,
      inp_payment_method_type = pmt_type (cpr_payment_method payload), inp_token = pmt_token (cpr_payment_method payload),
      inp_idempotency_key = key\<rparr>"

text \<open>The checks between the rate limiter and the service, in the order of the handler.\<close>

definition precheck :: "Settings \<Rightarrow> CreatePaymentRequest \<Rightarrow> string option \<Rightarrow> (string, string) dict \<Rightarrow> string \<Rightarrow> response option" where
  "precheck settings payload key headers request_id =
     (if key = None \<or> key = Some []
      then Some (error_response 400 headers ''VALIDATION_ERROR'' ''Idempotency-Key header is required'' request_id)
      else if cpr_currency payload \<notin> set_supported_currencies settings
      then Some (error_response 422 headers ''VALIDATION_ERROR'' ''Unsupported currency'' request_id)
      else if pmt_type (cpr_payment_method payload) \<noteq> ''card'' \<or> \<not> starts_with ''test_'' (pmt_token (cpr_payment_method payload))
      then Some (error_response 422 headers ''VALIDATION_ERROR'' ''A synthetic payment token is required'' request_id)
      else None)"

text \<open>
  \<open>create_payment\<close>. The outcome is \<open>None\<close> while the request waits for another request's
  claim.
\<close>

definition create_payment ::
  "('b, 'l, 'm, 'c) externals \<Rightarrow> CreatePaymentRequest \<Rightarrow> string option \<Rightarrow> string \<Rightarrow>
   ('b, 'l, 'm, 'c, 'h) App \<times> world \<Rightarrow> outcome option \<times> ('b, 'l, 'm, 'c, 'h) App \<times> world" where
  "create_payment E payload key request_id st =
     (let (a, w) = st
      in case ext_consume E (cpr_merchant_id payload) (app_rate_limiter a) w of
           (Inl e, l, w1) \<Rightarrow> (Some (raised e), a\<lparr>app_rate_limiter := l\<rparr>, w1)
         | (Inr limit, l, w1) \<Rightarrow>
             let a1 = a\<lparr>app_rate_limiter := l\<rparr>; headers = rate_headers limit
             in if \<not> rld_allowed limit
                then (Some (answer (error_response 429 (headers @ [(''Retry-After'', json_int (rld_retry_after_seconds limit))])
                              ''RATE_LIMITED'' ''Merchant rate limit exceeded'' request_id)),
                      a1\<lparr>app_service := emit (Inc ''rate_limit_rejections_total'' []) (app_service a1)\<rparr>, w1)
                else case precheck (app_settings a1) payload key headers request_id of
                       Some r \<Rightarrow> (Some (answer r), a1, w1)
                     | None \<Rightarrow>
                         (case create (ext_sha256 E) (ext_providers E) (ext_backend E) (payment_input payload (the key))
                                 (app_service a1, w1) of
                            (None, st2) \<Rightarrow> (None, with_service st2 a1)
                          | (Some (Inl e), st2) \<Rightarrow>
                              (Some ((raised e)\<lparr>out_merchant_id := Some (cpr_merchant_id payload)\<rparr>), with_service st2 a1)
                          | (Some (Inr payment), st2) \<Rightarrow>
                              (Some \<lparr>out_result = Inr (json_response 201 headers (PaymentBody (payment_response payment request_id))),
                                     out_merchant_id = Some (cpr_merchant_id payload),
                                     out_payment_id = Some (str_uuid (pay_id payment))\<rparr>, with_service st2 a1)))"

definition get_payment ::
  "('b, 'l, 'm, 'c) externals \<Rightarrow> uuid \<Rightarrow> string \<Rightarrow> ('b, 'l, 'm, 'c, 'h) App \<times> world \<Rightarrow> outcome \<times> ('b, 'l, 'm, 'c, 'h) App \<times> world" where
  "get_payment E payment_id request_id st =
     (let (r, st1) = on_backend (be_get (ext_backend E) payment_id) (app_service (fst st), snd st)
      in (case r of
            Inl e \<Rightarrow> raised e
          | Inr None \<Rightarrow> answer (error_response 404 [] ''INTERNAL_ERROR'' ''Payment not found'' request_id)
          | Inr (Some payment) \<Rightarrow> answer (json_response 200 [] (PaymentBody (payment_response payment request_id))),
          with_service st1 (fst st)))"

definition list_payments_endpoint ::
  "('b, 'l, 'm, 'c) externals \<Rightarrow> string option \<Rightarrow> PaymentStatus option \<Rightarrow> datetime option \<Rightarrow> datetime option \<Rightarrow> string \<Rightarrow>
   ('b, 'l, 'm, 'c, 'h) App \<times> world \<Rightarrow> outcome \<times> ('b, 'l, 'm, 'c, 'h) App \<times> world" where
  "list_payments_endpoint E merchant_id status created_after created_before request_id st =
     (let (r, st1) = on_backend (be_list (ext_backend E) merchant_id (map_option status_value status) created_after created_before)
                       (app_service (fst st), snd st)
      in (case r of
            Inl e \<Rightarrow> raised e
          | Inr payments \<Rightarrow> answer (json_response 200 [] (PaymentListBody (map (\<lambda>p. payment_response p request_id) payments))),
          with_service st1 (fst st)))"

definition refund_payment ::
  "('b, 'l, 'm, 'c) externals \<Rightarrow> uuid \<Rightarrow> RefundRequest \<Rightarrow> string \<Rightarrow> ('b, 'l, 'm, 'c, 'h) App \<times> world \<Rightarrow>
   outcome \<times> ('b, 'l, 'm, 'c, 'h) App \<times> world" where
  "refund_payment E payment_id payload request_id st =
     (let (r, st1) = refund (ext_providers E) (ext_backend E) payment_id (rfr_amount payload) (app_service (fst st), snd st)
      in (case r of
            Inl e \<Rightarrow> raised e
          | Inr rf \<Rightarrow> answer (json_response 200 [] (RefundBody
              \<lparr>rrs_id = rfd_id rf, rrs_payment_id = rfd_payment_id rf, rrs_amount = rfd_amount rf, rrs_request_id = request_id\<rparr>)),
          with_service st1 (fst st)))"

subsection \<open>Providers\<close>

fun provider_statuses :: "provider_ops \<Rightarrow> provider list \<Rightarrow> world \<Rightarrow> (string, bool) dict res \<times> world" where
  "provider_statuses ops [] w = (Inr [], w)"
| "provider_statuses ops (p # ps) w =
     then_do (op_health_check ops p w)
       (\<lambda>ok w1. then_do (provider_statuses ops ps w1) (\<lambda>d w2. (Inr ((prv_name p, ok) # d), w2)))"

definition describe_provider :: "provider_ops \<Rightarrow> 'b PaymentService \<Rightarrow> provider \<Rightarrow> world \<Rightarrow> ProviderBody res \<times> world" where
  "describe_provider ops s p w =
     then_do (op_health_check ops p w)
       (\<lambda>healthy w1.
          case svc_circuits s (prv_name p) of
            None \<Rightarrow> (Inl (KeyError (prv_name p)), w1)
          | Some circuit \<Rightarrow>
              (Inr \<lparr>pvb_name = prv_name p, pvb_healthy = healthy, pvb_config = provider_config p,
                    pvb_circuit_state = circuit_state_value (cb_state circuit),
                    pvb_consecutive_failures = consecutive_failures circuit,
                    pvb_stats = provider_stats (map_of (rtr_stats (svc_router s)) (prv_name p))\<rparr>, w1))"

fun describe_providers :: "provider_ops \<Rightarrow> 'b PaymentService \<Rightarrow> provider list \<Rightarrow> world \<Rightarrow> ProviderBody list res \<times> world" where
  "describe_providers ops s [] w = (Inr [], w)"
| "describe_providers ops s (p # ps) w =
     then_do (describe_provider ops s p w)
       (\<lambda>b w1. then_do (describe_providers ops s ps w1) (\<lambda>bs w2. (Inr (b # bs), w2)))"

definition find_provider :: "string \<Rightarrow> 'b PaymentService \<Rightarrow> provider option" where
  "find_provider name s = find (\<lambda>p. prv_name p = name) (svc_providers s)"

definition unknown_provider :: "string \<Rightarrow> outcome" where
  "unknown_provider request_id = answer (error_response 404 [] ''VALIDATION_ERROR'' ''Unknown provider'' request_id)"

definition providers_endpoint ::
  "('b, 'l, 'm, 'c) externals \<Rightarrow> ('b, 'l, 'm, 'c, 'h) App \<times> world \<Rightarrow> outcome \<times> ('b, 'l, 'm, 'c, 'h) App \<times> world" where
  "providers_endpoint E st =
     (let (r, w) = describe_providers (ext_providers E) (app_service (fst st)) (svc_providers (app_service (fst st))) (snd st)
      in (case r of Inl e \<Rightarrow> raised e | Inr bs \<Rightarrow> answer (json_response 200 [] (ProvidersBody bs)), fst st, w))"

definition provider_detail ::
  "('b, 'l, 'm, 'c) externals \<Rightarrow> string \<Rightarrow> string \<Rightarrow> ('b, 'l, 'm, 'c, 'h) App \<times> world \<Rightarrow> outcome \<times> ('b, 'l, 'm, 'c, 'h) App \<times> world" where
  "provider_detail E provider_name request_id st =
     (case find_provider provider_name (app_service (fst st)) of
        None \<Rightarrow> (unknown_provider request_id, st)
      | Some p \<Rightarrow>
          if svc_circuits (app_service (fst st)) (prv_name p) = None then (raised (KeyError (prv_name p)), st)
          else let (r, w) = describe_provider (ext_providers E) (app_service (fst st)) p (snd st)
               in (case r of Inl e \<Rightarrow> raised e | Inr b \<Rightarrow> answer (json_response 200 [] (ProviderDetailBody b)), fst st, w))"

definition ready ::
  "('b, 'l, 'm, 'c) externals \<Rightarrow> ('b, 'l, 'm, 'c, 'h) App \<times> world \<Rightarrow> outcome \<times> ('b, 'l, 'm, 'c, 'h) App \<times> world" where
  "ready E st =
     (let (r, w) = provider_statuses (ext_providers E) (svc_providers (app_service (fst st))) (snd st)
      in case r of
           Inl e \<Rightarrow> (raised e, fst st, w)
         | Inr items \<Rightarrow>
             (case readiness (ext_select_one E) (ext_ping E) (app_runtime (fst st)) of
                Inl e \<Rightarrow> (raised e, fst st, w)
              | Inr dependencies \<Rightarrow>
                  let statuses = dict_of items;
                      ok = (list_all snd statuses \<and> list_all (\<lambda>(k, d). dep_status d = ''ready'') dependencies)
                  in (answer (json_response (if ok then 200 else 503) []
                        (ReadyBody (if ok then ''ready'' else ''unavailable'') statuses dependencies)), fst st, w)))"

definition metrics_endpoint :: "('b, 'l, 'm, 'c) externals \<Rightarrow> ('b, 'l, 'm, 'c, 'h) App \<Rightarrow> outcome" where
  "metrics_endpoint E a =
     answer \<lparr>rsp_status = 200, rsp_headers = [],
             rsp_body = TextBody (ext_render E (case svc_metrics (app_service a) of None \<Rightarrow> [] | Some ms \<Rightarrow> ms))\<rparr>"

subsection \<open>Administration\<close>

definition require_admin :: "string option \<Rightarrow> ('b, 'l, 'm, 'c, 'h) App \<Rightarrow> bool" where
  "require_admin x_admin_token a \<longleftrightarrow> x_admin_token = Some (set_admin_token (app_settings a))"

definition set_router :: "ProviderRouter \<Rightarrow> ('b, 'l, 'm, 'c, 'h) App \<Rightarrow> ('b, 'l, 'm, 'c, 'h) App" where
  "set_router r a = a\<lparr>app_service := (app_service a)\<lparr>svc_router := r\<rparr>\<rparr>"

definition new_weight :: "real \<Rightarrow> float_value option \<Rightarrow> pyfloat" where
  "new_weight current v = (case v of Some (Val x) \<Rightarrow> x | _ \<Rightarrow> Fin current)"

definition configure_routing :: "RoutingConfigRequest \<Rightarrow> ('b, 'l, 'm, 'c, 'h) App \<Rightarrow> outcome \<times> ('b, 'l, 'm, 'c, 'h) App" where
  "configure_routing payload a =
     (case set_strategy (rcr_strategy payload) (svc_router (app_service a)) of
        (Inl e, r1) \<Rightarrow> (raised e, set_router r1 a)
      | (Inr _, r1) \<Rightarrow>
          if rcr_composite_success_weight payload \<noteq> None \<or> rcr_composite_latency_weight payload \<noteq> None \<or>
             rcr_composite_load_weight payload \<noteq> None \<or> rcr_composite_recent_failure_weight payload \<noteq> None
          then let current = rtr_composite_weights r1
               in (case new_CompositeWeights
                          (new_weight (wgt_success current) (rcr_composite_success_weight payload))
                          (new_weight (wgt_latency current) (rcr_composite_latency_weight payload))
                          (new_weight (wgt_load current) (rcr_composite_load_weight payload))
                          (new_weight (wgt_recent_failure current) (rcr_composite_recent_failure_weight payload)) of
                     Inl e \<Rightarrow> (raised e, set_router r1 a)
                   | Inr weights \<Rightarrow>
                       let r2 = set_composite_weights weights r1
                       in (answer (json_response 200 [] (RoutingBody (rtr_strategy r2) (Some (weights_as_dict (rtr_composite_weights r2))))),
                           set_router r2 a))
          else (answer (json_response 200 [] (RoutingBody (rtr_strategy r1) None)), set_router r1 a))"

text \<open>Reconfiguring a provider object changes it wherever the service holds it.\<close>

definition replace_provider :: "provider \<Rightarrow> 'b PaymentService \<Rightarrow> 'b PaymentService" where
  "replace_provider p s = s\<lparr>svc_providers := map (\<lambda>q. if prv_object q = prv_object p then p else q) (svc_providers s)\<rparr>"

definition float_setting :: "(real \<Rightarrow> setting) \<Rightarrow> float_value option \<Rightarrow> setting list" where
  "float_setting f v = (case v of Some (Val (Fin x)) \<Rightarrow> [f x] | _ \<Rightarrow> [])"

definition int_setting :: "(int \<Rightarrow> setting) \<Rightarrow> int option \<Rightarrow> setting list" where
  "int_setting f v = (case v of Some n \<Rightarrow> [f n] | None \<Rightarrow> [])"

text \<open>\<open>model_dump(exclude_none=True)\<close> of a validated request.\<close>

definition config_changes :: "ProviderConfigRequest \<Rightarrow> setting list" where
  "config_changes r =
     float_setting SuccessRate (pcr_success_rate r) @ int_setting MinLatencyMs (pcr_min_latency_ms r) @
     int_setting MaxLatencyMs (pcr_max_latency_ms r) @ float_setting TimeoutProbability (pcr_timeout_probability r) @
     float_setting ServerErrorProbability (pcr_server_error_probability r) @
     float_setting DeclineProbability (pcr_decline_probability r) @ int_setting MaxConcurrency (pcr_max_concurrency r)"

definition configure_provider ::
  "string \<Rightarrow> ProviderConfigRequest \<Rightarrow> string \<Rightarrow> ('b, 'l, 'm, 'c, 'h) App \<Rightarrow> outcome \<times> ('b, 'l, 'm, 'c, 'h) App" where
  "configure_provider provider_name payload request_id a =
     (case find_provider provider_name (app_service a) of
        None \<Rightarrow> (unknown_provider request_id, a)
      | Some p \<Rightarrow>
          let min_latency_ms = (case pcr_min_latency_ms payload of Some n \<Rightarrow> n | None \<Rightarrow> cfg_min_latency_ms (prv_config p));
              max_latency_ms = (case pcr_max_latency_ms payload of Some n \<Rightarrow> n | None \<Rightarrow> cfg_max_latency_ms (prv_config p))
          in if max_latency_ms < min_latency_ms
             then (answer (error_response 422 [] ''VALIDATION_ERROR'' ''max_latency_ms must be at least min_latency_ms'' request_id), a)
             else (case configure p (config_changes payload) of
                     Inl e \<Rightarrow> (raised e, a)
                   | Inr p1 \<Rightarrow>
                       let s1 = replace_provider p1 (app_service a);
                           done_body = answer (json_response 200 [] (ProviderConfigBody (prv_name p1) (provider_config p1)))
                       in if pcr_max_concurrency payload \<noteq> None
                          then (case set_provider_concurrency (prv_name p1) (cfg_max_concurrency (prv_config p1)) s1 of
                                  (Inl e, s2) \<Rightarrow> (raised e, a\<lparr>app_service := s2\<rparr>)
                                | (Inr _, s2) \<Rightarrow> (done_body, a\<lparr>app_service := s2\<rparr>))
                          else (done_body, a\<lparr>app_service := s1\<rparr>)))"

definition fail_provider ::
  "string \<Rightarrow> string \<Rightarrow> ('b, 'l, 'm, 'c, 'h) App \<Rightarrow> outcome \<times> ('b, 'l, 'm, 'c, 'h) App" where
  "fail_provider provider_name request_id a =
     (case find_provider provider_name (app_service a) of
        None \<Rightarrow> (unknown_provider request_id, a)
      | Some p \<Rightarrow>
          (case configure p [ForcedFailure True] of
             Inl e \<Rightarrow> (raised e, a)
           | Inr p1 \<Rightarrow> (answer (json_response 200 [] (ProviderHealthBody (prv_name p1) False)),
                        a\<lparr>app_service := replace_provider p1 (app_service a)\<rparr>)))"

definition recover_provider ::
  "('b, 'l, 'm, 'c) externals \<Rightarrow> string \<Rightarrow> string \<Rightarrow> ('b, 'l, 'm, 'c, 'h) App \<times> world \<Rightarrow> outcome \<times> ('b, 'l, 'm, 'c, 'h) App \<times> world" where
  "recover_provider E provider_name request_id st =
     (case find_provider provider_name (app_service (fst st)) of
        None \<Rightarrow> (unknown_provider request_id, st)
      | Some p \<Rightarrow>
          (case configure p [ForcedFailure False] of
             Inl e \<Rightarrow> (raised e, st)
           | Inr p1 \<Rightarrow>
               let (r, st1) = record_provider_success (ext_backend E) p1 (replace_provider p1 (app_service (fst st)), snd st)
               in (case r of Inl e \<Rightarrow> raised e | Inr _ \<Rightarrow> answer (json_response 200 [] (ProviderHealthBody (prv_name p1) True)),
                   with_service st1 (fst st))))"

subsection \<open>Dispatch, exception handlers, middleware\<close>

definition pure :: "outcome \<times> ('b, 'l, 'm, 'c, 'h) App \<Rightarrow> world \<Rightarrow> outcome option \<times> ('b, 'l, 'm, 'c, 'h) App \<times> world" where
  "pure x w = (Some (fst x), snd x, w)"

definition effect :: "outcome \<times> ('b, 'l, 'm, 'c, 'h) App \<times> world \<Rightarrow> outcome option \<times> ('b, 'l, 'm, 'c, 'h) App \<times> world" where
  "effect x = (Some (fst x), snd x)"

definition valid_or_refuse ::
  "bool \<Rightarrow> ('b, 'l, 'm, 'c, 'h) App \<times> world \<Rightarrow> (outcome option \<times> ('b, 'l, 'm, 'c, 'h) App \<times> world) \<Rightarrow>
   outcome option \<times> ('b, 'l, 'm, 'c, 'h) App \<times> world" where
  "valid_or_refuse ok st x = (if ok then x else (Some (plain (Inl RequestValidationError)), st))"

definition admin_only ::
  "request \<Rightarrow> ('b, 'l, 'm, 'c, 'h) App \<times> world \<Rightarrow> (outcome option \<times> ('b, 'l, 'm, 'c, 'h) App \<times> world) \<Rightarrow>
   outcome option \<times> ('b, 'l, 'm, 'c, 'h) App \<times> world" where
  "admin_only req st x =
     (if require_admin (req_x_admin_token req) (fst st) then x else (Some (plain (Inl AdminUnauthorized)), st))"

fun call_endpoint ::
  "('b, 'l, 'm, 'c) externals \<Rightarrow> request \<Rightarrow> string \<Rightarrow> endpoint \<Rightarrow> ('b, 'l, 'm, 'c, 'h) App \<times> world \<Rightarrow>
   outcome option \<times> ('b, 'l, 'm, 'c, 'h) App \<times> world" where
  "call_endpoint E req rid Health st = (Some (answer (json_response 200 [] (StatusBody ''ok''))), st)"
| "call_endpoint E req rid Ready st = effect (ready E st)"
| "call_endpoint E req rid MetricsEndpoint st = (Some (metrics_endpoint E (fst st)), st)"
| "call_endpoint E req rid (CreatePayment extra raw) st =
     (case validate_create extra raw of
        None \<Rightarrow> (Some (plain (Inl RequestValidationError)), st)
      | Some payload \<Rightarrow> create_payment E payload (req_idempotency_key req) rid st)"
| "call_endpoint E req rid (GetPayment i) st = effect (get_payment E i rid st)"
| "call_endpoint E req rid (ListPayments m status after before) st = effect (list_payments_endpoint E m status after before rid st)"
| "call_endpoint E req rid (RefundPayment i payload) st =
     valid_or_refuse (validate_refund payload) st (effect (refund_payment E i payload rid st))"
| "call_endpoint E req rid Providers st = effect (providers_endpoint E st)"
| "call_endpoint E req rid (ProviderDetail name) st = effect (provider_detail E name rid st)"
| "call_endpoint E req rid (ConfigureRouting payload) st =
     admin_only req st (valid_or_refuse (validate_routing payload) st (pure (configure_routing payload (fst st)) (snd st)))"
| "call_endpoint E req rid (ConfigureProvider name payload) st =
     admin_only req st (valid_or_refuse (validate_provider_config payload) st
       (pure (configure_provider name payload rid (fst st)) (snd st)))"
| "call_endpoint E req rid (FailProvider name) st = admin_only req st (pure (fail_provider name rid (fst st)) (snd st))"
| "call_endpoint E req rid (RecoverProvider name) st = admin_only req st (effect (recover_provider E name rid st))"

text \<open>
  The registered handlers. \<open>KeyError\<close> and \<open>IndexError\<close> are \<open>LookupError\<close>s; the text of a
  \<open>KeyError\<close> is the representation of its key.
\<close>

fun handle_exception :: "string \<Rightarrow> http_exn \<Rightarrow> exn + response" where
  "handle_exception rid (Raised (ProviderError code message)) =
     Inr (error_response (if code = ''PAYMENT_DECLINED'' then 402 else 503) [] code message rid)"
| "handle_exception rid (Raised (LookupError message)) = Inr (error_response 503 [] ''PROVIDER_UNAVAILABLE'' message rid)"
| "handle_exception rid (Raised (KeyError key)) = Inr (error_response 503 [] ''PROVIDER_UNAVAILABLE'' (repr_str key) rid)"
| "handle_exception rid (Raised IndexError) = Inr (error_response 503 [] ''PROVIDER_UNAVAILABLE'' ''list index out of range'' rid)"
| "handle_exception rid RequestValidationError = Inr (error_response 422 [] ''VALIDATION_ERROR'' ''Request validation failed'' rid)"
| "handle_exception rid AdminUnauthorized = Inr (error_response 401 [] ''VALIDATION_ERROR'' ''Admin credentials are required'' rid)"
| "handle_exception rid (Raised (IdempotencyConflict message)) = Inr (error_response 409 [] ''DUPLICATE_REQUEST'' message rid)"
| "handle_exception rid (Raised (IdempotencyUnavailable message)) =
     Inr (error_response 503 [] ''INTERNAL_ERROR'' ''Idempotency coordination is unavailable'' rid)"
| "handle_exception rid (Raised (RateLimitUnavailable message)) =
     Inr (error_response 503 [] ''INTERNAL_ERROR'' ''Rate limiting is unavailable'' rid)"
| "handle_exception rid (Raised (RefundError code message)) =
     Inr (error_response (if code = ''PROVIDER_UNAVAILABLE'' then 503 else 422) [] code message rid)"
| "handle_exception rid (Raised e) = Inl e"

definition round3 :: "real \<Rightarrow> real" where
  "round3 x = of_int (py_round (x * 1000)) / 1000"

definition log_request ::
  "string \<Rightarrow> string \<Rightarrow> string \<Rightarrow> int \<Rightarrow> real \<Rightarrow> string option \<Rightarrow> string option \<Rightarrow> world \<Rightarrow> world" where
  "log_request request_id method path status_code latency_ms merchant_id payment_id w =
     log_append (HttpRequest request_id method path status_code (round3 latency_ms) merchant_id payment_id) w"

text \<open>
  The middleware. A fresh identifier is drawn for every request, also when the client sent
  one. An exception without a handler passes through: it is neither logged nor answered here.
\<close>

definition serve_http ::
  "('b, 'l, 'm, 'c) externals \<Rightarrow> request \<Rightarrow> ('b, 'l, 'm, 'c, 'h) App \<times> world \<Rightarrow>
   (exn + response) option \<times> ('b, 'l, 'm, 'c, 'h) App \<times> world" where
  "serve_http E req st =
     (let (a, w) = st;
          (u, w1) = uuid4 w;
          rid = (case req_x_request_id req of Some r \<Rightarrow> r | None \<Rightarrow> str_uuid u);
          (started, w2) = perf_counter w1
      in case call_endpoint E req rid (req_endpoint req) (a, w2) of
           (None, st3) \<Rightarrow> (None, st3)
         | (Some out, (a3, w3)) \<Rightarrow>
             (case (case out_result out of Inr r \<Rightarrow> Inr r | Inl x \<Rightarrow> handle_exception rid x) of
                Inl e \<Rightarrow> (Some (Inl e), (a3, w3))
              | Inr r \<Rightarrow>
                  let (now, w4) = perf_counter w3
                  in (Some (Inr (r\<lparr>rsp_headers := rsp_headers r @ [(''X-Request-ID'', rid)]\<rparr>)),
                      (a3, log_request rid (req_method req) (req_path req) (rsp_status r) ((now - started) * 1000)
                             (out_merchant_id out) (out_payment_id out) w4))))"

fun serve_all ::
  "('b, 'l, 'm, 'c) externals \<Rightarrow> request list \<Rightarrow> ('b, 'l, 'm, 'c, 'h) App \<times> world \<Rightarrow>
   (exn + response) option list \<times> ('b, 'l, 'm, 'c, 'h) App \<times> world" where
  "serve_all E [] st = ([], st)"
| "serve_all E (req # reqs) st =
     (let (r, st1) = serve_http E req st; (rs, st2) = serve_all E reqs st1 in (r # rs, st2))"

end
