(* ===== verification/Evidence.thy ===== *)
theory Evidence
  imports Api "HOL-Library.List_Lexorder"
begin

text \<open>
  What the scripts under \<open>scripts/\<close> share: JSON values as Python reads them, counters,
  percentiles and medians of measured latencies, and loops that end at a deadline.
\<close>

subsection \<open>Values\<close>

datatype pyvalue =
    PNone
  | PBool bool
  | PInt int
  | PFloat real
  | PStr string
  | PList "pyvalue list"
  | PDict "(string \<times> pyvalue) list"

fun truthy :: "pyvalue \<Rightarrow> bool" where
  "truthy PNone = False"
| "truthy (PBool b) = b"
| "truthy (PInt i) = (i \<noteq> 0)"
| "truthy (PFloat x) = (x \<noteq> 0)"
| "truthy (PStr s) = (s \<noteq> [])"
| "truthy (PList xs) = (xs \<noteq> [])"
| "truthy (PDict d) = (d \<noteq> [])"

fun is_dict :: "pyvalue \<Rightarrow> bool" where
  "is_dict (PDict d) = True"
| "is_dict _ = False"

fun hashable :: "pyvalue \<Rightarrow> bool" where
  "hashable (PList xs) = False"
| "hashable (PDict d) = False"
| "hashable _ = True"

text \<open>\<open>value.get(key, default)\<close>; a value that is no dictionary has no such attribute.\<close>

fun py_get :: "string \<Rightarrow> pyvalue \<Rightarrow> pyvalue \<Rightarrow> pyvalue res" where
  "py_get k fallback (PDict d) = Inr (case map_of d k of None \<Rightarrow> fallback | Some v \<Rightarrow> v)"
| "py_get k fallback _ = Inl (OtherException ''AttributeError'')"

text \<open>\<open>value.get(key) if isinstance(value, dict) else None\<close>.\<close>

definition get_or_none :: "string \<Rightarrow> pyvalue \<Rightarrow> pyvalue" where
  "get_or_none k v = (case v of PDict d \<Rightarrow> (case map_of d k of None \<Rightarrow> PNone | Some x \<Rightarrow> x) | _ \<Rightarrow> PNone)"

text \<open>A value in arithmetic.\<close>

fun py_number :: "pyvalue \<Rightarrow> real res" where
  "py_number (PInt i) = Inr (of_int i)"
| "py_number (PFloat x) = Inr x"
| "py_number (PBool b) = Inr (if b then 1 else 0)"
| "py_number _ = Inl (OtherException ''TypeError'')"

text \<open>\<open>type(error).__name__\<close>.\<close>

fun exn_name :: "exn \<Rightarrow> string" where
  "exn_name (ProviderError _ _) = ''ProviderError''"
| "exn_name (IdempotencyConflict _) = ''IdempotencyConflict''"
| "exn_name (IdempotencyUnavailable _) = ''IdempotencyUnavailable''"
| "exn_name (RefundError _ _) = ''RefundError''"
| "exn_name (BrokerUnavailable _) = ''BrokerUnavailable''"
| "exn_name (RateLimitUnavailable _) = ''RateLimitUnavailable''"
| "exn_name (LookupError _) = ''LookupError''"
| "exn_name (ValueError _) = ''ValueError''"
| "exn_name (RuntimeError _) = ''RuntimeError''"
| "exn_name (KeyError _) = ''KeyError''"
| "exn_name IndexError = ''IndexError''"
| "exn_name (OtherException n) = n"
| "exn_name CancelledError = ''CancelledError''"

lemma exn_name_nonempty: "e \<noteq> OtherException [] \<Longrightarrow> exn_name e \<noteq> []"
  by (cases e) auto

subsection \<open>Counters\<close>

definition counter_add :: "'a \<Rightarrow> ('a, int) dict \<Rightarrow> ('a, int) dict" where
  "counter_add x d = AList.update x (case map_of d x of None \<Rightarrow> 1 | Some n \<Rightarrow> n + 1) d"

definition counter :: "'a list \<Rightarrow> ('a, int) dict" where
  "counter xs = fold counter_add xs []"

text \<open>\<open>dict(sorted(counts.items()))\<close>: the keys are distinct, so their order decides.\<close>

definition sorted_items :: "('a::linorder, 'v) dict \<Rightarrow> ('a, 'v) dict" where
  "sorted_items d = sort_key fst d"

lemma counter_add_sum:
  "dict_ok d \<Longrightarrow> sum_list (map snd (counter_add x d)) = sum_list (map snd d) + 1"
proof (induction d)
  case Nil
  then show ?case by (simp add: counter_add_def)
next
  case (Cons p d)
  then show ?case by (cases p) (auto simp: counter_add_def)
qed

lemma counter_fold:
  assumes "dict_ok d"
  shows "dict_ok (fold counter_add xs d) \<and>
    sum_list (map snd (fold counter_add xs d)) = sum_list (map snd d) + int (length xs) \<and>
    (\<forall>k. map_of (fold counter_add xs d) k =
       (if k \<in> set xs \<or> map_of d k \<noteq> None
        then Some (int (count_list xs k) + (case map_of d k of None \<Rightarrow> 0 | Some n \<Rightarrow> n)) else None))"
  using assms
proof (induction xs arbitrary: d)
  case Nil
  then show ?case using Nil by (auto simp del: map_of_eq_Some_iff split: option.split)
next
  case (Cons x xs)
  have ok: "dict_ok (counter_add x d)" using Cons.prems by (simp add: counter_add_def dict_ok_update)
  have get: "map_of (counter_add x d) k = (if k = x then Some (case map_of d x of None \<Rightarrow> 1 | Some n \<Rightarrow> n + 1) else map_of d k)" for k
    by (simp add: counter_add_def dict_get_update)
  show ?case
    using Cons.IH [OF ok] counter_add_sum [OF Cons.prems, of x] by (auto simp: get split: option.splits)
qed

lemma counter_facts:
  "dict_ok (counter xs)" "sum_list (map snd (counter xs)) = int (length xs)"
  "map_of (counter xs) k = (if k \<in> set xs then Some (int (count_list xs k)) else None)"
  using counter_fold [of "[]" xs] by (simp_all add: counter_def)

lemma sorted_items_sum [simp]: "sum_list (map snd (sorted_items d)) = (sum_list (map snd d) :: int)"
proof -
  have "mset (map snd (sorted_items d)) = mset (map snd d)" by (simp add: sorted_items_def)
  then show ?thesis by (metis sum_mset_sum_list)
qed

lemma sorted_items_get [simp]: "dict_ok d \<Longrightarrow> map_of (sorted_items d) k = map_of d k"
proof -
  assume d: "dict_ok d"
  have "mset (map fst (sorted_items d)) = mset (map fst d)" by (simp add: sorted_items_def)
  then have "dict_ok (sorted_items d)" using d by (metis mset_eq_imp_distinct_iff)
  then show ?thesis using d by (intro map_of_eqI [THEN fun_cong] conjI) (auto simp: sorted_items_def map_of_eq_Some_iff)
qed

subsection \<open>Percentiles\<close>

definition py_trunc :: "real \<Rightarrow> int" where
  "py_trunc x = (if 0 \<le> x then \<lfloor>x\<rfloor> else \<lceil>x\<rceil>)"

definition percentile :: "real list \<Rightarrow> real \<Rightarrow> real option" where
  "percentile values fraction =
     (if values = [] then None
      else let ordered = sort values; n = int (length ordered);
               index = min (n - 1) (max 0 (py_trunc (of_int (n - 1) * fraction)))
           in Some (round3 (ordered ! nat index)))"

text \<open>The index is that of a nearest rank rounded down; it stays within the list for any fraction.\<close>

lemma py_round_mono: "x \<le> y \<Longrightarrow> py_round x \<le> py_round y"
proof -
  assume xy: "x \<le> y"
  have f: "\<lfloor>x\<rfloor> \<le> \<lfloor>y\<rfloor>" using xy by (rule floor_mono)
  show ?thesis
  proof (cases "\<lfloor>x\<rfloor> = \<lfloor>y\<rfloor>")
    case True
    then have "x - of_int \<lfloor>x\<rfloor> \<le> y - of_int \<lfloor>y\<rfloor>" using xy by simp
    then show ?thesis using True by (auto simp: py_round_def Let_def)
  next
    case False
    then have "\<lfloor>x\<rfloor> + 1 \<le> \<lfloor>y\<rfloor>" using f by simp
    then show ?thesis by (auto simp: py_round_def Let_def)
  qed
qed

lemma round3_mono: "x \<le> y \<Longrightarrow> round3 x \<le> round3 y"
  using py_round_mono [of "x * 1000" "y * 1000"] by (simp add: round3_def divide_right_mono)

lemma py_trunc_mono: "x \<le> y \<Longrightarrow> py_trunc x \<le> py_trunc y"
proof -
  assume xy: "x \<le> y"
  consider "0 \<le> x" | "x < 0" "0 \<le> y" | "y < 0" using xy by linarith
  then show ?thesis
  proof cases
    case 1
    then show ?thesis using xy floor_mono [OF xy] by (simp add: py_trunc_def)
  next
    case 2
    have "\<lceil>x\<rceil> \<le> 0" "0 \<le> \<lfloor>y\<rfloor>" using 2 by (simp_all add: ceiling_le_iff)
    then have "\<lceil>x\<rceil> \<le> \<lfloor>y\<rfloor>" by linarith
    then show ?thesis using 2 by (simp add: py_trunc_def)
  next
    case 3
    then show ?thesis using xy ceiling_mono [OF xy] by (simp add: py_trunc_def)
  qed
qed

lemma percentile_mono:
  assumes "percentile xs p = Some a" "percentile xs q = Some b" "p \<le> q"
  shows "a \<le> b"
proof -
  have ne: "xs \<noteq> []" using assms(1) by (auto simp: percentile_def)
  let ?n = "int (length xs) - 1"
  define i where "i = (\<lambda>f. min ?n (max 0 (py_trunc (of_int ?n * f))))"
  have n: "0 \<le> ?n" "0 < length xs" using ne by (cases xs, auto)+
  have "py_trunc (of_int ?n * p) \<le> py_trunc (of_int ?n * q)"
    using n(1) assms(3) by (intro py_trunc_mono mult_left_mono) (auto simp del: of_int_diff)
  then have "i p \<le> i q" "i q \<le> ?n" by (auto simp: i_def)
  then have "nat (i p) \<le> nat (i q)" "nat (i q) < length (sort xs)" using n by (simp_all, arith)
  then have "sort xs ! nat (i p) \<le> sort xs ! nat (i q)" by (intro sorted_nth_mono) auto
  moreover have "a = round3 (sort xs ! nat (i p))" "b = round3 (sort xs ! nat (i q))"
    using assms(1,2) ne by (simp_all add: percentile_def i_def Let_def)
  ultimately show ?thesis using round3_mono by simp
qed

lemma percentile_in:
  assumes "percentile xs p = Some a"
  shows "a \<in> round3 ` set xs"
proof -
  have ne: "xs \<noteq> []" using assms by (auto simp: percentile_def)
  define i where "i = nat (min (int (length xs) - 1) (max 0 (py_trunc (of_int (int (length xs) - 1) * p))))"
  have "i < length (sort xs)" using ne by (cases xs) (auto simp: i_def)
  then have "sort xs ! i \<in> set xs" by (metis nth_mem set_sort)
  moreover have "a = round3 (sort xs ! i)" using assms ne by (simp add: percentile_def i_def Let_def)
  ultimately show ?thesis by simp
qed

end
