(* ===== verification/Load.thy ===== *)
theory Load
  imports Evidence
begin

text \<open>
  The load generator (\<open>scripts/load_evidence.py\<close>): what one request records, batches of
  concurrent requests, requests at a fixed rate, the outage scenario and the summary. The
  HTTP client with the service behind it is a parameter. Requests in flight are the tasks of
  a step relation, since the service answers them in any order.
\<close>

subsection \<open>One request\<close>

record reply =
  rpl_status :: int
  rpl_json :: "pyvalue res"

record 's client =
  cli_post :: "string \<Rightarrow> (string, string) dict \<Rightarrow> pyvalue option \<Rightarrow> 's \<times> world \<Rightarrow> reply res \<times> ('s \<times> world)"
  cli_get :: "string \<Rightarrow> 's \<times> world \<Rightarrow> reply res \<times> ('s \<times> world)"

record Sample =
  smp_phase :: string
  smp_operation :: string
  smp_status_code :: "int option"
  smp_latency_ms :: real
  smp_result_status :: pyvalue
  smp_error_code :: pyvalue
  smp_network_error :: "string option"

definition PAYMENT_PATH :: string where
  "PAYMENT_PATH = ''/api/v1/payments''"

definition PAYMENT_BODY :: pyvalue where
  "PAYMENT_BODY =
     PDict [(''merchant_id'', PStr ''load-evidence-merchant''), (''amount'', PInt 100), (''currency'', PStr ''INR''),
            (''payment_method'', PDict [(''type'', PStr ''card''), (''token'', PStr ''test_card'')])]"

definition payment_request :: "string \<Rightarrow> pyvalue \<times> (string, string) dict" where
  "payment_request key = (PAYMENT_BODY, [(''Idempotency-Key'', key)])"

text \<open>The handler \<open>except Exception\<close> of the requests: the failure is a sample.\<close>

definition failed_sample :: "string \<Rightarrow> string \<Rightarrow> exn \<Rightarrow> real \<Rightarrow> 's \<times> world \<Rightarrow> Sample res \<times> ('s \<times> world)" where
  "failed_sample phase label e started st =
     (if is_Exception e
      then let (now, w) = perf_counter (snd st)
           in (Inr \<lparr>smp_phase = phase, smp_operation = label, smp_status_code = None,
                    smp_latency_ms = round3 ((now - started) * 1000), smp_result_status = PNone,
                    smp_error_code = PNone, smp_network_error = Some (exn_name e)\<rparr>, (fst st, w))
      else (Inl e, st))"

definition request_payment ::
  "'s client \<Rightarrow> string \<Rightarrow> string \<Rightarrow> string \<Rightarrow> 's \<times> world \<Rightarrow> (Sample \<times> pyvalue) res \<times> ('s \<times> world)" where
  "request_payment client phase key label st =
     (let (started, w1) = perf_counter (snd st);
          (body, headers) = payment_request key;
          no_payment = (\<lambda>(r, st). (map_sum id (\<lambda>sample. (sample, PNone)) r, st))
      in case cli_post client PAYMENT_PATH headers (Some body) (fst st, w1) of
           (Inl e, st2) \<Rightarrow> no_payment (failed_sample phase label e started st2)
         | (Inr response, (s2, w2)) \<Rightarrow>
             let (now, w3) = perf_counter w2; elapsed = (now - started) * 1000
             in case rpl_json response of
                  Inl e \<Rightarrow> no_payment (failed_sample phase label e started (s2, w3))
                | Inr data \<Rightarrow>
                    (Inr (\<lparr>smp_phase = phase, smp_operation = label, smp_status_code = Some (rpl_status response),
                           smp_latency_ms = round3 elapsed, smp_result_status = get_or_none ''status'' data,
                           smp_error_code = get_or_none ''code'' (get_or_none ''error'' data),
                           smp_network_error = None\<rparr>,
                          if rpl_status response = 201 then get_or_none ''id'' data else PNone), (s2, w3)))"

definition admin_request :: "'s client \<Rightarrow> string \<Rightarrow> string \<Rightarrow> string \<Rightarrow> 's \<times> world \<Rightarrow> Sample res \<times> ('s \<times> world)" where
  "admin_request client provider action admin_token st =
     (let (started, w1) = perf_counter (snd st); label = ''POST admin/'' @ action
      in case cli_post client (''/api/v1/admin/providers/'' @ provider @ ''/'' @ action)
                [(''X-Admin-Token'', admin_token)] None (fst st, w1) of
           (Inl e, st2) \<Rightarrow> failed_sample ''control'' label e started st2
         | (Inr response, (s2, w2)) \<Rightarrow>
             let (now, w3) = perf_counter w2; elapsed = (now - started) * 1000
             in case rpl_json response of
                  Inl e \<Rightarrow> failed_sample ''control'' label e started (s2, w3)
                | Inr data \<Rightarrow>
                    (Inr \<lparr>smp_phase = ''control'', smp_operation = label,
                          smp_status_code = Some (rpl_status response), smp_latency_ms = round3 elapsed,
                          smp_result_status = PNone, smp_error_code = get_or_none ''code'' (get_or_none ''error'' data),
                          smp_network_error = None\<rparr>, (s2, w3)))"

subsection \<open>Snapshots of the providers\<close>

definition provider_counters :: "pyvalue \<Rightarrow> pyvalue res" where
  "provider_counters provider =
     res_bind (py_get ''stats'' PNone provider) (\<lambda>found.
       let stats = (if truthy found then found else PDict []) in
       res_bind (py_get ''name'' PNone provider) (\<lambda>name.
       res_bind (py_get ''healthy'' PNone provider) (\<lambda>healthy.
       res_bind (py_get ''circuit_state'' PNone provider) (\<lambda>circuit_state.
       res_bind (py_get ''total_requests'' (PInt 0) stats) (\<lambda>total_requests.
       res_bind (py_get ''successes'' (PInt 0) stats) (\<lambda>successes.
       res_bind (py_get ''failures'' (PInt 0) stats) (\<lambda>failures.
       res_bind (py_get ''timeouts'' (PInt 0) stats) (\<lambda>timeouts.
       Inr (PDict [(''name'', name), (''healthy'', healthy), (''circuit_state'', circuit_state),
                   (''total_requests'', total_requests), (''successes'', successes), (''failures'', failures),
                   (''timeouts'', timeouts)])))))))))"

fun all_counters :: "pyvalue list \<Rightarrow> pyvalue list res" where
  "all_counters [] = Inr []"
| "all_counters (p # ps) = res_bind (provider_counters p) (\<lambda>c. res_bind (all_counters ps) (\<lambda>cs. Inr (c # cs)))"

definition failed_snapshot :: "exn \<Rightarrow> pyvalue res" where
  "failed_snapshot e =
     (if is_Exception e then Inr (PDict [(''status_code'', PNone), (''network_error'', PStr (exn_name e))]) else Inl e)"

definition read_snapshot :: "reply \<Rightarrow> pyvalue res" where
  "read_snapshot response =
     res_bind (rpl_json response) (\<lambda>data.
       case data of
         PList items \<Rightarrow>
           if rpl_status response \<noteq> 200 then Inr (PDict [(''status_code'', PInt (rpl_status response))])
           else res_bind (all_counters items)
                  (\<lambda>providers. Inr (PDict [(''status_code'', PInt (rpl_status response)), (''providers'', PList providers)]))
       | _ \<Rightarrow> Inr (PDict [(''status_code'', PInt (rpl_status response))]))"

definition provider_snapshot :: "'s client \<Rightarrow> 's \<times> world \<Rightarrow> pyvalue res \<times> ('s \<times> world)" where
  "provider_snapshot client st =
     (case cli_get client ''/api/v1/providers'' st of
        (Inl e, st1) \<Rightarrow> (failed_snapshot e, st1)
      | (Inr response, st1) \<Rightarrow>
          ((case read_snapshot response of Inl e \<Rightarrow> failed_snapshot e | Inr taken \<Rightarrow> Inr taken), st1))"


subsection \<open>Requests in flight\<close>

text \<open>
  A job waits for the semaphore, is in flight, or is finished. \<open>request i\<close> is what job \<open>i\<close>
  does; the service answers it at one moment while it is in flight.
\<close>

datatype 'r job = Queued | InFlight | Finished 'r

record ('r, 's) pool =
  pl_jobs :: "nat \<rightharpoonup> 'r job"
  pl_results :: "(nat \<times> 'r) list"
  pl_state :: 's

definition in_flight :: "('r, 's) pool \<Rightarrow> nat set" where
  "in_flight p = {i. pl_jobs p i = Some InFlight}"

inductive job_step :: "nat \<Rightarrow> (nat \<Rightarrow> 's \<Rightarrow> 'r res \<times> 's) \<Rightarrow> ('r, 's) pool \<Rightarrow> ('r, 's) pool \<Rightarrow> bool"
  for limit request where
  started: "pl_jobs p i = Some Queued \<Longrightarrow> card (in_flight p) < limit \<Longrightarrow>
    job_step limit request p (p\<lparr>pl_jobs := (pl_jobs p)(i \<mapsto> InFlight)\<rparr>)"
| finished: "pl_jobs p i = Some InFlight \<Longrightarrow> request i (pl_state p) = (Inr r, st) \<Longrightarrow>
    job_step limit request p
      (p\<lparr>pl_jobs := (pl_jobs p)(i \<mapsto> Finished r), pl_results := pl_results p @ [(i, r)], pl_state := st\<rparr>)"

inductive job_run :: "nat \<Rightarrow> (nat \<Rightarrow> 's \<Rightarrow> 'r res \<times> 's) \<Rightarrow> ('r, 's) pool \<Rightarrow> ('r, 's) pool \<Rightarrow> bool"
  for limit request p0 where
  start: "job_run limit request p0 p0"
| more: "job_run limit request p0 p \<Longrightarrow> job_step limit request p q \<Longrightarrow> job_run limit request p0 q"

inductive_cases job_stepE: "job_step limit request p q"

text \<open>\<open>asyncio.Semaphore(max(1, n))\<close>.\<close>

definition semaphore_size :: "int \<Rightarrow> nat" where
  "semaphore_size n = nat (max 1 n)"

fun add_id :: "pyvalue \<Rightarrow> pyvalue set res \<Rightarrow> pyvalue set res" where
  "add_id v ids = (if \<not> truthy v then ids
                   else res_bind ids (\<lambda>s. if hashable v then Inr (insert v s) else Inl (OtherException ''TypeError'')))"

definition load_key :: "string \<Rightarrow> nat \<Rightarrow> uuid \<Rightarrow> string" where
  "load_key phase index u = ''load-'' @ phase @ ''-'' @ json_int (int index) @ ''-'' @ uuid_hex u"

text \<open>The coroutine \<open>one\<close>: its key, then the request.\<close>

definition one_request ::
  "'s client \<Rightarrow> string \<Rightarrow> string option \<Rightarrow> nat \<Rightarrow> 's \<times> world \<Rightarrow> (Sample \<times> pyvalue) res \<times> ('s \<times> world)" where
  "one_request client phase shared_key index st =
     (case shared_key of
        Some key \<Rightarrow> request_payment client phase key ''POST /api/v1/payments'' st
      | None \<Rightarrow>
          let (u, w) = uuid4 (snd st)
          in request_payment client phase (load_key phase index u) ''POST /api/v1/payments'' (fst st, w))"

definition shared_key_of :: "bool \<Rightarrow> 's \<times> world \<Rightarrow> string option \<times> ('s \<times> world)" where
  "shared_key_of same_key st =
     (if same_key then let (u, w) = uuid4 (snd st) in (Some (''load-'' @ uuid_hex u), (fst st, w)) else (None, st))"

definition queued_pool :: "nat \<Rightarrow> 's \<Rightarrow> ('r, 's) pool" where
  "queued_pool jobs st = \<lparr>pl_jobs = (\<lambda>i. if i < jobs then Some Queued else None), pl_results = [], pl_state = st\<rparr>"

fun job_result :: "'r job option \<Rightarrow> 'r option" where
  "job_result (Some (Finished r)) = Some r"
| "job_result _ = None"

definition all_finished :: "('r, 's) pool \<Rightarrow> bool" where
  "all_finished p \<longleftrightarrow> (\<forall>i \<in> dom (pl_jobs p). job_result (pl_jobs p i) \<noteq> None)"

text \<open>\<open>asyncio.gather\<close> returns the results in the order of the jobs, whatever order they finished in.\<close>

definition gathered :: "nat \<Rightarrow> ('r, 's) pool \<Rightarrow> 'r list" where
  "gathered jobs p = map (\<lambda>i. the (job_result (pl_jobs p i))) [0..<jobs]"

inductive run_concurrent ::
  "'s client \<Rightarrow> nat \<Rightarrow> int \<Rightarrow> string \<Rightarrow> bool \<Rightarrow> 's \<times> world \<Rightarrow> (Sample list \<times> pyvalue set) res \<Rightarrow> 's \<times> world \<Rightarrow> bool"
  for client jobs concurrency phase same_key st where
  "shared_key_of same_key st = (shared, st1) \<Longrightarrow>
   job_run (semaphore_size concurrency) (one_request client phase shared) (queued_pool jobs st1) p \<Longrightarrow>
   all_finished p \<Longrightarrow>
   run_concurrent client jobs concurrency phase same_key st
     (map_sum id (\<lambda>ids. (map fst (gathered jobs p), ids)) (fold add_id (map snd (gathered jobs p)) (Inr {})))
     (pl_state p)"

subsection \<open>What a batch guarantees\<close>

text \<open>Requests one after the other.\<close>

fun run_requests :: "(nat \<Rightarrow> 's \<Rightarrow> 'r res \<times> 's) \<Rightarrow> nat list \<Rightarrow> 's \<Rightarrow> 'r list res \<times> 's" where
  "run_requests request [] st = (Inr [], st)"
| "run_requests request (i # is) st =
     then_do (request i st) (\<lambda>r st1. then_do (run_requests request is st1) (\<lambda>rs st2. (Inr (r # rs), st2)))"

lemma run_requests_append:
  "run_requests request (is @ js) st =
     then_do (run_requests request is st) (\<lambda>rs st1. then_do (run_requests request js st1) (\<lambda>qs st2. (Inr (rs @ qs), st2)))"
proof (induction "is" arbitrary: st)
  case Nil
  then show ?case by (cases "run_requests request js st"; cases "fst (run_requests request js st)") auto
next
  case (Cons i "is")
  obtain r st1 where r: "request i st = (r, st1)" by (metis prod.collapse)
  obtain q st2 where q: "run_requests request is st1 = (q, st2)" by (metis prod.collapse)
  obtain x st3 where x: "run_requests request js st2 = (x, st3)" by (metis prod.collapse)
  show ?case by (cases r; cases q; cases x) (simp_all add: Cons.IH r q x)
qed

text \<open>
  The books of a pool: the finished jobs are those of the results, each once. In a batch the
  results are those of the requests run one after the other in the order of completion.
\<close>

definition pool_books :: "('r, 's) pool \<Rightarrow> bool" where
  "pool_books p \<longleftrightarrow>
     finite (dom (pl_jobs p)) \<and> distinct (map fst (pl_results p)) \<and>
     (\<forall>i r. pl_jobs p i = Some (Finished r) \<longleftrightarrow> (i, r) \<in> set (pl_results p))"

definition in_sequence :: "(nat \<Rightarrow> 's \<Rightarrow> 'r res \<times> 's) \<Rightarrow> 's \<Rightarrow> ('r, 's) pool \<Rightarrow> bool" where
  "in_sequence request st0 p \<longleftrightarrow>
     run_requests request (map fst (pl_results p)) st0 = (Inr (map snd (pl_results p)), pl_state p)"

lemma pool_booksD:
  assumes "pool_books p"
  shows "finite (dom (pl_jobs p))" "distinct (map fst (pl_results p))"
    "pl_jobs p i = Some (Finished r) \<longleftrightarrow> (i, r) \<in> set (pl_results p)"
  using assms unfolding pool_books_def by blast+

lemma unfinished_result:
  assumes "pool_books p" "pl_jobs p i = Some j" "\<And>r. j \<noteq> Finished r"
  shows "i \<notin> fst ` set (pl_results p)"
proof
  assume "i \<in> fst ` set (pl_results p)"
  then obtain r where "(i, r) \<in> set (pl_results p)" by auto
  then show False using pool_booksD(3) [OF assms(1), of i r] assms(2,3) by simp
qed

lemma job_step_dom: "job_step limit request p q \<Longrightarrow> dom (pl_jobs q) = dom (pl_jobs p)"
  by (cases rule: job_step.cases) (auto split: if_splits)

lemma pool_books_step:
  assumes "pool_books p" "job_step limit request p q"
  shows "pool_books q"
  using assms(2)
proof cases
  case (started i)
  have i: "i \<notin> fst ` set (pl_results p)" by (rule unfinished_result [OF assms(1) started(2)]) simp
  have "pl_jobs q k = Some (Finished r) \<longleftrightarrow> (k, r) \<in> set (pl_results q)" for k r
    using started i pool_booksD(3) [OF assms(1), of k r] by (force split: if_splits)
  then show ?thesis unfolding pool_books_def using started pool_booksD [OF assms(1)] by auto
next
  case (finished i r st)
  have i: "i \<notin> fst ` set (pl_results p)" by (rule unfinished_result [OF assms(1) finished(2)]) simp
  have "pl_jobs q k = Some (Finished x) \<longleftrightarrow> (k, x) \<in> set (pl_results q)" for k x
    using finished i pool_booksD(3) [OF assms(1), of k x] by (force split: if_splits)
  then show ?thesis unfolding pool_books_def using finished i pool_booksD(1,2) [OF assms(1)] by auto
qed

lemma in_sequence_step: "in_sequence request st0 p \<Longrightarrow> job_step limit request p q \<Longrightarrow> in_sequence request st0 q"
  by (erule job_stepE) (simp_all add: in_sequence_def run_requests_append)

lemma in_flight_step:
  assumes "finite (dom (pl_jobs p))" "card (in_flight p) \<le> limit" "job_step limit request p q"
  shows "card (in_flight q) \<le> limit"
proof -
  have f: "finite (in_flight p)" by (rule finite_subset [OF _ assms(1)]) (auto simp: in_flight_def)
  show ?thesis
    using assms(3)
  proof cases
    case (started i)
    then have "in_flight q = insert i (in_flight p)" by (auto simp: in_flight_def)
    then show ?thesis using started(3) f by (simp add: card_insert_if)
  next
    case (finished i r st)
    then have "in_flight q = in_flight p - {i}" by (auto simp: in_flight_def)
    then show ?thesis using assms(2) card_mono [OF f, of "in_flight p - {i}"] by auto
  qed
qed

text \<open>Every step starts or finishes a job, so a batch ends.\<close>

definition job_work :: "'r job option \<Rightarrow> nat" where
  "job_work j = (case j of Some Queued \<Rightarrow> 2 | Some InFlight \<Rightarrow> 1 | _ \<Rightarrow> 0)"

definition pool_work :: "('r, 's) pool \<Rightarrow> nat" where
  "pool_work p = (\<Sum>i\<in>dom (pl_jobs p). job_work (pl_jobs p i))"

lemma pool_work_step:
  assumes "finite (dom (pl_jobs p))" "job_step limit request p q"
  shows "pool_work p = Suc (pool_work q)"
proof -
  have upd: "pool_work p = Suc (pool_work q)"
    if "i \<in> dom (pl_jobs p)" "pl_jobs q = (pl_jobs p)(i \<mapsto> j)" "job_work (pl_jobs p i) = Suc (job_work (Some j))" for i j
  proof -
    have d: "dom (pl_jobs q) = dom (pl_jobs p)" using that by auto
    have "pool_work p = job_work (pl_jobs p i) + (\<Sum>k\<in>dom (pl_jobs p) - {i}. job_work (pl_jobs p k))"
      unfolding pool_work_def by (rule sum.remove [OF assms(1) that(1)])
    moreover have "pool_work q = job_work (Some j) + (\<Sum>k\<in>dom (pl_jobs p) - {i}. job_work (pl_jobs p k))"
      unfolding pool_work_def d sum.remove [OF assms(1) that(1)] using that(2) by simp
    ultimately show ?thesis using that(3) by simp
  qed
  show ?thesis
    using assms(2)
  proof cases
    case (started i)
    then show ?thesis by (intro upd [of i InFlight]) (auto simp: job_work_def)
  next
    case (finished i r st)
    then show ?thesis by (intro upd [of i "Finished r"]) (auto simp: job_work_def)
  qed
qed

text \<open>While a job is unfinished, some job can move, provided that requests come to an end.\<close>

definition answers :: "(nat \<Rightarrow> 's \<Rightarrow> 'r res \<times> 's) \<Rightarrow> bool" where
  "answers request \<longleftrightarrow> (\<forall>i st. \<exists>r st'. request i st = (Inr r, st'))"

lemma job_progress:
  assumes "answers request" "pl_jobs p i = Some j" "\<And>r. j \<noteq> Finished r" "0 < limit"
  shows "\<exists>q. job_step limit request p q"
proof (cases "in_flight p = {}")
  case True
  then have "j = Queued" using assms(2,3) by (cases j) (auto simp: in_flight_def)
  then have "job_step limit request p (p\<lparr>pl_jobs := (pl_jobs p)(i \<mapsto> InFlight)\<rparr>)"
    using assms(2,4) True by (intro job_step.started) simp_all
  then show ?thesis by blast
next
  case False
  then obtain k where "pl_jobs p k = Some InFlight" by (auto simp: in_flight_def)
  moreover obtain r st where "request k (pl_state p) = (Inr r, st)" using assms(1) unfolding answers_def by blast
  ultimately show ?thesis by (blast intro: job_step.finished)
qed

lemma semaphore_pos [simp]: "0 < semaphore_size n"
  by (simp add: semaphore_size_def)

lemma queued_pool_simps [simp]:
  "in_flight (queued_pool jobs st) = {}" "dom (pl_jobs (queued_pool jobs st)) = {..<jobs}"
  "pl_results (queued_pool jobs st) = []" "pl_state (queued_pool jobs st) = st"
  "pl_jobs (queued_pool jobs st) i \<noteq> Some (Finished r)"
  by (auto simp: in_flight_def queued_pool_def split: if_splits)

lemma batch_run:
  assumes "job_run limit request (queued_pool jobs st) p"
  shows "pool_books p \<and> in_sequence request st p \<and> card (in_flight p) \<le> limit \<and> dom (pl_jobs p) = {..<jobs}"
  using assms
proof (induction rule: job_run.induct)
  case start
  show ?case by (simp add: pool_books_def in_sequence_def)
next
  case (more p q)
  then show ?case
    using pool_books_step [OF _ more(2)] in_sequence_step [OF _ more(2)] in_flight_step [OF _ _ more(2)]
      job_step_dom [OF more(2)] pool_booksD(1) by auto
qed

lemma all_finished_results:
  assumes "pool_books p" "all_finished p" "dom (pl_jobs p) = {..<jobs}"
  shows "set (map fst (pl_results p)) = {..<jobs}" "length (pl_results p) = jobs"
    "gathered jobs p = map (\<lambda>i. the (map_of (pl_results p) i)) [0..<jobs]"
proof -
  have e: "\<exists>r. pl_jobs p i = Some (Finished r)" if "i < jobs" for i
  proof -
    have "job_result (pl_jobs p i) \<noteq> None" using assms(2,3) that by (auto simp: all_finished_def)
    then show ?thesis by (cases "pl_jobs p i" rule: job_result.cases) auto
  qed
  have sub: "(i, r) \<in> set (pl_results p) \<Longrightarrow> i < jobs" for i r
    using pool_booksD(3) [OF assms(1), of i r] assms(3) by auto
  show f: "set (map fst (pl_results p)) = {..<jobs}"
    using e sub pool_booksD(3) [OF assms(1)] by (force simp: image_iff)
  then show "length (pl_results p) = jobs"
    using distinct_card [OF pool_booksD(2) [OF assms(1)]] by simp
  have "job_result (pl_jobs p i) = map_of (pl_results p) i" if i: "i < jobs" for i
  proof -
    obtain r where r: "pl_jobs p i = Some (Finished r)" using e [OF i] by blast
    then have "(i, r) \<in> set (pl_results p)" using pool_booksD(3) [OF assms(1)] by blast
    then have "map_of (pl_results p) i = Some r" using pool_booksD(2) [OF assms(1)] by simp
    then show ?thesis using r by simp
  qed
  then show "gathered jobs p = map (\<lambda>i. the (map_of (pl_results p) i)) [0..<jobs]" by (simp add: gathered_def)
qed


lemma unfinished_job:
  assumes "\<not> all_finished p"
  obtains i j where "pl_jobs p i = Some j" "\<And>r. j \<noteq> Finished r"
proof -
  obtain i j where "pl_jobs p i = Some j" "job_result (Some j) = None"
    using assms by (fastforce simp: all_finished_def)
  then show thesis using that by (cases j) auto
qed

lemma batch_ends:
  fixes p :: "('r, 's) pool"
  assumes "answers request" "0 < limit" "finite (dom (pl_jobs p))"
  shows "job_run limit request p0 p \<Longrightarrow> \<exists>q. job_run limit request p0 q \<and> all_finished q"
  using assms(3)
proof (induction "pool_work p" arbitrary: p rule: less_induct)
  case less
  show ?case
  proof (cases "all_finished p")
    case False
    then obtain q where q: "job_step limit request p q"
      using job_progress [OF assms(1) _ _ assms(2)] by (meson unfinished_job)
    then show ?thesis
      using less.hyps [of q] pool_work_step [OF less.prems(2) q] job_run.more [OF less.prems(1) q] less.prems(2) job_step_dom [OF q]
      by simp
  qed (use less.prems(1) in blast)
qed

subsection \<open>Requests at a fixed rate\<close>

text \<open>
  The loop of \<open>run_rate\<close>: it launches the next request when that is due, and once \<open>users\<close> of
  the launched requests are pending it waits for the first of them to finish. \<open>Returned\<close> is
  after the final \<open>gather\<close>.
\<close>

datatype loop_point = Launching | Collecting | Returned

record ('r, 's) rate_run =
  rrn_pool :: "('r, 's \<times> world) pool"
  rrn_index :: nat
  rrn_pending :: "nat set"
  rrn_point :: loop_point

definition wait_until_due :: "real \<Rightarrow> real \<Rightarrow> nat \<Rightarrow> 's \<times> world \<Rightarrow> 's \<times> world" where
  "wait_until_due rate started index st =
     (let (now, w) = perf_counter (snd st);
          delay = (started + real index / rate) - now
      in (fst st, if 0 < delay then sleep delay w else w))"

definition done_jobs :: "('r, 's) rate_run \<Rightarrow> nat set" where
  "done_jobs y = {i \<in> rrn_pending y. job_result (pl_jobs (rrn_pool y) i) \<noteq> None}"

definition launch :: "real \<Rightarrow> real \<Rightarrow> nat \<Rightarrow> ('r, 's) rate_run \<Rightarrow> ('r, 's) rate_run" where
  "launch rate begun limit y =
     (let i = rrn_index y; p = rrn_pool y; pending = insert i (rrn_pending y)
      in \<lparr>rrn_pool = p\<lparr>pl_jobs := (pl_jobs p)(i \<mapsto> Queued), pl_state := wait_until_due rate begun i (pl_state p)\<rparr>,
          rrn_index = Suc i, rrn_pending = pending,
          rrn_point = (if limit \<le> card pending then Collecting else Launching)\<rparr>)"

inductive rate_step ::
  "nat \<Rightarrow> real \<Rightarrow> real \<Rightarrow> nat \<Rightarrow> (nat \<Rightarrow> 's \<times> world \<Rightarrow> 'r res \<times> ('s \<times> world)) \<Rightarrow>
   ('r, 's) rate_run \<Rightarrow> ('r, 's) rate_run \<Rightarrow> bool"
  for jobs rate begun limit request where
  launched: "rrn_point y = Launching \<Longrightarrow> rrn_index y < jobs \<Longrightarrow>
    rate_step jobs rate begun limit request y (launch rate begun limit y)"
| collected: "rrn_point y = Collecting \<Longrightarrow> done_jobs y \<noteq> {} \<Longrightarrow>
    rate_step jobs rate begun limit request y (y\<lparr>rrn_pending := rrn_pending y - done_jobs y, rrn_point := Launching\<rparr>)"
| worked: "rrn_point y \<noteq> Returned \<Longrightarrow> job_step limit request (rrn_pool y) p \<Longrightarrow>
    rate_step jobs rate begun limit request y (y\<lparr>rrn_pool := p\<rparr>)"
| returned: "rrn_point y = Launching \<Longrightarrow> rrn_index y = jobs \<Longrightarrow> rrn_pending y \<subseteq> done_jobs y \<Longrightarrow>
    rate_step jobs rate begun limit request y (y\<lparr>rrn_point := Returned\<rparr>)"

inductive rate_reachable ::
  "nat \<Rightarrow> real \<Rightarrow> real \<Rightarrow> nat \<Rightarrow> (nat \<Rightarrow> 's \<times> world \<Rightarrow> 'r res \<times> ('s \<times> world)) \<Rightarrow> 's \<times> world \<Rightarrow> ('r, 's) rate_run \<Rightarrow> bool"
  for jobs rate begun limit request st where
  start: "rate_reachable jobs rate begun limit request st
    \<lparr>rrn_pool = queued_pool 0 st, rrn_index = 0, rrn_pending = {}, rrn_point = Launching\<rparr>"
| more: "rate_reachable jobs rate begun limit request st y \<Longrightarrow> rate_step jobs rate begun limit request y z \<Longrightarrow>
    rate_reachable jobs rate begun limit request st z"

text \<open>\<open>run_rate\<close>: its result, samples in the order of completion, and the state it leaves.\<close>

inductive run_rate ::
  "'s client \<Rightarrow> nat \<Rightarrow> real \<Rightarrow> int \<Rightarrow> string \<Rightarrow> 's \<times> world \<Rightarrow> (Sample list \<times> pyvalue set) res \<Rightarrow> 's \<times> world \<Rightarrow> bool"
  for client jobs rate users phase st where
  bad_rate: "rate \<le> 0 \<Longrightarrow> run_rate client jobs rate users phase st (Inl (ValueError ''rate must be positive'')) st"
| ran: "0 < rate \<Longrightarrow> perf_counter (snd st) = (begun, w) \<Longrightarrow>
    rate_reachable jobs rate begun (semaphore_size users) (one_request client phase None) (fst st, w) y \<Longrightarrow>
    rrn_point y = Returned \<Longrightarrow> results = map snd (pl_results (rrn_pool y)) \<Longrightarrow>
    run_rate client jobs rate users phase st
      (map_sum id (\<lambda>ids. (map fst results, ids)) (fold add_id (map snd results) (Inr {}))) (pl_state (rrn_pool y))"

subsection \<open>What a run at a fixed rate guarantees\<close>

text \<open>
  What is launched and unfinished is pending, and no more than \<open>limit\<close> requests are pending.
\<close>

definition rate_inv :: "nat \<Rightarrow> nat \<Rightarrow> ('r, 's) rate_run \<Rightarrow> bool" where
  "rate_inv jobs limit y \<longleftrightarrow>
     pool_books (rrn_pool y) \<and> dom (pl_jobs (rrn_pool y)) = {..<rrn_index y} \<and> rrn_index y \<le> jobs \<and>
     rrn_pending y \<subseteq> {..<rrn_index y} \<and> card (rrn_pending y) \<le> limit \<and>
     (\<forall>i<rrn_index y. job_result (pl_jobs (rrn_pool y) i) = None \<longrightarrow> i \<in> rrn_pending y) \<and>
     (rrn_point y = Launching \<longrightarrow> card (rrn_pending y) < limit) \<and>
     (rrn_point y = Collecting \<longrightarrow> rrn_pending y \<noteq> {}) \<and>
     (rrn_point y = Returned \<longrightarrow> rrn_index y = jobs \<and> all_finished (rrn_pool y))"

lemma job_result_None: "job_result (Some j) = None \<longleftrightarrow> (\<forall>r. j \<noteq> Finished r)"
  by (cases j) auto

lemma job_step_result: "job_step limit request p q \<Longrightarrow> job_result (pl_jobs q i) = None \<Longrightarrow> job_result (pl_jobs p i) = None"
  by (erule job_stepE) (auto split: if_splits)

lemma rate_inv_step:
  assumes inv: "rate_inv jobs limit y" and pos: "0 < limit" and step: "rate_step jobs rate begun limit request y z"
  shows "rate_inv jobs limit z"
  using step
proof cases
  case launched
  have fin: "finite (rrn_pending y)" using inv finite_subset [of "rrn_pending y" "{..<rrn_index y}"] by (auto simp: rate_inv_def)
  have new: "rrn_index y \<notin> rrn_pending y" using inv by (auto simp: rate_inv_def)
  have "pool_books (rrn_pool z)"
  proof -
    have "pl_jobs (rrn_pool y) (rrn_index y) = None" using inv by (auto simp: rate_inv_def dom_def)
    then have "pl_jobs (rrn_pool z) k = Some (Finished r) \<longleftrightarrow> pl_jobs (rrn_pool y) k = Some (Finished r)" for k r
      using launched(1) by (auto simp: launch_def Let_def)
    then show ?thesis using inv launched(1) by (auto simp: rate_inv_def pool_books_def launch_def Let_def)
  qed
  then show ?thesis using inv launched fin new pos
    by (auto simp: rate_inv_def launch_def Let_def less_Suc_eq)
next
  case collected
  have "card (rrn_pending y - done_jobs y) < card (rrn_pending y)"
  proof (rule psubset_card_mono)
    show "finite (rrn_pending y)" using inv finite_subset [of "rrn_pending y" "{..<rrn_index y}"] by (auto simp: rate_inv_def)
    show "rrn_pending y - done_jobs y \<subset> rrn_pending y" using collected(3) by (auto simp: done_jobs_def)
  qed
  then show ?thesis using inv collected by (auto simp: rate_inv_def done_jobs_def)
next
  case (worked p)
  then show ?thesis
    using inv pool_books_step [OF _ worked(3)] job_step_dom [OF worked(3)] job_step_result [OF worked(3)]
    by (auto simp: rate_inv_def)
next
  case returned
  then show ?thesis using inv by (auto simp: rate_inv_def all_finished_def done_jobs_def)
qed

lemma rate_reachable_inv:
  assumes "0 < limit"
  shows "rate_reachable jobs rate begun limit request st y \<Longrightarrow> rate_inv jobs limit y"
  by (induction rule: rate_reachable.induct)
    (simp add: rate_inv_def pool_books_def assms, rule rate_inv_step [OF _ assms])


text \<open>Every step takes the run closer to its end, and a run that has not returned can move.\<close>

definition rate_work :: "nat \<Rightarrow> ('r, 's) rate_run \<Rightarrow> nat" where
  "rate_work jobs y =
     5 * (jobs - rrn_index y) + pool_work (rrn_pool y) +
     (case rrn_point y of Launching \<Rightarrow> 1 | Collecting \<Rightarrow> 2 | Returned \<Rightarrow> 0)"

lemma pool_work_launch:
  assumes "finite (dom (pl_jobs p))" "pl_jobs p i = None"
  shows "pool_work (p\<lparr>pl_jobs := (pl_jobs p)(i \<mapsto> Queued), pl_state := st\<rparr>) = pool_work p + 2"
proof -
  have "i \<notin> dom (pl_jobs p)" using assms(2) by auto
  moreover have "(\<Sum>k\<in>dom (pl_jobs p). job_work (((pl_jobs p)(i \<mapsto> Queued)) k)) = (\<Sum>k\<in>dom (pl_jobs p). job_work (pl_jobs p k))"
    using assms(2) by (intro sum.cong) auto
  ultimately show ?thesis using assms(1) by (simp add: pool_work_def job_work_def)
qed

lemma rate_work_step:
  assumes inv: "rate_inv jobs limit y" and step: "rate_step jobs rate begun limit request y z"
  shows "rate_work jobs z < rate_work jobs y"
  using step
proof cases
  case launched
  have "finite (dom (pl_jobs (rrn_pool y)))" "pl_jobs (rrn_pool y) (rrn_index y) = None"
    using inv by (auto simp: rate_inv_def dom_def)
  from pool_work_launch [OF this, of "wait_until_due rate begun (rrn_index y) (pl_state (rrn_pool y))"]
  have "pool_work (rrn_pool z) = pool_work (rrn_pool y) + 2"
    using launched(1) by (simp add: launch_def Let_def)
  moreover have "5 * (jobs - rrn_index y) = 5 * (jobs - Suc (rrn_index y)) + 5" using launched(3) by simp
  ultimately show ?thesis using launched by (simp add: rate_work_def launch_def Let_def)
next
  case (worked p)
  have "finite (dom (pl_jobs (rrn_pool y)))" using inv by (auto simp: rate_inv_def)
  from pool_work_step [OF this worked(3)] show ?thesis using worked(1) by (simp add: rate_work_def)
qed (auto simp: rate_work_def)

lemma rate_free_permit:
  assumes inv: "rate_inv jobs limit y" and q: "pl_jobs (rrn_pool y) i = Some Queued"
  shows "card (in_flight (rrn_pool y)) < limit"
proof -
  have fin: "finite (rrn_pending y)" using inv finite_subset [of "rrn_pending y" "{..<rrn_index y}"] by (auto simp: rate_inv_def)
  have unf: "k \<in> rrn_pending y" if "pl_jobs (rrn_pool y) k = Some j" "job_result (Some j) = None" for k j
  proof -
    have "k \<in> dom (pl_jobs (rrn_pool y))" using that by auto
    then show ?thesis using inv that by (auto simp: rate_inv_def)
  qed
  have "in_flight (rrn_pool y) \<subset> rrn_pending y"
  proof
    show "in_flight (rrn_pool y) \<subseteq> rrn_pending y" using unf [of _ InFlight] by (auto simp: in_flight_def)
    have "i \<in> rrn_pending y" "i \<notin> in_flight (rrn_pool y)" using unf [OF q] q by (simp_all add: in_flight_def)
    then show "in_flight (rrn_pool y) \<noteq> rrn_pending y" by blast
  qed
  from psubset_card_mono [OF fin this] show ?thesis using inv by (auto simp: rate_inv_def)
qed

lemma rate_progress:
  assumes ans: "answers request" and pos: "0 < limit" and inv: "rate_inv jobs limit y" and more: "rrn_point y \<noteq> Returned"
  shows "\<exists>z. rate_step jobs rate begun limit request y z"
proof -
  have work: "\<exists>z. rate_step jobs rate begun limit request y z" if i: "i \<in> rrn_pending y" "i \<notin> done_jobs y" for i
  proof -
    have "i \<in> dom (pl_jobs (rrn_pool y))" "job_result (pl_jobs (rrn_pool y) i) = None"
      using inv i by (auto simp: rate_inv_def done_jobs_def)
    then obtain j where "pl_jobs (rrn_pool y) i = Some j" "\<And>r. j \<noteq> Finished r" by (auto simp: job_result_None)
    then show ?thesis using job_progress [OF ans _ _ pos] rate_step.worked [OF more] by metis
  qed
  consider "rrn_point y = Launching" "rrn_index y < jobs" | "rrn_point y = Launching" "rrn_index y = jobs" | "rrn_point y = Collecting"
    using inv more by (cases "rrn_point y") (auto simp: rate_inv_def le_less)
  then show ?thesis
  proof cases
    case 1
    then show ?thesis by (blast intro: rate_step.launched)
  next
    case 2
    then show ?thesis using work by (blast intro: rate_step.returned)
  next
    case 3
    then obtain i where "i \<in> rrn_pending y" using inv by (auto simp: rate_inv_def)
    then show ?thesis using 3 work by (blast intro: rate_step.collected)
  qed
qed

lemma rate_returns:
  assumes "answers request" "0 < limit"
  shows "rate_reachable jobs rate begun limit request st y \<Longrightarrow>
    \<exists>z. rate_reachable jobs rate begun limit request st z \<and> rrn_point z = Returned"
proof (induction "rate_work jobs y" arbitrary: y rule: less_induct)
  case less
  note inv = rate_reachable_inv [OF assms(2) less.prems]
  show ?case
  proof (cases "rrn_point y = Returned")
    case False
    then obtain z where z: "rate_step jobs rate begun limit request y z"
      using rate_progress [OF assms inv] by blast
    then show ?thesis
      using less.hyps [of z] rate_work_step [OF inv z] rate_reachable.more [OF less.prems z] by blast
  qed (use less.prems in blast)
qed

text \<open>
  C37. A run at a fixed rate ends, whatever the order in which the service answers: every step
  uses up work, a run that has not returned has a next step, and when it returns each of the
  requests was made exactly once. On the way at most \<open>users\<close> requests are pending, and the
  semaphore never makes one of them wait.
\<close>

theorem rate_run_terminates:
  assumes "answers request" "rate_reachable jobs rate begun (semaphore_size users) request st y"
  shows "(\<forall>z. rate_step jobs rate begun (semaphore_size users) request y z \<longrightarrow> rate_work jobs z < rate_work jobs y) \<and>
    (rrn_point y \<noteq> Returned \<longrightarrow> (\<exists>z. rate_step jobs rate begun (semaphore_size users) request y z)) \<and>
    (rrn_point y = Returned \<longrightarrow>
       distinct (map fst (pl_results (rrn_pool y))) \<and> set (map fst (pl_results (rrn_pool y))) = {..<jobs}) \<and>
    card (rrn_pending y) \<le> semaphore_size users \<and> in_flight (rrn_pool y) \<subseteq> rrn_pending y \<and>
    (\<forall>i. pl_jobs (rrn_pool y) i = Some Queued \<longrightarrow> card (in_flight (rrn_pool y)) < semaphore_size users)"
proof -
  note inv = rate_reachable_inv [OF semaphore_pos assms(2)]
  have "i \<in> rrn_pending y" if "i \<in> in_flight (rrn_pool y)" for i
  proof -
    have "i \<in> dom (pl_jobs (rrn_pool y))" using that by (auto simp: in_flight_def)
    then show ?thesis using inv that by (auto simp: rate_inv_def in_flight_def)
  qed
  moreover have "set (map fst (pl_results (rrn_pool y))) = {..<jobs}" if "rrn_point y = Returned"
    using inv that all_finished_results(1) [of "rrn_pool y" jobs] by (simp add: rate_inv_def)
  moreover have "distinct (map fst (pl_results (rrn_pool y)))" "card (rrn_pending y) \<le> semaphore_size users"
    using inv by (auto simp: rate_inv_def pool_books_def)
  ultimately show ?thesis
    using rate_work_step [OF inv] rate_progress [OF assms(1) semaphore_pos inv] rate_free_permit [OF inv] by blast
qed


text \<open>A run of three requests by two users that has returned.\<close>

theorem rate_run_terminates_witness:
  "\<exists>y. rate_reachable 3 10 0 (semaphore_size 2) (\<lambda>i st. (Inr i, st)) ((), sample_world) y \<and> rrn_point y = Returned \<and>
     set (map fst (pl_results (rrn_pool y))) = {..<3}"
proof -
  have a: "answers (\<lambda>i st :: unit \<times> world. (Inr i, st))" by (simp add: answers_def)
  obtain y where y: "rate_reachable 3 10 0 (semaphore_size 2) (\<lambda>i st. (Inr i, st)) ((), sample_world) y" "rrn_point y = Returned"
    using rate_returns [OF a semaphore_pos rate_reachable.start] by blast
  then show ?thesis using rate_run_terminates [OF a y(1)] by blast
qed

text \<open>
  A batch of concurrent requests: at most \<open>concurrency\<close> of them are in flight, a batch that
  is not finished can go on, and a finished one returns for every job, in the order of the
  jobs, what the requests return when they are made one after the other in some order.
\<close>

theorem batch_linearizable:
  assumes "answers request" "job_run (semaphore_size concurrency) request (queued_pool jobs st) p"
  shows "card (in_flight p) \<le> semaphore_size concurrency \<and>
    (\<not> all_finished p \<longrightarrow> (\<exists>q. job_step (semaphore_size concurrency) request p q \<and> pool_work q < pool_work p)) \<and>
    (all_finished p \<longrightarrow>
       (\<exists>order rs. distinct order \<and> set order = {..<jobs} \<and> run_requests request order st = (Inr rs, pl_state p) \<and>
          gathered jobs p = map (\<lambda>i. the (map_of (zip order rs) i)) [0..<jobs]))"
proof -
  note b = batch_run [OF assms(2)]
  then have fin: "finite (dom (pl_jobs p))" by (simp add: pool_books_def)
  have "\<exists>q. job_step (semaphore_size concurrency) request p q \<and> pool_work q < pool_work p" if un: "\<not> all_finished p"
  proof -
    obtain q where "job_step (semaphore_size concurrency) request p q"
      using unfinished_job [OF un] job_progress [OF assms(1) _ _ semaphore_pos] by metis
    then show ?thesis using pool_work_step [OF fin] by fastforce
  qed
  moreover have "\<exists>order rs. distinct order \<and> set order = {..<jobs} \<and> run_requests request order st = (Inr rs, pl_state p) \<and>
      gathered jobs p = map (\<lambda>i. the (map_of (zip order rs) i)) [0..<jobs]" if "all_finished p"
    using b all_finished_results [OF _ that, of jobs] pool_booksD(2) [of p]
    by (intro exI [of _ "map fst (pl_results p)"] exI [of _ "map snd (pl_results p)"])
      (simp add: in_sequence_def zip_map_fst_snd)
  ultimately show ?thesis using b by blast
qed

theorem batch_linearizable_witness:
  "\<exists>p order rs. job_run (semaphore_size 4) (\<lambda>i st. (Inr (i + st), st + 1)) (queued_pool 3 (0::nat)) p \<and> set order = {..<3} \<and>
     run_requests (\<lambda>i st. (Inr (i + st), st + 1)) order 0 = (Inr rs, pl_state p)"
proof -
  let ?r = "\<lambda>i st. (Inr (i + st), st + 1) :: nat res \<times> nat"
  have a: "answers ?r" by (simp add: answers_def)
  obtain p where p: "job_run (semaphore_size 4) ?r (queued_pool 3 0) p" "all_finished p"
    using batch_ends [OF a semaphore_pos _ job_run.start, of "queued_pool 3 0" 4] by auto
  then show ?thesis using batch_linearizable [OF a p(1)] by blast
qed

subsection \<open>The summary\<close>

record PhaseSummary =
  phs_requests :: int
  phs_status_counts :: "(string, int) dict"
  phs_p50 :: "real option"
  phs_p95 :: "real option"
  phs_p99 :: "real option"

record Summary =
  sum_requests :: int
  sum_status_counts :: "(string, int) dict"
  sum_network_errors :: "(string, int) dict"
  sum_successful :: int
  sum_p50 :: "real option"
  sum_p95 :: "real option"
  sum_p99 :: "real option"
  sum_per_second :: "real option"
  sum_elapsed_seconds :: real
  sum_distinct_payment_ids :: int
  sum_by_phase :: "(string, PhaseSummary) dict"

definition measured :: "Sample list \<Rightarrow> real list" where
  "measured samples = map smp_latency_ms (filter (\<lambda>s. smp_status_code s \<noteq> None) samples)"

definition status_texts :: "Sample list \<Rightarrow> string list" where
  "status_texts samples = map json_int (List.map_filter smp_status_code samples)"

definition network_failures :: "Sample list \<Rightarrow> string list" where
  "network_failures samples = filter (\<lambda>e. e \<noteq> []) (List.map_filter smp_network_error samples)"

definition in_phase :: "string \<Rightarrow> Sample list \<Rightarrow> Sample list" where
  "in_phase name samples = filter (\<lambda>s. smp_phase s = name) samples"

definition phase_summary :: "Sample list \<Rightarrow> PhaseSummary" where
  "phase_summary samples =
     \<lparr>phs_requests = int (length samples), phs_status_counts = sorted_items (counter (status_texts samples)),
      phs_p50 = percentile (measured samples) (50 / 100), phs_p95 = percentile (measured samples) (95 / 100),
      phs_p99 = percentile (measured samples) (99 / 100)\<rparr>"

definition summarize :: "Sample list \<Rightarrow> real \<Rightarrow> pyvalue set \<Rightarrow> world \<Rightarrow> Summary \<times> world" where
  "summarize samples begun payment_ids w =
     (let (now, w1) = perf_counter w;
          elapsed = max 0 (now - begun);
          status_counts = counter (status_texts samples)
      in (\<lparr>sum_requests = int (length samples), sum_status_counts = sorted_items status_counts,
           sum_network_errors = sorted_items (counter (network_failures samples)),
           sum_successful = (case map_of status_counts ''201'' of None \<Rightarrow> 0 | Some n \<Rightarrow> n),
           sum_p50 = percentile (measured samples) (50 / 100), sum_p95 = percentile (measured samples) (95 / 100),
           sum_p99 = percentile (measured samples) (99 / 100),
           sum_per_second = (if elapsed \<noteq> 0 then Some (round3 (real (length samples) / elapsed)) else None),
           sum_elapsed_seconds = round3 elapsed, sum_distinct_payment_ids = int (card payment_ids),
           sum_by_phase = map (\<lambda>name. (name, phase_summary (in_phase name samples))) (sort (remdups (map smp_phase samples)))\<rparr>, w1))"

text \<open>What every sample of the script is: a status, or the name of a failure of the transport.\<close>

definition sample_ok :: "Sample \<Rightarrow> bool" where
  "sample_ok s \<longleftrightarrow> (if smp_status_code s = None then \<exists>e. smp_network_error s = Some e \<and> e \<noteq> [] else smp_network_error s = None)"

lemma sum_by_key:
  fixes g :: "'a \<Rightarrow> int"
  assumes "distinct names" "h ` set xs \<subseteq> set names"
  shows "(\<Sum>n\<leftarrow>names. sum_list (map g (filter (\<lambda>x. h x = n) xs))) = sum_list (map g xs)"
  using assms(2)
proof (induction xs)
  case (Cons x xs)
  have "(\<Sum>n\<leftarrow>names. (if h x = n then g x else 0) + sum_list (map g (filter (\<lambda>x. h x = n) xs))) =
    (\<Sum>n\<leftarrow>names. if h x = n then g x else 0) + sum_list (map g xs)"
    using Cons by (simp add: sum_list_addf)
  moreover have "(\<Sum>n\<leftarrow>names. if h x = n then g x else 0) = g x"
    using assms(1) Cons.prems by (simp add: sum_list_distinct_conv_sum_set)
  moreover have "sum_list (map g (filter (\<lambda>x. h x = n) (x # xs))) =
    (if h x = n then g x else 0) + sum_list (map g (filter (\<lambda>x. h x = n) xs))" for n by simp
  ultimately show ?case by simp
qed simp

definition code_is :: "int \<Rightarrow> Sample \<Rightarrow> int" where
  "code_is c s = (if smp_status_code s = Some c then 1 else 0)"

lemma json_int_eq [simp]: "json_int i = json_int j \<longleftrightarrow> i = j"
  using json_int_inj by auto

lemma status_count:
  "map_of (counter (status_texts xs)) (json_int c) =
     (if \<exists>s\<in>set xs. smp_status_code s = Some c then Some (sum_list (map (code_is c) xs)) else None)"
proof -
  have "int (count_list (status_texts xs) (json_int c)) = sum_list (map (code_is c) xs)"
    by (induction xs) (auto simp: status_texts_def code_is_def List.map_filter_simps split: option.split)
  moreover have "json_int c \<in> set (status_texts xs) \<longleftrightarrow> (\<exists>s\<in>set xs. smp_status_code s = Some c)"
    by (force simp: status_texts_def List.map_filter_def)
  ultimately show ?thesis by (simp add: counter_facts(3))
qed

lemma sample_counts:
  assumes "list_all sample_ok xs"
  shows "length (status_texts xs) + length (network_failures xs) = length xs"
  using assms
  by (induction xs) (auto simp: status_texts_def network_failures_def sample_ok_def List.map_filter_simps split: if_splits option.split)

text \<open>
  The summary adds up: the counts of statuses and of failures of the transport are all the
  requests, so are the requests of the phases, a status is counted in the phases as often as
  in total, \<open>successful_payment_responses\<close> is the number of answers with 201, and the three
  percentiles are measured latencies in increasing order.
\<close>

theorem summary_adds_up:
  assumes "list_all sample_ok samples" "summarize samples begun ids w = (s, w1)"
  shows "sum_requests s = int (length samples) \<and>
    sum_list (map snd (sum_status_counts s)) + sum_list (map snd (sum_network_errors s)) = sum_requests s \<and>
    (\<Sum>p\<leftarrow>sum_by_phase s. phs_requests (snd p)) = sum_requests s \<and>
    (\<Sum>p\<leftarrow>sum_by_phase s. case map_of (phs_status_counts (snd p)) (json_int c) of None \<Rightarrow> 0 | Some n \<Rightarrow> n) =
      (case map_of (sum_status_counts s) (json_int c) of None \<Rightarrow> 0 | Some n \<Rightarrow> n) \<and>
    sum_successful s = int (length (filter (\<lambda>x. smp_status_code x = Some 201) samples)) \<and>
    (\<forall>a b d. sum_p50 s = Some a \<and> sum_p95 s = Some b \<and> sum_p99 s = Some d \<longrightarrow>
       a \<le> b \<and> b \<le> d \<and> {a, b, d} \<subseteq> round3 ` set (measured samples))"
proof -
  define names where "names = sort (remdups (map smp_phase samples))"
  have n: "distinct names" "smp_phase ` set samples \<subseteq> set names" by (auto simp: names_def)
  have s: "sum_requests s = int (length samples)" "sum_status_counts s = sorted_items (counter (status_texts samples))"
    "sum_network_errors s = sorted_items (counter (network_failures samples))"
    "sum_successful s = (case map_of (counter (status_texts samples)) (json_int 201) of None \<Rightarrow> 0 | Some n \<Rightarrow> n)"
    "sum_p50 s = percentile (measured samples) (50 / 100)" "sum_p95 s = percentile (measured samples) (95 / 100)"
    "sum_p99 s = percentile (measured samples) (99 / 100)"
    "sum_by_phase s = map (\<lambda>name. (name, phase_summary (in_phase name samples))) names"
    using assms(2) by (auto simp: summarize_def case_prod_beta Let_def names_def json_int_def decimal.simps hex_digit_def)
  have count: "(case map_of (sorted_items (counter (status_texts xs))) (json_int c) of None \<Rightarrow> 0 | Some n \<Rightarrow> n) = sum_list (map (code_is c) xs)" for xs c
  proof -
    have "sum_list (map (code_is c) xs) = 0" if "\<not> (\<exists>s\<in>set xs. smp_status_code s = Some c)"
      using that by (induction xs) (auto simp: code_is_def)
    then show ?thesis by (simp add: counter_facts(1) status_count)
  qed
  have "(\<Sum>p\<leftarrow>sum_by_phase s. phs_requests (snd p)) = int (length samples)"
    using sum_by_key [OF n, of "\<lambda>_. 1"] by (simp add: s comp_def phase_summary_def in_phase_def sum_list_triv)
  moreover have "(\<Sum>p\<leftarrow>sum_by_phase s. case map_of (phs_status_counts (snd p)) (json_int c) of None \<Rightarrow> 0 | Some n \<Rightarrow> n) = sum_list (map (code_is c) samples)"
    using sum_by_key [OF n, of "code_is c"] by (simp add: s comp_def phase_summary_def count in_phase_def)
  moreover have "sum_successful s = int (length (filter (\<lambda>x. smp_status_code x = Some 201) samples))"
  proof -
    have "sum_list (map (code_is 201) xs) = int (length (filter (\<lambda>x. smp_status_code x = Some 201) xs))" for xs
      by (induction xs) (auto simp: code_is_def)
    then show ?thesis using count [of samples 201] by (simp add: s counter_facts(1))
  qed
  moreover have "int (length (status_texts samples)) + int (length (network_failures samples)) = int (length samples)"
    using sample_counts [OF assms(1)] by linarith
  ultimately show ?thesis
    using percentile_mono [of "measured samples"] percentile_in [of "measured samples"]
    by (auto simp: s count counter_facts(2))
qed


definition sample_with :: "string \<Rightarrow> int option \<Rightarrow> real \<Rightarrow> Sample" where
  "sample_with name status latency =
     \<lparr>smp_phase = name, smp_operation = ''POST /api/v1/payments'', smp_status_code = status, smp_latency_ms = latency,
      smp_result_status = PNone, smp_error_code = PNone,
      smp_network_error = (if status = None then Some ''ConnectError'' else None)\<rparr>"

theorem summary_adds_up_witness:
  "let s = fst (summarize [sample_with ''outage'' (Some 201) 12, sample_with ''outage'' (Some 503) 7, sample_with ''recovery'' None 3]
                  0 {PStr ''a''} sample_world)
   in sum_requests s = 3 \<and> sum_successful s = 1 \<and>
      sum_list (map snd (sum_status_counts s)) + sum_list (map snd (sum_network_errors s)) = 3"
proof -
  let ?xs = "[sample_with ''outage'' (Some 201) 12, sample_with ''outage'' (Some 503) 7, sample_with ''recovery'' None 3]"
  have "list_all sample_ok ?xs" by (simp add: sample_with_def sample_ok_def)
  from summary_adds_up [OF this surjective_pairing, of 0 "{PStr ''a''}" sample_world]
  show ?thesis by (simp add: Let_def sample_with_def)
qed

subsection \<open>The outage scenario\<close>

text \<open>\<open>{item.get("name"): item for item in snapshot.get("providers", [])}\<close>: later items replace earlier ones.\<close>

fun named_items :: "pyvalue list \<Rightarrow> (pyvalue \<times> pyvalue) list res" where
  "named_items [] = Inr []"
| "named_items (entry # items) =
     res_bind (py_get ''name'' PNone entry) (\<lambda>name.
       if \<not> hashable name then Inl (OtherException ''TypeError'')
       else res_bind (named_items items) (\<lambda>rest. Inr ((name, entry) # rest)))"

definition by_name :: "pyvalue \<Rightarrow> (pyvalue, pyvalue) dict res" where
  "by_name taken =
     res_bind (py_get ''providers'' (PList []) taken) (\<lambda>providers.
       case providers of
         PList items \<Rightarrow> res_bind (named_items items) (\<lambda>named. Inr (dict_of named))
       | _ \<Rightarrow> Inl (OtherException ''TypeError''))"

definition request_delta :: "pyvalue \<Rightarrow> pyvalue \<Rightarrow> real res" where
  "request_delta before after =
     res_bind (py_get ''total_requests'' (PInt 0) after) (\<lambda>a.
     res_bind (py_get ''total_requests'' (PInt 0) before) (\<lambda>b.
     res_bind (py_number a) (\<lambda>x. res_bind (py_number b) (\<lambda>y. Inr (x - y)))))"

fun request_deltas :: "(pyvalue, pyvalue) dict \<Rightarrow> (pyvalue, pyvalue) dict \<Rightarrow> (pyvalue, real) dict res" where
  "request_deltas [] after = Inr []"
| "request_deltas ((name, before) # items) after =
     (case map_of after name of
        None \<Rightarrow> request_deltas items after
      | Some entry \<Rightarrow>
          res_bind (request_delta before entry) (\<lambda>d.
          res_bind (request_deltas items after) (\<lambda>rest. Inr ((name, d) # rest))))"

record outage_details =
  out_provider :: string
  out_recovery_elapsed_ms :: real
  out_snapshots :: "(string, pyvalue) dict"
  out_request_deltas :: "(pyvalue, real) dict"
  out_failover_observed :: bool

definition outage_details_of ::
  "string \<Rightarrow> real \<Rightarrow> (string, pyvalue) dict \<Rightarrow> pyvalue \<Rightarrow> pyvalue \<Rightarrow> outage_details res" where
  "outage_details_of provider elapsed snapshots before_fail after_outage =
     res_bind (by_name before_fail) (\<lambda>before.
     res_bind (by_name after_outage) (\<lambda>after.
     res_bind (request_deltas before after) (\<lambda>deltas.
     Inr \<lparr>out_provider = provider, out_recovery_elapsed_ms = elapsed, out_snapshots = snapshots,
          out_request_deltas = deltas,
          out_failover_observed = list_ex (\<lambda>(name, delta). name \<noteq> PStr provider \<and> 0 < delta) deltas\<rparr>)))"

definition outage_count :: "real \<Rightarrow> real \<Rightarrow> nat" where
  "outage_count rate duration = nat (max 1 (py_round (rate * duration)))"

definition recovery_count :: "nat \<Rightarrow> int \<Rightarrow> nat" where
  "recovery_count jobs users = nat (max 1 (min (int jobs) users))"

text \<open>The scenario with a client that is not cancelled; what the last part raises is its result.\<close>

inductive run_outage ::
  "'s client \<Rightarrow> string \<Rightarrow> string \<Rightarrow> int \<Rightarrow> real \<Rightarrow> real \<Rightarrow> 's \<times> world \<Rightarrow>
   (Sample list \<times> pyvalue set \<times> outage_details) res \<Rightarrow> 's \<times> world \<Rightarrow> bool"
  for client provider token users rate duration st where
  "provider_snapshot client st = (Inr before_fail, st1) \<Longrightarrow>
   admin_request client provider ''fail'' token st1 = (Inr c1, st2) \<Longrightarrow>
   provider_snapshot client st2 = (Inr after_fail, st3) \<Longrightarrow>
   run_rate client (outage_count rate duration) rate users ''outage'' st3 (Inr (outage_samples, outage_ids)) st4 \<Longrightarrow>
   provider_snapshot client st4 = (Inr after_outage, st5) \<Longrightarrow>
   admin_request client provider ''recover'' token st5 = (Inr c2, st6) \<Longrightarrow>
   provider_snapshot client st6 = (Inr after_recover, st7) \<Longrightarrow>
   perf_counter (snd st7) = (recovery_started, w8) \<Longrightarrow>
   run_rate client (recovery_count (outage_count rate duration) users) rate users ''recovery'' (fst st7, w8)
     (Inr (recovery_samples, recovery_ids)) st9 \<Longrightarrow>
   perf_counter (snd st9) = (now, w10) \<Longrightarrow>
   provider_snapshot client (fst st9, w10) = (Inr after_recovery, st11) \<Longrightarrow>
   admin_request client provider ''recover'' token st11 = (Inr c3, st12) \<Longrightarrow>
   run_outage client provider token users rate duration st
     (map_sum id (\<lambda>details. ([c1, c2, c3] @ outage_samples @ recovery_samples, outage_ids \<union> recovery_ids, details))
        (outage_details_of provider (round3 ((now - recovery_started) * 1000))
           [(''before_fail'', before_fail), (''after_fail'', after_fail), (''after_outage'', after_outage),
            (''after_recover'', after_recover), (''after_recovery'', after_recovery)]
           before_fail after_outage))
     st12"

subsection \<open>Scenarios\<close>

datatype scenario = Normal | Concurrent | Outage | Idempotency

record arguments =
  arg_scenario :: scenario
  arg_users :: int
  arg_rate :: real
  arg_duration :: real
  arg_requests :: "int option"
  arg_provider :: string
  arg_admin_token :: string
  arg_timeout :: real

text \<open>The checks of \<open>parse_args\<close>; \<open>parser.error\<close> raises \<open>SystemExit\<close>.\<close>

definition check_arguments :: "arguments \<Rightarrow> unit res" where
  "check_arguments args =
     (if arg_users args < 1 \<or> arg_rate args \<le> 0 \<or> arg_duration args \<le> 0 \<or> arg_timeout args \<le> 0
      then Inl (OtherException ''SystemExit'')
      else if \<exists>n. arg_requests args = Some n \<and> n < 1 then Inl (OtherException ''SystemExit'')
      else Inr ())"

definition scenario_requests :: "arguments \<Rightarrow> nat" where
  "scenario_requests args =
     nat (case arg_requests args of
            Some n \<Rightarrow> n
          | None \<Rightarrow> (case arg_scenario args of
                      Normal \<Rightarrow> max 1 (py_round (arg_rate args * arg_duration args))
                    | Concurrent \<Rightarrow> 1000
                    | _ \<Rightarrow> 500))"

definition equivalent_payment_responses :: "Sample list \<Rightarrow> pyvalue set \<Rightarrow> bool" where
  "equivalent_payment_responses samples ids \<longleftrightarrow>
     card ids = 1 \<and> list_all (\<lambda>s. smp_status_code s = Some 201) samples"

datatype details = NoDetails | Equivalent bool | OutageDetails outage_details

inductive run_scenario ::
  "arguments \<Rightarrow> 's client \<Rightarrow> 's \<times> world \<Rightarrow> (Sample list \<times> pyvalue set \<times> details) res \<Rightarrow> 's \<times> world \<Rightarrow> bool"
  for args client st where
  normal: "arg_scenario args = Normal \<Longrightarrow>
    run_rate client (scenario_requests args) (arg_rate args) (arg_users args) ''normal'' st r st1 \<Longrightarrow>
    run_scenario args client st (map_sum id (\<lambda>(samples, ids). (samples, ids, NoDetails)) r) st1"
| concurrent: "arg_scenario args = Concurrent \<Longrightarrow>
    run_concurrent client (scenario_requests args) (arg_users args) ''concurrent'' False st r st1 \<Longrightarrow>
    run_scenario args client st (map_sum id (\<lambda>(samples, ids). (samples, ids, NoDetails)) r) st1"
| idempotency: "arg_scenario args = Idempotency \<Longrightarrow>
    run_concurrent client (scenario_requests args) (arg_users args) ''idempotency'' True st r st1 \<Longrightarrow>
    run_scenario args client st
      (map_sum id (\<lambda>(samples, ids). (samples, ids, Equivalent (equivalent_payment_responses samples ids))) r) st1"
| outage: "arg_scenario args = Outage \<Longrightarrow>
    run_outage client (arg_provider args) (arg_admin_token args) (arg_users args) (arg_rate args) (arg_duration args) st r st1 \<Longrightarrow>
    run_scenario args client st (map_sum id (\<lambda>(samples, ids, d). (samples, ids, OutageDetails d)) r) st1"

inductive_cases run_scenarioE: "run_scenario args client st r st1"
inductive_cases run_concurrentE: "run_concurrent client jobs users phase same st r st1"

subsection \<open>Every request leaves a proper sample\<close>

text \<open>A client whose calls are not cancelled, and whose errors have a class name.\<close>

definition client_ok :: "'s client \<Rightarrow> bool" where
  "client_ok client \<longleftrightarrow>
     (\<forall>path headers body st e. fst (cli_post client path headers body st) = Inl e \<longrightarrow> is_Exception e \<and> exn_name e \<noteq> []) \<and>
     (\<forall>path headers body st r e. fst (cli_post client path headers body st) = Inr r \<longrightarrow> rpl_json r = Inl e \<longrightarrow>
        is_Exception e \<and> exn_name e \<noteq> [])"

lemma failed_sample_ok:
  assumes "is_Exception e" "exn_name e \<noteq> []"
  shows "\<exists>sample st'. failed_sample phase label e t st = (Inr sample, st') \<and> sample_ok sample \<and> smp_phase sample = phase \<and>
    smp_status_code sample = None"
  using assms by (simp add: failed_sample_def case_prod_beta sample_ok_def)

lemma request_payment_ok:
  assumes "client_ok client"
  shows "\<exists>sample v st'. request_payment client phase key label st = (Inr (sample, v), st') \<and> sample_ok sample \<and>
    smp_phase sample = phase \<and> (truthy v \<longrightarrow> smp_status_code sample = Some 201)"
proof -
  let ?w = "snd (perf_counter (snd st))" and ?t = "fst (perf_counter (snd st))"
  let ?call = "cli_post client PAYMENT_PATH [(''Idempotency-Key'', key)] (Some PAYMENT_BODY) (fst st, ?w)"
  have failed: "\<exists>sample. fst (failed_sample phase label e t st1) = Inr sample \<and> sample_ok sample \<and> smp_phase sample = phase"
    if "is_Exception e \<and> exn_name e \<noteq> []" for e t st1
    using failed_sample_ok [of e phase label t st1] that by auto
  show ?thesis
  proof (cases "fst ?call")
    case (Inl e)
    then have "is_Exception e \<and> exn_name e \<noteq> []" using assms by (auto simp: client_ok_def)
    from failed [OF this, of ?t "snd ?call"] show ?thesis
      using Inl by (cases ?call) (auto simp: request_payment_def payment_request_def case_prod_beta)
  next
    case (Inr r)
    show ?thesis
    proof (cases "rpl_json r")
      case (Inl e)
      then have "is_Exception e \<and> exn_name e \<noteq> []" using assms Inr unfolding client_ok_def by blast
      from failed [OF this, of ?t "(fst (snd ?call), snd (perf_counter (snd (snd ?call))))"] show ?thesis
        using Inr Inl by (cases ?call) (auto simp: request_payment_def payment_request_def case_prod_beta)
    next
      case data: (Inr v)
      then show ?thesis
        using Inr by (cases ?call) (auto simp: request_payment_def payment_request_def case_prod_beta sample_ok_def)
    qed
  qed
qed

lemma one_request_ok:
  assumes "client_ok client"
  shows "\<exists>sample v st'. one_request client phase shared i st = (Inr (sample, v), st') \<and> sample_ok sample \<and>
    smp_phase sample = phase \<and> (truthy v \<longrightarrow> smp_status_code sample = Some 201)"
  using request_payment_ok [OF assms] by (cases shared) (simp_all add: one_request_def case_prod_beta)

lemma one_request_answers: "client_ok client \<Longrightarrow> answers (one_request client phase shared)"
  unfolding answers_def using one_request_ok by blast

end
