(* ===== verification/Http.thy ===== *)
theory Http
  imports Api Service_Frame
begin

text \<open>
  Correctness of the HTTP interface: what each endpoint may change for every collaborator,
  that the application built from the environment keeps its invariant over any sequence of
  requests and answers every one of them, and what the guards of \<open>create_payment\<close> and of
  the administration endpoints enforce.
\<close>

subsection \<open>What an endpoint may change\<close>

fun admin_endpoint :: "endpoint \<Rightarrow> bool" where
  "admin_endpoint (ConfigureRouting _) = True"
| "admin_endpoint (ConfigureProvider _ _) = True"
| "admin_endpoint (FailProvider _) = True"
| "admin_endpoint (RecoverProvider _) = True"
| "admin_endpoint _ = False"

definition same_app :: "('b, 'l, 'm, 'c, 'h) App \<Rightarrow> ('b, 'l, 'm, 'c, 'h) App \<Rightarrow> bool" where
  "same_app a a' \<longleftrightarrow>
     same_config (app_service a) (app_service a') \<and> app_settings a' = app_settings a \<and> app_runtime a' = app_runtime a"

lemma same_app_refl [simp, intro]: "same_app a a"
  by (simp add: same_app_def)

lemma same_app_trans: "same_app a b \<Longrightarrow> same_app b c \<Longrightarrow> same_app a c"
  using same_config_trans by (auto simp: same_app_def)

lemma on_backend_config: "same_config (fst st) (fst (snd (on_backend f st)))"
  by (simp add: on_backend_def case_prod_beta same_config_def)

lemma emit_config [simp]: "call_ok (dom (svc_circuits s)) m \<Longrightarrow> same_config s (emit m s)"
  by (simp add: same_config_def)

lemma with_service_app: "same_config (app_service a) (fst st) \<Longrightarrow> same_app a (fst (with_service st a))"
  by (simp add: with_service_def same_app_def)

lemma create_payment_frame: "same_app (fst st) (fst (snd (create_payment E payload key rid st)))"
proof -
  obtain a w where st: "st = (a, w)" by (cases st)
  obtain d l w1 where c: "ext_consume E (cpr_merchant_id payload) (app_rate_limiter a) w = (d, l, w1)" by (metis prod_cases3)
  let ?a = "a\<lparr>app_rate_limiter := l\<rparr>"
  have a1: "same_app a ?a" "same_app a (?a\<lparr>app_service := emit (Inc ''rate_limit_rejections_total'' []) (app_service a)\<rparr>)"
    by (simp_all add: same_app_def)
  obtain r st2 where cr: "create (ext_sha256 E) (ext_providers E) (ext_backend E) (payment_input payload (the key))
      (app_service a, w1) = (r, st2)" by (metis prod.collapse)
  have "same_config (app_service a) (fst st2)" using every.create_fine [OF cr] by simp
  then have "same_app a (fst (with_service st2 ?a))" by (simp add: with_service_def same_app_def)
  then show ?thesis
    using a1 c cr by (auto simp: create_payment_def st Let_def split: sum.splits option.splits)
qed

lemma read_endpoints_frame:
  "same_app (fst st) (fst (snd (get_payment E i rid st)))"
  "same_app (fst st) (fst (snd (list_payments_endpoint E m x after before rid st)))"
  "same_app (fst st) (fst (snd (refund_payment E i rf rid st)))"
  "fst (snd (ready E st)) = fst st" "fst (snd (providers_endpoint E st)) = fst st"
  "fst (snd (provider_detail E n rid st)) = fst st"
proof -
  show "same_app (fst st) (fst (snd (get_payment E i rid st)))"
    "same_app (fst st) (fst (snd (list_payments_endpoint E m x after before rid st)))"
    using on_backend_config [of "(app_service (fst st), snd st)"]
    by (auto simp: get_payment_def list_payments_endpoint_def case_prod_beta Let_def intro!: with_service_app)
  show "same_app (fst st) (fst (snd (refund_payment E i rf rid st)))"
    using every.refund_fine [of "(app_service (fst st), snd st)" "ext_providers E" "ext_backend E" i "rfr_amount rf"]
    by (auto simp: refund_payment_def case_prod_beta Let_def every.fine_def intro!: with_service_app)
qed (auto simp: ready_def providers_endpoint_def provider_detail_def Let_def case_prod_beta split: sum.splits option.splits)

lemma endpoint_frame:
  assumes "admin_endpoint ep \<Longrightarrow> \<not> require_admin (req_x_admin_token req) (fst st)"
  shows "same_app (fst st) (fst (snd (call_endpoint E req rid ep st)))"
  using assms create_payment_frame [where st = st and E = E] read_endpoints_frame [where st = st and E = E]
  by (cases ep) (auto simp: effect_def pure_def admin_only_def valid_or_refuse_def split: option.splits)

subsection \<open>A valid configuration\<close>

definition config_valid :: "ProviderConfig \<Rightarrow> bool" where
  "config_valid c \<longleftrightarrow>
     0 \<le> cfg_min_latency_ms c \<and> cfg_min_latency_ms c \<le> cfg_max_latency_ms c \<and>
     (\<forall>x\<in>{cfg_success_rate c, cfg_timeout_probability c, cfg_server_error_probability c, cfg_decline_probability c}.
        0 \<le> x \<and> x \<le> 1) \<and> 0 \<le> cfg_max_concurrency c \<and> cfg_max_concurrency c \<le> 1000"

definition weights_valid :: "CompositeWeights \<Rightarrow> bool" where
  "weights_valid w \<longleftrightarrow> (\<forall>x\<in>{wgt_success w, wgt_latency w, wgt_load w, wgt_recent_failure w}. 0 \<le> x \<and> x \<le> 5)"

text \<open>
  The configuration of a service: each provider of the fleet has valid settings, a circuit
  and a semaphore whose limit, if any, is positive; the strategy and the weights are ones
  the router accepts; a payment is attempted at least once.
\<close>

definition service_config_ok :: "'b PaymentService \<Rightarrow> bool" where
  "service_config_ok s \<longleftrightarrow>
     (\<forall>p\<in>set (svc_providers s). config_valid (prv_config p)) \<and>
     map prv_object (svc_providers s) = map prv_object mock_fleet \<and>
     map prv_name (svc_providers s) = map prv_name mock_fleet \<and>
     dom (svc_circuits s) = prv_name ` set mock_fleet \<and> dom (svc_semaphores s) = prv_name ` set mock_fleet \<and>
     (\<forall>n l. svc_semaphores s n = Some (Some l) \<longrightarrow> 0 < l) \<and>
     rtr_strategy (svc_router s) \<in> set ROUTING_STRATEGIES \<and> weights_valid (rtr_composite_weights (svc_router s)) \<and>
     0 < max_attempts (svc_retry_policy s)"

lemma same_config_ok: "same_config s s' \<Longrightarrow> service_config_ok s \<Longrightarrow> service_config_ok s'"
  by (simp add: same_config_def service_config_ok_def same_routing_def)

lemma mock_fleet_names [simp]:
  "map prv_name mock_fleet = [''mockstripe'', ''mockadyen'', ''mockrazorpay'']" "map prv_object mock_fleet = [1, 2, 3]"
  by (simp_all add: mock_fleet_def MockStripeProvider_def MockAdyenProvider_def MockRazorpayProvider_def new_MockProvider_def)

lemma fleet_names:
  assumes "service_config_ok s"
  shows "prv_name ` set (svc_providers s) = prv_name ` set mock_fleet"
proof -
  have "set (map prv_name (svc_providers s)) = set (map prv_name mock_fleet)"
    using assms unfolding service_config_ok_def by argo
  then show ?thesis unfolding set_map .
qed

lemma provider_has_circuit:
  assumes "service_config_ok s" "p \<in> set (svc_providers s)"
  shows "svc_circuits s (prv_name p) \<noteq> None" "svc_semaphores s (prv_name p) \<noteq> None"
proof -
  have "prv_name p \<in> prv_name ` set mock_fleet" using fleet_names [OF assms(1)] assms(2) by blast
  then have "prv_name p \<in> dom (svc_circuits s)" "prv_name p \<in> dom (svc_semaphores s)"
    using assms(1) unfolding service_config_ok_def by argo+
  then show "svc_circuits s (prv_name p) \<noteq> None" "svc_semaphores s (prv_name p) \<noteq> None" by blast+
qed

lemma find_provider_in: "find_provider n s = Some p \<Longrightarrow> p \<in> set (svc_providers s)"
  by (auto simp: find_provider_def find_Some_iff)

text \<open>Replacing a provider object by itself with other settings keeps the fleet.\<close>

lemma replace_provider_ok:
  assumes "service_config_ok s" "p \<in> set (svc_providers s)" "config_valid c"
  shows "service_config_ok (replace_provider (p\<lparr>prv_config := c\<rparr>) s)"
proof -
  have "distinct (map prv_object (svc_providers s))" using assms(1) by (simp add: service_config_ok_def)
  then have inj: "inj_on prv_object (set (svc_providers s))" by (simp add: distinct_map)
  have same: "prv_name q = prv_name p" if "q \<in> set (svc_providers s)" "prv_object q = prv_object p" for q
    using inj_onD [OF inj that(2,1) assms(2)] by simp
  define qs where "qs = map (\<lambda>q. if prv_object q = prv_object (p\<lparr>prv_config := c\<rparr>) then p\<lparr>prv_config := c\<rparr> else q) (svc_providers s)"
  have "map prv_name qs = map prv_name (svc_providers s)" "map prv_object qs = map prv_object (svc_providers s)"
    using same by (auto simp: o_def qs_def)
  moreover have "\<forall>q\<in>set qs. config_valid (prv_config q)" using assms(1,3) by (auto simp: service_config_ok_def qs_def)
  ultimately show ?thesis using assms(1) unfolding service_config_ok_def replace_provider_def qs_def [symmetric] by simp
qed

definition fraction :: "real \<Rightarrow> bool" where
  "fraction x \<longleftrightarrow> 0 \<le> x \<and> x \<le> 1"

definition new_setting :: "'a option \<Rightarrow> 'a \<Rightarrow> 'a" where
  "new_setting v x = (case v of Some y \<Rightarrow> y | None \<Rightarrow> x)"

lemma float_setting_fold:
  assumes "float_between 0 1 v"
  obtains y where "fold apply_setting (float_setting f v) = (case y of Some x \<Rightarrow> apply_setting (f x) | None \<Rightarrow> id)"
    "\<And>x. fraction x \<Longrightarrow> fraction (new_setting y x)" "(\<And>x. unknown_settings [f x] = []) \<Longrightarrow> unknown_settings (float_setting f v) = []"
proof (cases v)
  case None
  then show ?thesis using that [of None] by (simp add: float_setting_def new_setting_def)
next
  case (Some z)
  with assms obtain x where "v = Some (Val (Fin x))" "fraction x"
    by (auto simp: float_between_def fraction_def split: float_value.splits pyfloat.splits)
  then show ?thesis using that [of "Some x"] by (simp add: float_setting_def new_setting_def)
qed

lemma config_changes_valid:
  assumes v: "validate_provider_config r" and c: "config_valid c"
    and lat: "(case pcr_min_latency_ms r of Some n \<Rightarrow> n | None \<Rightarrow> cfg_min_latency_ms c) \<le>
              (case pcr_max_latency_ms r of Some n \<Rightarrow> n | None \<Rightarrow> cfg_max_latency_ms c)"
  shows "config_valid (fold apply_setting (config_changes r) c) \<and> unknown_settings (config_changes r) = []"
proof -
  have un: "unknown_settings (xs @ ys) = unknown_settings xs @ unknown_settings ys" for xs ys
    by (induction xs rule: unknown_settings.induct) auto
  have i: "unknown_settings (int_setting f v) = []" if "\<And>x. unknown_settings [f x] = []" for f v
    using that by (auto simp: int_setting_def split: option.splits)
  have il: "fold apply_setting (int_setting f v) = (case v of Some x \<Rightarrow> apply_setting (f x) | None \<Rightarrow> id)" for f v
    by (auto simp: int_setting_def split: option.splits)
  note V = v [unfolded validate_provider_config_def]
  obtain y1 where y1: "fold apply_setting (float_setting SuccessRate (pcr_success_rate r)) =
      (case y1 of Some x \<Rightarrow> apply_setting (SuccessRate x) | None \<Rightarrow> id)" "\<And>x. fraction x \<Longrightarrow> fraction (new_setting y1 x)"
    "unknown_settings (float_setting SuccessRate (pcr_success_rate r)) = []"
    by (rule float_setting_fold [of "pcr_success_rate r" SuccessRate]) (use V in auto)
  obtain y2 where y2: "fold apply_setting (float_setting TimeoutProbability (pcr_timeout_probability r)) =
      (case y2 of Some x \<Rightarrow> apply_setting (TimeoutProbability x) | None \<Rightarrow> id)" "\<And>x. fraction x \<Longrightarrow> fraction (new_setting y2 x)"
    "unknown_settings (float_setting TimeoutProbability (pcr_timeout_probability r)) = []"
    by (rule float_setting_fold [of "pcr_timeout_probability r" TimeoutProbability]) (use V in auto)
  obtain y3 where y3: "fold apply_setting (float_setting ServerErrorProbability (pcr_server_error_probability r)) =
      (case y3 of Some x \<Rightarrow> apply_setting (ServerErrorProbability x) | None \<Rightarrow> id)" "\<And>x. fraction x \<Longrightarrow> fraction (new_setting y3 x)"
    "unknown_settings (float_setting ServerErrorProbability (pcr_server_error_probability r)) = []"
    by (rule float_setting_fold [of "pcr_server_error_probability r" ServerErrorProbability]) (use V in auto)
  obtain y4 where y4: "fold apply_setting (float_setting DeclineProbability (pcr_decline_probability r)) =
      (case y4 of Some x \<Rightarrow> apply_setting (DeclineProbability x) | None \<Rightarrow> id)" "\<And>x. fraction x \<Longrightarrow> fraction (new_setting y4 x)"
    "unknown_settings (float_setting DeclineProbability (pcr_decline_probability r)) = []"
    by (rule float_setting_fold [of "pcr_decline_probability r" DeclineProbability]) (use V in auto)
  have "unknown_settings (config_changes r) = []" by (simp add: config_changes_def un i y1 y2 y3 y4)
  moreover have "fold apply_setting (config_changes r) c =
      c\<lparr>cfg_success_rate := new_setting y1 (cfg_success_rate c),
        cfg_min_latency_ms := new_setting (pcr_min_latency_ms r) (cfg_min_latency_ms c),
        cfg_max_latency_ms := new_setting (pcr_max_latency_ms r) (cfg_max_latency_ms c),
        cfg_timeout_probability := new_setting y2 (cfg_timeout_probability c),
        cfg_server_error_probability := new_setting y3 (cfg_server_error_probability c),
        cfg_decline_probability := new_setting y4 (cfg_decline_probability c),
        cfg_max_concurrency := new_setting (pcr_max_concurrency r) (cfg_max_concurrency c)\<rparr>"
    by (simp add: config_changes_def il y1(1) y2(1) y3(1) y4(1) new_setting_def split: option.split)
  moreover have "0 \<le> new_setting (pcr_min_latency_ms r) (cfg_min_latency_ms c)"
    "0 \<le> new_setting (pcr_max_concurrency r) (cfg_max_concurrency c)"
    "new_setting (pcr_max_concurrency r) (cfg_max_concurrency c) \<le> 1000"
    using V c by (auto simp: new_setting_def config_valid_def int_at_least_def split: option.splits)
  ultimately show ?thesis
    using c lat y1(2) y2(2) y3(2) y4(2) unfolding new_setting_def [symmetric]
    by (simp add: config_valid_def fraction_def)
qed

subsection \<open>Responses\<close>

text \<open>
  The status codes of the interface; 500 is not among them. An outcome is answerable if its
  response has one of them, or it raised an exception that has a handler.
\<close>

definition http_statuses :: "int set" where
  "http_statuses = {200, 201, 400, 401, 402, 404, 409, 422, 429, 503}"

definition answerable :: "outcome \<Rightarrow> bool" where
  "answerable out \<longleftrightarrow>
     (case out_result out of Inr r \<Rightarrow> rsp_status r \<in> http_statuses
      | Inl x \<Rightarrow> \<forall>rid. \<exists>r. handle_exception rid x = Inr r \<and> rsp_status r \<in> http_statuses)"

lemma response_status [simp]:
  "rsp_status (json_response n hs b) = n" "rsp_status (error_response n hs c m i) = n"
  by (simp_all add: json_response_def error_response_def)

lemma http_statuses_members [simp]:
  "200 \<in> http_statuses" "201 \<in> http_statuses" "400 \<in> http_statuses" "401 \<in> http_statuses" "402 \<in> http_statuses"
  "404 \<in> http_statuses" "409 \<in> http_statuses" "422 \<in> http_statuses" "429 \<in> http_statuses" "503 \<in> http_statuses"
  by (simp_all add: http_statuses_def)

lemma answerable_simps [simp]:
  "answerable (answer r) \<longleftrightarrow> rsp_status r \<in> http_statuses"
  "answerable (plain (Inl AdminUnauthorized))" "answerable (plain (Inl RequestValidationError))"
  "out_result (answer r) = Inr r" "answer r = answer r' \<longleftrightarrow> r = r'"
  by (simp_all add: answerable_def answer_def plain_def)

lemma answerable_raised: "service_error e \<Longrightarrow> answerable (raised e)"
  by (cases e) (simp_all add: answerable_def raised_def plain_def)

lemma answerable_merchant [simp]: "answerable (out\<lparr>out_merchant_id := m\<rparr>) = answerable out"
  by (simp add: answerable_def)

lemma precheck_status: "precheck s p k hs rid = Some r \<Longrightarrow> rsp_status r \<in> {400, 422}"
  by (auto simp: precheck_def split: if_splits)

subsection \<open>Administration keeps the configuration valid\<close>

lemma set_router_ok:
  assumes "service_config_ok (app_service a)" "rtr_strategy r \<in> set ROUTING_STRATEGIES" "weights_valid (rtr_composite_weights r)"
  shows "service_config_ok (app_service (set_router r a))"
  using assms by (simp add: service_config_ok_def set_router_def)

lemma new_weights_valid: "new_CompositeWeights x y z u = Inr ws \<Longrightarrow> weights_valid ws"
  unfolding weights_valid_def by (rule new_CompositeWeights_ok)

lemma new_weight_ok:
  assumes "float_between 0 MAX_COMPOSITE_WEIGHT v" "0 \<le> x" "x \<le> 5"
  shows "weight_ok (new_weight x v)"
  using assms by (auto simp: new_weight_def weight_ok_def float_between_def MAX_COMPOSITE_WEIGHT_def
      split: option.splits float_value.splits pyfloat.splits)

lemma configure_routing_ok:
  assumes ok: "service_config_ok (app_service a)" and v: "validate_routing payload"
  shows "\<exists>r rt. configure_routing payload a = (answer r, set_router rt a) \<and>
    rsp_status r = 200 \<and> service_config_ok (app_service (set_router rt a))"
proof -
  let ?r = "(svc_router (app_service a))\<lparr>rtr_strategy := rcr_strategy payload\<rparr>"
  have st: "rcr_strategy payload \<in> set ROUTING_STRATEGIES" using v by (simp add: validate_routing_def valid_strategy_def)
  have w: "weights_valid (rtr_composite_weights ?r)" using ok by (simp add: service_config_ok_def)
  have k1: "service_config_ok (app_service (set_router ?r a))" by (rule set_router_ok [OF ok]) (use st w in simp_all)
  let ?w = "rtr_composite_weights ?r"
  have ws: "\<exists>ws. new_CompositeWeights (new_weight (wgt_success ?w) (rcr_composite_success_weight payload))
      (new_weight (wgt_latency ?w) (rcr_composite_latency_weight payload))
      (new_weight (wgt_load ?w) (rcr_composite_load_weight payload))
      (new_weight (wgt_recent_failure ?w) (rcr_composite_recent_failure_weight payload)) = Inr ws"
    using w v new_weight_ok by (simp add: new_CompositeWeights_def weights_valid_def validate_routing_def)
  then obtain ws where ws: "new_CompositeWeights (new_weight (wgt_success ?w) (rcr_composite_success_weight payload))
      (new_weight (wgt_latency ?w) (rcr_composite_latency_weight payload))
      (new_weight (wgt_load ?w) (rcr_composite_load_weight payload))
      (new_weight (wgt_recent_failure ?w) (rcr_composite_recent_failure_weight payload)) = Inr ws" by blast
  have k2: "service_config_ok (app_service (set_router (set_composite_weights ws ?r) a))"
    by (rule set_router_ok [OF ok]) (use st new_weights_valid [OF ws] in \<open>simp_all add: set_composite_weights_def\<close>)
  show ?thesis
    using k1 k2 ws st unfolding configure_routing_def set_strategy_def by (auto simp: Let_def)
qed

lemma set_concurrency_ok:
  assumes "service_config_ok s" "p \<in> set (svc_providers s)" "0 \<le> limit"
  shows "\<exists>s'. set_provider_concurrency (prv_name p) limit s = (Inr (), s') \<and> service_config_ok s' \<and> svc_backend s' = svc_backend s"
proof -
  let ?m = "(svc_semaphores s)(prv_name p \<mapsto> (if limit \<noteq> 0 then Some limit else None))"
  have "prv_name p \<in> dom (svc_semaphores s)" using provider_has_circuit(2) [OF assms(1,2)] by blast
  then have "dom ?m = dom (svc_semaphores s)" by auto
  moreover have "\<forall>n l. ?m n = Some (Some l) \<longrightarrow> 0 < l" using assms(1,3) by (auto simp: service_config_ok_def)
  ultimately have "service_config_ok (s\<lparr>svc_semaphores := ?m\<rparr>)" using assms(1) unfolding service_config_ok_def by simp
  then show ?thesis using assms(3) by (simp add: set_provider_concurrency_def)
qed

lemma config_valid_forced: "config_valid c \<Longrightarrow> config_valid (c\<lparr>cfg_forced_failure := b\<rparr>)"
  by (simp add: config_valid_def)

lemma provider_config_valid: "service_config_ok s \<Longrightarrow> p \<in> set (svc_providers s) \<Longrightarrow> config_valid (prv_config p)"
  unfolding service_config_ok_def by blast

lemma replaced_in: "p \<in> set (svc_providers s) \<Longrightarrow> prv_object q = prv_object p \<Longrightarrow> q \<in> set (svc_providers (replace_provider q s))"
  by (auto simp: replace_provider_def)

lemma replace_provider_backend [simp]: "svc_backend (replace_provider q s) = svc_backend s"
  by (simp add: replace_provider_def)

lemma configure_provider_ok:
  assumes ok: "service_config_ok (app_service a)" and v: "validate_provider_config payload"
  shows "\<exists>r s'. configure_provider n payload rid a = (answer r, a\<lparr>app_service := s'\<rparr>) \<and>
    rsp_status r \<in> http_statuses \<and> service_config_ok s' \<and>
    svc_backend s' = svc_backend (app_service a)"
proof (cases "find_provider n (app_service a)")
  case None
  then show ?thesis using ok by (intro exI [of _ "error_response 404 [] ''VALIDATION_ERROR'' ''Unknown provider'' rid"] exI [of _ "app_service a"])
      (simp add: configure_provider_def unknown_provider_def)
next
  case (Some p)
  note p = find_provider_in [OF Some]
  let ?lo = "case pcr_min_latency_ms payload of Some n \<Rightarrow> n | None \<Rightarrow> cfg_min_latency_ms (prv_config p)"
  let ?hi = "case pcr_max_latency_ms payload of Some n \<Rightarrow> n | None \<Rightarrow> cfg_max_latency_ms (prv_config p)"
  show ?thesis
  proof (cases "?hi < ?lo")
    case True
    then show ?thesis using Some ok by (intro exI [of _ "error_response 422 [] ''VALIDATION_ERROR'' ''max_latency_ms must be at least min_latency_ms'' rid"] exI [of _ "app_service a"])
        (simp add: configure_provider_def Let_def)
  next
    case False
    define c where "c = fold apply_setting (config_changes payload) (prv_config p)"
    define q where "q = p\<lparr>prv_config := c\<rparr>"
    have cv: "config_valid c" "unknown_settings (config_changes payload) = []"
      using config_changes_valid [OF v provider_config_valid [OF ok p]] False by (simp_all add: c_def)
    have cf: "configure p (config_changes payload) = Inr q" using cv(2) by (simp add: configure_def c_def q_def)
    have k: "service_config_ok (replace_provider q (app_service a))"
      unfolding q_def by (rule replace_provider_ok [OF ok p cv(1)])
    have q: "q \<in> set (svc_providers (replace_provider q (app_service a)))"
      by (rule replaced_in [OF p]) (simp add: q_def)
    have "0 \<le> cfg_max_concurrency (prv_config q)" using cv(1) by (simp add: q_def config_valid_def)
    from set_concurrency_ok [OF k q this] obtain s' where s':
      "set_provider_concurrency (prv_name q) (cfg_max_concurrency (prv_config q)) (replace_provider q (app_service a)) = (Inr (), s')"
      "service_config_ok s'" "svc_backend s' = svc_backend (app_service a)" by auto
    show ?thesis
    proof (cases "pcr_max_concurrency payload")
      case None
      then show ?thesis using Some False cf k
        by (auto simp: configure_provider_def Let_def)
    next
      case (Some x)
      then show ?thesis using \<open>find_provider n (app_service a) = Some p\<close> False cf s'
        by (auto simp: configure_provider_def Let_def)
    qed
  qed
qed

lemma fail_provider_ok:
  assumes ok: "service_config_ok (app_service a)"
  shows "\<exists>r s'. fail_provider n rid a = (answer r, a\<lparr>app_service := s'\<rparr>) \<and>
    rsp_status r \<in> http_statuses \<and> service_config_ok s' \<and>
    svc_backend s' = svc_backend (app_service a)"
proof (cases "find_provider n (app_service a)")
  case None
  then show ?thesis using ok by (intro exI [of _ "error_response 404 [] ''VALIDATION_ERROR'' ''Unknown provider'' rid"] exI [of _ "app_service a"])
      (simp add: fail_provider_def unknown_provider_def)
next
  case (Some p)
  note p = find_provider_in [OF Some]
  have "service_config_ok (replace_provider (p\<lparr>prv_config := (prv_config p)\<lparr>cfg_forced_failure := True\<rparr>\<rparr>) (app_service a))"
    by (rule replace_provider_ok [OF ok p config_valid_forced [OF provider_config_valid [OF ok p]]])
  then show ?thesis using Some by (auto simp: fail_provider_def configure_def)
qed

subsection \<open>The in-memory application\<close>

text \<open>
  The collaborators of the in-memory profile: the mock providers, the in-memory store,
  which is also the outbox, and coordinator, and the in-memory limiter. The hash, the
  rendering of the metrics and the probes, which this profile never calls, are arbitrary.
\<close>

definition memory_consume ::
  "string \<Rightarrow> InMemoryTokenBucketLimiter \<Rightarrow> world \<Rightarrow> RateLimitDecision res \<times> InMemoryTokenBucketLimiter \<times> world" where
  "memory_consume m l w = (let (d, l1, w1) = consume_token m l w in (Inr d, l1, w1))"

definition memory_externals ::
  "(string \<Rightarrow> string) \<Rightarrow> ('m \<Rightarrow> unit res) \<Rightarrow> ('c \<Rightarrow> unit res) \<Rightarrow> (metric_call list \<Rightarrow> string) \<Rightarrow>
   (memory_backend, InMemoryTokenBucketLimiter, 'm, 'c) externals" where
  "memory_externals sha select_one ping render =
     \<lparr>ext_sha256 = sha, ext_providers = mock_ops, ext_backend = memory_ops False, ext_consume = memory_consume,
      ext_select_one = select_one, ext_ping = ping, ext_render = render\<rparr>"

type_synonym ('m, 'c, 'h) memory_app = "(memory_backend, InMemoryTokenBucketLimiter, 'm, 'c, 'h) App"

text \<open>
  The invariant of the application: payments, claims and outbox are consistent, the
  configuration is valid, and the runtime is that of the in-memory profile.
\<close>

definition memory_profile :: "Settings \<Rightarrow> bool" where
  "memory_profile s \<longleftrightarrow>
     set_storage_backend s = ''memory'' \<and> set_coordination_backend s = ''memory'' \<and> set_event_backend s = ''memory''"

definition app_inv :: "('m, 'c, 'h) memory_app \<Rightarrow> world \<Rightarrow> bool" where
  "app_inv a w \<longleftrightarrow>
     service_inv (svc_backend (app_service a)) w \<and> service_config_ok (app_service a) \<and>
     memory_profile (rtm_settings (app_runtime a))"

lemma app_inv_time: "app_inv a w \<Longrightarrow> world_le w w' \<Longrightarrow> app_inv a w'"
  using service_inv_time by (auto simp: app_inv_def)

lemma app_inv_service:
  "app_inv a w \<Longrightarrow> service_inv (svc_backend s) w' \<Longrightarrow> service_config_ok s \<Longrightarrow> app_inv (a\<lparr>app_service := s\<rparr>) w'"
  by (simp add: app_inv_def)

lemma untouched_inv: "service_inv b0 w0 \<Longrightarrow> untouched sep b0 w0 b w \<Longrightarrow> service_inv b w"
  by (simp add: service_inv_def untouched_def payments_ok_def claims_coherent_def)

text \<open>
  One step of the application: it answers, keeps the invariant and the settings, and a
  recorded payment changes by refunds only.
\<close>

definition app_evolves :: "('m, 'c, 'h) memory_app \<Rightarrow> ('m, 'c, 'h) memory_app \<Rightarrow> bool" where
  "app_evolves a a' \<longleftrightarrow>
     ledger_evolves (ledger (svc_backend (app_service a))) (ledger (svc_backend (app_service a'))) \<and>
     app_settings a' = app_settings a"

lemma app_evolves_same [simp]:
  "svc_backend (app_service a') = svc_backend (app_service a) \<Longrightarrow> app_settings a' = app_settings a \<Longrightarrow> app_evolves a a'"
  by (simp add: app_evolves_def ledger_evolves_refl)

lemma app_evolves_trans: "app_evolves a b \<Longrightarrow> app_evolves b c \<Longrightarrow> app_evolves a c"
  using ledger_evolves_trans by (auto simp: app_evolves_def)

definition app_step_ok ::
  "('m, 'c, 'h) memory_app \<Rightarrow> outcome option \<times> ('m, 'c, 'h) memory_app \<times> world \<Rightarrow> bool" where
  "app_step_ok a x \<longleftrightarrow>
     (\<exists>out. fst x = Some out \<and> answerable out) \<and> app_inv (fst (snd x)) (snd (snd x)) \<and> app_evolves a (fst (snd x))"

lemma recover_provider_ok:
  assumes inv: "app_inv a w" and E: "E = memory_externals sha sel ping ren"
  shows "app_step_ok a (effect (recover_provider E n rid (a, w)))"
proof (cases "find_provider n (app_service a)")
  case None
  then show ?thesis using inv by (simp add: recover_provider_def unknown_provider_def effect_def app_step_ok_def)
next
  case (Some p)
  let ?s = "app_service a"
  have ok: "service_config_ok ?s" "service_inv (svc_backend ?s) w" using inv by (simp_all add: app_inv_def)
  note p = find_provider_in [OF Some]
  define q where "q = p\<lparr>prv_config := (prv_config p)\<lparr>cfg_forced_failure := False\<rparr>\<rparr>"
  define s1 where "s1 = replace_provider q ?s"
  have k1: "service_config_ok s1"
    unfolding s1_def q_def by (rule replace_provider_ok [OF ok(1) p config_valid_forced [OF provider_config_valid [OF ok(1) p]]])
  have b1: "svc_backend s1 = svc_backend ?s" by (simp add: s1_def)
  obtain r s2 w2 where rs: "record_provider_success (memory_ops False) q (s1, w) = (r, s2, w2)" by (metis prod_cases3)
  have "stores_ok (svc_backend ?s) w" using ok(2) service_inv_stores by blast
  then have "untouched False (svc_backend ?s) w (svc_backend s1) w" using untouched_refl b1 by simp
  then have "untouched False (svc_backend ?s) w (svc_backend s2) w2"
    using mock_frame.circuit_ops_J(2) [of False "svc_backend ?s" w "(s1, w)" q] rs by simp
  then have i2: "service_inv (svc_backend s2) w2" and l2: "ledger (svc_backend s2) = ledger (svc_backend ?s)"
    using untouched_inv [OF ok(2)] by (blast, simp add: untouched_def)
  have f: "memory_mock.fine (s1, w) (r, s2, w2)"
    using memory_mock.fine_circuit_ops(2) [of "(s1, w)" False q] rs by simp
  have k2: "service_config_ok s2" using same_config_ok [of s1 s2] k1 f by (simp add: memory_mock.fine_def)
  have "answerable (case r of Inl e \<Rightarrow> raised e | Inr _ \<Rightarrow> answer x)" if "rsp_status x = 200" for x
    using f k1 that by (cases r) (auto simp: memory_mock.fine_def service_config_ok_def intro: answerable_raised)
  then show ?thesis
    using Some rs app_inv_service [OF inv i2 k2] l2
    by (simp add: recover_provider_def configure_def E memory_externals_def effect_def app_step_ok_def with_service_def
        app_evolves_def ledger_evolves_refl flip: q_def s1_def)
qed

lemma memory_consume_facts: "memory_consume m l w = (r, l1, w1) \<Longrightarrow> (\<exists>d. r = Inr d) \<and> world_le w w1"
  using world_le_refl by (auto simp: memory_consume_def consume_token_def Let_def case_prod_beta)

lemma create_payment_ok:
  assumes inv: "app_inv a w" and E: "E = memory_externals sha sel ping ren"
  shows "app_step_ok a (create_payment E payload key rid (a, w))"
proof -
  obtain r l w1 where c: "memory_consume (cpr_merchant_id payload) (app_rate_limiter a) w = (r, l, w1)" by (metis prod_cases3)
  obtain d where d: "r = Inr d" and w1: "world_le w w1" using memory_consume_facts [OF c] by blast
  define a1 where "a1 = a\<lparr>app_rate_limiter := l\<rparr>"
  have i1: "app_inv a1 w1" using app_inv_time [OF inv w1] by (simp add: a1_def app_inv_def)
  have s1: "app_service a1 = app_service a" "app_settings a1 = app_settings a" by (simp_all add: a1_def)
  have ok: "service_config_ok (app_service a)" "service_inv (svc_backend (app_service a)) w1"
    using i1 s1 by (simp_all add: app_inv_def)
  have me: "app_inv (a1\<lparr>app_service := emit m (app_service a1)\<rparr>) w1" for m
    by (rule app_inv_service [OF i1]) (use ok s1 in \<open>simp_all add: service_config_ok_def\<close>)
  obtain q s2 w2 where cr: "create sha mock_ops (memory_ops False) (payment_input payload (the key)) (app_service a, w1) = (Some q, s2, w2)"
    and i2: "service_inv (svc_backend s2) w2" and l2: "ledger_evolves (ledger (svc_backend (app_service a))) (ledger (svc_backend s2))"
    using create_memory [OF mock.payment_provider_axioms ok(2)] spec_create_evolves unfolding create_post_def by blast
  have f: "same_config (app_service a) s2" "\<forall>e. q = Inl e \<longrightarrow> service_error e"
    using memory_mock.create_fine [OF cr] ok(1) by (auto simp: service_config_ok_def)
  have a2: "app_inv (a1\<lparr>app_service := s2\<rparr>) w2" by (rule app_inv_service [OF i1 i2 same_config_ok [OF f(1) ok(1)]])
  have ans: "answerable (raised e)" if "q = Inl e" for e using f(2) that answerable_raised by blast
  show ?thesis
  proof (cases "rld_allowed d")
    case False
    then show ?thesis using me [folded s1] c d
      by (simp add: create_payment_def E memory_externals_def app_step_ok_def Let_def a1_def)
  next
    case True
    show ?thesis
    proof (cases "precheck (app_settings a1) payload key (rate_headers d) rid")
      case (Some x)
      moreover have "rsp_status x \<in> http_statuses" using precheck_status [OF Some] by auto
      ultimately show ?thesis using True c d i1
        by (simp add: create_payment_def E memory_externals_def app_step_ok_def Let_def a1_def)
    next
      case None
      then have "create_payment E payload key rid (a, w) = (case q of
          Inl e \<Rightarrow> (Some ((raised e)\<lparr>out_merchant_id := Some (cpr_merchant_id payload)\<rparr>), with_service (s2, w2) a1)
        | Inr payment \<Rightarrow> (Some \<lparr>out_result = Inr (json_response 201 (rate_headers d) (PaymentBody (payment_response payment rid))),
             out_merchant_id = Some (cpr_merchant_id payload), out_payment_id = Some (str_uuid (pay_id payment))\<rparr>,
             with_service (s2, w2) a1))"
        using True c d cr by (simp add: create_payment_def E memory_externals_def Let_def s1 flip: a1_def split: sum.splits)
      then show ?thesis
        using a2 ans l2 by (cases q) (simp_all add: app_step_ok_def with_service_def answerable_def app_evolves_def a1_def)
    qed
  qed
qed

lemma refund_payment_ok:
  assumes inv: "app_inv a w" and E: "E = memory_externals sha sel ping ren"
  shows "app_step_ok a (effect (refund_payment E i payload rid (a, w)))"
proof -
  let ?s = "app_service a"
  have ok: "service_config_ok ?s" "service_inv (svc_backend ?s) w" using inv by (simp_all add: app_inv_def)
  obtain r s2 w2 where rf: "refund mock_ops (memory_ops False) i (rfr_amount payload) (?s, w) = (r, s2, w2)" by (metis prod_cases3)
  have i2: "service_inv (svc_backend s2) w2" and l2: "ledger_evolves (ledger (svc_backend ?s)) (ledger (svc_backend s2))"
    using refund_evolves [OF mock.payment_provider_axioms ok(2) rf] by blast+
  have f: "memory_mock.fine (?s, w) (r, s2, w2)" using memory_mock.refund_fine [of "(?s, w)" False i "rfr_amount payload"] rf by simp
  have att: "0 < max_attempts (svc_retry_policy ?s)" using ok(1) by (simp add: service_config_ok_def)
  have k2: "service_config_ok s2" "\<forall>e. r = Inl e \<longrightarrow> service_error e"
    using same_config_ok [of ?s s2] ok(1) f att by (simp_all add: memory_mock.fine_def)
  have "answerable (case r of Inl e \<Rightarrow> raised e | Inr rf \<Rightarrow> answer (h rf))" if "\<And>rf. rsp_status (h rf) = 200" for h
    using that k2(2) answerable_raised by (cases r) auto
  then show ?thesis
    using app_inv_service [OF inv i2 k2(1)] rf l2
    by (simp add: refund_payment_def E memory_externals_def effect_def app_step_ok_def with_service_def app_evolves_def)
qed

lemma memory_read_ok:
  assumes inv: "app_inv a w" and E: "E = memory_externals sha sel ping ren"
  shows "app_step_ok a (effect (get_payment E i rid (a, w)))"
    "app_step_ok a (effect (list_payments_endpoint E m x after before rid (a, w)))"
  using inv
  by (auto simp: get_payment_def list_payments_endpoint_def on_backend_def memory_ops_def E memory_externals_def effect_def
      app_step_ok_def with_service_def split: option.splits)

lemma mock_statuses:
  "provider_statuses mock_ops ps w = (Inr (map (\<lambda>p. (prv_name p, \<not> cfg_forced_failure (prv_config p))) ps), w)"
  by (induction ps) (simp_all add: mock_ops_def mock_health_check_def)

lemma mock_describe:
  assumes "svc_circuits s (prv_name p) \<noteq> None"
  shows "\<exists>b. describe_provider mock_ops s p w = (Inr b, w)"
  using assms by (auto simp: describe_provider_def mock_ops_def mock_health_check_def)

lemma mock_describe_all:
  assumes "\<forall>p\<in>set ps. svc_circuits s (prv_name p) \<noteq> None"
  shows "\<exists>bs. describe_providers mock_ops s ps w = (Inr bs, w)"
  using assms
proof (induction ps)
  case (Cons p ps)
  then obtain b bs where "describe_provider mock_ops s p w = (Inr b, w)" "describe_providers mock_ops s ps w = (Inr bs, w)"
    using mock_describe [of s p w] by auto
  then show ?case by simp
qed simp

lemma memory_readiness:
  "memory_profile (rtm_settings R) \<Longrightarrow>
   readiness sel ping R = Inr (map (\<lambda>n. (n, \<lparr>dep_backend = ''memory'', dep_status = ''ready'', dep_error = None\<rparr>))
     [''storage'', ''coordination'', ''events''])"
  by (simp add: readiness_def memory_profile_def res_bind_def Let_def)

lemma memory_status_ok:
  assumes inv: "app_inv a w" and E: "E = memory_externals sha sel ping ren"
  shows "app_step_ok a (effect (ready E (a, w)))" "app_step_ok a (effect (providers_endpoint E (a, w)))"
    "app_step_ok a (effect (provider_detail E n rid (a, w)))"
proof -
  have ok: "service_config_ok (app_service a)" "memory_profile (rtm_settings (app_runtime a))" using inv by (simp_all add: app_inv_def)
  show "app_step_ok a (effect (ready E (a, w)))"
    using inv memory_readiness [OF ok(2)]
    by (simp add: ready_def E memory_externals_def mock_statuses effect_def app_step_ok_def Let_def)
  obtain bs where "describe_providers mock_ops (app_service a) (svc_providers (app_service a)) w = (Inr bs, w)"
    using mock_describe_all [of "svc_providers (app_service a)" "app_service a" w] provider_has_circuit(1) [OF ok(1)] by blast
  then show "app_step_ok a (effect (providers_endpoint E (a, w)))"
    using inv by (simp add: providers_endpoint_def E memory_externals_def effect_def app_step_ok_def)
  show "app_step_ok a (effect (provider_detail E n rid (a, w)))"
  proof (cases "find_provider n (app_service a)")
    case None
    then show ?thesis using inv by (simp add: provider_detail_def unknown_provider_def effect_def app_step_ok_def)
  next
    case (Some p)
    have c: "svc_circuits (app_service a) (prv_name p) \<noteq> None"
      using provider_has_circuit(1) [OF ok(1) find_provider_in [OF Some]] .
    obtain b where "describe_provider mock_ops (app_service a) p w = (Inr b, w)" using mock_describe [OF c] by blast
    then show ?thesis using inv Some c
      by (auto simp: provider_detail_def E memory_externals_def effect_def app_step_ok_def)
  qed
qed

lemma admin_ok:
  assumes "app_inv a w"
  shows "validate_routing rc \<Longrightarrow> app_step_ok a (pure (configure_routing rc a) w)"
    "validate_provider_config pc \<Longrightarrow> app_step_ok a (pure (configure_provider n pc rid a) w)"
    "app_step_ok a (pure (fail_provider n rid a) w)"
proof -
  have ok: "service_config_ok (app_service a)" "service_inv (svc_backend (app_service a)) w"
    using assms by (simp_all add: app_inv_def)
  show "validate_routing rc \<Longrightarrow> app_step_ok a (pure (configure_routing rc a) w)"
    using configure_routing_ok [OF ok(1), of rc] assms
    by (auto simp: pure_def app_step_ok_def app_inv_def set_router_def)
  show "validate_provider_config pc \<Longrightarrow> app_step_ok a (pure (configure_provider n pc rid a) w)"
    using configure_provider_ok [OF ok(1), of pc n rid] app_inv_service [OF assms] ok(2)
    by (auto simp: pure_def app_step_ok_def)
  show "app_step_ok a (pure (fail_provider n rid a) w)"
    using fail_provider_ok [OF ok(1), of n rid] app_inv_service [OF assms] ok(2)
    by (auto simp: pure_def app_step_ok_def)
qed

lemma endpoint_ok:
  assumes inv: "app_inv a w" and E: "E = memory_externals sha sel ping ren"
  shows "app_step_ok a (call_endpoint E req rid ep (a, w))"
proof -
  have refuse: "app_step_ok a (Some (plain (Inl x)), (a, w))" if "x \<in> {AdminUnauthorized, RequestValidationError}" for x
    using inv that by (auto simp: app_step_ok_def)
  have plainly: "app_step_ok a (Some (answer r), (a, w))" if "rsp_status r = 200" for r using inv that by (simp add: app_step_ok_def)
  show ?thesis
    using refuse plainly create_payment_ok [OF inv E] refund_payment_ok [OF inv E] memory_read_ok [OF inv E]
      memory_status_ok [OF inv E] admin_ok [OF inv] recover_provider_ok [OF inv E]
    by (cases ep) (simp_all add: admin_only_def valid_or_refuse_def metrics_endpoint_def split: option.splits)
qed

subsection \<open>Requests and sequences of requests\<close>

definition request_id_of :: "request \<Rightarrow> world \<Rightarrow> string" where
  "request_id_of req w = (case req_x_request_id req of Some r \<Rightarrow> r | None \<Rightarrow> str_uuid (fst (uuid4 w)))"

definition answered :: "string \<Rightarrow> outcome \<Rightarrow> exn + response" where
  "answered rid out = (case out_result out of Inr r \<Rightarrow> Inr r | Inl x \<Rightarrow> handle_exception rid x)"

definition request_started :: "world \<Rightarrow> world" where
  "request_started w = snd (perf_counter (snd (uuid4 w)))"

lemma request_started_le [simp]: "world_le w (request_started w)"
  unfolding request_started_def using world_le_trans by (metis world_le_readings(2,5))

lemma serve_http_cases:
  assumes "call_endpoint E req (request_id_of req w) (req_endpoint req) (a, request_started w) = (res, a3, w3)"
  obtains (waits) "res = None" "serve_http E req (a, w) = (None, a3, w3)"
  | (fails) out e where "res = Some out" "answered (request_id_of req w) out = Inl e" "serve_http E req (a, w) = (Some (Inl e), a3, w3)"
  | (answers) out r ms where "res = Some out" "answered (request_id_of req w) out = Inr r"
      "serve_http E req (a, w) = (Some (Inr (r\<lparr>rsp_headers := rsp_headers r @ [(''X-Request-ID'', request_id_of req w)]\<rparr>)), a3,
         log_append (HttpRequest (request_id_of req w) (req_method req) (req_path req) (rsp_status r) ms
           (out_merchant_id out) (out_payment_id out)) (snd (perf_counter w3)))"
proof (cases res)
  case None
  then show ?thesis using waits assms
    by (simp add: serve_http_def case_prod_beta Let_def request_id_of_def request_started_def)
next
  case (Some out)
  show ?thesis
  proof (cases "answered (request_id_of req w) out")
    case (Inl e)
    then show ?thesis using fails [OF Some Inl] Some assms
      by (simp add: serve_http_def answered_def case_prod_beta Let_def request_id_of_def request_started_def split: sum.splits)
  next
    case (Inr r)
    then show ?thesis using answers [OF Some Inr] Some assms
      by (simp add: serve_http_def answered_def case_prod_beta Let_def request_id_of_def request_started_def log_request_def
          split: sum.splits)
  qed
qed

lemma answerable_answered: "answerable out \<Longrightarrow> \<exists>r. answered rid out = Inr r \<and> rsp_status r \<in> http_statuses"
  by (auto simp: answerable_def answered_def split: sum.splits)

lemma serve_http_ok:
  assumes inv: "app_inv a w" and E: "E = memory_externals sha sel ping ren"
  shows "\<exists>r a' w'. serve_http E req (a, w) = (Some (Inr r), a', w') \<and> app_inv a' w' \<and> app_evolves a a' \<and>
    rsp_status r \<in> http_statuses"
proof -
  obtain res a3 w3 where c: "call_endpoint E req (request_id_of req w) (req_endpoint req) (a, request_started w) = (res, a3, w3)"
    by (metis prod_cases3)
  have ok: "app_step_ok a (res, a3, w3)"
    using endpoint_ok [OF app_inv_time [OF inv request_started_le] E, of req "request_id_of req w" "req_endpoint req"] c by simp
  have later: "app_inv a3 (log_append l (snd (perf_counter w3)))" for l
    using app_inv_time [of a3 w3] ok world_le_trans [of w3 "snd (perf_counter w3)"] by (simp add: app_step_ok_def)
  from c show ?thesis
  proof (cases rule: serve_http_cases)
    case (fails out e)
    then show ?thesis using ok answerable_answered [of out "request_id_of req w"] by (auto simp: app_step_ok_def)
  next
    case (answers out r ms)
    then show ?thesis using later ok answerable_answered [of out "request_id_of req w"] by (auto simp: app_step_ok_def)
  qed (use ok in \<open>simp add: app_step_ok_def\<close>)
qed

lemma serve_all_ok:
  assumes E: "E = memory_externals sha sel ping ren"
  shows "app_inv a w \<Longrightarrow> serve_all E reqs (a, w) = (rs, a', w') \<Longrightarrow>
    app_inv a' w' \<and> app_evolves a a' \<and> length rs = length reqs \<and> (\<forall>x\<in>set rs. \<exists>r. x = Some (Inr r) \<and> rsp_status r \<in> http_statuses)"
proof (induction reqs arbitrary: a w rs)
  case (Cons req reqs)
  obtain r a1 w1 where s: "serve_http E req (a, w) = (Some (Inr r), a1, w1)" "app_inv a1 w1" "app_evolves a a1" "rsp_status r \<in> http_statuses"
    using serve_http_ok [OF Cons.prems(1) E, of req] by blast
  obtain rs1 a2 w2 where t: "serve_all E reqs (a1, w1) = (rs1, a2, w2)" by (metis prod_cases3)
  have "rs = Some (Inr r) # rs1" "a' = a2" "w' = w2" using Cons.prems(2) s(1) t by simp_all
  then show ?case using Cons.IH [OF s(2)] t s(3,4) app_evolves_trans [OF s(3)] by auto
qed simp

subsection \<open>Construction\<close>

fun memory_parts :: "'m repository \<Rightarrow> 'c coordinator \<Rightarrow> memory_backend" where
  "memory_parts (MemoryRepository s) (MemoryCoordinator c) =
     \<lparr>mbk_store = s, mbk_outbox = new_InMemoryPaymentStore, mbk_idempotency = c\<rparr>"

fun memory_limiter :: "'c limiter \<Rightarrow> InMemoryTokenBucketLimiter" where
  "memory_limiter (MemoryLimiter l) = l"

lemma new_service_ok:
  assumes "strategy \<in> set ROUTING_STRATEGIES" "weights_valid ws" "0 \<le> limit"
  shows "\<exists>s. new_PaymentService mock_fleet b None 3 30 (Some []) strategy (Some ws) limit = Inr s \<and>
    service_config_ok s \<and> svc_backend s = b"
proof -
  have "\<exists>s. new_PaymentService mock_fleet b None 3 30 (Some []) strategy (Some ws) limit = Inr s \<and> service_config_ok s"
    using assms
    by (auto simp: new_PaymentService_def new_ProviderRouter_def new_CircuitBreaker_def set_provider_concurrency_def Let_def
        mock_fleet_def MockStripeProvider_def MockAdyenProvider_def MockRazorpayProvider_def new_MockProvider_def
        default_ProviderConfig_def service_config_ok_def config_valid_def default_RetryPolicy_def)
  then show ?thesis using new_service_backend [where b = b] by fast
qed

lemma create_app_ok:
  assumes "create_app L memory_parts memory_limiter env = (Inr a :: ('m, 'c, 'h) memory_app res)"
    and "memory_profile (app_settings a)" "inj (uuid_at w)"
  shows "app_inv a w"
proof -
  obtain settings runtime service where
    st: "from_env env = Inr settings" "build_runtime L settings = Inr runtime"
    and sv: "new_PaymentService mock_fleet (memory_parts (rtm_store runtime) (rtm_idempotency runtime)) None 3 30 (Some [])
      (set_routing_strategy settings) (Some (set_composite_weights_setting settings)) (set_provider_concurrency_limit settings) = Inr service"
    and a: "a = \<lparr>app_service = service, app_settings = settings, app_rate_limiter = memory_limiter (rtm_rate_limiter runtime),
      app_runtime = runtime\<rparr>"
    using assms(1) by (auto simp: create_app_def)
  have m: "memory_profile settings" using assms(2) a by simp
  have "profile_ok settings runtime" using build_runtime_parts [where L = L and s = settings and 'h = 'h] st(2) by simp
  then have parts: "rtm_store runtime = MemoryRepository new_InMemoryPaymentStore" "rtm_settings runtime = settings"
    "rtm_idempotency runtime = MemoryCoordinator new_MemoryIdempotencyCoordinator"
    using m by (simp_all add: profile_ok_def memory_profile_def)
  note usable = from_env_usable [OF st(1)]
  have "weights_valid (set_composite_weights_setting settings)" unfolding weights_valid_def using usable by (simp add: Let_def)
  then have "service_config_ok service" "svc_backend service = memory_parts (rtm_store runtime) (rtm_idempotency runtime)"
    using new_service_ok [of "set_routing_strategy settings" "set_composite_weights_setting settings" "set_provider_concurrency_limit settings"
      "memory_parts (rtm_store runtime) (rtm_idempotency runtime)"] usable sv by auto
  then show ?thesis
    using parts m new_backend_inv [OF assms(3)] by (simp add: app_inv_def a)
qed

subsection \<open>The properties\<close>


text \<open>
  C6. The administration endpoints are guarded, for every collaborator: without the admin
  token such a request is answered with 401 and changes nothing, and no other request
  changes a provider's settings, the strategy, the weights, a semaphore, the settings or
  the runtime.
\<close>

theorem admin_guarded:
  assumes "serve_http E req (a, w) = (res, a', w')"
    and "admin_endpoint (req_endpoint req) \<Longrightarrow> req_x_admin_token req \<noteq> Some (set_admin_token (app_settings a))"
  shows "same_app a a' \<and>
    (admin_endpoint (req_endpoint req) \<longrightarrow> a' = a \<and> (\<exists>r. res = Some (Inr r) \<and> rsp_status r = 401))"
proof -
  obtain q a3 w3 where c: "call_endpoint E req (request_id_of req w) (req_endpoint req) (a, request_started w) = (q, a3, w3)"
    by (metis prod_cases3)
  have a': "a' = a3" using c by (cases rule: serve_http_cases) (use assms(1) in auto)
  have same: "same_app a a3"
    using endpoint_frame [of "req_endpoint req" req "(a, request_started w)" E "request_id_of req w"] assms(2) c
    by (simp add: require_admin_def)
  have adm: "q = Some (plain (Inl AdminUnauthorized)) \<and> a3 = a" if "admin_endpoint (req_endpoint req)"
    using that c assms(2) by (cases "req_endpoint req") (auto simp: admin_only_def require_admin_def)
  have "a' = a \<and> (\<exists>r. res = Some (Inr r) \<and> rsp_status r = 401)" if "admin_endpoint (req_endpoint req)"
    using c adm [OF that] a'
    by (cases rule: serve_http_cases) (use assms(1) in \<open>auto simp: answered_def plain_def\<close>)
  then show ?thesis using same a' by blast
qed

text \<open>
  Every answered request is traceable, for every collaborator: the response carries the
  request identifier, which is the client's if it sent one, and the last line of the log
  names that identifier, the method, the path and the status of the response. An exception
  without a handler leaves no response and no such line.
\<close>

theorem request_traced:
  assumes "serve_http E req (a, w) = (Some res, a', w')"
  shows "case res of
      Inr r \<Rightarrow> \<exists>rid ms m p. (''X-Request-ID'', rid) \<in> set (rsp_headers r) \<and>
        rid = (case req_x_request_id req of Some x \<Rightarrow> x | None \<Rightarrow> str_uuid (uuid_at w (tick w))) \<and>
        last (logged w') = HttpRequest rid (req_method req) (req_path req) (rsp_status r) ms m p
    | Inl e \<Rightarrow> \<exists>out. call_endpoint E req (request_id_of req w) (req_endpoint req) (a, request_started w) = (Some out, a', w') \<and>
        handle_exception (request_id_of req w) (projl (out_result out)) = Inl e"
proof -
  obtain q a3 w3 where c: "call_endpoint E req (request_id_of req w) (req_endpoint req) (a, request_started w) = (q, a3, w3)"
    by (metis prod_cases3)
  have rid: "request_id_of req w = (case req_x_request_id req of Some x \<Rightarrow> x | None \<Rightarrow> str_uuid (uuid_at w (tick w)))"
    by (simp add: request_id_of_def uuid4_def split: option.split)
  from c show ?thesis
  proof (cases rule: serve_http_cases)
    case (fails out e)
    then show ?thesis using assms c by (auto simp: answered_def split: sum.splits)
  next
    case (answers out r ms)
    then show ?thesis using assms rid by (auto simp: log_append_def)
  qed (use assms in simp)
qed

text \<open>What admits a creation to the service.\<close>

definition admitted :: "Settings \<Rightarrow> CreatePaymentRequest \<Rightarrow> string option \<Rightarrow> RateLimitDecision \<Rightarrow> bool" where
  "admitted settings payload key d \<longleftrightarrow>
     rld_allowed d \<and> (\<exists>k. key = Some k \<and> k \<noteq> []) \<and> cpr_currency payload \<in> set_supported_currencies settings \<and>
     pmt_type (cpr_payment_method payload) = ''card'' \<and> starts_with ''test_'' (pmt_token (cpr_payment_method payload))"

lemma precheck_None:
  "precheck s payload key hs rid = None \<longleftrightarrow>
   (\<exists>k. key = Some k \<and> k \<noteq> []) \<and> cpr_currency payload \<in> set_supported_currencies s \<and>
   pmt_type (cpr_payment_method payload) = ''card'' \<and> starts_with ''test_'' (pmt_token (cpr_payment_method payload))"
  by (cases key) (auto simp: precheck_def)

lemma handled_status: "handle_exception rid x = Inr r \<Longrightarrow> rsp_status r \<in> {401, 402, 409, 422, 503}"
  by (induction rid x rule: handle_exception.induct) (auto split: if_splits)

lemma create_payment_cases:
  assumes "create_payment E payload key rid (a, w) = (q, a', w')"
  obtains (limiter) e l where "ext_consume E (cpr_merchant_id payload) (app_rate_limiter a) w = (Inl e, l, w')"
      "q = Some (raised e)" "app_service a' = app_service a"
  | (limited) d l where "ext_consume E (cpr_merchant_id payload) (app_rate_limiter a) w = (Inr d, l, w')" "\<not> rld_allowed d"
      "\<exists>r. q = Some (answer r) \<and> rsp_status r = 429 \<and> (''Retry-After'', json_int (rld_retry_after_seconds d)) \<in> set (rsp_headers r)"
      "app_service a' = emit (Inc ''rate_limit_rejections_total'' []) (app_service a)"
  | (refused) d l where "ext_consume E (cpr_merchant_id payload) (app_rate_limiter a) w = (Inr d, l, w')"
      "rld_allowed d" "\<not> admitted (app_settings a) payload key d" "\<exists>r. q = Some (answer r) \<and> rsp_status r \<in> {400, 422}"
      "app_service a' = app_service a"
  | (served) d l w1 k p where "ext_consume E (cpr_merchant_id payload) (app_rate_limiter a) w = (Inr d, l, w1)"
      "admitted (app_settings a) payload key d" "key = Some k"
      "create (ext_sha256 E) (ext_providers E) (ext_backend E) (payment_input payload k) (app_service a, w1) =
         (p, app_service a', w')"
      "q = (case p of None \<Rightarrow> None
         | Some (Inl e) \<Rightarrow> Some ((raised e)\<lparr>out_merchant_id := Some (cpr_merchant_id payload)\<rparr>)
         | Some (Inr payment) \<Rightarrow> Some \<lparr>out_result = Inr (json_response 201 (rate_headers d) (PaymentBody (payment_response payment rid))),
             out_merchant_id = Some (cpr_merchant_id payload), out_payment_id = Some (str_uuid (pay_id payment))\<rparr>)"
proof -
  obtain r l w1 where c: "ext_consume E (cpr_merchant_id payload) (app_rate_limiter a) w = (r, l, w1)" by (metis prod_cases3)
  show ?thesis
  proof (cases r)
    case (Inl e)
    then show ?thesis using assms c limiter by (auto simp: create_payment_def)
  next
    case (Inr d)
    show ?thesis
    proof (cases "rld_allowed d")
      case False
      then show ?thesis using assms c Inr
        by (intro limited [of d l]) (auto simp: create_payment_def Let_def json_response_def error_response_def)
    next
      case True
      show ?thesis
      proof (cases "precheck (app_settings a) payload key (rate_headers d) rid")
        case (Some x)
        then have "\<not> admitted (app_settings a) payload key d"
          using precheck_None [of "app_settings a" payload key "rate_headers d" rid] unfolding admitted_def by simp
        then show ?thesis using assms c Inr True Some precheck_status [OF Some]
          by (intro refused [of d l]) (auto simp: create_payment_def Let_def)
      next
        case None
        then have ad: "admitted (app_settings a) payload key d"
          using precheck_None [of "app_settings a" payload key "rate_headers d" rid] True unfolding admitted_def by blast
        then obtain k where k: "key = Some k" by (auto simp: admitted_def)
        obtain p s2 w2 where cr: "create (ext_sha256 E) (ext_providers E) (ext_backend E) (payment_input payload k)
            (app_service a, w1) = (p, s2, w2)" by (metis prod_cases3)
        have "(q, a', w') = (case p of None \<Rightarrow> None
           | Some (Inl e) \<Rightarrow> Some ((raised e)\<lparr>out_merchant_id := Some (cpr_merchant_id payload)\<rparr>)
           | Some (Inr payment) \<Rightarrow> Some \<lparr>out_result = Inr (json_response 201 (rate_headers d) (PaymentBody (payment_response payment rid))),
               out_merchant_id = Some (cpr_merchant_id payload), out_payment_id = Some (str_uuid (pay_id payment))\<rparr>,
           with_service (s2, w2) (a\<lparr>app_rate_limiter := l\<rparr>))"
          using assms c Inr True None cr k
          by (cases p) (auto simp: create_payment_def Let_def split: sum.splits)
        then show ?thesis using c Inr ad k cr by (intro served [of d l w1 k p]) (auto simp: with_service_def)
      qed
    qed
  qed
qed

lemma create_reaches_service:
  assumes "req_endpoint req = CreatePayment extra raw" "serve_http E req (a, w) = (res, a', w')"
    and "svc_backend (app_service a') \<noteq> svc_backend (app_service a) \<or> svc_router (app_service a') \<noteq> svc_router (app_service a) \<or>
      svc_circuits (app_service a') \<noteq> svc_circuits (app_service a) \<or> (\<exists>r. res = Some (Inr r) \<and> rsp_status r = 201)"
  shows "\<exists>payload d l w1 k p w2. validate_create extra raw = Some payload \<and>
    ext_consume E (cpr_merchant_id payload) (app_rate_limiter a) (request_started w) = (Inr d, l, w1) \<and>
    admitted (app_settings a) payload (req_idempotency_key req) d \<and> req_idempotency_key req = Some k \<and>
    create (ext_sha256 E) (ext_providers E) (ext_backend E) (payment_input payload k) (app_service a, w1) =
      (p, app_service a', w2) \<and>
    ((\<exists>r. res = Some (Inr r) \<and> rsp_status r = 201) \<longleftrightarrow> (\<exists>payment. p = Some (Inr payment))) \<and>
    (\<forall>payment. p = Some (Inr payment) \<longrightarrow>
       (\<exists>r. res = Some (Inr r) \<and> rsp_body r = PaymentBody (payment_response payment (request_id_of req w))))"
proof -
  let ?rid = "request_id_of req w"
  obtain q a3 w3 where c: "call_endpoint E req ?rid (req_endpoint req) (a, request_started w) = (q, a3, w3)" by (metis prod_cases3)
  have a': "a' = a3" using c by (cases rule: serve_http_cases) (use assms(2) in auto)
  have res: "(\<exists>r. res = Some (Inr r) \<and> rsp_status r = 201) \<longleftrightarrow>
      (\<exists>out r. q = Some out \<and> answered ?rid out = Inr r \<and> rsp_status r = 201)"
    using c by (cases rule: serve_http_cases) (use assms(2) in auto)
  have body: "\<exists>r. res = Some (Inr r) \<and> rsp_body r = b" if "q = Some out" "answered ?rid out = Inr r" "rsp_body r = b" for out r b
    using c by (cases rule: serve_http_cases) (use assms(2) that in auto)
  have no201: "handle_exception ?rid x \<noteq> Inr r" if "rsp_status r = 201" for x r
    using that handled_status [of ?rid x r] by auto
  show ?thesis
  proof (cases "validate_create extra raw")
    case None
    then have "q = Some (plain (Inl RequestValidationError))" "a3 = a" using c assms(1) by auto
    then show ?thesis using assms(3) a' res by (auto simp: plain_def answered_def)
  next
    case (Some payload)
    then have cp: "create_payment E payload (req_idempotency_key req) ?rid (a, request_started w) = (q, a3, w3)"
      using c assms(1) by simp
    from cp show ?thesis
    proof (cases rule: create_payment_cases)
      case (limiter e l)
      then show ?thesis using assms(3) a' res no201 by (auto simp: raised_def plain_def answered_def)
    next
      case (limited d l)
      then show ?thesis using assms(3) a' res by (auto simp: answered_def)
    next
      case (refused d l)
      then show ?thesis using assms(3) a' res by (auto simp: answered_def)
    next
      case (served d l w1 k p)
      have iff: "(\<exists>r. res = Some (Inr r) \<and> rsp_status r = 201) \<longleftrightarrow> (\<exists>payment. p = Some (Inr payment))"
        unfolding res served(5) using no201
        by (auto simp: answered_def raised_def plain_def split: option.splits sum.splits)
      have "\<exists>r. res = Some (Inr r) \<and> rsp_body r = PaymentBody (payment_response payment ?rid)" if "p = Some (Inr payment)" for payment
        by (rule body) (use served(5) that in \<open>auto simp: answered_def json_response_def\<close>)
      then have pb: "\<forall>payment. p = Some (Inr payment) \<longrightarrow>
          (\<exists>r. res = Some (Inr r) \<and> rsp_body r = PaymentBody (payment_response payment ?rid))" by blast
      show ?thesis
        unfolding a'
        by (intro exI [of _ payload] exI [of _ d] exI [of _ l] exI [of _ w1] exI [of _ k] exI [of _ p] exI [of _ w3] conjI)
          (fact Some served(1-4) iff pb)+
    qed
  qed
qed

text \<open>
  C5. What reaches the payment service, for every collaborator: if a request to create a
  payment changed the store, the claims, the router or a circuit, or was answered with 201,
  then its body is valid, the limiter allowed it, it has an idempotency key, a supported
  currency and a synthetic card token, and the new state is what one call of the service
  with these data leaves. It is then answered with 201 if and only if the service returned
  a payment, and the body describes that payment.
\<close>

theorem create_guarded:
  assumes "req_endpoint req = CreatePayment extra raw" "serve_http E req (a, w) = (res, a', w')"
    and "svc_backend (app_service a') \<noteq> svc_backend (app_service a) \<or> svc_router (app_service a') \<noteq> svc_router (app_service a) \<or>
      svc_circuits (app_service a') \<noteq> svc_circuits (app_service a) \<or> (\<exists>r. res = Some (Inr r) \<and> rsp_status r = 201)"
  shows "\<exists>payload d l w1 k p w2. validate_create extra raw = Some payload \<and>
    ext_consume E (cpr_merchant_id payload) (app_rate_limiter a) (request_started w) = (Inr d, l, w1) \<and>
    admitted (app_settings a) payload (req_idempotency_key req) d \<and> req_idempotency_key req = Some k \<and>
    create (ext_sha256 E) (ext_providers E) (ext_backend E) (payment_input payload k) (app_service a, w1) =
      (p, app_service a', w2) \<and>
    ((\<exists>r. res = Some (Inr r) \<and> rsp_status r = 201) \<longleftrightarrow> (\<exists>payment. p = Some (Inr payment))) \<and>
    (\<forall>payment. p = Some (Inr payment) \<longrightarrow>
       (\<exists>r. res = Some (Inr r) \<and> rsp_body r = PaymentBody (payment_response payment (request_id_of req w))))"
  by (rule create_reaches_service [OF assms])

lemma recorded_payment:
  assumes "service_inv (svc_backend s) w" "create sha mock_ops (memory_ops False) data (s, w) = (Some (Inr p), s1, w1)"
  shows "ledger (svc_backend s1) (request_key data) = Some p \<and> pay_fingerprint p = request_fingerprint sha data"
proof -
  have "create_post False data (request_fingerprint sha data) (svc_providers s) (svc_backend s) w (Inr p) (svc_backend s1) w1"
    using create_memory [OF mock.payment_provider_axioms assms(1), of sha False data] assms(2) by auto
  then show ?thesis by (auto simp: create_post_def spec_create_simps payment_for_def)
qed

text \<open>A request that was accepted and is made again, whatever came in between.\<close>

lemma http_replayed:
  assumes inv: "app_inv a w" and E: "E = memory_externals sha sel ping ren"
    and req: "req_endpoint req = CreatePayment extra raw"
    and first: "serve_http E req (a, w) = (Some (Inr r1), a1, w1)" "rsp_status r1 = 201"
    and later: "serve_all E reqs (a1, w1) = (rs, a2, w2)"
    and again: "req_endpoint req' = CreatePayment extra raw" "req_idempotency_key req' = req_idempotency_key req"
      "serve_http E req' (a2, w2) = (Some (Inr r2), a3, w3)"
  shows "rsp_status r2 = 429 \<or>
    (rsp_status r2 = 201 \<and> ledger (svc_backend (app_service a3)) = ledger (svc_backend (app_service a2)) \<and>
     (\<exists>b1 b2. rsp_body r1 = PaymentBody b1 \<and> rsp_body r2 = PaymentBody b2 \<and> prs_id b2 = prs_id b1 \<and>
        prs_merchant_id b2 = prs_merchant_id b1 \<and> prs_amount b2 = prs_amount b1 \<and>
        prs_currency b2 = prs_currency b1 \<and> prs_created_at b2 = prs_created_at b1))"
proof -
  have ops: "ext_sha256 E = sha" "ext_providers E = mock_ops" "ext_backend E = memory_ops False" "ext_consume E = memory_consume"
    by (simp_all add: E memory_externals_def)
  obtain payload d l v k p v' where new: "validate_create extra raw = Some payload"
      "memory_consume (cpr_merchant_id payload) (app_rate_limiter a) (request_started w) = (Inr d, l, v)"
      "admitted (app_settings a) payload (req_idempotency_key req) d" "req_idempotency_key req = Some k"
      "create sha mock_ops (memory_ops False) (payment_input payload k) (app_service a, v) = (Some (Inr p), app_service a1, v')"
      "rsp_body r1 = PaymentBody (payment_response p (request_id_of req w))"
    using create_reaches_service [OF req first(1)] first(2) unfolding ops by fastforce
  have v: "service_inv (svc_backend (app_service a)) v"
    using service_inv_time [of _ w v] inv world_le_trans [OF request_started_le] memory_consume_facts [OF new(2)]
    by (auto simp: app_inv_def)
  note rec = recorded_payment [OF v new(5)]
  obtain i1: "app_inv a1 w1" and e1: "app_evolves a a1"
    using serve_http_ok [OF inv E, of req] first(1) by auto
  have i2: "app_inv a2 w2" and e2: "app_evolves a1 a2" using serve_all_ok [OF E i1 later] by blast+
  obtain p' where p': "ledger (svc_backend (app_service a2)) (request_key (payment_input payload k)) = Some p'" "evolves p p'"
    using e2 rec unfolding app_evolves_def ledger_evolves_def by blast
  have fields: "pay_id p' = pay_id p" "pay_merchant_id p' = pay_merchant_id p" "pay_amount p' = pay_amount p"
    "pay_currency p' = pay_currency p" "pay_created_at p' = pay_created_at p" "pay_fingerprint p' = pay_fingerprint p"
    using p'(2) by (auto simp: evolves_def)
  have set2: "app_settings a2 = app_settings a" using e1 e2 by (simp add: app_evolves_def)
  let ?rid = "request_id_of req' w2"
  obtain q b u where c: "call_endpoint E req' ?rid (req_endpoint req') (a2, request_started w2) = (q, b, u)" by (metis prod_cases3)
  then have cp: "create_payment E payload (req_idempotency_key req') ?rid (a2, request_started w2) = (q, b, u)"
    using again(1) new(1) by simp
  have res: "a3 = b \<and> (\<exists>out r. q = Some out \<and> answered ?rid out = Inr r \<and> rsp_status r2 = rsp_status r \<and> rsp_body r2 = rsp_body r)"
    using c by (cases rule: serve_http_cases) (use again(3) in auto)
  from cp show ?thesis
  proof (cases rule: create_payment_cases)
    case (limiter e l)
    then show ?thesis using memory_consume_facts unfolding ops by blast
  next
    case (limited d l)
    then show ?thesis using res by (auto simp: answered_def)
  next
    case (refused d' l)
    then show ?thesis using new(3) again(2) set2 by (auto simp: admitted_def)
  next
    case (served d' l' v2 k' x)
    have k: "k' = k" using served(3) new(4) again(2) by simp
    have v2: "service_inv (svc_backend (app_service a2)) v2"
      using service_inv_time [of _ w2 v2] i2 world_le_trans [OF request_started_le] memory_consume_facts served(1)
      unfolding ops by (auto simp: app_inv_def)
    obtain s' where s': "same_but_claims (app_service a2) s'"
        "create sha mock_ops (memory_ops False) (payment_input payload k) (app_service a2, v2) = (Some (Inr p'), s', v2)"
      using create_known_key [OF v2 p'(1) refl, of sha False] fields(6) rec by auto
    have x: "x = Some (Inr p')" "app_service b = s'" using s'(2) served(4) unfolding ops k by auto
    have "ledger (svc_backend s') = ledger (svc_backend (app_service a2))"
      using s'(1) by (simp add: same_but_claims_def ledger_def fun_eq_iff)
    then show ?thesis
      using res x served(5) new(6) fields by (auto simp: answered_def json_response_def payment_response_def)
  qed
qed

text \<open>
  C2. Idempotency end to end: if a request to create a payment was answered with 201, then
  after any further requests, among them refunds and changes of the configuration, the same
  body under the same key is answered with the same payment again (or refused by the rate
  limiter), and no payment is recorded for it.
\<close>

theorem http_idempotent:
  assumes inv: "app_inv a w" and E: "E = memory_externals sha sel ping ren"
    and req: "req_endpoint req = CreatePayment extra raw"
    and first: "serve_http E req (a, w) = (Some (Inr r1), a1, w1)" "rsp_status r1 = 201"
    and later: "serve_all E reqs (a1, w1) = (rs, a2, w2)"
    and again: "req_endpoint req' = CreatePayment extra raw" "req_idempotency_key req' = req_idempotency_key req"
      "serve_http E req' (a2, w2) = (Some (Inr r2), a3, w3)"
  shows "rsp_status r2 = 429 \<or>
    (rsp_status r2 = 201 \<and> ledger (svc_backend (app_service a3)) = ledger (svc_backend (app_service a2)) \<and>
     (\<exists>b1 b2. rsp_body r1 = PaymentBody b1 \<and> rsp_body r2 = PaymentBody b2 \<and> prs_id b2 = prs_id b1 \<and>
        prs_merchant_id b2 = prs_merchant_id b1 \<and> prs_amount b2 = prs_amount b1 \<and>
        prs_currency b2 = prs_currency b1 \<and> prs_created_at b2 = prs_created_at b1))"
  by (rule http_replayed [OF assms])

text \<open>
  Readiness of the in-memory application: the endpoint changes nothing and answers 200
  exactly if no provider is forced to fail, with every provider's state under its name, and
  503 otherwise.
\<close>

lemma ready_reports:
  assumes inv: "app_inv a w" and "req_endpoint req = Ready"
  shows "\<exists>r w'. serve_http (memory_externals sha sel ping ren) req (a, w) = (Some (Inr r), a, w') \<and>
    (let up = (\<lambda>p. \<not> cfg_forced_failure (prv_config p)); ok = (\<forall>p\<in>set (svc_providers (app_service a)). up p)
     in rsp_status r = (if ok then 200 else 503) \<and>
        (\<exists>ds. rsp_body r = ReadyBody (if ok then ''ready'' else ''unavailable'')
           (map (\<lambda>p. (prv_name p, up p)) (svc_providers (app_service a))) ds))"
proof -
  let ?E = "memory_externals sha sel ping ren" and ?ps = "svc_providers (app_service a)" and ?w = "request_started w"
  let ?items = "map (\<lambda>p. (prv_name p, \<not> cfg_forced_failure (prv_config p))) ?ps"
  let ?ok = "\<forall>p\<in>set ?ps. \<not> cfg_forced_failure (prv_config p)"
  have ok: "service_config_ok (app_service a)" "memory_profile (rtm_settings (app_runtime a))" using inv by (simp_all add: app_inv_def)
  have "distinct (map prv_name ?ps)" using ok(1) by (simp add: service_config_ok_def)
  then have d: "dict_of ?items = ?items" by (intro dict_of_distinct) (simp add: o_def)
  have all: "list_all snd ?items \<longleftrightarrow> ?ok" by (auto simp: list_all_iff)
  have c: "\<exists>ds. call_endpoint ?E req (request_id_of req w) (req_endpoint req) (a, ?w) =
      (Some (answer (json_response (if ?ok then 200 else 503) [] (ReadyBody (if ?ok then ''ready'' else ''unavailable'') ?items ds))), a, ?w)"
    using memory_readiness [OF ok(2), of sel ping]
    by (simp add: assms(2) ready_def memory_externals_def mock_statuses effect_def d all Let_def json_response_def)
  then obtain ds where c: "call_endpoint ?E req (request_id_of req w) (req_endpoint req) (a, ?w) =
      (Some (answer (json_response (if ?ok then 200 else 503) [] (ReadyBody (if ?ok then ''ready'' else ''unavailable'') ?items ds))), a, ?w)"
    by blast
  then show ?thesis
  proof (cases rule: serve_http_cases)
    case (answers out r ms)
    then have "r = json_response (if ?ok then 200 else 503) [] (ReadyBody (if ?ok then ''ready'' else ''unavailable'') ?items ds)"
      by (auto simp: answered_def)
    then show ?thesis using answers(3) by (auto simp: json_response_def Let_def)
  qed (auto simp: answered_def)
qed

subsection \<open>Evaluations\<close>

text \<open>The application of an empty environment; no library is reached.\<close>

definition default_app :: "(unit, unit, unit) memory_app" where
  "default_app = projr (create_app no_libraries memory_parts memory_limiter Map.empty)"

lemma default_app_new:
  "create_app no_libraries memory_parts memory_limiter Map.empty = Inr default_app \<and> app_settings default_app = default_Settings"
proof -
  obtain R :: "(unit, unit, unit) Runtime" where R: "build_runtime no_libraries default_Settings = Inr R"
    using build_runtime_parts [where L = no_libraries and s = default_Settings and 'h = unit]
    by (auto simp: default_Settings_def limiter_setting_ok_def less_pyfloat_def)
  have "weights_valid default_CompositeWeights" by (simp add: weights_valid_def default_CompositeWeights_def)
  then obtain s where "new_PaymentService mock_fleet (memory_parts (rtm_store R) (rtm_idempotency R)) None 3 30 (Some [])
      (set_routing_strategy default_Settings) (Some (set_composite_weights_setting default_Settings))
      (set_provider_concurrency_limit default_Settings) = Inr s"
    using new_service_ok [of "set_routing_strategy default_Settings" "set_composite_weights_setting default_Settings"
      "set_provider_concurrency_limit default_Settings" "memory_parts (rtm_store R) (rtm_idempotency R)"]
    by (auto simp: default_Settings_def ROUTING_STRATEGIES_def)
  then have "\<exists>a :: (unit, unit, unit) memory_app. create_app no_libraries memory_parts memory_limiter Map.empty = Inr a \<and> app_settings a = default_Settings"
    using R by (auto simp: create_app_def from_env_default)
  then show ?thesis by (auto simp: default_app_def)
qed

lemma default_app_inv: "app_inv default_app sample_world"
  by (rule create_app_ok [OF conjunct1 [OF default_app_new] _ sample_world_inj])
    (simp add: default_app_new memory_profile_def default_Settings_def)

definition probe_ok :: "unit \<Rightarrow> unit res" where
  "probe_ok u = Inr ()"

definition sample_externals :: "(memory_backend, InMemoryTokenBucketLimiter, unit, unit) externals" where
  "sample_externals = memory_externals (\<lambda>t. t) probe_ok probe_ok (\<lambda>_. [])"

definition http :: "endpoint \<Rightarrow> request" where
  "http ep = \<lparr>req_method = ''POST'', req_path = ''/'', req_endpoint = ep, req_x_request_id = Some ''r-1'',
     req_idempotency_key = Some ''key'', req_x_admin_token = Some ''guess''\<rparr>"


theorem admin_guarded_witness:
  "\<exists>r w'. serve_http sample_externals (http (FailProvider ''mockstripe'')) (default_app, sample_world) = (Some (Inr r), default_app, w') \<and>
     rsp_status r = 401"
proof -
  obtain res a' w' where s: "serve_http sample_externals (http (FailProvider ''mockstripe'')) (default_app, sample_world) = (res, a', w')"
    by (metis prod_cases3)
  show ?thesis using admin_guarded [OF s] s by (auto simp: http_def default_app_new default_Settings_def)
qed

theorem request_traced_witness:
  "\<exists>r a' w' ms m p. serve_http sample_externals (http Health) (default_app, sample_world) = (Some (Inr r), a', w') \<and>
     (''X-Request-ID'', ''r-1'') \<in> set (rsp_headers r) \<and> last (logged w') = HttpRequest ''r-1'' ''POST'' ''/'' (rsp_status r) ms m p"
proof -
  obtain r a' w' where s: "serve_http sample_externals (http Health) (default_app, sample_world) = (Some (Inr r), a', w')"
    using serve_http_ok [OF default_app_inv refl, of "\<lambda>t. t" probe_ok probe_ok "\<lambda>_. []"] unfolding sample_externals_def by blast
  show ?thesis using request_traced [OF s] s by (auto simp: http_def)
qed

text \<open>A request for the payment that the store of \<open>paid_service\<close> already has.\<close>

definition paid_app :: "(unit, unit, unit) memory_app" where
  "paid_app = default_app\<lparr>app_service := (app_service default_app)\<lparr>svc_backend := paid_backend\<rparr>,
     app_rate_limiter := \<lparr>lim_capacity = 60, lim_refill_per_second = 1, lim_buckets = Map.empty\<rparr>\<rparr>"

definition sample_body :: CreatePaymentRequest where
  "sample_body = \<lparr>cpr_merchant_id = ''m'', cpr_amount = 100, cpr_currency = ''INR'',
     cpr_payment_method = \<lparr>pmt_type = ''card'', pmt_token = ''test_card''\<rparr>\<rparr>"

lemma paid_app_inv: "app_inv paid_app later_world"
proof -
  have "service_config_ok (app_service default_app)" "memory_profile (rtm_settings (app_runtime default_app))"
    using default_app_inv by (simp_all add: app_inv_def)
  moreover have "same_config (app_service default_app) ((app_service default_app)\<lparr>svc_backend := paid_backend\<rparr>)"
    by (simp add: same_config_def)
  ultimately show ?thesis
    using paid_inv same_config_ok by (auto simp: app_inv_def paid_app_def paid_service_def)
qed

lemma paid_request:
  "\<exists>r a1 w1. serve_http sample_externals (http (CreatePayment [] sample_body)) (paid_app, later_world) = (Some (Inr r), a1, w1) \<and>
     rsp_status r = 201"
proof -
  let ?req = "http (CreatePayment [] sample_body)" and ?w = "request_started later_world"
  have v: "validate_create [] sample_body = Some sample_body"
    by (simp add: validate_create_def sample_body_def uppercase_currency_def py_upper_def char_upper_def Let_def)
  have inp: "payment_input sample_body ''key'' = sample_input" "cpr_merchant_id sample_body = ''m''"
    by (simp_all add: payment_input_def sample_body_def sample_input_def)
  obtain d l w1 where c: "memory_consume ''m'' (app_rate_limiter paid_app) ?w = (Inr d, l, w1)"
    using memory_consume_facts by (metis prod_cases3)
  have d: "rld_allowed d"
    using c by (auto simp: memory_consume_def consume_token_def consume_at_def refilled_def paid_app_def Let_def case_prod_beta)
  have w1: "service_inv (svc_backend (app_service paid_app)) w1"
    using service_inv_time [of _ later_world w1] paid_app_inv world_le_trans [OF request_started_le] memory_consume_facts [OF c]
    by (auto simp: app_inv_def)
  obtain s' where s': "create (\<lambda>t. t) mock_ops (memory_ops False) sample_input (app_service paid_app, w1) = (Some (Inr paid_payment), s', w1)"
    using create_known_key [OF w1 _ refl, of sample_input paid_payment "\<lambda>t. t" False] paid_ledger(1) by (auto simp: paid_app_def)
  have pre: "precheck (app_settings paid_app) sample_body (Some ''key'') hs rid = None" for hs rid
    by (simp add: precheck_None paid_app_def default_app_new default_Settings_def sample_body_def starts_with_def)
  have "\<exists>out a3 w3. call_endpoint sample_externals ?req (request_id_of ?req later_world) (req_endpoint ?req) (paid_app, ?w) = (Some out, a3, w3) \<and>
      (\<exists>r. out_result out = Inr r \<and> rsp_status r = 201)"
    using c d s' pre
    by (simp add: http_def v create_payment_def sample_externals_def memory_externals_def inp Let_def with_service_def)
  then obtain out a3 w3 r where k: "call_endpoint sample_externals ?req (request_id_of ?req later_world) (req_endpoint ?req) (paid_app, ?w) =
      (Some out, a3, w3)" "out_result out = Inr r" "rsp_status r = 201" by blast
  from k(1) show ?thesis by (cases rule: serve_http_cases) (use k(2,3) in \<open>auto simp: answered_def\<close>)
qed

theorem create_guarded_witness:
  "\<exists>d l w1 p s1 w2. memory_consume ''m'' (app_rate_limiter paid_app) (request_started later_world) = (Inr d, l, w1) \<and>
     rld_allowed d \<and> create (\<lambda>t. t) mock_ops (memory_ops False) sample_input (app_service paid_app, w1) = (Some (Inr p), s1, w2)"
proof -
  obtain r a1 w1 where s: "serve_http sample_externals (http (CreatePayment [] sample_body)) (paid_app, later_world) = (Some (Inr r), a1, w1)"
    "rsp_status r = 201" using paid_request by blast
  have e: "req_endpoint (http (CreatePayment [] sample_body)) = CreatePayment [] sample_body"
    "req_idempotency_key (http (CreatePayment [] sample_body)) = Some ''key''" by (simp_all add: http_def)
  have v: "validate_create [] sample_body = Some sample_body"
    by (simp add: validate_create_def sample_body_def uppercase_currency_def py_upper_def char_upper_def Let_def)
  have inp: "payment_input sample_body ''key'' = sample_input" "cpr_merchant_id sample_body = ''m''"
    by (simp_all add: payment_input_def sample_body_def sample_input_def)
  show ?thesis
    using create_guarded [OF e(1) s(1)] s(2)
    by (auto simp: v e(2) inp sample_externals_def memory_externals_def admitted_def)
qed

theorem http_idempotent_witness:
  "\<exists>r1 a1 w1 r2 a2 w2. serve_http sample_externals (http (CreatePayment [] sample_body)) (paid_app, later_world) = (Some (Inr r1), a1, w1) \<and>
     serve_http sample_externals (http (CreatePayment [] sample_body)) (a1, w1) = (Some (Inr r2), a2, w2) \<and>
     (rsp_status r2 = 429 \<or> (rsp_status r2 = 201 \<and> ledger (svc_backend (app_service a2)) = ledger (svc_backend (app_service a1))))"
proof -
  let ?req = "http (CreatePayment [] sample_body)"
  have E: "sample_externals = memory_externals (\<lambda>t. t) probe_ok probe_ok (\<lambda>_. [])" by (simp add: sample_externals_def)
  obtain r1 a1 w1 where s: "serve_http sample_externals ?req (paid_app, later_world) = (Some (Inr r1), a1, w1)" "rsp_status r1 = 201"
    using paid_request by blast
  have "app_inv a1 w1" using serve_http_ok [OF paid_app_inv E, of ?req] s(1) by auto
  then obtain r2 a2 w2 where t: "serve_http sample_externals ?req (a1, w1) = (Some (Inr r2), a2, w2)"
    using serve_http_ok [OF _ E, of a1 w1 ?req] by blast
  have e: "req_endpoint ?req = CreatePayment [] sample_body" by (simp add: http_def)
  have l: "serve_all sample_externals [] (a1, w1) = ([], a1, w1)" by simp
  show ?thesis using http_idempotent [OF paid_app_inv E e s l e refl t] s(1) t by blast
qed

end
