(* ===== verification/Drill.thy ===== *)
theory Drill
  imports Load Http
begin

text \<open>
  The load generator against the application itself: its HTTP client is given the service of
  \<open>api.py\<close> with the in-memory profile. The service has a world of its own, as it runs in
  another process. How a response body is rendered as JSON is FastAPI's and a parameter; of
  it the script only reads the identifier of a payment.
\<close>

definition load_body :: CreatePaymentRequest where
  "load_body =
     \<lparr>cpr_merchant_id = ''load-evidence-merchant'', cpr_amount = 100, cpr_currency = ''INR'',
      cpr_payment_method = \<lparr>pmt_type = ''card'', pmt_token = ''test_card''\<rparr>\<rparr>"

definition load_http_request :: "string option \<Rightarrow> request" where
  "load_http_request key =
     \<lparr>req_method = ''POST'', req_path = PAYMENT_PATH, req_endpoint = CreatePayment [] load_body,
      req_x_request_id = None, req_idempotency_key = key, req_x_admin_token = None\<rparr>"

text \<open>
  An exception that no handler of the application takes is answered by the server with status
  500 and a body that is no JSON; a request that is not answered ends in the client's timeout.
\<close>

definition app_reply :: "(body \<Rightarrow> pyvalue) \<Rightarrow> (exn + response) option \<Rightarrow> reply res" where
  "app_reply render r =
     (case r of
        None \<Rightarrow> Inl (OtherException ''ReadTimeout'')
      | Some (Inl e) \<Rightarrow> Inr \<lparr>rpl_status = 500, rpl_json = Inl (OtherException ''JSONDecodeError'')\<rparr>
      | Some (Inr x) \<Rightarrow> Inr \<lparr>rpl_status = rsp_status x, rpl_json = Inr (render (rsp_body x))\<rparr>)"

text \<open>Only the request that the load scenarios make reaches the service here.\<close>

definition app_client ::
  "('b, 'l, 'm, 'c) externals \<Rightarrow> (body \<Rightarrow> pyvalue) \<Rightarrow> (('b, 'l, 'm, 'c, 'h) App \<times> world) client" where
  "app_client E render =
     \<lparr>cli_post = (\<lambda>path headers content (server, w).
        if path = PAYMENT_PATH \<and> content = Some PAYMENT_BODY
        then let (r, server1) = serve_http E (load_http_request (map_of headers ''Idempotency-Key'')) server
             in (app_reply render r, (server1, w))
        else (Inl (OtherException ''UnsupportedProtocol''), (server, w))),
      cli_get = (\<lambda>path (server, w). (Inl (OtherException ''UnsupportedProtocol''), (server, w)))\<rparr>"

definition renders_payments :: "(body \<Rightarrow> pyvalue) \<Rightarrow> bool" where
  "renders_payments render \<longleftrightarrow> (\<forall>p. get_or_none ''id'' (render (PaymentBody p)) = PStr (str_uuid (prs_id p)))"

definition show_body :: "body \<Rightarrow> pyvalue" where
  "show_body b = (case b of PaymentBody p \<Rightarrow> PDict [(''id'', PStr (str_uuid (prs_id p)))] | _ \<Rightarrow> PNone)"

lemma show_body_renders: "renders_payments show_body"
  by (simp add: renders_payments_def show_body_def get_or_none_def)

lemma app_client_ok: "client_ok (app_client E render)"
  by (auto simp: client_ok_def app_client_def app_reply_def is_Exception_def case_prod_beta Let_def
      split: if_splits option.splits sum.splits)

text \<open>What the script keeps of an answer.\<close>

definition seen :: "(body \<Rightarrow> pyvalue) \<Rightarrow> (exn + response) option \<Rightarrow> int option \<times> pyvalue" where
  "seen render r =
     (case r of
        Some (Inr x) \<Rightarrow> (Some (rsp_status x), if rsp_status x = 201 then get_or_none ''id'' (render (rsp_body x)) else PNone)
      | _ \<Rightarrow> (None, PNone))"

lemma one_request_app:
  assumes "serve_http E (load_http_request (Some key)) server = (r, server1)"
  shows "\<exists>sample v w1. one_request (app_client E render) phase (Some key) i (server, w) = (Inr (sample, v), server1, w1) \<and>
    (smp_status_code sample, v) = seen render r"
  using assms
  by (auto simp: one_request_def request_payment_def payment_request_def app_client_def app_reply_def seen_def
      case_prod_beta Let_def failed_sample_def is_Exception_def split: option.split sum.split)

lemma run_requests_app:
  assumes "run_requests (one_request (app_client E render) phase (Some key)) order (server, w) = (Inr rs, server2, w2)"
  shows "\<exists>outs. serve_all E (replicate (length order) (load_http_request (Some key))) server = (outs, server2) \<and>
    map (\<lambda>(sample, v). (smp_status_code sample, v)) rs = map (seen render) outs"
  using assms
proof (induction order arbitrary: server w rs)
  case (Cons i order)
  obtain r server1 where s: "serve_http E (load_http_request (Some key)) server = (r, server1)" by (metis prod.collapse)
  from one_request_app [OF this, of render phase i w] obtain sample v w1 where
    o: "one_request (app_client E render) phase (Some key) i (server, w) = (Inr (sample, v), server1, w1)"
    "(smp_status_code sample, v) = seen render r" by blast
  obtain q st2 where q: "run_requests (one_request (app_client E render) phase (Some key)) order (server1, w1) = (q, st2)"
    by (metis prod.collapse)
  then obtain rest where rest: "q = Inr rest" "rs = (sample, v) # rest" "st2 = (server2, w2)"
    using Cons.prems o(1) by (cases q) auto
  obtain outs where "serve_all E (replicate (length order) (load_http_request (Some key))) server1 = (outs, server2)"
    "map (\<lambda>(sample, v). (smp_status_code sample, v)) rest = map (seen render) outs"
    using Cons.IH [of server1 w1 rest] q rest by auto
  then show ?case using s rest(2) o(2) by (cases server1) auto
qed simp

text \<open>Equal requests that were accepted were answered with the same payment.\<close>

lemma serve_all_append:
  "serve_all E (xs @ ys) st = (fst (serve_all E xs st) @ fst (serve_all E ys (snd (serve_all E xs st))),
     snd (serve_all E ys (snd (serve_all E xs st))))"
  by (induction xs arbitrary: st) (simp_all add: case_prod_beta)

lemma serve_all_length: "length (fst (serve_all E xs st)) = length xs"
  by (induction xs arbitrary: st) (simp_all add: case_prod_beta)

definition accepted :: "(exn + response) option \<Rightarrow> uuid option" where
  "accepted r = (case r of
     Some (Inr x) \<Rightarrow> (case rsp_body x of PaymentBody b \<Rightarrow> if rsp_status x = 201 then Some (prs_id b) else None | _ \<Rightarrow> None)
   | _ \<Rightarrow> None)"


lemma equal_requests:
  assumes inv: "app_inv a v" and E: "E = memory_externals sha sel ping ren"
    and all: "serve_all E (replicate n (load_http_request (Some key))) (a, v) = (outs, server)"
    and ij: "i < j" "j < n" and first: "outs ! i = Some (Inr r1)" "rsp_status r1 = 201"
    and second: "outs ! j = Some (Inr r2)" "rsp_status r2 = 201"
  shows "\<exists>b1 b2. rsp_body r1 = PaymentBody b1 \<and> rsp_body r2 = PaymentBody b2 \<and> prs_id b2 = prs_id b1"
proof -
  let ?req = "load_http_request (Some key)"
  have req: "req_endpoint ?req = CreatePayment [] load_body" by (simp add: load_http_request_def)
  have n: "n = i + 1 + (j - Suc i) + 1 + (n - Suc j)" using ij by simp
  have split: "replicate n ?req = replicate i ?req @ [?req] @ replicate (j - Suc i) ?req @ [?req] @ replicate (n - Suc j) ?req"
    by (subst n) (simp only: replicate_add append.assoc One_nat_def replicate_Suc replicate_0)
  obtain o1 a1 v1 where 1: "serve_all E (replicate i ?req) (a, v) = (o1, a1, v1)" by (metis prod_cases3)
  have i1: "app_inv a1 v1" using serve_all_ok [OF E inv 1] by blast
  obtain x a2 v2 where 2: "serve_http E ?req (a1, v1) = (Some (Inr x), a2, v2)" using serve_http_ok [OF i1 E] by blast
  have i2: "app_inv a2 v2" using serve_http_ok [OF i1 E, of ?req] 2 by auto
  obtain o3 a3 v3 where 3: "serve_all E (replicate (j - Suc i) ?req) (a2, v2) = (o3, a3, v3)" by (metis prod_cases3)
  have i3: "app_inv a3 v3" using serve_all_ok [OF E i2 3] by blast
  obtain y a4 v4 where 4: "serve_http E ?req (a3, v3) = (Some (Inr y), a4, v4)" using serve_http_ok [OF i3 E] by blast
  define rest where "rest = fst (serve_all E (replicate (n - Suc j) ?req) (a4, v4))"
  have outs: "outs = o1 @ [Some (Inr x)] @ o3 @ [Some (Inr y)] @ rest"
    using all unfolding split by (simp add: serve_all_append 1 2 3 4 case_prod_beta rest_def)
  have len: "length o1 = i" "length o3 = j - Suc i"
    using serve_all_length [of E "replicate i ?req" "(a, v)"] serve_all_length [of E "replicate (j - Suc i) ?req" "(a2, v2)"]
    by (simp_all add: 1 3)
  have "outs ! i = Some (Inr x)" by (simp add: outs len nth_append)
  moreover have "outs ! j = Some (Inr y)"
  proof -
    have "length (o1 @ [Some (Inr x)] @ o3) = j" using len ij by simp
    then show ?thesis unfolding outs by (metis append.assoc append_Cons nth_append_length)
  qed
  ultimately have xy: "x = r1" "y = r2" using first(1) second(1) by simp_all
  show ?thesis
    using http_replayed [OF i1 E req 2 _ 3 req refl 4] first(2) second(2) by (auto simp: xy)
qed


lemma accepted_body:
  assumes "app_inv a v" "E = memory_externals sha sel ping ren"
    and "serve_http E (load_http_request (Some key)) (a, v) = (Some (Inr r), a1, v1)" "rsp_status r = 201"
  shows "\<exists>b. rsp_body r = PaymentBody b"
proof -
  have "req_endpoint (load_http_request (Some key)) = CreatePayment [] load_body" by (simp add: load_http_request_def)
  from create_reaches_service [OF this assms(3)] show ?thesis using assms(4) by fastforce
qed

lemma accepted_bodies:
  assumes E: "E = memory_externals sha sel ping ren"
  shows "app_inv a v \<Longrightarrow> serve_all E (replicate n (load_http_request (Some key))) (a, v) = (outs, server) \<Longrightarrow>
    \<forall>r\<in>set outs. \<exists>x. r = Some (Inr x) \<and> (rsp_status x = 201 \<longrightarrow> (\<exists>b. rsp_body x = PaymentBody b))"
proof (induction n arbitrary: a v outs server)
  case (Suc n)
  let ?req = "load_http_request (Some key)"
  obtain x a1 v1 where s: "serve_http E ?req (a, v) = (Some (Inr x), a1, v1)" "app_inv a1 v1"
    using serve_http_ok [OF Suc.prems(1) E, of ?req] by blast
  obtain os sv where t: "serve_all E (replicate n ?req) (a1, v1) = (os, sv)" by (metis prod.collapse)
  have "outs = Some (Inr x) # os" using Suc.prems(2) s(1) t by simp
  then show ?case using Suc.IH [OF s(2) t] accepted_body [OF Suc.prems(1) E s(1)] by auto
qed simp

text \<open>The identifiers that a run under one key collects.\<close>

lemma add_ids:
  assumes "\<forall>v\<in>set vs. hashable v"
  shows "fold add_id vs (Inr S) = Inr (S \<union> {v \<in> set vs. truthy v})"
  using assms by (induction vs arbitrary: S) (auto simp: insert_commute)

lemma seen_ids:
  assumes inv: "app_inv a v" and E: "E = memory_externals sha sel ping ren" and R: "renders_payments render"
    and all: "serve_all E (replicate n (load_http_request (Some key))) (a, v) = (outs, server)"
  obtains i where "\<forall>r\<in>set outs. snd (seen render r) = (if fst (seen render r) = Some 201 then PStr (str_uuid i) else PNone)"
proof -
  define ok where "ok = (\<lambda>r :: (exn + response) option. \<exists>x. r = Some (Inr x) \<and> rsp_status x = 201)"
  note bodies = accepted_bodies [OF E inv all]
  have same: "prs_id b = prs_id c"
    if rs: "r \<in> set outs" "s \<in> set outs" "r = Some (Inr x)" "s = Some (Inr y)" "rsp_status x = 201" "rsp_status y = 201"
      "rsp_body x = PaymentBody b" "rsp_body y = PaymentBody c" for r s x y b c
  proof -
    have len: "length outs = n" using serve_all_length [of E "replicate n (load_http_request (Some key))" "(a, v)"] all by simp
    obtain i j where ij: "i < n" "j < n" "outs ! i = Some (Inr x)" "outs ! j = Some (Inr y)"
      using rs(1-4) len by (metis in_set_conv_nth)
    consider "i < j" | "j < i" | "i = j" by linarith
    then show ?thesis
    proof cases
      case 1
      show ?thesis using equal_requests [OF inv E all 1 ij(2,3) rs(5) ij(4) rs(6)] rs(7,8) by auto
    next
      case 2
      show ?thesis using equal_requests [OF inv E all 2 ij(1,4) rs(6) ij(3) rs(5)] rs(7,8) by auto
    next
      case 3
      then show ?thesis using ij rs by auto
    qed
  qed
  show ?thesis
  proof (cases "\<exists>r\<in>set outs. ok r")
    case True
    then obtain x b where xb: "Some (Inr x) \<in> set outs" "rsp_status x = 201" "rsp_body x = PaymentBody b"
      using bodies unfolding ok_def by blast
    have "snd (seen render r) = (if fst (seen render r) = Some 201 then PStr (str_uuid (prs_id b)) else PNone)"
      if r: "r \<in> set outs" for r
    proof -
      obtain y where y: "r = Some (Inr y)" "rsp_status y = 201 \<longrightarrow> (\<exists>c. rsp_body y = PaymentBody c)" using bodies r by blast
      show ?thesis
      proof (cases "rsp_status y = 201")
        case True
        then obtain c where c: "rsp_body y = PaymentBody c" using y(2) by blast
        have "prs_id c = prs_id b" by (rule same [OF r xb(1) y(1) refl True xb(2) c xb(3)])
        then show ?thesis using True c R y(1) by (simp add: seen_def renders_payments_def)
      next
        case False
        then show ?thesis using y(1) by (simp add: seen_def)
      qed
    qed
    then show thesis using that by blast
  next
    case False
    then have "snd (seen render r) = (if fst (seen render r) = Some 201 then PStr (str_uuid 0) else PNone)" if "r \<in> set outs" for r
      using that by (auto simp: ok_def seen_def split: option.split sum.split)
    then show thesis using that by blast
  qed
qed

lemma str_uuid_text: "truthy (PStr (str_uuid i))" "hashable (PStr (str_uuid i))"
  by (simp_all add: str_uuid_def Let_def)

lemma gathered_set:
  assumes "pool_books p" "all_finished p" "dom (pl_jobs p) = {..<jobs}"
  shows "set (gathered jobs p) = set (map snd (pl_results p))" "length (gathered jobs p) = jobs"
proof -
  note f = all_finished_results [OF assms]
  have d: "dict_ok (pl_results p)" by (rule pool_booksD(2) [OF assms(1)])
  have "set (gathered jobs p) = (\<lambda>i. the (map_of (pl_results p) i)) ` fst ` set (pl_results p)"
    using f(1) by (simp add: f(3) lessThan_atLeast0)
  also have "\<dots> = snd ` set (pl_results p)" using d by (force simp: image_image intro!: image_cong)
  finally show "set (gathered jobs p) = set (map snd (pl_results p))" by simp
  show "length (gathered jobs p) = jobs" by (simp add: gathered_def)
qed

text \<open>The identifiers of samples of which the accepted ones name the same payment.\<close>

lemma collected_ids:
  assumes each: "\<And>q. q \<in> set qs \<Longrightarrow> snd q = (if smp_status_code (fst q) = Some 201 then PStr (str_uuid i) else PNone)"
    and qs: "qs \<noteq> []"
  obtains ids where "fold add_id (map snd qs) (Inr {}) = Inr ids" "card ids \<le> 1"
    "ids \<noteq> {} \<longleftrightarrow> (\<exists>s\<in>set (map fst qs). smp_status_code s = Some 201)"
    "equivalent_payment_responses (map fst qs) ids = list_all (\<lambda>s. smp_status_code s = Some 201) (map fst qs)"
proof -
  define ids where "ids = {u \<in> snd ` set qs. truthy u}"
  have "\<forall>u\<in>set (map snd qs). hashable u" using each by (auto simp: str_uuid_text)
  then have fold: "fold add_id (map snd qs) (Inr {}) = Inr ids" by (simp add: add_ids ids_def)
  have sub: "ids \<subseteq> {PStr (str_uuid i)}" using each by (auto simp: ids_def split: if_splits)
  have "truthy (snd q) \<longleftrightarrow> smp_status_code (fst q) = Some 201" if "q \<in> set qs" for q
    using each [OF that] str_uuid_text(1) [of i] by simp
  then have ne: "ids \<noteq> {} \<longleftrightarrow> (\<exists>q\<in>set qs. smp_status_code (fst q) = Some 201)" unfolding ids_def by blast
  have "card ids = 1" if "list_all (\<lambda>s. smp_status_code s = Some 201) (map fst qs)"
  proof -
    have "hd qs \<in> set qs" using qs by simp
    moreover from this have "smp_status_code (fst (hd qs)) = Some 201" using that by (simp add: list_all_iff)
    ultimately have "ids \<noteq> {}" using ne by blast
    then have "ids = {PStr (str_uuid i)}" using sub by blast
    then show ?thesis by simp
  qed
  then have "equivalent_payment_responses (map fst qs) ids = list_all (\<lambda>s. smp_status_code s = Some 201) (map fst qs)"
    by (auto simp: equivalent_payment_responses_def)
  then show thesis using that fold card_mono [OF _ sub] ne by simp
qed

text \<open>
  C36. The idempotency scenario against the application. Whatever the order in which the
  concurrent requests are answered, they are answered with at most one payment, and
  \<open>equivalent_payment_responses\<close> is reported exactly when every request was answered with 201.
\<close>

theorem idempotency_drill:
  assumes inv: "app_inv a v" and E: "E = memory_externals sha sel ping ren" and R: "renders_payments render"
    and args: "arg_scenario args = Idempotency" "0 < scenario_requests args"
    and run: "run_scenario args (app_client E render) ((a, v), w) res st'"
  shows "\<exists>samples ids. res = Inr (samples, ids, Equivalent (list_all (\<lambda>s. smp_status_code s = Some 201) samples)) \<and>
    length samples = scenario_requests args \<and> card ids \<le> 1 \<and>
    (ids \<noteq> {} \<longleftrightarrow> (\<exists>s\<in>set samples. smp_status_code s = Some 201))"
proof -
  let ?n = "scenario_requests args"
  let ?C = "app_client E render"
  obtain r where r: "run_concurrent ?C ?n (arg_users args) ''idempotency'' True ((a, v), w) r st'"
      "res = map_sum id (\<lambda>(samples, ids). (samples, ids, Equivalent (equivalent_payment_responses samples ids))) r"
    using run args(1) by (auto elim: run_scenarioE)
  obtain shared st1 p where p: "shared_key_of True ((a, v), w) = (shared, st1)"
      "job_run (semaphore_size (arg_users args)) (one_request ?C ''idempotency'' shared) (queued_pool ?n st1) p" "all_finished p"
      "r = map_sum id (\<lambda>ids. (map fst (gathered ?n p), ids)) (fold add_id (map snd (gathered ?n p)) (Inr {}))"
    using r(1) by (auto elim: run_concurrentE)
  obtain key w1 where k: "shared = Some key" "st1 = ((a, v), w1)" using p(1) by (auto simp: shared_key_of_def case_prod_beta)
  note b = batch_run [OF p(2)]
  let ?rs = "map snd (pl_results p)"
  have "run_requests (one_request ?C ''idempotency'' (Some key)) (map fst (pl_results p)) ((a, v), w1) = (Inr ?rs, pl_state p)"
    using b by (simp add: in_sequence_def k)
  from run_requests_app [of E render "''idempotency''" key "map fst (pl_results p)" "(a, v)" w1 ?rs "fst (pl_state p)" "snd (pl_state p)"] this
  obtain outs where outs: "serve_all E (replicate (length (pl_results p)) (load_http_request (Some key))) (a, v) = (outs, fst (pl_state p))"
      "map (\<lambda>(sample, v). (smp_status_code sample, v)) ?rs = map (seen render) outs" by auto
  obtain i where i: "\<forall>x\<in>set outs. snd (seen render x) = (if fst (seen render x) = Some 201 then PStr (str_uuid i) else PNone)"
    by (rule seen_ids [OF inv E R outs(1)])
  note g = gathered_set [OF _ p(3), of ?n] b
  have each: "snd q = (if smp_status_code (fst q) = Some 201 then PStr (str_uuid i) else PNone)" if "q \<in> set (gathered ?n p)" for q
  proof -
    have "q \<in> set ?rs" using that g by auto
    then have "(smp_status_code (fst q), snd q) \<in> set (map (seen render) outs)"
      unfolding outs(2) [symmetric] by (force simp: case_prod_beta)
    then obtain x where "x \<in> set outs" "seen render x = (smp_status_code (fst q), snd q)" by auto
    then show ?thesis using i by force
  qed
  have len: "length (gathered ?n p) = ?n" using g by simp
  then have "gathered ?n p \<noteq> []" using args(2) by auto
  from collected_ids [OF each this] obtain ids where ids: "fold add_id (map snd (gathered ?n p)) (Inr {}) = Inr ids" "card ids \<le> 1"
      "ids \<noteq> {} \<longleftrightarrow> (\<exists>s\<in>set (map fst (gathered ?n p)). smp_status_code s = Some 201)"
      "equivalent_payment_responses (map fst (gathered ?n p)) ids = list_all (\<lambda>s. smp_status_code s = Some 201) (map fst (gathered ?n p))"
    by blast
  have "res = Inr (map fst (gathered ?n p), ids, Equivalent (list_all (\<lambda>s. smp_status_code s = Some 201) (map fst (gathered ?n p))))"
    by (simp add: r(2) p(4) ids(1,4))
  then show ?thesis using len ids(2,3) by (intro exI [of _ "map fst (gathered ?n p)"] exI [of _ ids]) auto
qed

definition drill_arguments :: arguments where
  "drill_arguments =
     \<lparr>arg_scenario = Idempotency, arg_users = 2, arg_rate = 10, arg_duration = 10, arg_requests = Some 3,
      arg_provider = ''mockstripe'', arg_admin_token = ''local-dev-only'', arg_timeout = 10\<rparr>"

theorem idempotency_drill_witness:
  "\<exists>samples ids st'. run_scenario drill_arguments (app_client sample_externals show_body) ((default_app, sample_world), sample_world)
       (Inr (samples, ids, Equivalent (list_all (\<lambda>s. smp_status_code s = Some 201) samples))) st' \<and>
     length samples = 3 \<and> card ids \<le> 1"
proof -
  let ?C = "app_client sample_externals show_body"
  have n: "scenario_requests drill_arguments = 3" "arg_scenario drill_arguments = Idempotency" "arg_users drill_arguments = 2"
    by (simp_all add: scenario_requests_def drill_arguments_def)
  obtain shared st1 where k: "shared_key_of True ((default_app, sample_world), sample_world) = (shared, st1)" by (metis prod.collapse)
  obtain p where p: "job_run (semaphore_size 2) (one_request ?C ''idempotency'' shared) (queued_pool 3 st1) p" "all_finished p"
    using batch_ends [OF one_request_answers [OF app_client_ok] semaphore_pos _ job_run.start] queued_pool_simps(2)
    by (metis finite_lessThan)
  have run: "\<exists>res st'. run_scenario drill_arguments ?C ((default_app, sample_world), sample_world) res st'"
    using run_scenario.idempotency [OF n(2) run_concurrent.intros [OF k p [folded n]]] unfolding n by blast
  then obtain res st' where r: "run_scenario drill_arguments ?C ((default_app, sample_world), sample_world) res st'" by blast
  have E: "sample_externals = memory_externals (\<lambda>t. t) probe_ok probe_ok (\<lambda>_. [])" by (simp add: sample_externals_def)
  have "0 < scenario_requests drill_arguments" by (simp add: n)
  from idempotency_drill [OF default_app_inv E show_body_renders n(2) this r] show ?thesis
    using r unfolding n(1) by blast
qed

end
