(* ===== verification/Probes.thy ===== *)
theory Probes
  imports Evidence Kafka
begin

text \<open>
  The Kafka probe (\<open>scripts/kafka_consumer_evidence.py\<close>): it publishes three events and a
  duplicate on a topic of its own, reads them back in a consumer group, commits, and starts
  the group again. The aiokafka producer and consumer are parameters; the partitions of the
  topic, the positions of a consumer and the committed offsets are seen through a view of
  the cluster's state, over which their documented behaviour is stated.
\<close>

subsection \<open>Statements that may not return\<close>

type_synonym ('a, 's) outcome = "('a res \<times> 's) option"

definition and_then :: "('a, 's) outcome \<Rightarrow> ('a \<Rightarrow> 's \<Rightarrow> ('b, 's) outcome) \<Rightarrow> ('b, 's) outcome" where
  "and_then x f =
     (case x of None \<Rightarrow> None | Some (Inl e, st) \<Rightarrow> Some (Inl e, st) | Some (Inr v, st) \<Rightarrow> f v st)"

text \<open>\<open>try ... finally\<close>: what the last part raises replaces the result.\<close>

definition finally_do :: "('a, 's) outcome \<Rightarrow> ('s \<Rightarrow> unit res \<times> 's) \<Rightarrow> ('a, 's) outcome" where
  "finally_do x f =
     (case x of
        None \<Rightarrow> None
      | Some (r, st) \<Rightarrow> (case f st of (Inl e, st1) \<Rightarrow> Some (Inl e, st1) | (Inr _, st1) \<Rightarrow> Some (r, st1)))"

lemma and_then_simps [simp]:
  "and_then None f = None" "and_then (Some (Inl e, st)) f = Some (Inl e, st)" "and_then (Some (Inr v, st)) f = f v st"
  by (simp_all add: and_then_def)

lemma finally_do_simps [simp]:
  "finally_do None f = None"
  "finally_do (Some (r, st)) f = (case f st of (Inl e, st1) \<Rightarrow> Some (Inl e, st1) | (Inr _, st1) \<Rightarrow> Some (r, st1))"
  by (simp_all add: finally_do_def)

subsection \<open>The consumer\<close>

record ConsumerRecord =
  rcd_partition :: int
  rcd_offset :: int
  rcd_value :: string

record ('c, 's) consumer_ops =
  cns_new :: "string \<Rightarrow> string \<Rightarrow> string \<Rightarrow> 's \<times> world \<Rightarrow> 'c res \<times> ('s \<times> world)"
  cns_start :: "'c \<Rightarrow> 's \<times> world \<Rightarrow> unit res \<times> ('s \<times> world)"
  cns_getmany :: "'c \<Rightarrow> 's \<times> world \<Rightarrow> (int, ConsumerRecord list) dict res \<times> ('s \<times> world)"
  cns_commit :: "'c \<Rightarrow> 's \<times> world \<Rightarrow> unit res \<times> ('s \<times> world)"
  cns_stop :: "'c \<Rightarrow> 's \<times> world \<Rightarrow> unit res \<times> ('s \<times> world)"

text \<open>The loop of \<open>_collect\<close> and \<open>_collect_until_quiet\<close>; \<open>wanted\<close> is the condition besides the deadline.\<close>

partial_function (option) drain ::
  "('c, 's) consumer_ops \<Rightarrow> 'c \<Rightarrow> (ConsumerRecord list \<Rightarrow> bool) \<Rightarrow> real \<Rightarrow> ConsumerRecord list \<Rightarrow> 's \<times> world \<Rightarrow>
   (ConsumerRecord list, 's \<times> world) outcome" where
  "drain C h wanted deadline records st =
     (if wanted records
      then let (now, w) = monotonic (snd st)
           in if now < deadline
              then (case cns_getmany C h (fst st, w) of
                      (Inl e, st1) \<Rightarrow> Some (Inl e, st1)
                    | (Inr batches, st1) \<Rightarrow> drain C h wanted deadline (records @ concat (map snd batches)) st1)
              else Some (Inr records, (fst st, w))
      else Some (Inr records, st))"

definition collect ::
  "('c, 's) consumer_ops \<Rightarrow> 'c \<Rightarrow> nat \<Rightarrow> real \<Rightarrow> 's \<times> world \<Rightarrow> (ConsumerRecord list, 's \<times> world) outcome" where
  "collect C h expected timeout st =
     (let (now, w) = monotonic (snd st)
      in drain C h (\<lambda>records. length records < expected) (now + timeout) [] (fst st, w))"

definition collect_until_quiet ::
  "('c, 's) consumer_ops \<Rightarrow> 'c \<Rightarrow> real \<Rightarrow> 's \<times> world \<Rightarrow> (ConsumerRecord list, 's \<times> world) outcome" where
  "collect_until_quiet C h quiet_seconds st =
     (let (now, w) = monotonic (snd st)
      in drain C h (\<lambda>records. True) (now + quiet_seconds) [] (fst st, w))"

subsection \<open>The probe\<close>

definition synthetic :: "string \<Rightarrow> (string, json) dict" where
  "synthetic status = [(''status'', JString status), (''synthetic'', JBool True)]"

definition probe_event :: "EventType \<Rightarrow> string \<Rightarrow> string \<Rightarrow> world \<Rightarrow> EventEnvelope \<times> world" where
  "probe_event event_type status merchant w =
     (let (aggregate, w1) = uuid4 w in new_EventEnvelope event_type merchant (Some aggregate) (synthetic status) None w1)"

definition probe_events :: "string \<Rightarrow> world \<Rightarrow> EventEnvelope list \<times> world" where
  "probe_events merchant w =
     (let (shared_event, w1) = probe_event PAYMENT_SUCCEEDED ''SUCCEEDED'' merchant w;
          (second, w2) = probe_event PAYMENT_SUCCEEDED ''SUCCEEDED'' merchant w1;
          (third, w3) = probe_event PAYMENT_FAILED ''FAILED'' merchant w2
      in ([shared_event, second, third], w3))"

fun send_events ::
  "('h, 's \<times> world) producer_ops \<Rightarrow> 'h \<Rightarrow> string \<Rightarrow> EventEnvelope list \<Rightarrow> 's \<times> world \<Rightarrow> unit res \<times> ('s \<times> world)" where
  "send_events P h topic [] st = (Inr (), st)"
| "send_events P h topic (event # events) st =
     then_do (prd_send_and_wait P h topic (encode_event event) st) (\<lambda>_ st1. send_events P h topic events st1)"

fun apply_records :: "ConsumerRecord list \<Rightarrow> unit Consumer \<Rightarrow> nat res \<times> unit Consumer" where
  "apply_records [] audit = (Inr 0, audit)"
| "apply_records (r # records) audit =
     (case decode_event (rcd_value r) of
        Inl e \<Rightarrow> (Inl e, audit)
      | Inr event \<Rightarrow>
          (case consume None event audit of
             (Inl e, audit1) \<Rightarrow> (Inl e, audit1)
           | (Inr recorded, audit1) \<Rightarrow>
               (case apply_records records audit1 of
                  (r, audit2) \<Rightarrow> (map_sum id (\<lambda>applied. if recorded then Suc applied else applied) r, audit2))))"

definition commit_offset :: "ConsumerRecord \<Rightarrow> (string, int) dict \<Rightarrow> (string, int) dict" where
  "commit_offset r offsets =
     (let k = json_int (rcd_partition r)
      in AList.update k (max (case map_of offsets k of None \<Rightarrow> 0 | Some n \<Rightarrow> n) (rcd_offset r + 1)) offsets)"

definition committed_offsets :: "ConsumerRecord list \<Rightarrow> (string, int) dict" where
  "committed_offsets records = fold commit_offset records []"

definition new_AuditConsumer :: "unit Consumer" where
  "new_AuditConsumer = \<lparr>con_seen = {}, con_events = [], con_effects = ()\<rparr>"

record KafkaEvidence =
  kev_consumed_records :: nat
  kev_applied_effects :: nat
  kev_deduplicated_effects :: bool
  kev_committed_offsets :: "(string, int) dict"
  kev_redelivered_after_restart :: nat
  kev_offsets_persisted :: bool
  kev_elapsed_seconds :: real

definition produce ::
  "('h, 's \<times> world) producer_ops \<Rightarrow> 'h \<Rightarrow> string \<Rightarrow> EventEnvelope list \<Rightarrow> 's \<times> world \<Rightarrow> (unit, 's \<times> world) outcome" where
  "produce P producer topic events st =
     and_then (Some (prd_start P producer st))
       (\<lambda>_ st1. finally_do (Some (send_events P producer topic events st1)) (prd_stop P producer))"

text \<open>The body of the first \<open>try\<close>: what was read, how many records were applied, and the audit.\<close>

definition read_back ::
  "('c, 's) consumer_ops \<Rightarrow> 'c \<Rightarrow> nat \<Rightarrow> real \<Rightarrow> 's \<times> world \<Rightarrow>
   (ConsumerRecord list \<times> nat \<times> unit Consumer, 's \<times> world) outcome" where
  "read_back C consumer expected timeout st =
     and_then (collect C consumer expected timeout st) (\<lambda>records st1.
       case apply_records records new_AuditConsumer of
         (Inl e, audit) \<Rightarrow> Some (Inl e, st1)
       | (Inr applied, audit) \<Rightarrow>
           if length records \<noteq> expected
           then Some (Inl (RuntimeError (''consumer received '' @ decimal (length records) @ '' records; expected '' @ decimal expected)), st1)
           else and_then (Some (cns_commit C consumer st1)) (\<lambda>_ st2. Some (Inr (records, applied, audit), st2)))"

definition first_consumer ::
  "('c, 's) consumer_ops \<Rightarrow> string \<Rightarrow> string \<Rightarrow> string \<Rightarrow> nat \<Rightarrow> real \<Rightarrow> 's \<times> world \<Rightarrow>
   (ConsumerRecord list \<times> nat \<times> unit Consumer, 's \<times> world) outcome" where
  "first_consumer C topic bootstrap_servers group_id expected timeout st =
     and_then (Some (cns_new C topic bootstrap_servers group_id st)) (\<lambda>consumer st1.
     and_then (Some (cns_start C consumer st1)) (\<lambda>_ st2.
       finally_do (read_back C consumer expected timeout st2) (cns_stop C consumer)))"

definition restarted_consumer ::
  "('c, 's) consumer_ops \<Rightarrow> string \<Rightarrow> string \<Rightarrow> string \<Rightarrow> real \<Rightarrow> 's \<times> world \<Rightarrow> (ConsumerRecord list, 's \<times> world) outcome" where
  "restarted_consumer C topic bootstrap_servers group_id quiet_seconds st =
     and_then (Some (cns_new C topic bootstrap_servers group_id st)) (\<lambda>restarted st1.
     and_then (Some (cns_start C restarted st1)) (\<lambda>_ st2.
       finally_do (collect_until_quiet C restarted quiet_seconds st2) (cns_stop C restarted)))"

definition probe_topic :: "string \<Rightarrow> world \<Rightarrow> string" where
  "probe_topic topic_prefix w = topic_prefix @ ''.'' @ uuid_hex (fst (uuid4 w))"

definition probe_group :: "world \<Rightarrow> string" where
  "probe_group w = ''pyswitch-evidence-'' @ uuid_hex (fst (uuid4 w))"

definition probe_merchant :: "world \<Rightarrow> string" where
  "probe_merchant w = ''kafka-evidence-'' @ take 8 (uuid_hex (fst (uuid4 w)))"

definition kafka_probe ::
  "('h, 's \<times> world) producer_ops \<Rightarrow> ('c, 's) consumer_ops \<Rightarrow> string \<Rightarrow> string \<Rightarrow> real \<Rightarrow> real \<Rightarrow> 's \<times> world \<Rightarrow>
   (KafkaEvidence, 's \<times> world) outcome" where
  "kafka_probe P C bootstrap_servers topic_prefix timeout quiet_seconds st =
     (let w = snd st; w1 = snd (uuid4 w); w2 = snd (uuid4 w1); w3 = snd (uuid4 w2);
          topic = probe_topic topic_prefix w; group_id = probe_group w1; merchant = probe_merchant w2;
          (unique_events, w4) = probe_events merchant w3;
          events = unique_events @ [hd unique_events]
      in and_then (Some (prd_new P bootstrap_servers (fst st, w4))) (\<lambda>producer st5.
         let (started, w6) = perf_counter (snd st5)
         in and_then (produce P producer topic events (fst st5, w6)) (\<lambda>_ st7.
            and_then (first_consumer C topic bootstrap_servers group_id (length events) timeout st7) (\<lambda>(records, applied, audit) st8.
            and_then (restarted_consumer C topic bootstrap_servers group_id quiet_seconds st8) (\<lambda>redelivered st9.
              let (now, w10) = perf_counter (snd st9)
              in Some (Inr \<lparr>kev_consumed_records = length records, kev_applied_effects = length (con_events audit),
                            kev_deduplicated_effects = (applied = length unique_events),
                            kev_committed_offsets = committed_offsets records,
                            kev_redelivered_after_restart = length redelivered,
                            kev_offsets_persisted = (length redelivered = 0),
                            kev_elapsed_seconds = round3 (now - started)\<rparr>,
                       (fst st9, w10)))))))"

text \<open>The checks of \<open>parse_args\<close>.\<close>

definition check_probe_arguments :: "real \<Rightarrow> real \<Rightarrow> unit res" where
  "check_probe_arguments timeout quiet_seconds =
     (if timeout \<le> 0 \<or> quiet_seconds \<le> 0 then Inl (OtherException ''SystemExit'') else Inr ())"

subsection \<open>What the probe relies on\<close>

text \<open>
  The partitions of a topic with their logs, the committed offsets of a group (zero when
  there are none, which is \<open>auto_offset_reset="earliest"\<close>), the positions of a consumer, and
  its topic and group.
\<close>

record ('c, 's) kafka_view =
  kv_partitions :: "int set"
  kv_log :: "'s \<Rightarrow> string \<Rightarrow> int \<Rightarrow> string list"
  kv_committed :: "'s \<Rightarrow> string \<Rightarrow> string \<Rightarrow> int \<Rightarrow> nat"
  kv_position :: "'s \<Rightarrow> 'c \<Rightarrow> int \<Rightarrow> nat"
  kv_topic :: "'c \<Rightarrow> string"
  kv_group :: "'c \<Rightarrow> string"

text \<open>An operation that writes no record and commits no offset.\<close>

definition keeps :: "('c, 's) kafka_view \<Rightarrow> ('s \<times> world \<Rightarrow> 'a res \<times> ('s \<times> world)) \<Rightarrow> bool" where
  "keeps V f \<longleftrightarrow>
     (\<forall>st r st1. f st = (r, st1) \<longrightarrow>
        world_le (snd st) (snd st1) \<and> kv_log V (fst st1) = kv_log V (fst st) \<and>
        kv_committed V (fst st1) = kv_committed V (fst st))"

text \<open>An acknowledged record is at the end of one of the partitions.\<close>

definition producer_laws :: "('c, 's) kafka_view \<Rightarrow> ('h, 's \<times> world) producer_ops \<Rightarrow> bool" where
  "producer_laws V P \<longleftrightarrow>
     (\<forall>b. keeps V (prd_new P b)) \<and> (\<forall>h. keeps V (prd_start P h)) \<and> (\<forall>h. keeps V (prd_stop P h)) \<and>
     (\<forall>h t v st r st1. prd_send_and_wait P h t v st = (r, st1) \<longrightarrow>
        world_le (snd st) (snd st1) \<and> kv_committed V (fst st1) = kv_committed V (fst st) \<and>
        (r = Inr () \<longrightarrow>
           (\<exists>p\<in>kv_partitions V. kv_log V (fst st1) =
              (kv_log V (fst st))(t := (kv_log V (fst st) t)(p := kv_log V (fst st) t p @ [v])))))"

text \<open>
  The records of every partition from one position up to another, in order and with their
  offsets.
\<close>

definition delivered :: "int set \<Rightarrow> (int \<Rightarrow> string list) \<Rightarrow> (int \<Rightarrow> nat) \<Rightarrow> (int \<Rightarrow> nat) \<Rightarrow> ConsumerRecord list \<Rightarrow> bool" where
  "delivered parts entries a b records \<longleftrightarrow>
     rcd_partition ` set records \<subseteq> parts \<and>
     (\<forall>p. a p \<le> b p \<and> b p \<le> max (a p) (length (entries p)) \<and>
        map (\<lambda>r. (rcd_offset r, rcd_value r)) (filter (\<lambda>r. rcd_partition r = p) records) =
          map (\<lambda>i. (int i, entries p ! i)) [a p..<b p])"

text \<open>
  The clock of the event loop does not go back, and \<open>getmany(timeout_ms=250)\<close> returns nothing
  only after a quarter of a second.
\<close>

definition waited :: "world \<Rightarrow> world \<Rightarrow> bool" where
  "waited w w1 \<longleftrightarrow> (\<forall>i j. i < tick w \<and> tick w1 \<le> j \<longrightarrow> mono_at w i + 1 / 4 \<le> mono_at w j)"

definition clock_ok :: "('c, 's) consumer_ops \<Rightarrow> world \<Rightarrow> bool" where
  "clock_ok C w \<longleftrightarrow>
     mono (mono_at w) \<and>
     (\<forall>h st batches st1. mono_at (snd st) = mono_at w \<longrightarrow> cns_getmany C h st = (Inr batches, st1) \<longrightarrow>
        concat (map snd batches) = [] \<longrightarrow> waited (snd st) (snd st1))"

definition consumer_laws :: "('c, 's) kafka_view \<Rightarrow> ('c, 's) consumer_ops \<Rightarrow> bool" where
  "consumer_laws V C \<longleftrightarrow>
     (\<forall>t b g. keeps V (cns_new C t b g)) \<and> (\<forall>h. keeps V (cns_start C h)) \<and>
     (\<forall>h. keeps V (cns_getmany C h)) \<and> (\<forall>h. keeps V (cns_stop C h)) \<and>
     (\<forall>t b g st h st1. cns_new C t b g st = (Inr h, st1) \<longrightarrow> kv_topic V h = t \<and> kv_group V h = g) \<and>
     (\<forall>h st st1. cns_start C h st = (Inr (), st1) \<longrightarrow>
        kv_position V (fst st1) h = kv_committed V (fst st) (kv_group V h) (kv_topic V h)) \<and>
     (\<forall>h st batches st1. cns_getmany C h st = (Inr batches, st1) \<longrightarrow>
        delivered (kv_partitions V) (kv_log V (fst st) (kv_topic V h)) (kv_position V (fst st) h) (kv_position V (fst st1) h)
          (concat (map snd batches))) \<and>
     (\<forall>h st r st1. cns_commit C h st = (r, st1) \<longrightarrow>
        world_le (snd st) (snd st1) \<and> kv_log V (fst st1) = kv_log V (fst st) \<and>
        (r = Inr () \<longrightarrow> kv_committed V (fst st1) (kv_group V h) (kv_topic V h) = kv_position V (fst st) h))"

lemma keepsD:
  assumes "keeps V f" "f st = (r, st1)"
  shows "world_le (snd st) (snd st1)" "kv_log V (fst st1) = kv_log V (fst st)"
    "kv_committed V (fst st1) = kv_committed V (fst st)"
  using assms unfolding keeps_def by blast+

lemma producer_keeps:
  assumes "producer_laws V P"
  shows "keeps V (prd_new P b)" "keeps V (prd_start P h)" "keeps V (prd_stop P h)"
  using assms unfolding producer_laws_def by blast+

lemma producer_sends:
  assumes "producer_laws V P" "prd_send_and_wait P h t v st = (r, st1)"
  shows "world_le (snd st) (snd st1)" "kv_committed V (fst st1) = kv_committed V (fst st)"
    "r = Inr () \<Longrightarrow> \<exists>p\<in>kv_partitions V. kv_log V (fst st1) =
       (kv_log V (fst st))(t := (kv_log V (fst st) t)(p := kv_log V (fst st) t p @ [v]))"
  using assms unfolding producer_laws_def by blast+

lemma consumer_keeps:
  assumes "consumer_laws V C"
  shows "keeps V (cns_new C t b g)" "keeps V (cns_start C h)" "keeps V (cns_getmany C h)" "keeps V (cns_stop C h)"
  using assms by (simp_all add: consumer_laws_def)

lemma consumerD:
  assumes "consumer_laws V C"
  shows "cns_new C t b g st = (Inr h, st1) \<Longrightarrow> kv_topic V h = t \<and> kv_group V h = g"
    "cns_start C h st = (Inr (), st1) \<Longrightarrow>
       kv_position V (fst st1) h = kv_committed V (fst st) (kv_group V h) (kv_topic V h)"
    "cns_getmany C h st = (Inr batches, st1) \<Longrightarrow>
       delivered (kv_partitions V) (kv_log V (fst st) (kv_topic V h)) (kv_position V (fst st) h) (kv_position V (fst st1) h)
         (concat (map snd batches))"
    "cns_commit C h st = (r, st1) \<Longrightarrow> world_le (snd st) (snd st1) \<and> kv_log V (fst st1) = kv_log V (fst st)"
    "cns_commit C h st = (Inr (), st1) \<Longrightarrow>
       kv_committed V (fst st1) (kv_group V h) (kv_topic V h) = kv_position V (fst st) h"
  using assms unfolding consumer_laws_def by blast+

subsection \<open>The reading loops end\<close>

lemma delivered_nothing: "delivered parts entries a a []"
  by (simp add: delivered_def)

lemma delivered_append:
  assumes "delivered parts entries a b xs" "delivered parts entries b c ys"
  shows "delivered parts entries a c (xs @ ys)"
proof -
  have le: "a p \<le> b p" "b p \<le> c p" "b p \<le> max (a p) (length (entries p))" "c p \<le> max (b p) (length (entries p))" for p
    using assms by (simp_all add: delivered_def)
  have "c p \<le> max (a p) (length (entries p))" for p using le [of p] by linarith
  moreover have "[a p..<c p] = [a p..<b p] @ [b p..<c p]" for p
    using upt_add_eq_append [OF le(1) [of p], of "c p - b p"] le(2) [of p] by simp
  moreover have "a p \<le> c p" for p using le [of p] by linarith
  ultimately show ?thesis using assms by (simp add: delivered_def image_Un)
qed

definition unread :: "('c, 's) kafka_view \<Rightarrow> 'c \<Rightarrow> 's \<Rightarrow> nat" where
  "unread V h s = (\<Sum>p\<in>kv_partitions V. length (kv_log V s (kv_topic V h) p) - kv_position V s h p)"

lemma delivered_unread:
  assumes "finite (kv_partitions V)" "kv_log V s1 = kv_log V s"
    and "delivered (kv_partitions V) (kv_log V s (kv_topic V h)) (kv_position V s h) (kv_position V s1 h) records"
  shows "unread V h s1 \<le> unread V h s" "records \<noteq> [] \<Longrightarrow> unread V h s1 < unread V h s"
proof -
  let ?L = "\<lambda>p. length (kv_log V s (kv_topic V h) p)"
  have le: "kv_position V s h p \<le> kv_position V s1 h p" "kv_position V s1 h p \<le> max (kv_position V s h p) (?L p)" for p
    using assms(3) by (simp_all add: delivered_def)
  have each: "?L p - kv_position V s1 h p \<le> ?L p - kv_position V s h p" for p using le(1) [of p] by simp
  then show "unread V h s1 \<le> unread V h s" unfolding unread_def assms(2) by (intro sum_mono)
  show "unread V h s1 < unread V h s" if "records \<noteq> []"
  proof -
    obtain r where r: "r \<in> set records" using \<open>records \<noteq> []\<close> by (cases records) auto
    let ?p = "rcd_partition r"
    have p: "?p \<in> kv_partitions V" using assms(3) r by (auto simp: delivered_def)
    have "filter (\<lambda>x. rcd_partition x = ?p) records \<noteq> []" using r by (auto simp: filter_empty_conv)
    then have "map (\<lambda>i. (int i, kv_log V s (kv_topic V h) ?p ! i)) [kv_position V s h ?p..<kv_position V s1 h ?p] \<noteq> []"
      using assms(3) unfolding delivered_def by (metis map_is_Nil_conv)
    then have "kv_position V s h ?p < kv_position V s1 h ?p" by simp
    then have "?L ?p - kv_position V s1 h ?p < ?L ?p - kv_position V s h ?p" using le(2) [of ?p] by (auto simp: max_def split: if_splits)
    then show ?thesis unfolding unread_def assms(2) using each p assms(1) by (intro sum_strict_mono_ex1) auto
  qed
qed

text \<open>
  Every round of the loop reads a record or takes a quarter of a second. What is returned is
  what was there, then everything from the old to the new position, and the loop stops
  because there is enough or the deadline has passed.
\<close>

lemma drain_ends:
  assumes V: "finite (kv_partitions V)" "consumer_laws V C" and m: "clock_ok C w"
  shows "\<exists>r s1 w1. drain C h wanted deadline records (s, w) = Some (r, (s1, w1)) \<and> world_le w w1 \<and>
    kv_log V s1 = kv_log V s \<and> kv_committed V s1 = kv_committed V s \<and>
    (\<forall>out. r = Inr out \<longrightarrow> (wanted out \<longrightarrow> (\<exists>i<tick w1. deadline \<le> mono_at w i)) \<and>
       (\<exists>new. out = records @ new \<and>
          delivered (kv_partitions V) (kv_log V s (kv_topic V h)) (kv_position V s h) (kv_position V s1 h) new))"
  using m
proof (induction "unread V h s + nat \<lceil>4 * (deadline - mono_at w (tick w))\<rceil>" arbitrary: s w records rule: less_induct)
  case less
  note L = V(2)
  let ?w = "snd (monotonic w)"
  have now: "fst (monotonic w) = mono_at w (tick w)" "tick ?w = Suc (tick w)" "mono_at ?w = mono_at w"
    by (simp_all add: monotonic_def)
  consider (enough) "\<not> wanted records" | (late) "wanted records" "deadline \<le> mono_at w (tick w)"
    | (round) "wanted records" "mono_at w (tick w) < deadline" by linarith
  then show ?case
  proof cases
    case enough
    then show ?thesis by (subst drain.simps) (auto simp: delivered_nothing)
  next
    case late
    then have "drain C h wanted deadline records (s, w) = Some (Inr records, (s, ?w))"
      by (subst drain.simps) (simp add: case_prod_beta now(1))
    then show ?thesis using late by (auto simp: delivered_nothing now(2) intro!: exI [of _ "tick w"])
  next
    case round
    obtain b s1 w1 where g: "cns_getmany C h (s, ?w) = (b, (s1, w1))" by (metis prod_cases3)
    note k = keepsD [OF consumer_keeps(3) [OF L] g, simplified]
    have ww: "world_le w w1" using k(1) world_le_trans by blast
    show ?thesis
    proof (cases b)
      case (Inl e)
      then have "drain C h wanted deadline records (s, w) = Some (Inl e, (s1, w1))"
        using round by (subst drain.simps) (simp add: case_prod_beta now(1) g)
      then show ?thesis using k ww by simp
    next
      case (Inr batches)
      let ?new = "concat (map snd batches)"
      have step: "drain C h wanted deadline records (s, w) = drain C h wanted deadline (records @ ?new) (s1, w1)"
        using round Inr by (subst drain.simps) (simp add: case_prod_beta now(1) g)
      have d: "delivered (kv_partitions V) (kv_log V s (kv_topic V h)) (kv_position V s h) (kv_position V s1 h) ?new"
        using consumerD(3) [OF L] g Inr by fastforce
      have tick: "mono_at w1 = mono_at w" "tick w < tick w1" using k(1) ww now(2) by (auto simp: world_le_def)
      have later: "mono_at w (tick w) \<le> mono_at w (tick w1)"
        using less.prems tick(2) unfolding clock_ok_def by (intro monoD [of "mono_at w"]) auto
      note un = delivered_unread [OF V(1) k(2) d]
      have "unread V h s1 + nat \<lceil>4 * (deadline - mono_at w1 (tick w1))\<rceil> <
        unread V h s + nat \<lceil>4 * (deadline - mono_at w (tick w))\<rceil>"
      proof (cases "?new = []")
        case False
        have "\<lceil>4 * (deadline - mono_at w (tick w1))\<rceil> \<le> \<lceil>4 * (deadline - mono_at w (tick w))\<rceil>"
          using later by (intro ceiling_mono) simp
        then show ?thesis using un(2) [OF False] by (simp add: tick(1) add_less_le_mono nat_mono)
      next
        case True
        have "waited ?w w1" using less.prems g Inr True now(3) unfolding clock_ok_def by fastforce
        then have "mono_at w (tick w) + 1 / 4 \<le> mono_at w (tick w1)" by (simp add: waited_def now(2,3))
        then have "4 * (deadline - mono_at w (tick w1)) \<le> 4 * (deadline - mono_at w (tick w)) - 1" by simp
        then have "\<lceil>4 * (deadline - mono_at w (tick w1))\<rceil> \<le> \<lceil>4 * (deadline - mono_at w (tick w))\<rceil> - 1"
          by (metis ceiling_mono ceiling_diff_one)
        moreover have "0 < \<lceil>4 * (deadline - mono_at w (tick w))\<rceil>" using round(2) by simp
        ultimately show ?thesis using un(1) unfolding tick(1) by linarith
      qed
      moreover have "clock_ok C w1" using less.prems by (simp add: clock_ok_def tick(1))
      ultimately obtain r s2 w2 where
        ih: "drain C h wanted deadline (records @ ?new) (s1, w1) = Some (r, (s2, w2))" "world_le w1 w2"
          "kv_log V s2 = kv_log V s1" "kv_committed V s2 = kv_committed V s1"
          "\<forall>out. r = Inr out \<longrightarrow> (wanted out \<longrightarrow> (\<exists>i<tick w2. deadline \<le> mono_at w1 i)) \<and>
             (\<exists>new. out = (records @ ?new) @ new \<and>
                delivered (kv_partitions V) (kv_log V s1 (kv_topic V h)) (kv_position V s1 h) (kv_position V s2 h) new)"
        using less.hyps [of s1 w1 "records @ ?new"] by blast
      have "\<exists>new. out = records @ new \<and>
          delivered (kv_partitions V) (kv_log V s (kv_topic V h)) (kv_position V s h) (kv_position V s2 h) new"
        if "r = Inr out" for out
        using ih(5) that delivered_append [OF d] unfolding k(2) append_assoc by blast
      moreover have "wanted out \<longrightarrow> (\<exists>i<tick w2. deadline \<le> mono_at w i)" if "r = Inr out" for out
        using ih(5) that unfolding tick(1) by blast
      ultimately show ?thesis
        using world_le_trans [OF ww ih(2)] by (intro exI [of _ r] exI [of _ s2] exI [of _ w2]) (simp add: step ih(1,3,4) k)
    qed
  qed
qed

subsection \<open>What was delivered\<close>

lemma mset_by_key:
  "finite A \<Longrightarrow> f ` set xs \<subseteq> A \<Longrightarrow> mset (map g xs) = (\<Sum>k\<in>A. mset (map g (filter (\<lambda>x. f x = k) xs)))"
proof (induction xs)
  case (Cons x xs)
  have "(\<Sum>k\<in>A. mset (map g (filter (\<lambda>y. f y = k) (x # xs)))) =
    (\<Sum>k\<in>A. (if k = f x then {#g x#} else {#}) + mset (map g (filter (\<lambda>y. f y = k) xs)))"
    by (intro sum.cong) auto
  also have "\<dots> = {#g x#} + mset (map g xs)" using Cons by (simp add: sum.distrib)
  finally show ?case by simp
qed simp

lemma delivered_partition:
  assumes "delivered parts entries (\<lambda>_. 0) b rs"
  shows "map rcd_value (filter (\<lambda>r. rcd_partition r = p) rs) = take (b p) (entries p)"
    "map rcd_offset (filter (\<lambda>r. rcd_partition r = p) rs) = map int [0..<b p]" "b p \<le> length (entries p)"
proof -
  have d: "map (\<lambda>r. (rcd_offset r, rcd_value r)) (filter (\<lambda>r. rcd_partition r = p) rs) = map (\<lambda>i. (int i, entries p ! i)) [0..<b p]"
    and b: "b p \<le> length (entries p)" using assms by (simp_all add: delivered_def)
  show "b p \<le> length (entries p)" by (rule b)
  show "map rcd_offset (filter (\<lambda>r. rcd_partition r = p) rs) = map int [0..<b p]"
    using arg_cong [OF d, of "map fst"] by (simp add: comp_def)
  have "map rcd_value (filter (\<lambda>r. rcd_partition r = p) rs) = map (\<lambda>i. entries p ! i) [0..<b p]"
    using arg_cong [OF d, of "map snd"] by (simp add: comp_def)
  also have "\<dots> = take (b p) (entries p)" using b by (intro nth_equalityI) auto
  finally show "map rcd_value (filter (\<lambda>r. rcd_partition r = p) rs) = take (b p) (entries p)" .
qed

lemma delivered_all:
  assumes "finite parts" "delivered parts entries (\<lambda>_. 0) b rs" "length rs = (\<Sum>p\<in>parts. length (entries p))"
  shows "\<forall>p\<in>parts. b p = length (entries p)" "mset (map rcd_value rs) = (\<Sum>p\<in>parts. mset (entries p))"
proof -
  note part = delivered_partition [OF assms(2)]
  have "rcd_partition ` set rs \<subseteq> parts" using assms(2) by (simp add: delivered_def)
  note by_part = mset_by_key [OF assms(1) this]
  have vals: "mset (map rcd_value rs) = (\<Sum>p\<in>parts. mset (take (b p) (entries p)))"
    using by_part [of rcd_value] by (simp only: part(1))
  have "(\<Sum>p\<in>parts. b p) = (\<Sum>p\<in>parts. length (entries p))"
    using arg_cong [OF vals, of size] part(3) assms(3) by (simp add: size_multiset_sum min_absorb1)
  then show all: "\<forall>p\<in>parts. b p = length (entries p)" using sum_mono_inv [of b parts] part(3) assms(1) by blast
  show "mset (map rcd_value rs) = (\<Sum>p\<in>parts. mset (entries p))" unfolding vals using all by (intro sum.cong) auto
qed

lemma delivered_none:
  assumes "delivered parts entries a b rs" "\<forall>p\<in>parts. length (entries p) \<le> a p"
  shows "rs = []"
proof (rule ccontr)
  assume "rs \<noteq> []"
  then obtain r where r: "r \<in> set rs" by (cases rs) auto
  let ?p = "rcd_partition r"
  have "?p \<in> parts" using assms(1) r by (auto simp: delivered_def)
  then have "length (entries ?p) \<le> a ?p" using assms(2) by blast
  moreover have "b ?p \<le> max (a ?p) (length (entries ?p))" using assms(1) unfolding delivered_def by blast
  ultimately have "b ?p \<le> a ?p" by simp
  moreover have "map (\<lambda>r. (rcd_offset r, rcd_value r)) (filter (\<lambda>x. rcd_partition x = ?p) rs) =
    map (\<lambda>i. (int i, entries ?p ! i)) [a ?p..<b ?p]" using assms(1) unfolding delivered_def by blast
  ultimately have "filter (\<lambda>x. rcd_partition x = ?p) rs = []" by simp
  then show False using r by (auto simp: filter_empty_conv)
qed

text \<open>The offsets that are reported are those of the last records, one past each.\<close>

definition past_offset :: "int \<Rightarrow> int option \<Rightarrow> int option" where
  "past_offset i n = Some (max (case n of None \<Rightarrow> 0 | Some k \<Rightarrow> k) (i + 1))"

lemma commit_offsets:
  "map_of (fold commit_offset rs d) (json_int p) =
     fold past_offset (map rcd_offset (filter (\<lambda>r. rcd_partition r = p) rs)) (map_of d (json_int p))"
proof (induction rs arbitrary: d)
  case (Cons r rs)
  have "json_int p = json_int q \<longleftrightarrow> p = q" for q using json_int_inj by auto
  then show ?case using Cons by (auto simp: commit_offset_def past_offset_def Let_def dict_get_update)
qed simp

lemma committed_offsets_get:
  assumes "delivered parts entries (\<lambda>_. 0) b rs"
  shows "map_of (committed_offsets rs) (json_int p) = (if b p = 0 then None else Some (int (b p)))"
proof -
  have "fold past_offset (map int [0..<n]) None = (if n = 0 then None else Some (int n))" for n
    by (induction n) (auto simp: past_offset_def)
  then show ?thesis
    by (simp add: committed_offsets_def commit_offsets delivered_partition(2) [OF assms])
qed

text \<open>Applying decodable records is feeding their events to the consumer.\<close>

lemma apply_decoded:
  assumes "\<forall>r\<in>set rs. decode_event (rcd_value r) = Inr (d (rcd_value r))"
  shows "apply_records rs c =
    (Inr (length (fresh_events (con_seen c) (map d (map rcd_value rs)))), consume_all None (map d (map rcd_value rs)) c)"
  using assms
proof (induction rs arbitrary: c)
  case (Cons r rs)
  define e where "e = d (rcd_value r)"
  have "decode_event (rcd_value r) = Inr e" using Cons.prems by (simp add: e_def)
  then show ?case using Cons.IH [of "snd (consume None e c)"] Cons.prems by (auto simp: consume_def Let_def simp flip: e_def)
qed simp

subsection \<open>The steps of the probe\<close>

lemma send_events_log:
  assumes L: "producer_laws V P" "finite (kv_partitions V)" and s: "send_events P h t es (s, w) = (r, (s1, w1))"
  shows "world_le w w1 \<and> kv_committed V s1 = kv_committed V s \<and>
    (r = Inr () \<longrightarrow> (\<Sum>p\<in>kv_partitions V. mset (kv_log V s1 t p)) =
       (\<Sum>p\<in>kv_partitions V. mset (kv_log V s t p)) + mset (map encode_event es))"
  using s
proof (induction es arbitrary: s w)
  case (Cons e es)
  obtain q s2 w2 where q: "prd_send_and_wait P h t (encode_event e) (s, w) = (q, (s2, w2))" by (metis prod_cases3)
  note k = producer_sends [OF L(1) q, simplified]
  show ?case
  proof (cases q)
    case (Inl x)
    then show ?thesis using Cons.prems q k by auto
  next
    case (Inr u)
    then have rest: "send_events P h t es (s2, w2) = (r, (s1, w1))" using Cons.prems q by simp
    obtain p where p: "p \<in> kv_partitions V" "kv_log V s2 = (kv_log V s)(t := (kv_log V s t)(p := kv_log V s t p @ [encode_event e]))"
      using k(3) Inr by auto
    have "(\<Sum>k\<in>kv_partitions V. mset (kv_log V s2 t k)) =
      (\<Sum>k\<in>kv_partitions V. mset (kv_log V s t k) + (if k = p then {#encode_event e#} else {#}))"
      by (intro sum.cong) (auto simp: p(2))
    also have "\<dots> = (\<Sum>k\<in>kv_partitions V. mset (kv_log V s t k)) + {#encode_event e#}"
      using L(2) p(1) by (simp add: sum.distrib)
    finally show ?thesis using Cons.IH [OF rest] k(1,2) world_le_trans by auto
  qed
qed simp

lemma produce_log:
  assumes L: "producer_laws V P" "finite (kv_partitions V)"
  shows "\<exists>r s1 w1. produce P h t es (s, w) = Some (r, (s1, w1)) \<and> world_le w w1 \<and> kv_committed V s1 = kv_committed V s \<and>
    (r = Inr () \<longrightarrow> (\<Sum>p\<in>kv_partitions V. mset (kv_log V s1 t p)) =
       (\<Sum>p\<in>kv_partitions V. mset (kv_log V s t p)) + mset (map encode_event es))"
proof -
  obtain a s1 w1 where a: "prd_start P h (s, w) = (a, (s1, w1))" by (metis prod_cases3)
  obtain b s2 w2 where b: "send_events P h t es (s1, w1) = (b, (s2, w2))" by (metis prod_cases3)
  obtain c s3 w3 where c: "prd_stop P h (s2, w2) = (c, (s3, w3))" by (metis prod_cases3)
  note ka = keepsD [OF producer_keeps(2) [OF L(1)] a, simplified]
  note kc = keepsD [OF producer_keeps(3) [OF L(1)] c, simplified]
  note kb = send_events_log [OF L b]
  have w: "world_le w w3" using ka(1) kb kc(1) world_le_trans by blast
  show ?thesis
    using ka kb kc w by (cases a; cases c) (auto simp: produce_def a b c)
qed

lemma first_consumer_ends:
  assumes L: "finite (kv_partitions V)" "consumer_laws V C" and m: "clock_ok C w"
  shows "\<exists>r s1 w1. first_consumer C t bs g expected timeout (s, w) = Some (r, (s1, w1)) \<and> world_le w w1 \<and> kv_log V s1 = kv_log V s \<and>
    (\<forall>records applied audit. r = Inr (records, applied, audit) \<longrightarrow>
       length records = expected \<and> apply_records records new_AuditConsumer = (Inr applied, audit) \<and>
       delivered (kv_partitions V) (kv_log V s t) (kv_committed V s g t) (kv_committed V s1 g t) records)"
proof -
  obtain a s1 w1 where a: "cns_new C t bs g (s, w) = (a, (s1, w1))" by (metis prod_cases3)
  note ka = keepsD [OF consumer_keeps(1) [OF L(2)] a, simplified]
  show ?thesis
  proof (cases a)
    case (Inl e)
    then show ?thesis using ka by (auto simp: first_consumer_def a)
  next
    case (Inr h)
    have h: "kv_topic V h = t" "kv_group V h = g" using consumerD(1) [OF L(2) a [unfolded Inr]] by auto
    obtain b s2 w2 where b: "cns_start C h (s1, w1) = (b, (s2, w2))" by (metis prod_cases3)
    note kb = keepsD [OF consumer_keeps(2) [OF L(2)] b, simplified]
    show ?thesis
    proof (cases b)
      case (Inl e)
      then show ?thesis using ka kb Inr world_le_trans by (auto simp: first_consumer_def a b)
    next
      case ok: (Inr u)
      have pos: "kv_position V s2 h = kv_committed V s g t" using consumerD(2) [OF L(2)] b ok h ka(3) by force
      have m2: "clock_ok C (snd (monotonic w2))" using m ka(1) kb(1) by (simp add: world_le_def monotonic_def clock_ok_def)
      obtain r s3 w3 where d: "collect C h expected timeout (s2, w2) = Some (r, (s3, w3))" "world_le w2 w3"
          "kv_log V s3 = kv_log V s2" "kv_committed V s3 = kv_committed V s2"
          "\<forall>out. r = Inr out \<longrightarrow> delivered (kv_partitions V) (kv_log V s2 t) (kv_position V s2 h) (kv_position V s3 h) out"
        using drain_ends [OF L m2, of h "\<lambda>records. length records < expected" "fst (monotonic w2) + timeout" "[]" s2] h(1)
          world_le_trans [OF world_le_readings(1)]
        by (fastforce simp: collect_def case_prod_beta)
      have "\<exists>r s4 w4. read_back C h expected timeout (s2, w2) = Some (r, (s4, w4)) \<and> world_le w2 w4 \<and> kv_log V s4 = kv_log V s2 \<and>
        (\<forall>records applied audit. r = Inr (records, applied, audit) \<longrightarrow>
           length records = expected \<and> apply_records records new_AuditConsumer = (Inr applied, audit) \<and>
           delivered (kv_partitions V) (kv_log V s2 t) (kv_position V s2 h) (kv_committed V s4 g t) records)"
      proof (cases r)
        case (Inl e)
        then show ?thesis using d by (simp add: read_back_def)
      next
        case (Inr out)
        obtain q audit where q: "apply_records out new_AuditConsumer = (q, audit)" by (metis prod.collapse)
        obtain c s4 w4 where c: "cns_commit C h (s3, w3) = (c, (s4, w4))" by (metis prod_cases3)
        have "world_le w2 w4" "kv_log V s4 = kv_log V s2" "c = Inr () \<Longrightarrow> kv_committed V s4 g t = kv_position V s3 h"
          using consumerD(4,5) [OF L(2)] c d(2,3) h world_le_trans by force+
        then show ?thesis using d Inr by (cases q; cases c) (auto simp: read_back_def q c)
      qed
      then obtain r s4 w4 where r: "read_back C h expected timeout (s2, w2) = Some (r, (s4, w4))" "world_le w2 w4" "kv_log V s4 = kv_log V s2"
        "\<forall>records applied audit. r = Inr (records, applied, audit) \<longrightarrow>
           length records = expected \<and> apply_records records new_AuditConsumer = (Inr applied, audit) \<and>
           delivered (kv_partitions V) (kv_log V s2 t) (kv_position V s2 h) (kv_committed V s4 g t) records" by blast
      obtain z s5 w5 where z: "cns_stop C h (s4, w4) = (z, (s5, w5))" by (metis prod_cases3)
      note kz = keepsD [OF consumer_keeps(4) [OF L(2)] z, simplified]
      have "world_le w w5" using ka(1) kb(1) r(2) kz(1) world_le_trans by blast
      then show ?thesis
        using r kz ka kb pos by (cases z) (simp_all add: first_consumer_def a b Inr ok z)
    qed
  qed
qed

lemma restarted_consumer_ends:
  assumes L: "finite (kv_partitions V)" "consumer_laws V C" and m: "clock_ok C w"
  shows "\<exists>r s1 w1. restarted_consumer C t bs g quiet (s, w) = Some (r, (s1, w1)) \<and> world_le w w1 \<and> kv_log V s1 = kv_log V s \<and>
    kv_committed V s1 = kv_committed V s \<and>
    (\<forall>out. r = Inr out \<longrightarrow> (\<exists>b. delivered (kv_partitions V) (kv_log V s t) (kv_committed V s g t) b out))"
proof -
  obtain a s1 w1 where a: "cns_new C t bs g (s, w) = (a, (s1, w1))" by (metis prod_cases3)
  note ka = keepsD [OF consumer_keeps(1) [OF L(2)] a, simplified]
  show ?thesis
  proof (cases a)
    case (Inl e)
    then show ?thesis using ka by (auto simp: restarted_consumer_def a)
  next
    case (Inr h)
    have h: "kv_topic V h = t" "kv_group V h = g" using consumerD(1) [OF L(2) a [unfolded Inr]] by auto
    obtain b s2 w2 where b: "cns_start C h (s1, w1) = (b, (s2, w2))" by (metis prod_cases3)
    note kb = keepsD [OF consumer_keeps(2) [OF L(2)] b, simplified]
    show ?thesis
    proof (cases b)
      case (Inl e)
      then show ?thesis using ka kb Inr world_le_trans by (auto simp: restarted_consumer_def a b)
    next
      case ok: (Inr u)
      have pos: "kv_position V s2 h = kv_committed V s g t" using consumerD(2) [OF L(2)] b ok h ka(3) by force
      have m2: "clock_ok C (snd (monotonic w2))" using m ka(1) kb(1) by (simp add: world_le_def monotonic_def clock_ok_def)
      obtain r s3 w3 where d: "collect_until_quiet C h quiet (s2, w2) = Some (r, (s3, w3))" "world_le w2 w3"
          "kv_log V s3 = kv_log V s2" "kv_committed V s3 = kv_committed V s2"
          "\<forall>out. r = Inr out \<longrightarrow> delivered (kv_partitions V) (kv_log V s2 t) (kv_position V s2 h) (kv_position V s3 h) out"
        using drain_ends [OF L m2, of h "\<lambda>records. True" "fst (monotonic w2) + quiet" "[]" s2] h(1)
          world_le_trans [OF world_le_readings(1)]
        by (fastforce simp: collect_until_quiet_def case_prod_beta)
      obtain z s5 w5 where z: "cns_stop C h (s3, w3) = (z, (s5, w5))" by (metis prod_cases3)
      note kz = keepsD [OF consumer_keeps(4) [OF L(2)] z, simplified]
      have "world_le w w5" using ka(1) kb(1) d(2) kz(1) world_le_trans by blast
      then show ?thesis
        using d kz ka kb pos by (cases z; cases r) (auto simp: restarted_consumer_def a b Inr ok z)
    qed
  qed
qed

subsection \<open>What the probe reports\<close>

lemma probe_events_fields:
  "length (fst (probe_events m w)) = 3" "world_le w (snd (probe_events m w))"
  by (simp_all add: probe_events_def probe_event_def new_EventEnvelope_def case_prod_beta Let_def world_read_defs world_le_def)

text \<open>The events of the probe, of which the first is sent twice.\<close>

definition events_of :: "world \<Rightarrow> EventEnvelope list" where
  "events_of w =
     (let w2 = snd (uuid4 (snd (uuid4 w))) in fst (probe_events (probe_merchant w2) (snd (uuid4 w2))))"

text \<open>
  A statement that returns, and whose values satisfy a predicate on value and state; two of
  them one after the other.
\<close>

definition returns :: "('a \<Rightarrow> 's \<times> world \<Rightarrow> bool) \<Rightarrow> ('a, 's \<times> world) outcome \<Rightarrow> bool" where
  "returns Q x \<longleftrightarrow> (\<exists>r s1 w1. x = Some (r, (s1, w1)) \<and> (\<forall>v. r = Inr v \<longrightarrow> Q v (s1, w1)))"

lemma returns_then:
  assumes "returns Q x" "\<And>v s1 w1. Q v (s1, w1) \<Longrightarrow> returns R (f v (s1, w1))"
  shows "returns R (and_then x f)"
proof -
  obtain r s1 w1 where x: "x = Some (r, (s1, w1))" "\<forall>v. r = Inr v \<longrightarrow> Q v (s1, w1)" using assms(1) unfolding returns_def by blast
  show ?thesis
  proof (cases r)
    case (Inl e)
    then show ?thesis using x(1) by (simp add: returns_def)
  next
    case (Inr v)
    then show ?thesis using assms(2) [of v s1 w1] x by simp
  qed
qed

lemma returns_value: "R v (s1, w1) \<Longrightarrow> returns R (Some (Inr v, (s1, w1)))"
  by (simp add: returns_def)

text \<open>All records of a topic on which the events and the first of them again were sent.\<close>

lemma probe_effects:
  assumes rec: "length records = length (es @ [hd es])" "apply_records records new_AuditConsumer = (Inr applied, audit)"
      "delivered parts entries (\<lambda>_. 0) b records"
    and logs: "finite parts" "(\<Sum>p\<in>parts. mset (entries p)) = mset (map encode_event (es @ [hd es]))"
    and es: "length es = 3" "distinct (map evt_id es)" "\<forall>e\<in>set es. envelope_ok e"
  shows "length records = 4 \<and> applied = 3 \<and> length (con_events audit) = 3 \<and> (\<Sum>p\<in>parts. b p) = 4 \<and>
    (\<forall>p\<in>parts. length (entries p) \<le> b p)"
proof -
  let ?d = "\<lambda>v. projr (decode_event v)"
  let ?ds = "map ?d (map rcd_value records)"
  have sizes: "(\<Sum>p\<in>parts. length (entries p)) = 4" using arg_cong [OF logs(2), of size] es(1) by (simp add: size_multiset_sum)
  have four: "length records = 4" using rec(1) es(1) by simp
  note all = delivered_all [OF logs(1) rec(3) four [folded sizes]]
  have ne: "es \<noteq> []" using es(1) by auto
  have dec: "decode_event (encode_event e) = Inr e" if "e \<in> set es" for e
    using that es(3) decode_encode by blast
  have vals: "set (map rcd_value records) = encode_event ` set es"
    using arg_cong [OF all(2) [unfolded logs(2)], of set_mset] ne by auto
  have "decode_event v = Inr (?d v)" if "v \<in> encode_event ` set es" for v
    using that dec by (elim imageE) (simp only: sum.sel)
  then have "\<forall>r\<in>set records. decode_event (rcd_value r) = Inr (?d (rcd_value r))"
    using vals by (metis imageI list.set_map)
  from apply_decoded [OF this, of new_AuditConsumer] rec(2)
  have app: "applied = length (fresh_events {} ?ds)" "con_events audit = fresh_events {} ?ds"
    unfolding new_AuditConsumer_def consume_all_eq by auto
  have "set ?ds = set es" unfolding list.set_map(1) [of ?d] vals using dec by (simp add: image_image)
  then have "evt_id ` set (fresh_events {} ?ds) = evt_id ` set es" by (simp add: fresh_events_covers)
  then have "length (fresh_events {} ?ds) = 3"
    using fresh_events_distinct [of "{}" ?ds] es(1,2) by (metis distinct_card length_map list.set_map)
  moreover have "(\<Sum>p\<in>parts. b p) = (\<Sum>p\<in>parts. length (entries p))" using all(1) by (intro sum.cong) auto
  ultimately show ?thesis using four app sizes all(1) by auto
qed

text \<open>The steps of the probe, on a topic without records and for a group without offsets.\<close>

lemma new_producer_returns:
  assumes "producer_laws V P" "world_le w u"
  shows "returns (\<lambda>_ (s1, w1). world_le w w1 \<and> kv_log V s1 = kv_log V s \<and> kv_committed V s1 = kv_committed V s)
    (Some (prd_new P bs (s, u)))"
proof -
  obtain a s1 w1 where a: "prd_new P bs (s, u) = (a, (s1, w1))" by (metis prod_cases3)
  show ?thesis
    using keepsD [OF producer_keeps(1) [OF assms(1)] a] world_le_trans [OF assms(2)] by (auto simp: returns_def a)
qed

lemma produce_returns:
  assumes "producer_laws V P" "finite (kv_partitions V)" "world_le w u"
    and "\<And>p. kv_log V s t p = []" "kv_committed V s g t = (\<lambda>_. 0)"
  shows "returns (\<lambda>_ (s1, w1). world_le w w1 \<and> kv_committed V s1 g t = (\<lambda>_. 0) \<and>
      (\<Sum>p\<in>kv_partitions V. mset (kv_log V s1 t p)) = mset (map encode_event es))
    (produce P h t es (s, u))"
  using produce_log [OF assms(1,2), of h t es s u] world_le_trans [OF assms(3)] assms(4,5) by (auto simp: returns_def)

lemma first_consumer_returns:
  assumes "finite (kv_partitions V)" "consumer_laws V C" "clock_ok C w" "world_le w u" "kv_committed V s g t = (\<lambda>_. 0)"
    and es: "length es = 3" "distinct (map evt_id es)" "\<forall>e\<in>set es. envelope_ok e"
      "(\<Sum>p\<in>kv_partitions V. mset (kv_log V s t p)) = mset (map encode_event (es @ [hd es]))"
  shows "returns (\<lambda>(records, applied, audit) (s1, w1). world_le w w1 \<and>
      length records = 4 \<and> applied = 3 \<and> length (con_events audit) = 3 \<and>
      (\<Sum>p\<in>kv_partitions V. kv_committed V s1 g t p) = 4 \<and>
      (\<forall>p\<in>kv_partitions V. length (kv_log V s1 t p) \<le> kv_committed V s1 g t p) \<and>
      (\<forall>p. map_of (committed_offsets records) (json_int p) =
        (if kv_committed V s1 g t p = 0 then None else Some (int (kv_committed V s1 g t p)))))
    (first_consumer C t bs g (length (es @ [hd es])) timeout (s, u))"
proof -
  have m: "clock_ok C u" using assms(3,4) by (simp add: world_le_def clock_ok_def)
  obtain c s1 w1 where c: "first_consumer C t bs g (length (es @ [hd es])) timeout (s, u) = Some (c, (s1, w1))" "world_le u w1"
      "kv_log V s1 = kv_log V s"
      "\<forall>records applied audit. c = Inr (records, applied, audit) \<longrightarrow>
         length records = length (es @ [hd es]) \<and> apply_records records new_AuditConsumer = (Inr applied, audit) \<and>
         delivered (kv_partitions V) (kv_log V s t) (\<lambda>_. 0) (kv_committed V s1 g t) records"
    using first_consumer_ends [OF assms(1,2) m, of t bs g _ timeout s] unfolding assms(5) by blast
  have "world_le w w1" using assms(4) c(2) world_le_trans by blast
  then show ?thesis
    using c(1,3,4) probe_effects [OF _ _ _ assms(1) es(4,1-3)] committed_offsets_get by (fastforce simp: returns_def)
qed

lemma restarted_consumer_returns:
  assumes "finite (kv_partitions V)" "consumer_laws V C" "clock_ok C w" "world_le w u"
    and "\<forall>p\<in>kv_partitions V. length (kv_log V s t p) \<le> kv_committed V s g t p"
  shows "returns (\<lambda>redelivered (s1, w1). redelivered = [] \<and> kv_committed V s1 = kv_committed V s)
    (restarted_consumer C t bs g quiet (s, u))"
proof -
  have "clock_ok C u" using assms(3,4) by (simp add: world_le_def clock_ok_def)
  from restarted_consumer_ends [OF assms(1,2) this, of t bs g quiet s] show ?thesis
    using delivered_none [OF _ assms(5)] unfolding returns_def by blast
qed


text \<open>A cluster of two partitions, in memory; a consumer is its topic and group.\<close>

record Cluster =
  clu_log :: "string \<Rightarrow> int \<Rightarrow> string list"
  clu_committed :: "string \<Rightarrow> string \<Rightarrow> int \<Rightarrow> nat"
  clu_position :: "string \<times> string \<Rightarrow> int \<Rightarrow> nat"

definition cluster_producer :: "(unit, Cluster \<times> world) producer_ops" where
  "cluster_producer =
     \<lparr>prd_new = (\<lambda>s st. (Inr (), st)), prd_start = (\<lambda>h st. (Inr (), st)), prd_stop = (\<lambda>h st. (Inr (), st)),
      prd_send_and_wait = (\<lambda>h t v (c, w).
        let p = (if length (clu_log c t 0) \<le> length (clu_log c t 1) then 0 else 1)
        in (Inr (), (c\<lparr>clu_log := (clu_log c)(t := (clu_log c t)(p := clu_log c t p @ [v]))\<rparr>, w)))\<rparr>"

definition unread_records :: "Cluster \<Rightarrow> string \<times> string \<Rightarrow> int \<Rightarrow> ConsumerRecord list" where
  "unread_records c h p =
     map (\<lambda>i. \<lparr>rcd_partition = p, rcd_offset = int i, rcd_value = clu_log c (fst h) p ! i\<rparr>)
       [clu_position c h p..<length (clu_log c (fst h) p)]"

definition all_read :: "Cluster \<Rightarrow> string \<times> string \<Rightarrow> int \<Rightarrow> nat" where
  "all_read c h p = (if p \<in> {0, 1} then max (clu_position c h p) (length (clu_log c (fst h) p)) else clu_position c h p)"

definition cluster_consumer :: "(string \<times> string, Cluster) consumer_ops" where
  "cluster_consumer =
     \<lparr>cns_new = (\<lambda>t b g st. (Inr (t, g), st)),
      cns_start = (\<lambda>h (c, w). (Inr (), (c\<lparr>clu_position := (clu_position c)(h := clu_committed c (snd h) (fst h))\<rparr>, w))),
      cns_getmany = (\<lambda>h (c, w).
        (Inr [(0, unread_records c h 0), (1, unread_records c h 1)],
         (c\<lparr>clu_position := (clu_position c)(h := all_read c h)\<rparr>, snd (monotonic w)))),
      cns_commit = (\<lambda>h (c, w).
        (Inr (), (c\<lparr>clu_committed := (clu_committed c)(snd h := (clu_committed c (snd h))(fst h := clu_position c h))\<rparr>, w))),
      cns_stop = (\<lambda>h st. (Inr (), st))\<rparr>"

definition cluster_view :: "(string \<times> string, Cluster) kafka_view" where
  "cluster_view =
     \<lparr>kv_partitions = {0, 1}, kv_log = clu_log, kv_committed = clu_committed, kv_position = clu_position,
      kv_topic = fst, kv_group = snd\<rparr>"

definition empty_cluster :: Cluster where
  "empty_cluster = \<lparr>clu_log = (\<lambda>t p. []), clu_committed = (\<lambda>g t p. 0), clu_position = (\<lambda>h p. 0)\<rparr>"

lemma cluster_producer_laws: "producer_laws cluster_view cluster_producer"
  by (auto simp: producer_laws_def keeps_def cluster_producer_def cluster_view_def Let_def)

lemma unread_delivered:
  "delivered {0, 1} (clu_log c (fst h)) (clu_position c h) (all_read c h) (unread_records c h 0 @ unread_records c h 1)"
proof -
  have p: "filter (\<lambda>r. rcd_partition r = p) (unread_records c h q) = (if p = q then unread_records c h q else [])" for p q
    by (induction "[clu_position c h q..<length (clu_log c (fst h) q)]") (simp_all add: unread_records_def filter_map comp_def)
  have m: "map (\<lambda>r. (rcd_offset r, rcd_value r)) (unread_records c h q) =
      map (\<lambda>i. (int i, clu_log c (fst h) q ! i)) [clu_position c h q..<length (clu_log c (fst h) q)]" for q
    by (simp add: unread_records_def)
  have u: "[a..<max a b] = [a..<b]" for a b :: nat by (cases "a \<le> b") (simp_all add: max_def)
  show ?thesis
    by (auto simp: delivered_def p m u all_read_def) (auto simp: unread_records_def)
qed

lemma unread_waited: "mono_at w = real \<Longrightarrow> waited w (snd (monotonic w))"
  by (auto simp: waited_def monotonic_def)

lemma cluster_consumer_laws: "consumer_laws cluster_view cluster_consumer"
  using unread_delivered by (auto simp: consumer_laws_def keeps_def cluster_consumer_def cluster_view_def)

lemma cluster_clock: "mono_at w = real \<Longrightarrow> clock_ok cluster_consumer w"
  by (auto simp: clock_ok_def mono_def cluster_consumer_def intro: unread_waited)

lemma sample_events:
  "length (events_of sample_world) = 3" "map evt_id (events_of sample_world) = [4, 7, 10]" "\<forall>e\<in>set (events_of sample_world). envelope_ok e"
  by (simp_all add: events_of_def probe_events_def probe_event_def new_EventEnvelope_def case_prod_beta Let_def world_read_defs
      sample_world_def envelope_ok_def synthetic_def datetime_ok_def EPOCH_ORDINAL_def)

text \<open>On this cluster the probe succeeds.\<close>

lemma cluster_drain:
  assumes "mono_at w = real" "real (tick w) < deadline" "wanted []"
  shows "drain cluster_consumer h wanted deadline [] (c, w) =
    drain cluster_consumer h wanted deadline (unread_records c h 0 @ unread_records c h 1)
      (c\<lparr>clu_position := (clu_position c)(h := all_read c h)\<rparr>, w\<lparr>tick := tick w + 2\<rparr>)"
  using assms by (subst drain.simps) (simp add: cluster_consumer_def monotonic_def)

lemma cluster_first:
  assumes "mono_at w = real" "clu_committed c g t = (\<lambda>_. 0)" "length (clu_log c t 0) + length (clu_log c t 1) = n" "0 < n"
    and dec: "\<forall>p\<in>{0, 1}. \<forall>x\<in>set (clu_log c t p). decode_event x = Inr (d x)"
  shows "\<exists>records applied audit c1 w1. first_consumer cluster_consumer t bs g n 10 (c, w) = Some (Inr (records, applied, audit), (c1, w1)) \<and>
    mono_at w1 = real"
proof -
  let ?h = "(t, g)"
  let ?c = "c\<lparr>clu_position := (clu_position c)(?h := clu_committed c g t)\<rparr>"
  let ?rs = "unread_records ?c ?h 0 @ unread_records ?c ?h 1"
  have len: "length ?rs = n" using assms(2,3) by (simp add: unread_records_def)
  have "\<forall>r\<in>set ?rs. decode_event (rcd_value r) = Inr (d (rcd_value r))"
    using dec by (auto simp: unread_records_def)
  note app = apply_decoded [OF this, of new_AuditConsumer]
  have "collect cluster_consumer ?h n 10 (?c, w) =
    Some (Inr ?rs, (?c\<lparr>clu_position := (clu_position ?c)(?h := all_read ?c ?h)\<rparr>, w\<lparr>tick := tick w + 3\<rparr>))"
    unfolding collect_def
    by (simp add: monotonic_def cluster_drain assms(1,4) del: fun_upd_apply) (subst drain.simps, use len in simp)
  then have "read_back cluster_consumer ?h n 10 (?c, w) =
    and_then (Some (cns_commit cluster_consumer ?h (?c\<lparr>clu_position := (clu_position ?c)(?h := all_read ?c ?h)\<rparr>, w\<lparr>tick := tick w + 3\<rparr>)))
      (\<lambda>_ st2. Some (Inr (?rs, length (fresh_events (con_seen new_AuditConsumer) (map d (map rcd_value ?rs))),
         consume_all None (map d (map rcd_value ?rs)) new_AuditConsumer), st2))"
    unfolding read_back_def using app len by (simp only: and_then_simps prod.case sum.case) simp
  then show ?thesis using assms(1) by (simp add: first_consumer_def cluster_consumer_def)
qed

lemma cluster_restarted:
  assumes "mono_at w = real"
  shows "\<exists>out st1. restarted_consumer cluster_consumer t bs g 2 (c, w) = Some (Inr out, st1)"
proof -
  have "\<exists>out st1. collect_until_quiet cluster_consumer h 2 (c1, w) = Some (Inr out, st1)" for h c1
    unfolding collect_until_quiet_def
    by (simp add: monotonic_def cluster_drain assms del: fun_upd_apply) (subst drain.simps, use assms in \<open>simp add: monotonic_def\<close>)
  from this [of "(t, g)" "c\<lparr>clu_position := (clu_position c)((t, g) := clu_committed c g t)\<rparr>"]
  show ?thesis by (auto simp: restarted_consumer_def cluster_consumer_def)
qed

lemma cluster_produce:
  assumes "sent = [e1, e2, e3, e4]" "\<forall>e\<in>set sent. envelope_ok e"
  shows "\<exists>c1. produce cluster_producer () t sent (empty_cluster, w) = Some (Inr (), (c1, w)) \<and>
    clu_committed c1 g t = (\<lambda>_. 0) \<and> length (clu_log c1 t 0) + length (clu_log c1 t 1) = 4 \<and>
    (\<forall>p\<in>{0, 1}. \<forall>x\<in>set (clu_log c1 t p). decode_event x = Inr (projr (decode_event x)))"
  using assms by (simp add: produce_def cluster_producer_def empty_cluster_def Let_def decode_encode)


end
