(* ===== verification/Observe.thy ===== *)
theory Observe
  imports Probes
begin

text \<open>
  The scripts that observe a running deployment: \<open>scripts/observability_evidence.py\<close>, which waits
  for services and records their state, and \<open>scripts/query_benchmark.py\<close>, which measures a query
  before and after an index is made. The network, the database and the JSON reader are
  parameters.
\<close>

subsection \<open>Fetching and waiting\<close>

record http_request =
  hrq_url :: string
  hrq_method :: string
  hrq_body :: "pyvalue option"
  hrq_headers :: "(string, string) dict"
  hrq_timeout :: real

definition get_request :: "string \<Rightarrow> (string, string) dict \<Rightarrow> real \<Rightarrow> http_request" where
  "get_request url headers timeout =
     \<lparr>hrq_url = url, hrq_method = ''GET'', hrq_body = None, hrq_headers = headers, hrq_timeout = timeout\<rparr>"

text \<open>\<open>urlopen\<close> with \<open>read\<close>, which raises for every status outside of 200 to 299, and \<open>json.loads\<close>.\<close>

record 's network =
  net_urlopen :: "http_request \<Rightarrow> 's \<times> world \<Rightarrow> (int \<times> string) res \<times> ('s \<times> world)"
  net_loads :: "string \<Rightarrow> pyvalue res"

definition undecodable :: "exn \<Rightarrow> bool" where
  "undecodable e \<longleftrightarrow> e \<in> {OtherException ''UnicodeDecodeError'', OtherException ''JSONDecodeError''}"

definition fetch :: "'s network \<Rightarrow> http_request \<Rightarrow> 's \<times> world \<Rightarrow> (int \<times> pyvalue) res \<times> ('s \<times> world)" where
  "fetch N request st =
     (case net_urlopen N request st of
        (Inl e, st1) \<Rightarrow> (Inl e, st1)
      | (Inr (status, raw), st1) \<Rightarrow>
          (case net_loads N raw of
             Inr value \<Rightarrow> (Inr (status, value), st1)
           | Inl e \<Rightarrow> if undecodable e then (Inr (status, PStr raw), st1) else (Inl e, st1)))"

text \<open>\<open>except (OSError, ValueError, json.JSONDecodeError)\<close>, with the subclasses that \<open>urlopen\<close> raises.\<close>

definition waits_out :: "exn \<Rightarrow> bool" where
  "waits_out e \<longleftrightarrow>
     (case e of
        ValueError m \<Rightarrow> True
      | OtherException n \<Rightarrow>
          n \<in> {''OSError'', ''URLError'', ''HTTPError'', ''TimeoutError'', ''ConnectionError'', ''ConnectionRefusedError'',
                ''ConnectionResetError'', ''ConnectionAbortedError'', ''BrokenPipeError'', ''RemoteDisconnected'',
                ''gaierror'', ''SSLError'', ''UnicodeDecodeError'', ''JSONDecodeError''}
      | _ \<Rightarrow> False)"

partial_function (option) poll ::
  "'s network \<Rightarrow> string \<Rightarrow> real \<Rightarrow> string \<Rightarrow> 's \<times> world \<Rightarrow> (int \<times> pyvalue, 's \<times> world) outcome" where
  "poll N url deadline latest st =
     (let (now, w) = monotonic (snd st)
      in if now < deadline
         then (case fetch N (get_request url [] 3) (fst st, w) of
                 (Inr found, st1) \<Rightarrow> Some (Inr found, st1)
               | (Inl e, (s1, w1)) \<Rightarrow>
                   if waits_out e then poll N url deadline (exn_name e) (s1, sleep 1 w1) else Some (Inl e, (s1, w1)))
         else Some (Inl (RuntimeError (''timed out waiting for '' @ url @ '': '' @ latest)), (fst st, w)))"

definition wait_for :: "'s network \<Rightarrow> string \<Rightarrow> real \<Rightarrow> 's \<times> world \<Rightarrow> (int \<times> pyvalue, 's \<times> world) outcome" where
  "wait_for N url timeout st =
     (let (now, w) = monotonic (snd st) in poll N url (now + timeout) ''None'' (fst st, w))"

subsection \<open>The checks\<close>

text \<open>The arguments; \<open>obs_authorization\<close> is user and password in base 64.\<close>

record observed_urls =
  obs_app_url :: string
  obs_prometheus_url :: string
  obs_grafana_url :: string
  obs_scrape_wait :: real
  obs_timeout :: real
  obs_authorization :: string

definition check_observe_arguments :: "observed_urls \<Rightarrow> unit res" where
  "check_observe_arguments args =
     (if obs_scrape_wait args < 0 \<or> obs_timeout args \<le> 0 then Inl (OtherException ''SystemExit'') else Inr ())"

definition payment_probe :: pyvalue where
  "payment_probe =
     PDict [(''merchant_id'', PStr ''observability-evidence''), (''amount'', PInt 125), (''currency'', PStr ''INR''),
            (''payment_method'', PDict [(''type'', PStr ''card''), (''token'', PStr ''test_card'')])]"

definition payment_post :: "observed_urls \<Rightarrow> http_request" where
  "payment_post args =
     \<lparr>hrq_url = obs_app_url args @ ''/api/v1/payments'', hrq_method = ''POST'', hrq_body = Some payment_probe,
      hrq_headers = [(''Content-Type'', ''application/json''), (''Idempotency-Key'', ''observability-evidence-key'')],
      hrq_timeout = obs_timeout args\<rparr>"

text \<open>\<open>prom_query.get("data", {}).get("result", []) if isinstance(prom_query, dict) else []\<close>, and its length.\<close>

definition py_len :: "pyvalue \<Rightarrow> int res" where
  "py_len v =
     (case v of
        PList xs \<Rightarrow> Inr (int (length xs)) | PStr s \<Rightarrow> Inr (int (length s)) | PDict d \<Rightarrow> Inr (int (length d))
      | _ \<Rightarrow> Inl (OtherException ''TypeError''))"

definition series_count :: "pyvalue \<Rightarrow> int res" where
  "series_count v =
     (if is_dict v
      then res_bind (py_get ''data'' (PDict []) v) (\<lambda>data. res_bind (py_get ''result'' (PList []) data) py_len)
      else Inr 0)"

definition text_or_none :: "pyvalue \<Rightarrow> pyvalue" where
  "text_or_none v = (case v of PStr s \<Rightarrow> PStr s | _ \<Rightarrow> PNone)"

definition dashboards_of :: "pyvalue \<Rightarrow> pyvalue list" where
  "dashboards_of v = (case v of PList xs \<Rightarrow> xs | _ \<Rightarrow> [])"

definition lift_res :: "'a res \<Rightarrow> 's \<Rightarrow> ('a, 's) outcome" where
  "lift_res r st = Some (r, st)"

definition observe :: "'s network \<Rightarrow> observed_urls \<Rightarrow> 's \<times> world \<Rightarrow> ((string, pyvalue) dict, 's \<times> world) outcome" where
  "observe N args st =
     and_then (wait_for N (obs_app_url args @ ''/health'') (obs_timeout args * 8) st) (\<lambda>(status, health) st.
     let app_health = PDict [(''status_code'', PInt status), (''status'', get_or_none ''status'' health)] in
     and_then (wait_for N (obs_app_url args @ ''/ready'') (obs_timeout args * 8) st) (\<lambda>(status, ready) st.
     let app_ready = PDict [(''status_code'', PInt status), (''status'', get_or_none ''status'' ready)] in
     and_then (Some (fetch N (payment_post args) st)) (\<lambda>(status, _) st.
     let synthetic_payment = PDict [(''status_code'', PInt status), (''accepted'', PBool (status = 201))];
         st = (fst st, sleep (obs_scrape_wait args) (snd st)) in
     and_then (wait_for N (obs_prometheus_url args @ ''/-/ready'') (obs_timeout args * 8) st) (\<lambda>(status, prom_ready) st.
     let prometheus_ready = PDict [(''status_code'', PInt status), (''body'', text_or_none prom_ready)] in
     and_then (Some (fetch N (get_request (obs_prometheus_url args @ ''/api/v1/query?query=pyswitch_payments_total'') []
                                (obs_timeout args)) st)) (\<lambda>(status, prom_query) st.
     and_then (lift_res (series_count prom_query) st) (\<lambda>found st.
     let payment_series = PDict [(''status_code'', PInt status), (''result_count'', PInt found)] in
     and_then (wait_for N (obs_grafana_url args @ ''/api/health'') (obs_timeout args * 8) st) (\<lambda>(status, grafana) st.
     let grafana_health = PDict [(''status_code'', PInt status), (''database'', get_or_none ''database'' grafana),
                                 (''version'', get_or_none ''version'' grafana)];
         auth = [(''Authorization'', ''Basic '' @ obs_authorization args)] in
     and_then (Some (fetch N (get_request (obs_grafana_url args @ ''/api/search?query=PySwitch'') auth (obs_timeout args)) st))
       (\<lambda>(status, dashboards) st.
     let grafana_dashboards =
           PDict [(''status_code'', PInt status), (''count'', PInt (int (length (dashboards_of dashboards)))),
                  (''titles'', PList (map (get_or_none ''title'') (filter is_dict (dashboards_of dashboards))))] in
     and_then (Some (fetch N (get_request (obs_grafana_url args @ ''/api/datasources/uid/prometheus/health'') auth
                                (obs_timeout args)) st)) (\<lambda>(status, datasource) st.
     let grafana_datasource = PDict [(''status_code'', PInt status), (''status'', get_or_none ''status'' datasource)] in
     Some (Inr [(''app_health'', app_health), (''app_ready'', app_ready), (''synthetic_payment'', synthetic_payment),
                (''prometheus_ready'', prometheus_ready), (''prometheus_payment_series'', payment_series),
                (''grafana_health'', grafana_health), (''grafana_dashboards'', grafana_dashboards),
                (''grafana_prometheus_datasource'', grafana_datasource)], st))))))))))"

subsection \<open>Waiting ends\<close>

text \<open>
  What the scripts rely on: an answer has a status from 200 to 299, since \<open>urlopen\<close> raises
  \<open>HTTPError\<close> otherwise, and fetching and its failures take their time on a clock that does
  not go back, a failure with the pause that follows it at least a second.
\<close>

definition network_laws :: "'s network \<Rightarrow> bool" where
  "network_laws N \<longleftrightarrow>
     (\<forall>request st r st1. net_urlopen N request st = (r, st1) \<longrightarrow>
        world_le (snd st) (snd st1) \<and> slept (snd st1) = slept (snd st) \<and>
        (\<forall>status raw. r = Inr (status, raw) \<longrightarrow> 200 \<le> status \<and> status < 300))"

definition paced :: "'s network \<Rightarrow> world \<Rightarrow> bool" where
  "paced N w \<longleftrightarrow>
     mono (mono_at w) \<and>
     (\<forall>request st e st1 i j. mono_at (snd st) = mono_at w \<longrightarrow> fetch N request st = (Inl e, st1) \<longrightarrow>
        i < tick (snd st) \<longrightarrow> tick (snd st1) \<le> j \<longrightarrow> mono_at w i + 1 \<le> mono_at w j)"

lemma fetch_keeps:
  assumes "network_laws N" "fetch N request st = (r, st1)"
  shows "world_le (snd st) (snd st1)" "slept (snd st1) = slept (snd st)" "r = Inr (status, v) \<Longrightarrow> 200 \<le> status \<and> status < 300"
proof -
  obtain q st2 where q: "net_urlopen N request st = (q, st2)" by (metis prod.collapse)
  have "world_le (snd st) (snd st2) \<and> slept (snd st2) = slept (snd st) \<and>
      (\<forall>status raw. q = Inr (status, raw) \<longrightarrow> 200 \<le> status \<and> status < 300)"
    using assms(1) q unfolding network_laws_def by blast
  then show "world_le (snd st) (snd st1)" "slept (snd st1) = slept (snd st)" "r = Inr (status, v) \<Longrightarrow> 200 \<le> status \<and> status < 300"
    using assms(2) by (auto simp: fetch_def q split: sum.splits if_splits)
qed

lemma paced_later: "paced N w \<Longrightarrow> world_le w w1 \<Longrightarrow> paced N w1"
  by (simp add: paced_def world_le_def)

lemma poll_ends:
  assumes N: "network_laws N" and p: "paced N w"
  shows "\<exists>r s1 w1 n. poll N url deadline latest (s, w) = Some (r, (s1, w1)) \<and> world_le w w1 \<and>
    slept w1 = slept w @ replicate n 1 \<and> n \<le> nat \<lceil>deadline - mono_at w (tick w)\<rceil> \<and>
    (\<forall>status v. r = Inr (status, v) \<longrightarrow> 200 \<le> status \<and> status < 300) \<and>
    (\<forall>e. r = Inl e \<longrightarrow> \<not> waits_out e)"
  using p
proof (induction "nat \<lceil>deadline - mono_at w (tick w)\<rceil>" arbitrary: s w latest rule: less_induct)
  case less
  let ?w = "snd (monotonic w)"
  have now: "fst (monotonic w) = mono_at w (tick w)" "tick ?w = Suc (tick w)" "mono_at ?w = mono_at w" "slept ?w = slept w"
    by (simp_all add: monotonic_def)
  show ?case
  proof (cases "mono_at w (tick w) < deadline")
    case False
    then have "poll N url deadline latest (s, w) = Some (Inl (RuntimeError (''timed out waiting for '' @ url @ '': '' @ latest)), (s, ?w))"
      by (subst poll.simps) (simp add: case_prod_beta now(1))
    then show ?thesis by (intro exI conjI) (auto simp: now(4) waits_out_def intro: exI [of _ 0])
  next
    case True
    obtain f s1 w1 where f: "fetch N (get_request url [] 3) (s, ?w) = (f, (s1, w1))" by (metis prod_cases3)
    note k = fetch_keeps [OF N f, simplified]
    have ww: "world_le w w1" using k(1) world_le_trans by blast
    show ?thesis
    proof (cases "\<exists>e. f = Inl e \<and> waits_out e")
      case False
      then have "poll N url deadline latest (s, w) = Some (f, (s1, w1))"
        using True f by (subst poll.simps) (auto simp: case_prod_beta now(1) split: sum.split)
      then show ?thesis using k ww False now(4) by (intro exI conjI) (auto intro: exI [of _ 0])
    next
      case waiting: True
      then obtain e where e: "f = Inl e" "waits_out e" by blast
      let ?w1 = "sleep 1 w1"
      have step: "poll N url deadline latest (s, w) = poll N url deadline (exn_name e) (s1, ?w1)"
        using True f e by (subst poll.simps) (simp add: case_prod_beta now(1))
      have same: "mono_at ?w1 = mono_at w" "tick ?w1 = tick w1" "slept ?w1 = slept w @ [1]"
        using ww k(2) now(4) by (simp_all add: sleep_def world_le_def)
      have "mono_at w (tick w) + 1 \<le> mono_at w (tick w1)"
        using less.prems f e(1) now(2,3) unfolding paced_def by (metis lessI order_refl snd_conv)
      then have "\<lceil>deadline - mono_at ?w1 (tick ?w1)\<rceil> \<le> \<lceil>deadline - mono_at w (tick w) - 1\<rceil>"
        unfolding same by (intro ceiling_mono) simp
      then have le: "\<lceil>deadline - mono_at ?w1 (tick ?w1)\<rceil> \<le> \<lceil>deadline - mono_at w (tick w)\<rceil> - 1" by (simp only: ceiling_diff_one)
      have pos: "0 < \<lceil>deadline - mono_at w (tick w)\<rceil>" using True by simp
      have "nat \<lceil>deadline - mono_at ?w1 (tick ?w1)\<rceil> < nat \<lceil>deadline - mono_at w (tick w)\<rceil>" using le pos by linarith
      moreover have "world_le w ?w1" using ww world_le_readings(6) world_le_trans by blast
      ultimately obtain r s2 w2 n where ih: "poll N url deadline (exn_name e) (s1, ?w1) = Some (r, (s2, w2))" "world_le ?w1 w2"
          "slept w2 = slept ?w1 @ replicate n 1" "n \<le> nat \<lceil>deadline - mono_at ?w1 (tick ?w1)\<rceil>"
          "\<forall>status v. r = Inr (status, v) \<longrightarrow> 200 \<le> status \<and> status < 300" "\<forall>e. r = Inl e \<longrightarrow> \<not> waits_out e"
        using less.hyps [of ?w1 "exn_name e" s1] paced_later [OF less.prems] by blast
      have "Suc n \<le> nat \<lceil>deadline - mono_at w (tick w)\<rceil>" using ih(4) le pos by linarith
      moreover have "slept w2 = slept w @ replicate (Suc n) 1" using ih(3) same(3) by simp
      ultimately show ?thesis
        using step ih(1,5,6) world_le_trans [OF \<open>world_le w ?w1\<close> ih(2)] by (intro exI [of _ r] exI [of _ s2] exI [of _ w2] exI [of _ "Suc n"]) simp
    qed
  qed
qed

lemma wait_for_ends:
  assumes "network_laws N" "paced N w"
  shows "\<exists>r s1 w1 n. wait_for N url timeout (s, w) = Some (r, (s1, w1)) \<and> world_le w w1 \<and>
    slept w1 = slept w @ replicate n 1 \<and> n \<le> nat \<lceil>timeout\<rceil> \<and>
    (\<forall>status v. r = Inr (status, v) \<longrightarrow> 200 \<le> status \<and> status < 300) \<and> (\<forall>e. r = Inl e \<longrightarrow> \<not> waits_out e)"
proof -
  let ?w = "snd (monotonic w)" let ?d = "mono_at w (tick w) + timeout"
  have now: "fst (monotonic w) = mono_at w (tick w)" "tick ?w = Suc (tick w)" "mono_at ?w = mono_at w" "slept ?w = slept w"
    by (simp_all add: monotonic_def)
  have ww: "world_le w ?w" by simp
  obtain r s1 w1 n where p: "poll N url ?d ''None'' (s, ?w) = Some (r, (s1, w1))" "world_le ?w w1"
      "slept w1 = slept ?w @ replicate n 1" "n \<le> nat \<lceil>?d - mono_at ?w (tick ?w)\<rceil>"
      "\<forall>status v. r = Inr (status, v) \<longrightarrow> 200 \<le> status \<and> status < 300" "\<forall>e. r = Inl e \<longrightarrow> \<not> waits_out e"
    using poll_ends [OF assms(1) paced_later [OF assms(2) ww]] by blast
  have "mono_at w (tick w) \<le> mono_at w (Suc (tick w))" using assms(2) unfolding paced_def by (intro monoD [of "mono_at w"]) auto
  then have "\<lceil>?d - mono_at ?w (tick ?w)\<rceil> \<le> \<lceil>timeout\<rceil>" unfolding now by (intro ceiling_mono) simp
  then have "n \<le> nat \<lceil>timeout\<rceil>" using p(4) by linarith
  then show ?thesis
    using p(1,3,5,6) now(1,4) world_le_trans [OF ww p(2)] by (simp add: wait_for_def case_prod_beta)
qed

subsection \<open>The checks are those of answers\<close>

definition settles :: "world \<Rightarrow> ('a \<Rightarrow> bool) \<Rightarrow> ('a, 's \<times> world) outcome \<Rightarrow> bool" where
  "settles w P x \<longleftrightarrow> (\<exists>r s1 w1. x = Some (r, (s1, w1)) \<and> world_le w w1 \<and> (\<forall>v. r = Inr v \<longrightarrow> P v))"

lemma settles_then:
  assumes "settles w P x" "\<And>v s1 w1. P v \<Longrightarrow> world_le w w1 \<Longrightarrow> settles w1 Q (f v (s1, w1))"
  shows "settles w Q (and_then x f)"
proof -
  obtain r s1 w1 where x: "x = Some (r, (s1, w1))" "world_le w w1" "\<forall>v. r = Inr v \<longrightarrow> P v"
    using assms(1) unfolding settles_def by blast
  show ?thesis
  proof (cases r)
    case (Inl e)
    then show ?thesis using x by (simp add: settles_def)
  next
    case (Inr v)
    then have "settles w1 Q (f v (s1, w1))" using assms(2) x by blast
    then show ?thesis using x(1,2) Inr world_le_trans unfolding settles_def by (simp only: and_then_simps) blast
  qed
qed

definition accepted_status :: "int \<times> pyvalue \<Rightarrow> bool" where
  "accepted_status a \<longleftrightarrow> 200 \<le> fst a \<and> fst a < 300"

lemma wait_step:
  assumes "network_laws N" "paced N w"
    and "\<And>status v s1 w1. paced N w1 \<Longrightarrow> accepted_status (status, v) \<Longrightarrow> settles w1 Q (f (status, v) (s1, w1))"
  shows "settles w Q (and_then (wait_for N url timeout (s, w)) f)"
proof (rule settles_then)
  show "settles w accepted_status (wait_for N url timeout (s, w))"
    using wait_for_ends [OF assms(1,2), of url timeout s] by (fastforce simp: settles_def accepted_status_def)
qed (use assms(3) paced_later [OF assms(2)] in auto)

lemma fetch_step:
  assumes "network_laws N" "paced N w"
    and "\<And>status v s1 w1. paced N w1 \<Longrightarrow> accepted_status (status, v) \<Longrightarrow> settles w1 Q (f (status, v) (s1, w1))"
  shows "settles w Q (and_then (Some (fetch N request (s, w))) f)"
proof (rule settles_then)
  obtain r s1 w1 where f: "fetch N request (s, w) = (r, (s1, w1))" by (metis prod_cases3)
  then show "settles w accepted_status (Some (fetch N request (s, w)))"
    using fetch_keeps [OF assms(1) f] by (auto simp: settles_def accepted_status_def)
qed (use assms(3) paced_later [OF assms(2)] in auto)

lemma lift_step:
  assumes "paced N w" "\<And>v w1. paced N w1 \<Longrightarrow> r = Inr v \<Longrightarrow> settles w1 Q (f v (s, w1))"
  shows "settles w Q (and_then (lift_res r (s, w)) f)"
  using assms by (cases r) (auto simp: settles_def lift_res_def)

lemma sleep_step: "paced N w \<Longrightarrow> (paced N (sleep d w) \<Longrightarrow> settles (sleep d w) Q x) \<Longrightarrow> settles w Q x"
  unfolding settles_def using paced_later world_le_readings(6) world_le_trans by meson

definition check_of :: "(string \<times> pyvalue) \<Rightarrow> bool" where
  "check_of c \<longleftrightarrow> (\<exists>status. get_or_none ''status_code'' (snd c) = PInt status \<and> 200 \<le> status \<and> status < 300)"

definition checks_ok :: "(string, pyvalue) dict \<Rightarrow> bool" where
  "checks_ok checks \<longleftrightarrow>
     map fst checks = [''app_health'', ''app_ready'', ''synthetic_payment'', ''prometheus_ready'', ''prometheus_payment_series'',
       ''grafana_health'', ''grafana_dashboards'', ''grafana_prometheus_datasource''] \<and>
     list_all check_of checks \<and>
     (\<forall>c. map_of checks ''synthetic_payment'' = Some c \<longrightarrow>
        get_or_none ''accepted'' c = PBool (get_or_none ''status_code'' c = PInt 201)) \<and>
     (\<forall>c. map_of checks ''grafana_dashboards'' = Some c \<longrightarrow>
        (\<exists>n ts. get_or_none ''count'' c = PInt n \<and> get_or_none ''titles'' c = PList ts \<and> int (length ts) \<le> n))"

text \<open>
  The observability script, over a network that answers or fails and a clock that does not go
  back, always ends: each wait ends by its deadline. A report holds all eight checks, each of
  an answer with a status from 200 to 299, the payment is recorded as accepted when its status
  was 201, and no more dashboards are titled than counted.
\<close>

theorem observe_reports:
  assumes N: "network_laws N" and p: "paced N w"
  shows "\<exists>r st1. observe N args (s, w) = Some (r, st1) \<and> (\<forall>checks. r = Inr checks \<longrightarrow> checks_ok checks)"
proof -
  have "settles w checks_ok (observe N args (s, w))"
    unfolding observe_def Let_def
    apply (rule wait_step [OF N p], simp only: prod.case)
    apply (rule wait_step [OF N], assumption, simp only: prod.case)
    apply (rule fetch_step [OF N], assumption, simp only: prod.case fst_conv snd_conv)
    apply (rule sleep_step, assumption)
    apply (rule wait_step [OF N], assumption, simp only: prod.case)
    apply (rule fetch_step [OF N], assumption, simp only: prod.case)
    apply (rule lift_step, assumption)
    apply (rule wait_step [OF N], assumption, simp only: prod.case)
    apply (rule fetch_step [OF N], assumption, simp only: prod.case)
    apply (rule fetch_step [OF N], assumption, simp only: prod.case)
    apply (simp add: settles_def checks_ok_def check_of_def get_or_none_def accepted_status_def)
    done
  then show ?thesis unfolding settles_def by blast
qed

text \<open>A network that answers every request.\<close>

definition open_network :: "unit network" where
  "open_network = \<lparr>net_urlopen = (\<lambda>request st. (Inr (200, ''{}''), st)), net_loads = (\<lambda>raw. Inr (PDict [(''status'', PStr ''ready'')]))\<rparr>"

lemma open_network_fetch: "fetch open_network request st = (Inr (200, PDict [(''status'', PStr ''ready'')]), st)"
  by (simp add: fetch_def open_network_def)

lemma open_network_wait:
  assumes "mono_at w = real" "2 \<le> timeout"
  shows "wait_for open_network url timeout (s, w) = Some (Inr (200, PDict [(''status'', PStr ''ready'')]), (s, w\<lparr>tick := tick w + 2\<rparr>))"
  unfolding wait_for_def
  by (simp add: monotonic_def assms(1)) (subst poll.simps, use assms(2) in \<open>simp add: monotonic_def open_network_fetch assms(1)\<close>)

theorem observe_reports_witness:
  "let args = \<lparr>obs_app_url = ''http://127.0.0.1:8000'', obs_prometheus_url = ''http://127.0.0.1:9090'',
               obs_grafana_url = ''http://127.0.0.1:3000'', obs_scrape_wait = 12, obs_timeout = 5, obs_authorization = ''x''\<rparr>
   in \<exists>checks st1. observe open_network args ((), sample_world) = Some (Inr checks, st1) \<and> checks_ok checks"
proof -
  let ?args = "\<lparr>obs_app_url = ''http://127.0.0.1:8000'', obs_prometheus_url = ''http://127.0.0.1:9090'',
               obs_grafana_url = ''http://127.0.0.1:3000'', obs_scrape_wait = 12, obs_timeout = 5, obs_authorization = ''x''\<rparr>"
  have "network_laws open_network" by (auto simp: network_laws_def open_network_def)
  moreover have "paced open_network sample_world" by (simp add: paced_def open_network_fetch sample_world_def mono_def)
  moreover have "mono_at sample_world = real" by (simp add: sample_world_def)
  then have "\<exists>checks st1. observe open_network ?args ((), sample_world) = Some (Inr checks, st1)"
    by (simp add: observe_def open_network_wait open_network_fetch sleep_def series_count_def py_len_def lift_res_def Let_def)
  ultimately show ?thesis using observe_reports [of open_network sample_world ?args "()"] unfolding Let_def by fastforce
qed

subsection \<open>Measuring a query\<close>

text \<open>
  \<open>scripts/query_benchmark.py\<close>. A statement is its text; \<open>db_execute\<close> runs it and gives the
  scalar of its result, which for \<open>EXPLAIN\<close> is the plan, alone or in a list.
\<close>

record 's bench_db =
  db_execute :: "string \<Rightarrow> (string, pyvalue) dict \<Rightarrow> 's \<Rightarrow> pyvalue res \<times> 's"
  db_begin :: "'s \<Rightarrow> unit res \<times> 's"
  db_end :: "bool \<Rightarrow> 's \<Rightarrow> unit res \<times> 's"
  db_dispose :: "'s \<Rightarrow> unit res \<times> 's"

definition plan_of :: "pyvalue \<Rightarrow> pyvalue res" where
  "plan_of payload =
     (case payload of PList [] \<Rightarrow> Inl IndexError | PList (plan # plans) \<Rightarrow> Inr plan | _ \<Rightarrow> Inr payload)"

fun run_explains :: "'s bench_db \<Rightarrow> string \<Rightarrow> nat \<Rightarrow> 's \<Rightarrow> pyvalue list res \<times> 's" where
  "run_explains D query 0 st = (Inr [], st)"
| "run_explains D query (Suc n) st =
     then_do (db_execute D (''EXPLAIN (ANALYZE, BUFFERS, FORMAT JSON) '' @ query) [] st)
       (\<lambda>payload st1. case plan_of payload of
          Inl e \<Rightarrow> (Inl e, st1)
        | Inr plan \<Rightarrow> then_do (run_explains D query n st1) (\<lambda>plans st2. (Inr (plan # plans), st2)))"

text \<open>\<open>float(plan[key])\<close>; the database writes timings as numbers.\<close>

definition timing :: "string \<Rightarrow> pyvalue \<Rightarrow> real res" where
  "timing key plan =
     (case plan of
        PDict d \<Rightarrow> (case map_of d key of None \<Rightarrow> Inl (KeyError key) | Some v \<Rightarrow> py_number v)
      | _ \<Rightarrow> Inl (OtherException ''TypeError''))"

fun timings :: "string \<Rightarrow> pyvalue list \<Rightarrow> real list res" where
  "timings key [] = Inr []"
| "timings key (plan # plans) = res_bind (timing key plan) (\<lambda>t. res_bind (timings key plans) (\<lambda>ts. Inr (t # ts)))"

record Spread =
  spr_min :: real
  spr_median :: real
  spr_max :: real

text \<open>\<open>min\<close> of no values raises.\<close>

definition spread :: "real list \<Rightarrow> Spread res" where
  "spread ts =
     (if ts = [] then Inl (ValueError ''min() arg is an empty sequence'')
      else Inr \<lparr>spr_min = round3 (Min (set ts)), spr_median = round3 (sort ts ! (length ts div 2)),
                spr_max = round3 (Max (set ts))\<rparr>)"

record Explained =
  xpl_repetitions :: int
  xpl_execution :: Spread
  xpl_planning :: Spread
  xpl_plans :: "pyvalue list"

definition explained :: "int \<Rightarrow> pyvalue list \<Rightarrow> Explained res" where
  "explained repeats plans =
     res_bind (timings ''Execution Time'' plans) (\<lambda>execution.
     res_bind (timings ''Planning Time'' plans) (\<lambda>planning.
     res_bind (spread execution) (\<lambda>e. res_bind (spread planning) (\<lambda>p.
     Inr \<lparr>xpl_repetitions = repeats, xpl_execution = e, xpl_planning = p, xpl_plans = plans\<rparr>))))"

definition explain :: "'s bench_db \<Rightarrow> string \<Rightarrow> int \<Rightarrow> 's \<Rightarrow> Explained res \<times> 's" where
  "explain D query repeats st =
     then_do (run_explains D query (nat repeats) st) (\<lambda>plans st1. (explained repeats plans, st1))"

text \<open>A literal of SQL.\<close>

definition quoted :: "string \<Rightarrow> string" where
  "quoted s = [CHR 0x27] @ s @ [CHR 0x27]"

definition bench_query :: string where
  "bench_query =
     ''SELECT id, merchant_id, amount, currency, status, created_at FROM pyswitch_query_benchmark '' @
     ''WHERE merchant_id = '' @ quoted ''merchant-0042'' @ '' ORDER BY created_at''"

definition bench_table :: string where
  "bench_table =
     ''CREATE TEMP TABLE pyswitch_query_benchmark AS SELECT g::bigint AS id, '' @
     quoted ''merchant-'' @ '' || lpad((g % :merchant_count)::text, 4, '' @ quoted ''0'' @ '') AS merchant_id, '' @
     ''(100 + (g % 10000))::integer AS amount, '' @
     ''CASE WHEN g % 3 = 0 THEN '' @ quoted ''SUCCEEDED'' @ '' WHEN g % 3 = 1 THEN '' @ quoted ''FAILED'' @
     '' ELSE '' @ quoted ''PROCESSING'' @ '' END AS status, '' @
     ''CASE WHEN g % 2 = 0 THEN '' @ quoted ''INR'' @ '' ELSE '' @ quoted ''USD'' @ '' END AS currency, '' @
     ''now() - (g * interval '' @ quoted ''1 second'' @ '') AS created_at FROM generate_series(1, :row_count) AS g''"

definition check_benchmark_arguments :: "int \<Rightarrow> int \<Rightarrow> int \<Rightarrow> real \<Rightarrow> unit res" where
  "check_benchmark_arguments rows merchant_count repetitions timeout =
     (if rows < 1 \<or> merchant_count < 2 \<or> repetitions < 1 \<or> timeout \<le> 0
      then Inl (OtherException ''SystemExit'') else Inr ())"

text \<open>
  \<open>run\<close>: the transaction is committed unless a statement raised, and the engine is disposed of in any case.
\<close>

definition measure_body :: "'s bench_db \<Rightarrow> int \<Rightarrow> int \<Rightarrow> int \<Rightarrow> 's \<Rightarrow> (Explained \<times> Explained) res \<times> 's" where
  "measure_body D rows merchant_count repetitions st =
     then_do (db_execute D bench_table [(''merchant_count'', PInt merchant_count), (''row_count'', PInt rows)] st) (\<lambda>_ st1.
     then_do (db_execute D ''ANALYZE pyswitch_query_benchmark'' [] st1) (\<lambda>_ st2.
     then_do (explain D bench_query repetitions st2) (\<lambda>before st3.
     then_do (db_execute D (''CREATE INDEX pyswitch_query_benchmark_merchant_created '' @
                            ''ON pyswitch_query_benchmark (merchant_id, created_at)'') [] st3) (\<lambda>_ st4.
     then_do (db_execute D ''ANALYZE pyswitch_query_benchmark'' [] st4) (\<lambda>_ st5.
     then_do (explain D bench_query repetitions st5) (\<lambda>after st6. (Inr (before, after), st6)))))))"

definition measure_query :: "'s bench_db \<Rightarrow> int \<Rightarrow> int \<Rightarrow> int \<Rightarrow> 's \<Rightarrow> (Explained \<times> Explained) res \<times> 's" where
  "measure_query D rows merchant_count repetitions st =
     (let (r, st1) =
            then_do (db_begin D st) (\<lambda>_ st1.
              case measure_body D rows merchant_count repetitions st1 of
                (r, st2) \<Rightarrow> (case db_end D (\<not> isl r) st2 of (Inl e, st3) \<Rightarrow> (Inl e, st3) | (Inr _, st3) \<Rightarrow> (r, st3)))
      in case db_dispose D st1 of (Inl e, st2) \<Rightarrow> (Inl e, st2) | (Inr _, st2) \<Rightarrow> (r, st2))"

subsection \<open>The measures are ordered\<close>

definition spread_ok :: "real list \<Rightarrow> Spread \<Rightarrow> bool" where
  "spread_ok ts m \<longleftrightarrow>
     spr_min m \<le> spr_median m \<and> spr_median m \<le> spr_max m \<and> {spr_min m, spr_median m, spr_max m} \<subseteq> round3 ` set ts \<and>
     (\<forall>t\<in>set ts. spr_min m \<le> round3 t \<and> round3 t \<le> spr_max m)"

lemma spread_facts: "spread ts = Inr m \<Longrightarrow> spread_ok ts m"
proof -
  assume "spread ts = Inr m"
  then have ts: "ts \<noteq> []" and m: "m = \<lparr>spr_min = round3 (Min (set ts)), spr_median = round3 (sort ts ! (length ts div 2)),
      spr_max = round3 (Max (set ts))\<rparr>"
    by (auto simp: spread_def split: if_splits)
  have "length ts div 2 < length (sort ts)" using ts by simp
  then have med: "sort ts ! (length ts div 2) \<in> set ts" by (metis nth_mem set_sort)
  show ?thesis using ts med by (auto simp: spread_ok_def m intro!: round3_mono)
qed

definition explained_ok :: "int \<Rightarrow> Explained \<Rightarrow> bool" where
  "explained_ok repetitions x \<longleftrightarrow>
     xpl_repetitions x = repetitions \<and> int (length (xpl_plans x)) = repetitions \<and>
     (\<exists>execution planning. timings ''Execution Time'' (xpl_plans x) = Inr execution \<and>
        timings ''Planning Time'' (xpl_plans x) = Inr planning \<and>
        spread_ok execution (xpl_execution x) \<and> spread_ok planning (xpl_planning x))"

lemma run_explains_length: "run_explains D query n st = (Inr plans, st1) \<Longrightarrow> length plans = n"
proof (induction n arbitrary: st plans)
  case (Suc n)
  obtain payload st2 where p: "(case plan_of payload of Inl e \<Rightarrow> (Inl e, st2)
      | Inr plan \<Rightarrow> then_do (run_explains D query n st2) (\<lambda>plans st3. (Inr (plan # plans), st3))) = (Inr plans, st1)"
    using Suc.prems by (auto elim!: then_do_cases simp del: append.simps)
  then obtain plan where "then_do (run_explains D query n st2) (\<lambda>plans st3. (Inr (plan # plans), st3)) = (Inr plans, st1)"
    by (cases "plan_of payload") auto
  then show ?case by (cases rule: then_do_cases) (auto dest: Suc.IH)
qed simp

lemma explain_ok: "explain D query n st = (Inr x, st1) \<Longrightarrow> 0 \<le> n \<Longrightarrow> explained_ok n x"
  by (auto elim!: then_do_cases simp: explain_def explained_def explained_ok_def dest!: run_explains_length spread_facts)

text \<open>
  The query benchmark. A report holds, before and after the index is made, as many plans as
  repetitions were asked for, and of their execution and planning times the least, one in the
  middle and the greatest, in order, each a measured time that bounds the others; the
  transaction that took the measures is then committed and the engine disposed of. When a
  statement of the transaction raises, it is rolled back and there is no report. The engine is
  disposed of last, whatever happened.
\<close>

theorem benchmark_reports:
  assumes "check_benchmark_arguments rows merchant_count repetitions timeout = Inr ()"
    and "measure_query D rows merchant_count repetitions st = (r, st')"
  shows "(\<forall>before after. r = Inr (before, after) \<longrightarrow>
      explained_ok repetitions before \<and> explained_ok repetitions after \<and>
      (\<exists>st1 st2 st3. db_begin D st = (Inr (), st1) \<and>
         measure_body D rows merchant_count repetitions st1 = (Inr (before, after), st2) \<and>
         db_end D True st2 = (Inr (), st3) \<and> db_dispose D st3 = (Inr (), st'))) \<and>
    (\<forall>st1 e st2. db_begin D st = (Inr (), st1) \<longrightarrow>
      measure_body D rows merchant_count repetitions st1 = (Inl e, st2) \<longrightarrow>
      isl r \<and> st' = snd (db_dispose D (snd (db_end D False st2)))) \<and>
    (\<exists>st1. st' = snd (db_dispose D st1))"
proof -
  have n: "0 \<le> repetitions" using assms(1) by (auto simp: check_benchmark_arguments_def split: if_splits)
  obtain b st1 where b: "db_begin D st = (b, st1)" by (metis prod.collapse)
  obtain m st2 where m: "measure_body D rows merchant_count repetitions st1 = (m, st2)" by (metis prod.collapse)
  obtain e st3 where e: "db_end D (\<not> isl m) st2 = (e, st3)" by (metis prod.collapse)
  have ok: "explained_ok repetitions before \<and> explained_ok repetitions after" if "m = Inr (before, after)" for before after
    using m that n unfolding measure_body_def by (auto elim!: then_do_cases simp del: append.simps dest!: explain_ok)
  define closing where "closing = (case b of Inl x \<Rightarrow> (Inl x, st1) | Inr _ \<Rightarrow> case e of Inl x \<Rightarrow> (Inl x, st3) | Inr _ \<Rightarrow> (m, st3))"
  obtain d st4 where d: "db_dispose D (snd closing) = (d, st4)" by (metis prod.collapse)
  have "measure_query D rows merchant_count repetitions st = (case d of Inl x \<Rightarrow> (Inl x, st4) | Inr _ \<Rightarrow> (fst closing, st4))"
    using d by (cases b; cases e; cases d) (simp_all add: measure_query_def b m e closing_def)
  then have r: "(r, st') = (case d of Inl x \<Rightarrow> (Inl x, st4) | Inr _ \<Rightarrow> (fst closing, st4))" using assms(2) by simp
  then have last: "st' = snd (db_dispose D (snd closing))" using d by (cases d) auto
  have good: "b = Inr () \<and> m = Inr v \<and> e = Inr () \<and> snd closing = st3 \<and> d = Inr ()" if "r = Inr v" for v
    using r that by (cases d; cases b; cases e) (auto simp: closing_def)
  have "\<exists>st1 st2 st3. db_begin D st = (Inr (), st1) \<and>
      measure_body D rows merchant_count repetitions st1 = (Inr v, st2) \<and>
      db_end D True st2 = (Inr (), st3) \<and> db_dispose D st3 = (Inr (), st')" if "r = Inr v" for v
    using good [OF that] b m e d last by fastforce
  moreover have "isl r \<and> snd closing = snd (db_end D False st2)" if "b = Inr ()" "m = Inl x" for x
    using that r e by (cases d; cases e) (auto simp: closing_def)
  ultimately show ?thesis using good ok b m last by auto
qed

text \<open>A database whose every answer is a plan, slower the more statements it has run.\<close>

definition plan_db :: "nat bench_db" where
  "plan_db =
     \<lparr>db_execute = (\<lambda>q params n.
        (Inr (PList [PDict [(''Execution Time'', PFloat (real n)), (''Planning Time'', PInt 1)]]), Suc n)),
      db_begin = (\<lambda>n. (Inr (), n)), db_end = (\<lambda>commit n. (Inr (), n)), db_dispose = (\<lambda>n. (Inr (), n))\<rparr>"

theorem benchmark_reports_witness:
  "\<exists>before after st'. measure_query plan_db 50000 100 2 0 = (Inr (before, after), st') \<and>
     explained_ok 2 before \<and> explained_ok 2 after"
proof -
  have "\<exists>x. explain plan_db q 2 n = (Inr x, Suc (Suc n))" for q n
    by (simp add: explain_def numeral_2_eq_2 plan_db_def plan_of_def explained_def timing_def spread_def)
  moreover have "db_execute plan_db q params n = (Inr (PList [PDict [(''Execution Time'', PFloat (real n)), (''Planning Time'', PInt 1)]]), Suc n)"
    "db_begin plan_db n = (Inr (), n)" "db_end plan_db commit n = (Inr (), n)" "db_dispose plan_db n = (Inr (), n)" for q params n commit
    by (simp_all add: plan_db_def)
  ultimately have "\<exists>before after st'. measure_query plan_db 50000 100 2 0 =
      (Inr (before, after), st')"
    unfolding measure_query_def measure_body_def Let_def by (simp del: append.simps) (metis (no_types, lifting) case_prod_conv isl_def old.sum.simps(6) prod.inject then_do_simps(2))
  then obtain before after st' where run: "measure_query plan_db 50000 100 2 0 =
      (Inr (before, after), st')" by blast
  have "check_benchmark_arguments 50000 100 2 5 = Inr ()" by (simp add: check_benchmark_arguments_def)
  from benchmark_reports [OF this run] show ?thesis using run by blast
qed

end
