(* ===== verification/Observability.thy ===== *)
theory Observability
  imports Http
begin

text \<open>
  What \<open>GET /metrics\<close> may show: over any sequence of requests and for every collaborator, the
  metric calls of the application are on declared metrics, with their labels, and the
  number of time series is bounded by the fleet and the enumerations.
\<close>

subsection \<open>Every endpoint keeps the metrics proper\<close>

definition metrics_kept :: "('b, 'l, 'm, 'c, 'h) App \<Rightarrow> ('b, 'l, 'm, 'c, 'h) App \<Rightarrow> bool" where
  "metrics_kept a a' \<longleftrightarrow>
     dom (svc_circuits (app_service a')) = dom (svc_circuits (app_service a)) \<and>
     grown (dom (svc_circuits (app_service a))) (svc_metrics (app_service a)) (svc_metrics (app_service a'))"

lemma metrics_kept_refl [simp]: "metrics_kept a a"
  by (simp add: metrics_kept_def)

lemma metrics_kept_trans: "metrics_kept a b \<Longrightarrow> metrics_kept b c \<Longrightarrow> metrics_kept a c"
  using grown_trans by (auto simp: metrics_kept_def)

lemma same_app_kept: "same_app a b \<Longrightarrow> metrics_kept a b"
  by (simp add: same_app_def same_config_def metrics_kept_def)

lemma same_config_kept: "same_config (app_service a) s \<Longrightarrow> metrics_kept a (a\<lparr>app_service := s\<rparr>)"
  by (simp add: same_config_def metrics_kept_def)

lemma admin_kept:
  "metrics_kept a (snd (configure_routing payload a))" "metrics_kept a (snd (configure_provider n body rid a))"
  "metrics_kept a (snd (fail_provider n rid a))" "metrics_kept (fst st) (fst (snd (recover_provider E n rid st)))"
proof -
  show "metrics_kept a (snd (configure_routing payload a))"
    by (auto simp: configure_routing_def set_router_def metrics_kept_def Let_def split: sum.splits prod.splits)
  show "metrics_kept a (snd (configure_provider n body rid a))" "metrics_kept a (snd (fail_provider n rid a))"
    by (auto simp: configure_provider_def fail_provider_def replace_provider_def set_provider_concurrency_def metrics_kept_def Let_def
        split: sum.splits option.splits)
  show "metrics_kept (fst st) (fst (snd (recover_provider E n rid st)))"
  proof (cases "find_provider n (app_service (fst st))")
    case None
    then show ?thesis by (simp add: recover_provider_def)
  next
    case (Some p)
    show ?thesis
    proof (cases "configure p [ForcedFailure False]")
      case (Inl e)
      then show ?thesis using Some by (simp add: recover_provider_def)
    next
      case (Inr q)
      let ?s = "replace_provider q (app_service (fst st))"
      have "same_config ?s (fst (snd (record_provider_success (ext_backend E) q (?s, snd st))))"
        using every.fine_circuit_ops(2) [of "(?s, snd st)" "ext_backend E" q] by (simp add: every.fine_def)
      then show ?thesis
        using Some Inr by (simp add: recover_provider_def with_service_def metrics_kept_def same_config_def replace_provider_def
            case_prod_beta Let_def)
    qed
  qed
qed

lemma endpoint_kept: "metrics_kept (fst st) (fst (snd (call_endpoint E req rid ep st)))"
proof (cases "admin_endpoint ep \<and> require_admin (req_x_admin_token req) (fst st)")
  case True
  then show ?thesis
    using admin_kept(1-3) [of "fst st"] admin_kept(4) [of st]
    by (cases ep) (auto simp: pure_def effect_def admin_only_def valid_or_refuse_def)
next
  case False
  then show ?thesis using endpoint_frame [of ep req st E rid] same_app_kept by blast
qed

lemma serve_http_kept: "metrics_kept a (fst (snd (serve_http E req (a, w))))"
proof -
  obtain res a3 w3 where c: "call_endpoint E req (request_id_of req w) (req_endpoint req) (a, request_started w) = (res, a3, w3)"
    by (metis prod_cases3)
  have "metrics_kept a a3" using endpoint_kept [where st = "(a, request_started w)" and E = E and req = req] c by (metis fst_conv snd_conv)
  with c show ?thesis by (cases rule: serve_http_cases) simp_all
qed

lemma serve_all_kept: "metrics_kept a (fst (snd (serve_all E reqs (a, w))))"
proof (induction reqs arbitrary: a w)
  case (Cons req reqs)
  obtain r a1 w1 where s: "serve_http E req (a, w) = (r, a1, w1)" by (metis prod_cases3)
  then show ?case using serve_http_kept [of a E req w] Cons.IH [of a1 w1] metrics_kept_trans by (simp add: case_prod_beta) blast
qed simp

subsection \<open>The calls of a new service\<close>

lemma make_circuits_dom: "make_circuits ps threshold cooldown m = Inr circuits \<Longrightarrow> dom circuits = prv_name ` set ps \<union> dom m"
  by (induction ps arbitrary: m) (auto split: sum.splits)

lemma init_providers_grown:
  "init_providers ps s = Inr s' \<Longrightarrow> prv_name ` set ps \<subseteq> P \<Longrightarrow>
   svc_circuits s' = svc_circuits s \<and> grown P (svc_metrics s) (svc_metrics s')"
proof (induction ps arbitrary: s)
  case (Cons p ps)
  obtain r s2 where c: "set_provider_concurrency (prv_name p) (if cfg_max_concurrency (prv_config p) \<noteq> 0 then cfg_max_concurrency (prv_config p)
      else svc_provider_concurrency_limit s) (set_circuit_metric (prv_name p) s) = (r, s2)" by (metis prod.collapse)
  then obtain u where r: "r = Inr u" "init_providers ps s2 = Inr s'" using Cons.prems(1) by (cases r) (auto simp: Let_def)
  have "svc_circuits s2 = svc_circuits s" "grown P (svc_metrics s) (svc_metrics s2)"
    using c r(1) Cons.prems(2) by (auto simp: set_provider_concurrency_def split: if_splits)
  then show ?case using Cons.IH [OF r(2)] Cons.prems(2) grown_trans by auto
qed simp

lemma new_service_metrics:
  assumes "new_PaymentService ps b pol threshold cooldown (Some []) strategy ws limit = Inr s"
  shows "dom (svc_circuits s) = prv_name ` set ps \<and> grown (prv_name ` set ps) (Some []) (svc_metrics s)"
proof -
  obtain circuits s0 where c: "make_circuits ps threshold cooldown Map.empty = Inr circuits" "init_providers ps s0 = Inr s"
      "svc_circuits s0 = circuits" "svc_metrics s0 = Some []"
    using assms by (auto simp: new_PaymentService_def split: if_splits sum.splits)
  show ?thesis using make_circuits_dom [OF c(1)] init_providers_grown [OF c(2) order_refl] by (simp add: c(3,4))
qed

subsection \<open>The property\<close>

definition metric_calls :: "('b, 'l, 'm, 'c, 'h) App \<Rightarrow> metric_call list" where
  "metric_calls a = (case svc_metrics (app_service a) of None \<Rightarrow> [] | Some calls \<Rightarrow> calls)"

text \<open>The time series of a call: its metric and the values of its labels.\<close>

definition series_of :: "metric_call \<Rightarrow> string \<times> string list" where
  "series_of c = (call_name c, call_labels c)"

definition possible_series :: "string set \<Rightarrow> (string \<times> string list) set" where
  "possible_series P = (\<Union>m\<in>set declared_metrics. {mtc_attribute m} \<times> {vs. list_all2 (\<lambda>l v. v \<in> label_values P l) (mtc_labels m) vs})"

lemma finite_label_lists: "finite P \<Longrightarrow> finite {vs. list_all2 (\<lambda>l v. v \<in> label_values P l) ls vs}"
proof (induction ls)
  case (Cons l ls)
  have "{vs. list_all2 (\<lambda>l v. v \<in> label_values P l) (l # ls) vs} =
    (\<lambda>(v, vs). v # vs) ` (label_values P l \<times> {vs. list_all2 (\<lambda>l v. v \<in> label_values P l) ls vs})"
    by (auto simp: list_all2_Cons1 image_iff)
  then show ?case using Cons label_values_finite by simp
next
  case Nil
  have "{vs. list_all2 (\<lambda>l v. v \<in> label_values P l) [] vs} = {[]}" by auto
  then show ?case by simp
qed

lemma possible_series_finite: "finite P \<Longrightarrow> finite (possible_series P)"
  using finite_label_lists by (simp add: possible_series_def)

lemma call_ok_series: "call_ok P c \<Longrightarrow> series_of c \<in> possible_series P"
proof -
  assume "call_ok P c"
  then obtain m where m: "declared (call_name c) = Some m" "list_all2 (\<lambda>l v. v \<in> label_values P l) (mtc_labels m) (call_labels c)"
    by (auto simp: call_ok_def split: option.splits)
  then have "m \<in> set declared_metrics" "mtc_attribute m = call_name c" by (auto simp: declared_def find_Some_iff)
  then show ?thesis using m(2) by (auto simp: possible_series_def series_of_def intro!: bexI [of _ m])
qed

text \<open>
  C38. For every collaborator and any sequence of requests, each metric call of the application is
  one the registry accepts: its metric is declared, with this kind and these labels, whose
  values are names of the three providers or members of the declared enumerations. So the
  calls range over finitely many time series, whatever merchants, keys, tokens and errors the
  requests bring.
\<close>

theorem metrics_declared:
  assumes "create_app L mk_backend mk_limiter env = Inr a" "serve_all E reqs (a, w) = (rs, a1, w1)"
  shows "list_all (call_ok {''mockstripe'', ''mockadyen'', ''mockrazorpay''}) (metric_calls a1) \<and>
    (\<exists>added. metric_calls a1 = metric_calls a @ added) \<and>
    series_of ` set (metric_calls a1) \<subseteq> possible_series {''mockstripe'', ''mockadyen'', ''mockrazorpay''} \<and>
    finite (possible_series {''mockstripe'', ''mockadyen'', ''mockrazorpay''})"
proof -
  let ?P = "{''mockstripe'', ''mockadyen'', ''mockrazorpay''}"
  have a: "new_PaymentService mock_fleet (mk_backend (rtm_store (app_runtime a)) (rtm_idempotency (app_runtime a)))
      None 3 30 (Some []) (set_routing_strategy (app_settings a)) (Some (set_composite_weights_setting (app_settings a)))
      (set_provider_concurrency_limit (app_settings a)) = Inr (app_service a)"
    using assms(1) by (auto simp: create_app_def split: sum.splits)
  have "set (map prv_name mock_fleet) = ?P" by simp
  then have P: "prv_name ` set mock_fleet = ?P" by (simp only: set_map)
  have new: "dom (svc_circuits (app_service a)) = ?P" "grown ?P (Some []) (svc_metrics (app_service a))"
    using new_service_metrics [OF a] unfolding P by simp_all
  have kept: "metrics_kept a a1" using serve_all_kept [of a E reqs w] assms(2) by simp
  then have step: "grown ?P (svc_metrics (app_service a)) (svc_metrics (app_service a1))" unfolding metrics_kept_def new(1) by blast
  have "grown ?P (Some []) (svc_metrics (app_service a1))" by (rule grown_trans [OF new(2) step])
  then have ok: "list_all (call_ok ?P) (metric_calls a1)" by (auto simp: grown_def metric_calls_def)
  moreover have "\<exists>added. metric_calls a1 = metric_calls a @ added"
    using step new(2) by (auto simp: grown_def metric_calls_def split: option.splits)
  moreover have "series_of ` set (metric_calls a1) \<subseteq> possible_series ?P"
    using ok call_ok_series by (auto simp: list_all_iff)
  ultimately show ?thesis using possible_series_finite [of ?P] by simp
qed

text \<open>Of the application with its defaults, which is asked for a payment and its metrics.\<close>

theorem metrics_declared_witness:
  "\<exists>rs a1 w1. serve_all sample_externals [http (CreatePayment [] sample_body), http MetricsEndpoint] (default_app, sample_world) = (rs, a1, w1) \<and>
     list_all (call_ok {''mockstripe'', ''mockadyen'', ''mockrazorpay''}) (metric_calls a1)"
proof -
  obtain rs a1 w1 where s: "serve_all sample_externals [http (CreatePayment [] sample_body), http MetricsEndpoint] (default_app, sample_world) = (rs, a1, w1)"
    by (metis prod_cases3)
  show ?thesis using metrics_declared [OF conjunct1 [OF default_app_new] s] s by blast
qed

end
