(* ===== verification/Spec2Isabelle.thy ===== *)
theory Spec2Isabelle
  imports Attempts Sql_Service Redis Refunds Migrations Redaction Drill Observe Observability
begin

text \<open>
  PySwitch, a payment orchestration service written in Python: a model of the program and
  the theorems that make it correct. File names are relative to \<open>src/pyswitch/\<close> unless they
  start with \<open>scripts/\<close>.

  \<^bold>\<open>The program.\<close> A merchant asks over HTTP (\<open>api.py\<close>) for a payment under an idempotency
  key. A token bucket limits the merchant's rate (\<open>rate_limit.py\<close>). The payment service
  (\<open>service.py\<close>) claims the key with a coordinator (\<open>idempotency.py\<close>), asks the router
  (\<open>routing.py\<close>) for one of the healthy providers (\<open>providers/\<close>), attempts the charge with
  retries under a circuit breaker (\<open>reliability.py\<close>), fails over to the other providers
  where that is safe, and saves the terminal payment together with its events in the store
  (\<open>store.py\<close> or \<open>db/repository.py\<close>), which is also the outbox. A dispatcher (\<open>outbox.py\<close>)
  publishes the events to a broker in memory or to Kafka (\<open>broker.py\<close>), and consumers
  (\<open>consumers.py\<close>) deduplicate them. The runtime (\<open>runtime.py\<close>) composes the parts that the
  settings (\<open>config.py\<close>) select.

  \<^bold>\<open>Conventions.\<close> A method is a function from its arguments and the state of its object to a
  result and the new state. An exception is a value (\<open>exn\<close>, results are \<open>'a res\<close>), so every
  \<open>raise\<close>, early return and handler is a branch. Clocks, random rolls, fresh UUIDs, sleeping
  and the log are a \<open>world\<close>, tapes of readings with a position: no two readings share a
  position, and \<open>world_le\<close> says that one world is a later moment of another. Python's
  integers are \<open>int\<close>, floats are reals (with infinities and \<open>nan\<close> where input may bring them
  in), UUIDs are natural numbers, instants are microseconds. A run of a coroutine is atomic
  where no other task can observe its middle; where tasks do interleave, the interleaving is
  a step relation (claims, refunds, permits of a circuit). Code that is not in the
  repository (SQLAlchemy's engine order, the Redis server, the aiokafka producer, SHA-256,
  the Prometheus text format) is a parameter with its documented laws as hypotheses, each
  met by a concrete instance.

  \<^bold>\<open>The theories\<close>, in the order in which they build on each other.

  \<^item> \<open>Prelude\<close>: exceptions, the world, \<open>then_do\<close> (calls one after the other), dictionaries.
  \<^item> \<open>Domain\<close>, \<open>Events\<close>: \<open>domain.py\<close>, \<open>events.py\<close>: payments, attempts, refunds, envelopes;
    \<open>ledger_ok\<close> is the balance of a payment with its refunds.
  \<^item> \<open>Json\<close>, \<open>Fingerprint\<close>, \<open>Wire\<close>: the JSON text of the standard library and its reader, the
    canonical request text that is hashed (it determines the request), the JSON form of an
    event with ISO timestamps and its decoder in \<open>scripts/kafka_consumer_evidence.py\<close> (a round
    trip, including the proleptic calendar).
  \<^item> \<open>Providers\<close>, \<open>Routing\<close>, \<open>Reliability\<close>, \<open>Rate_Limit\<close>: \<open>providers/\<close>, \<open>routing.py\<close>,
    \<open>reliability.py\<close>, \<open>rate_limit.py\<close> without collaborators: outcome of a mock by its
    configuration, fairness and optimality of the five strategies, statistics as functions
    of the recorded history, the retry loop by its calls, the circuit as a state machine,
    the rate bound of a bucket through the locale \<open>token_bucket\<close>.
  \<^item> \<open>Store\<close>, \<open>Idempotency\<close>, \<open>Outbox\<close>: the in-memory store, coordinator and dispatcher. The
    locales for stores, coordinators, outboxes and brokers state what the service and the
    dispatcher use; each is interpreted on the code's model. Waiting requests are tasks of a
    step relation: at most one holds a claim, no wake-up is lost.
  \<^item> \<open>Service\<close>, \<open>Metrics\<close>, \<open>Payments\<close>, \<open>Attempts\<close>, \<open>Service_Frame\<close>: \<open>service.py\<close> over any providers and any
    backend (a record of operations); \<open>Payments\<close> proves the service over the in-memory
    backend a refinement of an abstract ledger with one payment per key, \<open>Attempts\<close> what the
    attempts at one provider record and leave, \<open>Service_Frame\<close> what no method changes and
    which exceptions it may raise, for every collaborator. \<open>Metrics\<close> has the metrics that
    \<open>observability.py\<close> declares and what makes a call on one of them proper.
  \<^item> \<open>Refunds\<close>: refunds that interleave with each other and with creations, under the lock of
    their payment.
  \<^item> \<open>Sql_Repository\<close>, \<open>Sql_Service\<close>: \<open>db/models.py\<close> and \<open>db/repository.py\<close> as tables with column
    types and keys and transactions that commit or change nothing; a simulation with the
    in-memory store, and what becomes of a charge the database refuses.
  \<^item> \<open>Migrations\<close>: \<open>migrations/\<close> as statements on a schema with their transaction; the tables
    they make are those of the mapped classes.
  \<^item> \<open>Redis\<close>: the Redis coordinator and limiter with their scripts, over a store of hashes that
    expire; equivalence of the limiter with the in-memory one.
  \<^item> \<open>Config\<close>, \<open>Kafka\<close>, \<open>Runtime\<close>: settings from the environment, the Kafka adapter, the
    composition of the profiles and their life cycle.
  \<^item> \<open>Api\<close>, \<open>Http\<close>: \<open>api.py\<close> and the request log of \<open>observability.py\<close>: request models with
    their constraints, every endpoint, the exception handlers and the middleware; in \<open>Http\<close>
    the invariant of the whole application over any sequence of requests, idempotency end
    to end, and what the guards enforce. \<open>Observability\<close>: over any requests the metric calls
    are on declared metrics and range over finitely many time series.
  \<^item> \<open>Evidence\<close>, \<open>Redaction\<close>, \<open>Load\<close>, \<open>Drill\<close>, \<open>Probes\<close>, \<open>Observe\<close>: \<open>scripts/\<close>. JSON answers
    as Python reads them; addresses without credentials; the load generator with its
    concurrent and fixed-rate runs as step relations and its summary; its idempotency
    scenario against the application of \<open>Http\<close>; the Kafka probe over a cluster seen through
    a view of its logs, offsets and positions; waiting for and observing a deployment, and
    the query benchmark.

  \<^bold>\<open>What the properties say.\<close> A request is charged under its key at most once and replayed
  faithfully (C2 to C4, and per coordinator and interleaving); every request is answered and
  the state stays consistent (C1); nothing unguarded reaches the service or its
  configuration; refunds never exceed a payment, in any interleaving; what a payment, its
  events and the outbox record is what happened; events reach the broker at least once and
  a consumer once; PostgreSQL and Redis do what the in-memory parts do, up to the stated
  differences; and the places where the program falls short of its documentation are
  theorems too: a timeout that opens the circuit fails over, an expired claim is claimed
  twice, an oversized amount is charged and never recorded, concurrent first payments of a
  merchant collide.

  \<^bold>\<open>Bounds and fuel.\<close> The retry loop and the publishing loop recurse over the number of
  attempts left, which the policy bounds. The worker of the dispatcher runs for a given
  number of rounds; \<open>worker_drains\<close> gives a number that suffices. The JSON reader takes the
  length of the text as fuel, which every value it can read needs at most. The loops of the
  scripts that read until a deadline (\<open>drain\<close>, \<open>poll\<close>) are partial functions, for which not
  returning is \<open>None\<close>; over a clock that moves while they wait they are proved to return.
  No other definition is bounded.

  \<^bold>\<open>Not modelled.\<close> FastAPI's routing and body parsing, and pydantic's coercions (a request
  reaches its endpoint with a body of the declared types; query times carry a time zone);
  characters beyond Latin-1; rounding of floats other than \<open>round\<close>; the text format of the
  metrics; interleavings inside one creation, whose claim and store accesses are covered by
  \<open>Idempotency\<close>; several processes sharing PostgreSQL beyond the races stated;
  \<open>repositories.py\<close> (protocols); and of the scripts the writing of evidence files with the
  commit and the platform they name.
\<close>

end
